(* ===== verification/Closed_Sets.thy ===== *)
theory Closed_Sets
  imports Prelude
begin

text \<open>
  The closed sets of the code (\<open>closed_set!\<close> in \<open>crates/core/src/closed_set.rs\<close>): each is
  a datatype with its list of values (\<open>ALL\<close>), its names (\<open>as_str\<close>) and the generic
  \<open>parse\<close>. The contract every closed set keeps (the list is complete, in declaration order
  and its names are pairwise different, which the macro checks at compile time) is the locale
  \<open>closed_set\<close>; each set of the code interprets it.
\<close>

text \<open>The generated \<open>parse\<close>: the value of \<open>ALL\<close> with that name.\<close>

definition parse_name :: "'a list \<Rightarrow> ('a \<Rightarrow> string) \<Rightarrow> string \<Rightarrow> 'a option" where
  "parse_name vals as_str name = find (\<lambda>v. as_str v = name) vals"

text \<open>The macro's \<open>ONE_OF\<close>: every name as a message lists them.\<close>

fun one_of :: "string list \<Rightarrow> string" where
  "one_of [] = []"
| "one_of [a] = ''`'' @ a @ ''`''"
| "one_of [a, b] = ''`'' @ a @ ''` or `'' @ b @ ''`''"
| "one_of (a # rest) = ''`'' @ a @ ''`, '' @ one_of rest"

text \<open>\<open>assert_unique\<close>: the build fails when two names are equal.\<close>

fun assert_unique :: "string list \<Rightarrow> bool" where
  "assert_unique [] = True"
| "assert_unique (n # ns) = (list_all (\<lambda>m. n \<noteq> m) ns \<and> assert_unique ns)"

lemma assert_unique_distinct: "assert_unique ns = distinct ns"
  by (induction ns) (auto simp: list_all_iff)

locale closed_set =
  fixes vals :: "'a list" and as_str :: "'a \<Rightarrow> string"
  assumes complete: "v \<in> set vals"
    and unique_names: "assert_unique (map as_str vals)"
begin

lemma parse_as_str: "parse_name vals as_str (as_str v) = Some v"
proof -
  have "distinct (map as_str vals)" using unique_names by (simp add: assert_unique_distinct)
  moreover have "v \<in> set vals" by (rule complete)
  ultimately show ?thesis
    by (induction vals) (auto simp: parse_name_def)
qed

lemma parse_Some: "parse_name vals as_str name = Some v \<longleftrightarrow> as_str v = name"
proof
  assume "parse_name vals as_str name = Some v"
  then show "as_str v = name" unfolding parse_name_def by (blast dest: find_Some_in)
qed (use parse_as_str [of v] in blast)

lemma as_str_inject: "as_str v = as_str w \<longleftrightarrow> v = w"
  by (metis parse_as_str option.inject)

end

section \<open>Kinds of signal\<close>

datatype kind = Log | Metric | Span

definition kind_ALL :: "kind list" where "kind_ALL = [Log, Metric, Span]"

fun kind_str :: "kind \<Rightarrow> string" where
  "kind_str Log = ''log''" | "kind_str Metric = ''metric''" | "kind_str Span = ''span''"

definition kind_parse :: "string \<Rightarrow> kind option" where
  "kind_parse = parse_name kind_ALL kind_str"

interpretation kinds: closed_set kind_ALL kind_str
proof unfold_locales
  show "v \<in> set kind_ALL" for v by (cases v) (simp_all add: kind_ALL_def)
qed (simp add: kind_ALL_def)

section \<open>Who said a time\<close>

datatype time_kind = TimeReported | TimeClock

definition time_kind_ALL :: "time_kind list" where
  "time_kind_ALL = [TimeReported, TimeClock]"

fun time_kind_str :: "time_kind \<Rightarrow> string" where
  "time_kind_str TimeReported = ''reported''" | "time_kind_str TimeClock = ''clock''"

definition time_kind_parse :: "string \<Rightarrow> time_kind option" where
  "time_kind_parse = parse_name time_kind_ALL time_kind_str"

interpretation time_kinds: closed_set time_kind_ALL time_kind_str
proof unfold_locales
  show "v \<in> set time_kind_ALL" for v by (cases v) (simp_all add: time_kind_ALL_def)
qed (simp add: time_kind_ALL_def)

section \<open>Fields of the record's meta\<close>

datatype meta_field = FieldId | FieldTenant | FieldIngestionTime | FieldDeliveryCount

definition meta_field_ALL :: "meta_field list" where
  "meta_field_ALL = [FieldId, FieldTenant, FieldIngestionTime, FieldDeliveryCount]"

fun meta_field_str :: "meta_field \<Rightarrow> string" where
  "meta_field_str FieldId = ''id''"
| "meta_field_str FieldTenant = ''tenant''"
| "meta_field_str FieldIngestionTime = ''ingestion_time''"
| "meta_field_str FieldDeliveryCount = ''delivery_count''"

definition meta_field_parse :: "string \<Rightarrow> meta_field option" where
  "meta_field_parse = parse_name meta_field_ALL meta_field_str"

interpretation meta_fields: closed_set meta_field_ALL meta_field_str
proof unfold_locales
  show "v \<in> set meta_field_ALL" for v by (cases v) (simp_all add: meta_field_ALL_def)
qed (simp add: meta_field_ALL_def)

section \<open>Why a record was dropped\<close>

datatype drop_reason =
    DropFilter | RouteDefaultDrop | DropSample | DropDedupe | LuaDrop | LuaError | RegexLimit
  | DropStateError | InvalidRecord | DropMissingId | EditUnapplied

definition drop_reason_ALL :: "drop_reason list" where
  "drop_reason_ALL =
     [DropFilter, RouteDefaultDrop, DropSample, DropDedupe, LuaDrop, LuaError, RegexLimit,
      DropStateError, InvalidRecord, DropMissingId, EditUnapplied]"

fun drop_reason_str :: "drop_reason \<Rightarrow> string" where
  "drop_reason_str DropFilter = ''filter''"
| "drop_reason_str RouteDefaultDrop = ''route_default_drop''"
| "drop_reason_str DropSample = ''sample''"
| "drop_reason_str DropDedupe = ''dedupe''"
| "drop_reason_str LuaDrop = ''lua_drop''"
| "drop_reason_str LuaError = ''lua_error''"
| "drop_reason_str RegexLimit = ''regex_limit''"
| "drop_reason_str DropStateError = ''state_error''"
| "drop_reason_str InvalidRecord = ''invalid_record''"
| "drop_reason_str DropMissingId = ''missing_id''"
| "drop_reason_str EditUnapplied = ''edit_unapplied''"

interpretation drop_reasons: closed_set drop_reason_ALL drop_reason_str
proof unfold_locales
  show "v \<in> set drop_reason_ALL" for v by (cases v) (simp_all add: drop_reason_ALL_def)
qed (simp add: drop_reason_ALL_def)

section \<open>What kind of failure made a message nak\<close>

datatype failure_kind =
    StageErrorKind | StateErrorKind | SinkErrorKind | PanicKind | MissingIdKind | UndecodableKind

definition failure_kind_ALL :: "failure_kind list" where
  "failure_kind_ALL =
     [StageErrorKind, StateErrorKind, SinkErrorKind, PanicKind, MissingIdKind, UndecodableKind]"

fun failure_kind_str :: "failure_kind \<Rightarrow> string" where
  "failure_kind_str StageErrorKind = ''stage_error''"
| "failure_kind_str StateErrorKind = ''state_error''"
| "failure_kind_str SinkErrorKind = ''sink_error''"
| "failure_kind_str PanicKind = ''panic''"
| "failure_kind_str MissingIdKind = ''missing_id''"
| "failure_kind_str UndecodableKind = ''undecodable''"

interpretation failure_kinds: closed_set failure_kind_ALL failure_kind_str
proof unfold_locales
  show "v \<in> set failure_kind_ALL" for v by (cases v) (simp_all add: failure_kind_ALL_def)
qed (simp add: failure_kind_ALL_def)

section \<open>Labels of the stages' own metrics\<close>

datatype engine_label = Linear | Backtracking

definition engine_label_ALL :: "engine_label list" where
  "engine_label_ALL = [Linear, Backtracking]"

fun engine_label_str :: "engine_label \<Rightarrow> string" where
  "engine_label_str Linear = ''linear''" | "engine_label_str Backtracking = ''backtracking''"

interpretation engine_labels: closed_set engine_label_ALL engine_label_str
proof unfold_locales
  show "v \<in> set engine_label_ALL" for v by (cases v) (simp_all add: engine_label_ALL_def)
qed (simp add: engine_label_ALL_def)

datatype edit_op = OpSet | OpRename | OpCopy | OpHash | OpDelete

definition edit_op_ALL :: "edit_op list" where
  "edit_op_ALL = [OpSet, OpRename, OpCopy, OpHash, OpDelete]"

fun edit_op_str :: "edit_op \<Rightarrow> string" where
  "edit_op_str OpSet = ''set''"
| "edit_op_str OpRename = ''rename''"
| "edit_op_str OpCopy = ''copy''"
| "edit_op_str OpHash = ''hash''"
| "edit_op_str OpDelete = ''delete''"

definition edit_op_parse :: "string \<Rightarrow> edit_op option" where
  "edit_op_parse = parse_name edit_op_ALL edit_op_str"

interpretation edit_ops: closed_set edit_op_ALL edit_op_str
proof unfold_locales
  show "v \<in> set edit_op_ALL" for v by (cases v) (simp_all add: edit_op_ALL_def)
qed (simp add: edit_op_ALL_def)

datatype edit_cause = CauseAbsent | CauseType

definition edit_cause_ALL :: "edit_cause list" where
  "edit_cause_ALL = [CauseAbsent, CauseType]"

fun edit_cause_str :: "edit_cause \<Rightarrow> string" where
  "edit_cause_str CauseAbsent = ''absent''" | "edit_cause_str CauseType = ''type''"

interpretation edit_causes: closed_set edit_cause_ALL edit_cause_str
proof unfold_locales
  show "v \<in> set edit_cause_ALL" for v by (cases v) (simp_all add: edit_cause_ALL_def)
qed (simp add: edit_cause_ALL_def)

datatype lua_error_kind = LuaInstructions | LuaMemory | LuaRuntime | LuaOutput

definition lua_error_kind_ALL :: "lua_error_kind list" where
  "lua_error_kind_ALL = [LuaInstructions, LuaMemory, LuaRuntime, LuaOutput]"

fun lua_error_kind_str :: "lua_error_kind \<Rightarrow> string" where
  "lua_error_kind_str LuaInstructions = ''instructions''"
| "lua_error_kind_str LuaMemory = ''memory''"
| "lua_error_kind_str LuaRuntime = ''runtime''"
| "lua_error_kind_str LuaOutput = ''output''"

interpretation lua_error_kinds: closed_set lua_error_kind_ALL lua_error_kind_str
proof unfold_locales
  show "v \<in> set lua_error_kind_ALL" for v by (cases v) (simp_all add: lua_error_kind_ALL_def)
qed (simp add: lua_error_kind_ALL_def)

section \<open>Events and settlements\<close>

datatype event_kind = EvStageError | EvNak | EvRedelivery | EvDeadLetter | EvDeadLetterFailed

definition event_kind_ALL :: "event_kind list" where
  "event_kind_ALL = [EvStageError, EvNak, EvRedelivery, EvDeadLetter, EvDeadLetterFailed]"

fun event_kind_str :: "event_kind \<Rightarrow> string" where
  "event_kind_str EvStageError = ''stage_error''"
| "event_kind_str EvNak = ''nak''"
| "event_kind_str EvRedelivery = ''redelivery''"
| "event_kind_str EvDeadLetter = ''dead_letter''"
| "event_kind_str EvDeadLetterFailed = ''dead_letter_failed''"

interpretation event_kinds: closed_set event_kind_ALL event_kind_str
proof unfold_locales
  show "v \<in> set event_kind_ALL" for v by (cases v) (simp_all add: event_kind_ALL_def)
qed (simp add: event_kind_ALL_def)

datatype severity = Info | Warn | SevError

fun severity_of :: "event_kind \<Rightarrow> severity" where
  "severity_of EvRedelivery = Info"
| "severity_of EvNak = Warn"
| "severity_of EvDeadLetter = Warn"
| "severity_of EvStageError = SevError"
| "severity_of EvDeadLetterFailed = SevError"

datatype settlement = SettleAck | SettleNak

definition settlement_ALL :: "settlement list" where
  "settlement_ALL = [SettleAck, SettleNak]"

fun settlement_str :: "settlement \<Rightarrow> string" where
  "settlement_str SettleAck = ''ack''" | "settlement_str SettleNak = ''nak''"

interpretation settlements: closed_set settlement_ALL settlement_str
proof unfold_locales
  show "v \<in> set settlement_ALL" for v by (cases v) (simp_all add: settlement_ALL_def)
qed (simp add: settlement_ALL_def)

datatype span_outcome =
    OutPass | OutRouted | OutSplit | OutDrop | OutStateErrorPass | OutWritten | OutError

definition span_outcome_ALL :: "span_outcome list" where
  "span_outcome_ALL =
     [OutPass, OutRouted, OutSplit, OutDrop, OutStateErrorPass, OutWritten, OutError]"

fun span_outcome_str :: "span_outcome \<Rightarrow> string" where
  "span_outcome_str OutPass = ''pass''"
| "span_outcome_str OutRouted = ''routed''"
| "span_outcome_str OutSplit = ''split''"
| "span_outcome_str OutDrop = ''drop''"
| "span_outcome_str OutStateErrorPass = ''state_error_pass''"
| "span_outcome_str OutWritten = ''written''"
| "span_outcome_str OutError = ''error''"

interpretation span_outcomes: closed_set span_outcome_ALL span_outcome_str
proof unfold_locales
  show "v \<in> set span_outcome_ALL" for v by (cases v) (simp_all add: span_outcome_ALL_def)
qed (simp add: span_outcome_ALL_def)

end
