(* ===== verification/F64.thy ===== *)
theory F64
  imports Prelude
begin

text \<open>
  IEEE 754 double precision as the code uses it, on the 64-bit pattern of a value: comparison,
  rounding to nearest even from exact rationals (integer conversion, multiplication, division,
  decimal literals) and the saturating cast to \<open>u64\<close>. A finite magnitude is counted exactly
  in units of \<open>2 ^ -1074\<close>, the least positive double.
\<close>

type_synonym f64 = u64

datatype ord = Less | Equal | Greater

definition cmp :: "'a::linorder \<Rightarrow> 'a \<Rightarrow> ord" where
  "cmp a b = (if a < b then Less else if a = b then Equal else Greater)"

definition f64_neg :: "f64 \<Rightarrow> bool" where "f64_neg w = bit w 63"
definition f64_exp :: "f64 \<Rightarrow> nat" where "f64_exp w = unat w mod 2 ^ 63 div 2 ^ 52"
definition f64_man :: "f64 \<Rightarrow> nat" where "f64_man w = unat w mod 2 ^ 52"

definition f64_nan :: "f64 \<Rightarrow> bool" where
  "f64_nan w \<longleftrightarrow> f64_exp w = 2047 \<and> f64_man w \<noteq> 0"

definition f64_inf :: "f64 \<Rightarrow> bool" where
  "f64_inf w \<longleftrightarrow> f64_exp w = 2047 \<and> f64_man w = 0"

definition f64_finite :: "f64 \<Rightarrow> bool" where
  "f64_finite w \<longleftrightarrow> f64_exp w \<noteq> 2047"

text \<open>The magnitude in units of \<open>2 ^ -1074\<close>; an infinity's is above every finite one.\<close>

definition f64_mag :: "f64 \<Rightarrow> nat" where
  "f64_mag w =
     (if f64_exp w = 0 then f64_man w else (2 ^ 52 + f64_man w) * 2 ^ (f64_exp w - 1))"

definition f64_key :: "f64 \<Rightarrow> int" where
  "f64_key w = (if f64_neg w then - int (f64_mag w) else int (f64_mag w))"

definition f64_partial_cmp :: "f64 \<Rightarrow> f64 \<Rightarrow> ord option" where
  "f64_partial_cmp a b =
     (if f64_nan a \<or> f64_nan b then None else Some (cmp (f64_key a) (f64_key b)))"

section \<open>Rounding\<close>

fun bit_length :: "nat \<Rightarrow> nat" where
  "bit_length n = (if n = 0 then 0 else Suc (bit_length (n div 2)))"

declare bit_length.simps [simp del]

text \<open>\<open>n / d\<close> to the nearest integer, ties to even.\<close>

definition round_half_even :: "nat \<Rightarrow> nat \<Rightarrow> nat" where
  "round_half_even n d =
     (let q = n div d; r = n mod d in
      if 2 * r < d then q else if d < 2 * r then q + 1 else if even q then q else q + 1)"

text \<open>The bits below the sign of the double nearest to \<open>n / d\<close>: the exponent field carries
  into the next binade, and past the last one the result is infinity.\<close>

definition round_bits :: "nat \<Rightarrow> nat \<Rightarrow> nat" where
  "round_bits n d =
     (let x = n * 2 ^ 1074; e = bit_length (x div d) - 53
      in min (2047 * 2 ^ 52) (e * 2 ^ 52 + round_half_even x (d * 2 ^ e)))"

lemma bit_length_zero [simp]: "bit_length 0 = 0"
  by (subst bit_length.simps) simp

lemma round_bits_zero [simp]: "0 < d \<Longrightarrow> round_bits 0 d = 0"
  by (simp add: round_bits_def round_half_even_def)

definition f64_make :: "bool \<Rightarrow> nat \<Rightarrow> f64" where
  "f64_make neg bits = of_nat (bits + (if neg then 2 ^ 63 else 0))"

definition F64_NAN :: f64 where "F64_NAN = 0x7ff8000000000000"

definition f64_of_int :: "int \<Rightarrow> f64" where
  "f64_of_int i = f64_make (i < 0) (round_bits (nat \<bar>i\<bar>) 1)"

definition f64_mul :: "f64 \<Rightarrow> f64 \<Rightarrow> f64" where
  "f64_mul a b =
     (let s = (f64_neg a \<noteq> f64_neg b) in
      if f64_nan a \<or> f64_nan b then F64_NAN
      else if f64_inf a \<or> f64_inf b then
        (if f64_mag a = 0 \<or> f64_mag b = 0 then F64_NAN else f64_make s (2047 * 2 ^ 52))
      else f64_make s (round_bits (f64_mag a * f64_mag b) (2 ^ 1074 * 2 ^ 1074)))"

definition f64_div :: "f64 \<Rightarrow> f64 \<Rightarrow> f64" where
  "f64_div a b =
     (let s = (f64_neg a \<noteq> f64_neg b) in
      if f64_nan a \<or> f64_nan b then F64_NAN
      else if f64_inf a then (if f64_inf b then F64_NAN else f64_make s (2047 * 2 ^ 52))
      else if f64_inf b then f64_make s 0
      else if f64_mag b = 0 then
        (if f64_mag a = 0 then F64_NAN else f64_make s (2047 * 2 ^ 52))
      else f64_make s (round_bits (f64_mag a) (f64_mag b)))"

text \<open>Rust's \<open>as u64\<close>: NaN and everything below zero is 0, past the width the largest.\<close>

definition f64_as_u64 :: "f64 \<Rightarrow> u64" where
  "f64_as_u64 w =
     (if f64_nan w \<or> f64_neg w then 0
      else of_nat (min (2 ^ 64 - 1) (f64_mag w div 2 ^ 1074)))"

section \<open>Decimal literals\<close>

text \<open>\<open>f64::from_str\<close>: a sign, then \<open>inf\<close>, \<open>infinity\<close> or \<open>nan\<close> in any case, or digits
  with an optional point and an optional exponent. At least one digit on a side of the
  point.\<close>

definition parse_exponent :: "string \<Rightarrow> int option" where
  "parse_exponent s =
     (case s of
        [] \<Rightarrow> None
      | c # cs \<Rightarrow>
          if c = CHR ''-'' then map_option (\<lambda>n. - int n) (parse_digits cs)
          else map_option int (parse_digits (if c = CHR ''+'' then cs else s)))"

definition f64_decimal :: "bool \<Rightarrow> nat \<Rightarrow> int \<Rightarrow> f64" where
  "f64_decimal neg m e =
     f64_make neg (if 0 \<le> e then round_bits (m * 10 ^ nat e) 1 else round_bits m (10 ^ nat (- e)))"

definition parse_f64_number :: "bool \<Rightarrow> string \<Rightarrow> f64 option" where
  "parse_f64_number neg s =
     (let int_part = takeWhile is_ascii_digit s;
          s1 = dropWhile is_ascii_digit s;
          (frac_part, s2) =
            (case s1 of
               c # cs \<Rightarrow>
                 if c = CHR ''.'' then (takeWhile is_ascii_digit cs, dropWhile is_ascii_digit cs)
                 else ([], s1)
             | [] \<Rightarrow> ([], []));
          ds = int_part @ frac_part
      in if ds = [] then None
         else case s2 of
             [] \<Rightarrow> Some (f64_decimal neg (digits_value ds) (- int (length frac_part)))
           | c # cs \<Rightarrow>
               if c = CHR ''e'' \<or> c = CHR ''E'' then
                 map_option
                   (\<lambda>e. f64_decimal neg (digits_value ds) (e - int (length frac_part)))
                   (parse_exponent cs)
               else None)"

definition parse_f64 :: "string \<Rightarrow> f64 option" where
  "parse_f64 s =
     (let (neg, t) =
        (case s of
           c # cs \<Rightarrow> if c = CHR ''-'' then (True, cs) else if c = CHR ''+'' then (False, cs) else (False, s)
         | [] \<Rightarrow> (False, []));
          low = map to_ascii_lower t
      in if low = ''inf'' \<or> low = ''infinity'' then Some (f64_make neg (2047 * 2 ^ 52))
         else if low = ''nan'' then Some (if neg then F64_NAN OR push_bit 63 1 else F64_NAN)
         else parse_f64_number neg t)"

section \<open>Facts\<close>

lemma cmp_simps [simp]:
  "cmp a b = Less \<longleftrightarrow> a < b" "cmp a b = Equal \<longleftrightarrow> a = b" "cmp a b = Greater \<longleftrightarrow> b < a"
  by (auto simp: cmp_def)

lemma bit_length_bounds:
  "0 < n \<Longrightarrow> 2 ^ (bit_length n - 1) \<le> n \<and> n < 2 ^ bit_length n \<and> 0 < bit_length n"
proof (induction n rule: bit_length.induct)
  case (1 n)
  show ?case
  proof (cases "n = 1")
    case True
    then show ?thesis by (simp add: bit_length.simps)
  next
    case False
    with "1.prems" have pos: "0 < n div 2" by simp
    define b where "b = bit_length (n div 2)"
    have "2 ^ (b - 1) \<le> n div 2" "n div 2 < 2 ^ b" "0 < b"
      using "1.IH" "1.prems" pos by (auto simp: b_def)
    moreover from this have "(2::nat) ^ b = 2 * 2 ^ (b - 1)"
      by (cases b) simp_all
    moreover have "bit_length n = Suc b"
      using "1.prems" by (subst bit_length.simps) (simp add: b_def)
    ultimately show ?thesis by simp linarith
  qed
qed

lemma bit_length_eq: "2 ^ k \<le> n \<Longrightarrow> n < 2 ^ Suc k \<Longrightarrow> bit_length n = Suc k"
proof -
  assume a: "2 ^ k \<le> n" "n < 2 ^ Suc k"
  have "0 < n" using a(1) by (metis gr_zeroI leD zero_less_numeral zero_less_power)
  from bit_length_bounds [OF this] have b: "2 ^ (bit_length n - 1) \<le> n" "n < 2 ^ bit_length n" "0 < bit_length n" by auto
  have "(2::nat) ^ k < 2 ^ bit_length n" using a(1) b(2) by linarith
  then have "k < bit_length n" by (simp add: power_less_imp_less_exp)
  moreover have "(2::nat) ^ (bit_length n - 1) < 2 ^ Suc k" using a(2) b(1) by linarith
  then have "bit_length n - 1 < Suc k" by (rule power_less_imp_less_exp [rotated]) simp
  ultimately show ?thesis using b(3) by simp
qed

lemma bit_length_mono: "m \<le> n \<Longrightarrow> bit_length m \<le> bit_length n"
proof (cases "m = 0")
  case False
  assume "m \<le> n"
  with False have "2 ^ (bit_length m - 1) \<le> m" "n < 2 ^ bit_length n"
    using bit_length_bounds [of m] bit_length_bounds [of n] by auto
  with \<open>m \<le> n\<close> have "(2::nat) ^ (bit_length m - 1) < 2 ^ bit_length n" by linarith
  then have "bit_length m - 1 < bit_length n" by (simp add: power_less_imp_less_exp)
  then show ?thesis by simp
qed (simp add: bit_length.simps)

lemma round_half_even_bounds:
  assumes "0 < d"
  shows "n div d \<le> round_half_even n d" and "round_half_even n d \<le> n div d + 1"
  by (auto simp: round_half_even_def Let_def)

text \<open>Rounding never falls below an integer the value reaches, nor passes one it does not.\<close>

lemma round_half_even_ge: "0 < d \<Longrightarrow> k * d \<le> n \<Longrightarrow> k \<le> round_half_even n d"
  using round_half_even_bounds(1) [of d n] less_eq_div_iff_mult_less_eq [of d k n] by simp

lemma round_half_even_le:
  assumes "0 < d" and "n \<le> k * d"
  shows "round_half_even n d \<le> k"
proof (cases "n = k * d")
  case True
  with assms show ?thesis by (simp add: round_half_even_def)
next
  case False
  with assms have "n div d < k" by (simp add: div_less_iff_less_mult)
  with round_half_even_bounds(2) [OF assms(1), of n] show ?thesis by simp
qed

lemma round_half_even_mono:
  assumes "0 < d" and "m \<le> n"
  shows "round_half_even m d \<le> round_half_even n d"
proof (cases "m div d = n div d")
  case True
  have "m mod d \<le> n mod d"
    using assms(2) True by (metis add_le_cancel_left div_mult_mod_eq)
  with True show ?thesis by (auto simp: round_half_even_def Let_def)
next
  case False
  with assms have "m div d + 1 \<le> n div d" by (simp add: div_le_mono le_neq_implies_less Suc_leI)
  then show ?thesis
    using round_half_even_bounds [OF assms(1)] by (meson order_trans)
qed

text \<open>A quotient that is a double is kept as it is.\<close>

lemma round_bits_exact:
  assumes "n * 2 ^ 1074 = m * 2 ^ e * d" "2 ^ 52 \<le> m" "m < 2 ^ 53" "0 < d"
  shows "round_bits n d = min (2047 * 2 ^ 52) (e * 2 ^ 52 + m)"
proof -
  have q: "n * 2 ^ 1074 div d = m * 2 ^ e" unfolding assms(1) using assms(4) by simp
  have "bit_length (m * 2 ^ e) = Suc (52 + e)"
    by (rule bit_length_eq) (use assms(2,3) in \<open>simp_all add: power_add\<close>)
  then have e: "bit_length (n * 2 ^ 1074 div d) - 53 = e" unfolding q by simp
  have "n * 2 ^ 1074 = m * (d * 2 ^ e)" unfolding assms(1) by (simp only: mult_ac)
  then have "round_half_even (n * 2 ^ 1074) (d * 2 ^ e) = m"
    using assms(4) by (simp add: round_half_even_def)
  then show ?thesis unfolding round_bits_def Let_def e by simp
qed

end
