(* ===== verification/Json.thy ===== *)
theory Json
  imports Prelude F64
begin

text \<open>
  \<open>serde_json::Value\<close> as a datatype and the operations the code uses on it. A record is any
  JSON value (\<open>crates/core/src/record.rs\<close>). An object is \<open>serde_json\<close>'s default map, a
  \<open>BTreeMap\<close>: an association list kept sorted by key in byte order, which \<open>wf_json\<close> states.
\<close>

text \<open>\<open>serde_json::Number\<close>: a \<open>u64\<close>, a negative \<open>i64\<close> (read with \<open>sint\<close>) or a double.\<close>

datatype jnum = PosInt u64 | NegInt u64 | JFloat f64

datatype json =
    JNull
  | JBool bool
  | JNum jnum
  | JStr string
  | JArr "json list"
  | JObj "(string \<times> json) list"

type_synonym rec_value = json

text \<open>\<open>Record::default\<close>.\<close>

definition record_default :: rec_value where "record_default = JNull"

section \<open>Object maps\<close>

definition obj_get :: "(string \<times> 'v) list \<Rightarrow> string \<Rightarrow> 'v option" where
  "obj_get m k = map_of m k"

fun obj_insert :: "string \<Rightarrow> 'v \<Rightarrow> (string \<times> 'v) list \<Rightarrow> (string \<times> 'v) list" where
  "obj_insert k v [] = [(k, v)]"
| "obj_insert k v ((k', v') # m) =
     (if k = k' then (k, v) # m
      else if k < k' then (k, v) # (k', v') # m
      else (k', v') # obj_insert k v m)"

definition obj_remove :: "string \<Rightarrow> (string \<times> 'v) list \<Rightarrow> (string \<times> 'v) list" where
  "obj_remove k m = filter (\<lambda>kv. fst kv \<noteq> k) m"

definition wf_obj :: "(string \<times> 'v) list \<Rightarrow> bool" where
  "wf_obj m \<longleftrightarrow> sorted_wrt (<) (map fst m)"

fun wf_json :: "json \<Rightarrow> bool" where
  "wf_json (JArr xs) \<longleftrightarrow> (\<forall>x \<in> set xs. wf_json x)"
| "wf_json (JObj m) \<longleftrightarrow> wf_obj m \<and> (\<forall>kv \<in> set m. wf_json (snd kv))"
| "wf_json _ \<longleftrightarrow> True"

lemma obj_get_Nil [simp]: "obj_get [] k = None"
  by (simp add: obj_get_def)

lemma obj_get_Cons [simp]: "obj_get ((k, v) # m) k' = (if k' = k then Some v else obj_get m k')"
  by (simp add: obj_get_def)

lemma obj_get_insert [simp]: "obj_get (obj_insert k v m) k' = (if k' = k then Some v else obj_get m k')"
  by (induction k v m rule: obj_insert.induct) (auto simp: obj_get_def)

lemma obj_get_remove [simp]: "obj_get (obj_remove k m) k' = (if k' = k then None else obj_get m k')"
  by (induction m) (auto simp: obj_get_def obj_remove_def)

lemma fst_set_obj_insert: "fst ` set (obj_insert k v m) = insert k (fst ` set m)"
  by (induction k v m rule: obj_insert.induct) auto

lemma set_obj_insert: "set (obj_insert k v m) \<subseteq> insert (k, v) (set m)"
  by (induction k v m rule: obj_insert.induct) auto

lemma wf_obj_insert [simp]: "wf_obj m \<Longrightarrow> wf_obj (obj_insert k v m)"
proof (induction k v m rule: obj_insert.induct)
  case (2 k v k' v' m)
  then show ?case
    using fst_set_obj_insert [of k v m] by (auto simp: wf_obj_def)
qed (simp add: wf_obj_def)

lemma wf_obj_remove [simp]: "wf_obj m \<Longrightarrow> wf_obj (obj_remove k m)"
  by (induction m) (auto simp: wf_obj_def obj_remove_def)

lemma wf_obj_Nil [simp]: "wf_obj []"
  by (simp add: wf_obj_def)

lemma obj_get_in: "obj_get m k = Some v \<Longrightarrow> (k, v) \<in> set m"
  by (simp add: obj_get_def map_of_SomeD)

lemma obj_get_all: "\<forall>kv \<in> set m. P (snd kv) \<Longrightarrow> obj_get m k = Some v \<Longrightarrow> P v"
  by (metis obj_get_in snd_conv)

lemma obj_insert_twice [simp]: "obj_insert k w (obj_insert k v m) = obj_insert k w m"
  by (induction k v m rule: obj_insert.induct) auto

lemma obj_insert_same: "wf_obj m \<Longrightarrow> obj_get m k = Some v \<Longrightarrow> obj_insert k v m = m"
proof (induction k v m rule: obj_insert.induct)
  case (2 k v k' v' m)
  have later: "k' < k" if "obj_get m k = Some v"
    using that "2.prems"(1) by (force simp: wf_obj_def dest: obj_get_in)
  show ?case
  proof (cases "k = k'")
    case True
    with "2.prems"(2) show ?thesis by (simp add: obj_get_def)
  next
    case False
    with "2.prems"(2) have "obj_get m k = Some v" by (simp add: obj_get_def)
    moreover from this have "\<not> k < k'" using later by (simp add: less_not_sym)
    ultimately show ?thesis using False "2.IH" "2.prems"(1) by (simp add: wf_obj_def)
  qed
qed simp

lemma wf_json_get: "wf_json (JObj m) \<Longrightarrow> obj_get m k = Some v \<Longrightarrow> wf_json v"
  using obj_get_in [of m k v] by fastforce

section \<open>Numbers as the code reads them\<close>

text \<open>\<open>Num\<close> of \<open>crates/core/src/path.rs\<close>: an \<open>i128\<close> or a double.\<close>

datatype num_val = NInt int | NFloat f64

fun num_from_value :: "jnum \<Rightarrow> num_val" where
  "num_from_value (PosInt w) = NInt (uint w)"
| "num_from_value (NegInt w) = NInt (sint w)"
| "num_from_value (JFloat f) = NFloat f"

fun num_as_f64 :: "num_val \<Rightarrow> f64" where
  "num_as_f64 (NInt i) = f64_of_int i"
| "num_as_f64 (NFloat f) = f"

fun num_partial_cmp :: "num_val \<Rightarrow> num_val \<Rightarrow> ord option" where
  "num_partial_cmp (NInt a) (NInt b) = Some (cmp a b)"
| "num_partial_cmp a b = f64_partial_cmp (num_as_f64 a) (num_as_f64 b)"

definition num_eq :: "num_val \<Rightarrow> num_val \<Rightarrow> bool" where
  "num_eq a b \<longleftrightarrow> num_partial_cmp a b = Some Equal"

text \<open>\<open>FieldValue\<close>: a value as read from a record.\<close>

datatype field_value =
    FNull
  | FBool bool
  | FNum num_val
  | FStr string
  | FJson json

fun field_from_json :: "json \<Rightarrow> field_value" where
  "field_from_json JNull = FNull"
| "field_from_json (JBool b) = FBool b"
| "field_from_json (JNum n) = FNum (num_from_value n)"
| "field_from_json (JStr s) = FStr s"
| "field_from_json (JArr xs) = FJson (JArr xs)"
| "field_from_json (JObj m) = FJson (JObj m)"

end
