(* ===== verification/Meta.thy ===== *)
theory Meta
  imports Closed_Sets Json
begin

text \<open>
  \<open>crates/core/src/meta.rs\<close>: what a transport says about a message (\<open>arrival\<close>), the
  pipeline's view of a record (\<open>meta\<close>) and the resolution of the first into the second. The
  worker clock is the argument \<open>now\<close>.
\<close>

type_synonym record_id = u64

definition UNKNOWN_TENANT :: string where "UNKNOWN_TENANT = ''unknown''"

definition is_valid_tenant :: "string \<Rightarrow> bool" where
  "is_valid_tenant tenant \<longleftrightarrow> tenant \<noteq> [] \<and> \<not> list_ex is_control (utf8_chars tenant)"

datatype ingestion_time = Reported u64 | Clock u64

fun unix_nanos :: "ingestion_time \<Rightarrow> u64" where
  "unix_nanos (Reported nanos) = nanos" | "unix_nanos (Clock nanos) = nanos"

fun time_kind_of :: "ingestion_time \<Rightarrow> time_kind" where
  "time_kind_of (Reported _) = TimeReported" | "time_kind_of (Clock _) = TimeClock"

fun ingestion_time_new :: "time_kind \<Rightarrow> u64 \<Rightarrow> ingestion_time" where
  "ingestion_time_new TimeReported n = Reported n" | "ingestion_time_new TimeClock n = Clock n"

lemma ingestion_time_new_parts [simp]: "ingestion_time_new (time_kind_of t) (unix_nanos t) = t"
  by (cases t) simp_all

datatype arrival_kind = Unnamed | Named kind | Unreadable

record arrival =
  arr_record_id :: "record_id option"
  arr_kind :: arrival_kind
  arr_tenant :: "string option"
  arr_time :: "ingestion_time option"
  arr_delivery :: u64
  arr_bytes :: "u64 option"

definition arrival_default :: arrival where
  "arrival_default =
     \<lparr>arr_record_id = None, arr_kind = Unnamed, arr_tenant = None, arr_time = None,
      arr_delivery = 1, arr_bytes = None\<rparr>"

definition is_log :: "arrival \<Rightarrow> bool" where
  "is_log a = (case arr_kind a of Unnamed \<Rightarrow> True | Named Log \<Rightarrow> True | _ \<Rightarrow> False)"

record meta =
  record_id :: record_id
  tenant :: string
  ingestion_time :: ingestion_time
  delivery_count :: u64

datatype rejection = MissingId | NotLog

record rejected =
  rej_reason :: rejection
  rej_tenant :: string

definition tenant_of :: "arrival \<Rightarrow> string" where
  "tenant_of a =
     (case arr_tenant a of
        Some t \<Rightarrow> if is_valid_tenant t then t else UNKNOWN_TENANT
      | None \<Rightarrow> UNKNOWN_TENANT)"

definition resolve :: "u64 \<Rightarrow> arrival \<Rightarrow> rejected + meta" where
  "resolve now a =
     (let t = tenant_of a in
      if \<not> is_log a then Inl \<lparr>rej_reason = NotLog, rej_tenant = t\<rparr>
      else case arr_record_id a of
          None \<Rightarrow> Inl \<lparr>rej_reason = MissingId, rej_tenant = t\<rparr>
        | Some i \<Rightarrow>
            Inr \<lparr>record_id = i, tenant = t,
                 ingestion_time = (case arr_time a of Some time \<Rightarrow> time | None \<Rightarrow> Clock now),
                 delivery_count = arr_delivery a\<rparr>)"

datatype meta_value = MStr string | MU64 u64

fun meta_get :: "meta \<Rightarrow> meta_field \<Rightarrow> meta_value" where
  "meta_get m FieldId = MU64 (record_id m)"
| "meta_get m FieldTenant = MStr (tenant m)"
| "meta_get m FieldIngestionTime = MU64 (unix_nanos (ingestion_time m))"
| "meta_get m FieldDeliveryCount = MU64 (delivery_count m)"

section \<open>Facts\<close>

lemma UNKNOWN_TENANT_valid: "is_valid_tenant UNKNOWN_TENANT"
  by code_simp

lemma tenant_of_valid [simp]: "is_valid_tenant (tenant_of a)"
  by (auto simp: tenant_of_def UNKNOWN_TENANT_valid split: option.splits)

lemma resolve_Inr_iff:
  "resolve now a = Inr m \<longleftrightarrow>
     is_log a \<and> (\<exists>i. arr_record_id a = Some i \<and>
       m = \<lparr>record_id = i, tenant = tenant_of a,
            ingestion_time = (case arr_time a of Some time \<Rightarrow> time | None \<Rightarrow> Clock now),
            delivery_count = arr_delivery a\<rparr>)"
  by (auto simp: resolve_def Let_def split: option.splits)

lemma resolve_tenant:
  "(case resolve now a of Inl r \<Rightarrow> rej_tenant r | Inr m \<Rightarrow> tenant m) = tenant_of a"
  by (auto simp: resolve_def Let_def split: option.splits)

lemma resolve_delivery: "resolve now a = Inr m \<Longrightarrow> delivery_count m = arr_delivery a"
  by (auto simp: resolve_Inr_iff)

end
