(* ===== verification/Path.thy ===== *)
theory Path
  imports Meta
begin

text \<open>
  \<open>crates/core/src/path.rs\<close>: parsing and displaying field paths, and the walks that read,
  write and remove the value a path names. Offsets are byte offsets into the path text.
\<close>

datatype path_error =
    EmptySegment string
  | InvalidSegment string string string
  | UnterminatedQuote string
  | BracketSyntax string
  | UnknownMetaField string
  | ReadOnly string

definition META_ROOT :: string where "META_ROOT = ''meta''"

text \<open>\<open>FieldPath\<close> with its \<open>Target\<close>, and \<open>WritePath\<close>, a path known to name the record.\<close>

datatype field_path = RecordPath "string list" | MetaPath meta_field

datatype write_path = WritePath (segments: "string list")

definition slice :: "string \<Rightarrow> nat \<Rightarrow> nat \<Rightarrow> string" where
  "slice s a b = take (b - a) (drop a s)"

section \<open>Segments\<close>

definition is_segment_char :: "char \<Rightarrow> bool" where
  "is_segment_char c \<longleftrightarrow> is_ascii_alphanumeric c \<or> c = CHR ''_'' \<or> c = CHR ''-''"

fun is_segment_point :: "string \<Rightarrow> bool" where
  "is_segment_point [c] = is_segment_char c"
| "is_segment_point _ = False"

definition position :: "string \<Rightarrow> nat option" where
  "position segment =
     (if segment = [] \<or> \<not> list_all is_ascii_digit segment then None
      else if 1 < length segment \<and> hd segment = CHR ''0'' then None
      else parse_unsigned 64 segment)"

definition escape_segment_text :: "string \<Rightarrow> string" where
  "escape_segment_text s =
     replace_char DQ [BSLASH, DQ] (replace_char BSLASH [BSLASH, BSLASH] s)"

definition display_segment :: "string \<Rightarrow> string" where
  "display_segment segment =
     (if segment \<noteq> [] \<and> list_all is_segment_char segment then segment
      else DQ # escape_segment_text segment @ [DQ])"

text \<open>The scan for a closing quote: a backslash skips the byte after it.\<close>

fun quoted_scan :: "char \<Rightarrow> string \<Rightarrow> nat \<Rightarrow> nat option" where
  "quoted_scan q [] i = None"
| "quoted_scan q (c # cs) i =
     (if c = BSLASH then (case cs of [] \<Rightarrow> None | _ # ds \<Rightarrow> quoted_scan q ds (i + 2))
      else if c = q then Some (i + 1)
      else quoted_scan q cs (i + 1))"

definition quoted_end :: "string \<Rightarrow> nat \<Rightarrow> nat option" where
  "quoted_end text start =
     (case drop start text of [] \<Rightarrow> None | quote # rest \<Rightarrow> quoted_scan quote rest (start + 1))"

subsection \<open>The dotted form of a bracketed path, for the error's hint\<close>

fun unescape :: "string \<Rightarrow> string" where
  "unescape [] = []"
| "unescape (c # cs) =
     (if c = BSLASH then (case cs of [] \<Rightarrow> [] | d # ds \<Rightarrow> d # unescape ds)
      else c # unescape cs)"

text \<open>The text of a bracket opened just before \<open>text\<close> and the bytes it takes.\<close>

function bracket_scan :: "string \<Rightarrow> nat \<Rightarrow> string \<times> nat" where
  "bracket_scan text i =
     (if length text \<le> i then (text, length text)
      else if text ! i = DQ \<or> text ! i = SQ then
        (case quoted_end text i of
           Some e \<Rightarrow> if i < e then bracket_scan text e else (text, length text)
         | None \<Rightarrow> (text, length text))
      else if text ! i = CHR '']'' then (take i text, i + 1)
      else bracket_scan text (i + 1))"
  by pat_completeness auto
termination by (relation "measure (\<lambda>(text, i). length text - i)") auto

definition bracket_contents :: "string \<Rightarrow> string \<times> nat" where
  "bracket_contents text = bracket_scan text 0"

definition nonempty_pieces :: "string \<Rightarrow> string list" where
  "nonempty_pieces s = filter (\<lambda>p. p \<noteq> []) (split_on DOT s)"

definition strip_last :: "char \<Rightarrow> string \<Rightarrow> string" where
  "strip_last c s = (if s \<noteq> [] \<and> last s = c then butlast s else s)"

definition bracket_pieces :: "string \<Rightarrow> string list" where
  "bracket_pieces inner =
     (let inner = trim_text inner in
      case inner of
        [] \<Rightarrow> nonempty_pieces inner
      | quote # body \<Rightarrow>
          if quote = DQ \<or> quote = SQ then
            (let key = unescape (strip_last quote body) in if key = [] then [] else [key])
          else nonempty_pieces inner)"

text \<open>The pieces of dotted text outside brackets; the fuel is the length of the text, and every
  round drops at least one byte.\<close>

fun dotted_pieces_fuel :: "nat \<Rightarrow> string \<Rightarrow> string list" where
  "dotted_pieces_fuel 0 rest = []"
| "dotted_pieces_fuel (Suc fuel) rest =
     (case rest of
        [] \<Rightarrow> []
      | c # cs \<Rightarrow>
          if c = DQ then
            (case quoted_end rest 0 of
               Some e \<Rightarrow>
                 unescape (slice rest 1 (e - 1))
                   # dotted_pieces_fuel fuel (dropWhile (\<lambda>c. c = DOT) (drop e rest))
             | None \<Rightarrow> [unescape cs])
          else
            (let piece = takeWhile (\<lambda>c. c \<noteq> DOT) rest;
                 more = dotted_pieces_fuel fuel
                          (dropWhile (\<lambda>c. c = DOT) (dropWhile (\<lambda>c. c \<noteq> DOT) rest))
             in if piece = [] then more else piece # more))"

definition dotted_pieces :: "string \<Rightarrow> string list" where
  "dotted_pieces part = dotted_pieces_fuel (length part) part"

definition is_bracket :: "char \<Rightarrow> bool" where
  "is_bracket c \<longleftrightarrow> c = CHR ''['' \<or> c = CHR '']''"

fun unbracket_fuel :: "nat \<Rightarrow> string \<Rightarrow> string list" where
  "unbracket_fuel 0 rest = []"
| "unbracket_fuel (Suc fuel) rest =
     (case rest of
        [] \<Rightarrow> []
      | c # cs \<Rightarrow>
          if c = CHR ''['' then
            (let (inner, consumed) = bracket_contents cs
             in bracket_pieces inner @ unbracket_fuel fuel (drop consumed cs))
          else if c = CHR '']'' then unbracket_fuel fuel cs
          else
            dotted_pieces (takeWhile (\<lambda>c. \<not> is_bracket c) rest)
              @ unbracket_fuel fuel (dropWhile (\<lambda>c. \<not> is_bracket c) rest))"

definition unbracket :: "string \<Rightarrow> string" where
  "unbracket path =
     (let out = map display_segment (unbracket_fuel (length path) path);
          out = (if length out = 1 \<and> hd out = META_ROOT then out @ [''<field>''] else out)
      in join ''.'' out)"

subsection \<open>Splitting a path\<close>

definition quoted_hint :: "string list \<Rightarrow> string \<Rightarrow> string \<Rightarrow> string" where
  "quoted_hint before bad rest =
     join ''.'' (map display_segment before @ [display_segment bad]) @ rest"

fun unquote_inner ::
  "string \<Rightarrow> nat \<Rightarrow> nat \<Rightarrow> nat \<Rightarrow> string \<Rightarrow> path_error + string" where
  "unquote_inner path start fin at [] = Inr []"
| "unquote_inner path start fin at (c # cs) =
     (if c = BSLASH then
        (case cs of
           [] \<Rightarrow> Inr []
         | d # ds \<Rightarrow>
             if d = DQ \<or> d = BSLASH
             then map_sum id (Cons d) (unquote_inner path start fin (at + 2) ds)
             else Inl (InvalidSegment (slice path start fin) (utf8_head cs)
                         (take at path @ [BSLASH, BSLASH] @ drop (at + 1) path)))
      else map_sum id (Cons c) (unquote_inner path start fin (at + 1) cs))"

definition unquote :: "string \<Rightarrow> nat \<Rightarrow> path_error + (string \<times> nat)" where
  "unquote path start =
     (case quoted_end path start of
        None \<Rightarrow> Inl (UnterminatedQuote path)
      | Some e \<Rightarrow>
          map_sum id (\<lambda>out. (out, e))
            (unquote_inner path start e (start + 1) (slice path (start + 1) (e - 1))))"

text \<open>One round of \<open>split_segments\<close> up to its final \<open>match\<close>: the segment that starts at
  \<open>i\<close> and the offset after it.\<close>

definition is_segment_end :: "char \<Rightarrow> bool" where
  "is_segment_end c \<longleftrightarrow> c = DOT \<or> is_bracket c"

definition next_segment :: "string \<Rightarrow> nat \<Rightarrow> string list \<Rightarrow> path_error + (string \<times> nat)" where
  "next_segment path i segs =
     (let rest = drop i path in
      if rest \<noteq> [] \<and> hd rest = DQ then
        (case unquote path i of
           Inl e \<Rightarrow> Inl e
         | Inr (segment, j) \<Rightarrow>
             if segment = [] then Inl (EmptySegment path) else Inr (segment, j))
      else
        (let segment = takeWhile (\<lambda>c. \<not> is_segment_end c) rest;
             j = i + length segment;
             after = drop j path
         in if segment = [] \<and> \<not> (after \<noteq> [] \<and> is_bracket (hd after)) then Inl (EmptySegment path)
            else case find (\<lambda>p. \<not> is_segment_point p) (utf8_chars segment) of
                Some c \<Rightarrow> Inl (InvalidSegment segment c (quoted_hint segs segment after))
              | None \<Rightarrow> Inr (segment, j)))"

lemma quoted_scan_bounds: "quoted_scan q cs i = Some e \<Longrightarrow> i < e \<and> e \<le> i + length cs"
  by (induction q cs i rule: quoted_scan.induct) (fastforce split: if_splits list.splits)+

lemma quoted_end_bounds:
  assumes "quoted_end text start = Some e"
  shows "start + 1 < e \<and> e \<le> length text"
proof -
  from assms obtain q cs where d: "drop start text = q # cs"
    and "quoted_scan q cs (start + 1) = Some e"
    by (auto simp: quoted_end_def split: list.splits)
  moreover from d have "length text = start + 1 + length cs"
    by (metis length_Cons length_drop add.commute add_Suc_right plus_1_eq_Suc diff_is_0_eq
        le_add_diff_inverse nat_le_linear nat.distinct(1))
  ultimately show ?thesis by (auto dest: quoted_scan_bounds)
qed

lemma next_segment_advances: "next_segment path i segs = Inr (segment, j) \<Longrightarrow> i \<le> j"
  by (auto simp: next_segment_def unquote_def Let_def split: if_splits option.splits sum.splits
      dest!: quoted_end_bounds)

function split_loop :: "string \<Rightarrow> nat \<Rightarrow> string list \<Rightarrow> path_error + string list" where
  "split_loop path i segs =
     (case next_segment path i segs of
        Inl e \<Rightarrow> Inl e
      | Inr (segment, j) \<Rightarrow>
          (case drop j path of
             [] \<Rightarrow> Inr (segs @ [segment])
           | c # _ \<Rightarrow>
               if c = DOT then
                 (if j + 1 = length path then Inl (EmptySegment path)
                  else split_loop path (j + 1) (segs @ [segment]))
               else if is_bracket c then Inl (BracketSyntax (unbracket path))
               else
                 (let e = j + length (takeWhile (\<lambda>c. c \<noteq> DOT) (drop j path))
                  in Inl (InvalidSegment (slice path i e) (utf8_head (drop j path))
                            (quoted_hint segs (segment @ slice path j e) (drop e path))))))"
  by pat_completeness auto
termination
proof (relation "measure (\<lambda>(path, i, segs). length path - i)")
  fix path i segs x segment j c cs
  assume "next_segment path i segs = Inr x" "(segment, j) = x" "drop j path = c # cs"
  then have "i \<le> j" "j < length path"
    by (auto dest: next_segment_advances) (metis drop_all linorder_not_less list.distinct(1))
  then show "((path, j + 1, segs @ [segment]), path, i, segs)
      \<in> measure (\<lambda>(path, i, segs). length path - i)" by simp
qed simp

declare split_loop.simps [simp del] and bracket_scan.simps [simp del]

definition split_segments :: "string \<Rightarrow> path_error + string list" where
  "split_segments path = split_loop path 0 []"

section \<open>Paths\<close>

definition rename_path_error :: "string \<Rightarrow> path_error \<Rightarrow> path_error" where
  "rename_path_error path e =
     (case e of
        EmptySegment _ \<Rightarrow> EmptySegment path
      | UnterminatedQuote _ \<Rightarrow> UnterminatedQuote path
      | other \<Rightarrow> other)"

definition path_parse :: "string \<Rightarrow> path_error + field_path" where
  "path_parse path =
     (let (text, rooted) =
        (case strip_prefix ''.'' path of Some rest \<Rightarrow> (rest, True) | None \<Rightarrow> (path, False))
      in if rooted \<and> text = [] then Inr (RecordPath [])
         else case split_segments text of
             Inl e \<Rightarrow> Inl (rename_path_error path e)
           | Inr segs \<Rightarrow>
               if \<not> rooted \<and> segs \<noteq> [] \<and> hd segs = META_ROOT then
                 (case tl segs of
                    [field] \<Rightarrow>
                      (case meta_field_parse field of
                         Some f \<Rightarrow> Inr (MetaPath f)
                       | None \<Rightarrow> Inl (UnknownMetaField path))
                  | _ \<Rightarrow> Inl (UnknownMetaField path))
               else Inr (RecordPath segs))"

definition path_whole :: field_path where "path_whole = RecordPath []"

fun path_display :: "field_path \<Rightarrow> string" where
  "path_display (MetaPath f) = META_ROOT @ ''.'' @ meta_field_str f"
| "path_display (RecordPath []) = ''.''"
| "path_display (RecordPath (s # ss)) =
     (if s = META_ROOT then ''.'' else []) @ display_segment s
       @ concat (map (\<lambda>t. DOT # display_segment t) ss)"

fun path_writable :: "field_path \<Rightarrow> path_error + write_path" where
  "path_writable (MetaPath f) = Inl (ReadOnly (path_display (MetaPath f)))"
| "path_writable (RecordPath segs) = Inr (WritePath segs)"

definition write_path_path :: "write_path \<Rightarrow> field_path" where
  "write_path_path p = RecordPath (segments p)"

definition write_path_child :: "write_path \<Rightarrow> string \<Rightarrow> write_path" where
  "write_path_child p segment = WritePath (segments p @ [segment])"

section \<open>Walks over a record\<close>

text \<open>The value \<open>segment\<close> names directly under \<open>v\<close>.\<close>

definition child_at :: "json \<Rightarrow> string \<Rightarrow> json option" where
  "child_at v segment =
     (case v of
        JObj m \<Rightarrow> obj_get m segment
      | JArr items \<Rightarrow>
          (case position segment of
             Some i \<Rightarrow> if i < length items then Some (items ! i) else None
           | None \<Rightarrow> None)
      | _ \<Rightarrow> None)"

fun read_at :: "json \<Rightarrow> string list \<Rightarrow> json option" where
  "read_at v [] = Some v"
| "read_at v (s # ss) = (case child_at v s of None \<Rightarrow> None | Some w \<Rightarrow> read_at w ss)"

text \<open>The list position \<open>segment\<close> names in \<open>v\<close>, when \<open>v\<close> is a list that has it.\<close>

definition list_slot :: "json \<Rightarrow> string \<Rightarrow> nat option" where
  "list_slot v segment =
     (case v of
        JArr items \<Rightarrow>
          (case position segment of
             Some i \<Rightarrow> if i < length items then Some i else None
           | None \<Rightarrow> None)
      | _ \<Rightarrow> None)"

text \<open>The members a write under \<open>v\<close> starts from: anything but an object is replaced.\<close>

definition members :: "json \<Rightarrow> (string \<times> json) list" where
  "members v = (case v of JObj m \<Rightarrow> m | _ \<Rightarrow> [])"

text \<open>\<open>slot\<close> hands out a mutable place under \<open>current\<close>, making it exist; here the place is
  updated by \<open>f\<close>.\<close>

definition slot_update :: "json \<Rightarrow> string \<Rightarrow> (json \<Rightarrow> json) \<Rightarrow> json" where
  "slot_update current segment f =
     (case (current, list_slot current segment) of
        (JArr items, Some i) \<Rightarrow> JArr (items[i := f (items ! i)])
      | _ \<Rightarrow>
          (let m = members current;
               old = (case obj_get m segment of Some w \<Rightarrow> w | None \<Rightarrow> JNull)
           in JObj (obj_insert segment (f old) m)))"

fun write_at :: "json \<Rightarrow> string list \<Rightarrow> json \<Rightarrow> json" where
  "write_at r [] v = v"
| "write_at r (s # ss) v = slot_update r s (\<lambda>w. write_at w ss v)"

text \<open>The value \<open>child\<close> put back where \<open>segment\<close> names it under \<open>v\<close> (a walk that mutated
  it in place).\<close>

definition put_child :: "json \<Rightarrow> string \<Rightarrow> json \<Rightarrow> json" where
  "put_child v segment child =
     (case v of
        JObj m \<Rightarrow> JObj (obj_insert segment child m)
      | JArr items \<Rightarrow>
          (case position segment of Some i \<Rightarrow> JArr (items[i := child]) | None \<Rightarrow> v)
      | _ \<Rightarrow> v)"

definition remove_child :: "json \<Rightarrow> string \<Rightarrow> json option \<times> json" where
  "remove_child v segment =
     (case v of
        JObj m \<Rightarrow> (obj_get m segment, JObj (obj_remove segment m))
      | JArr items \<Rightarrow>
          (case position segment of
             Some i \<Rightarrow>
               if i < length items then (Some (items ! i), JArr (take i items @ drop (i + 1) items))
               else (None, v)
           | None \<Rightarrow> (None, v))
      | _ \<Rightarrow> (None, v))"

fun remove_at :: "json \<Rightarrow> string list \<Rightarrow> json option \<times> json" where
  "remove_at r [] = (Some r, JNull)"
| "remove_at r [s] = remove_child r s"
| "remove_at r (s # ss) =
     (case child_at r s of
        None \<Rightarrow> (None, r)
      | Some w \<Rightarrow> (let (removed, w') = remove_at w ss in (removed, put_child r s w')))"

definition field_of :: "json option \<Rightarrow> field_value" where
  "field_of v = (case v of None \<Rightarrow> FNull | Some w \<Rightarrow> field_from_json w)"

fun path_read :: "field_path \<Rightarrow> rec_value \<Rightarrow> meta \<Rightarrow> field_value" where
  "path_read (MetaPath f) r m =
     (case meta_get m f of MStr text \<Rightarrow> FStr text | MU64 n \<Rightarrow> FNum (NInt (uint n)))"
| "path_read (RecordPath segs) r m = field_of (read_at r segs)"

definition wpath_read :: "write_path \<Rightarrow> rec_value \<Rightarrow> field_value" where
  "wpath_read p r = field_of (read_at r (segments p))"

definition wpath_write :: "write_path \<Rightarrow> rec_value \<Rightarrow> json \<Rightarrow> rec_value" where
  "wpath_write p r v = write_at r (segments p) v"

definition wpath_remove :: "write_path \<Rightarrow> rec_value \<Rightarrow> json option \<times> rec_value" where
  "wpath_remove p r = remove_at r (segments p)"

end
