(* ===== verification/Path_Laws.thy ===== *)
theory Path_Laws
  imports Path
begin

text \<open>
  The laws of the walks of \<open>Path\<close>: what a read returns after a write or a removal, which
  reads a write leaves alone, and that a path displayed parses back to itself.
\<close>

section \<open>List positions\<close>

lemma position_digits: "position s = Some i \<Longrightarrow> s \<noteq> [] \<and> list_all is_ascii_digit s"
  by (auto simp: position_def split: if_splits)

lemma digits_value_Cons: "digits_value (c # s) = (byte c - 48) * 10 ^ length s + digits_value s"
proof (induction s rule: rev_induct)
  case Nil
  then show ?case by (simp add: digits_value_def)
next
  case (snoc d s)
  have "digits_value (c # s @ [d]) = digits_value ((c # s) @ [d])" by simp
  with snoc show ?case by (simp only: digits_value_snoc) (simp add: algebra_simps)
qed

lemma parse_digits_Some: "parse_digits s = Some n \<Longrightarrow> n = digits_value s"
  by (simp add: parse_digits_def split: if_splits)

lemma position_value: "position s = Some i \<Longrightarrow> i = digits_value s"
proof -
  assume p: "position s = Some i"
  then obtain c cs where s: "s = c # cs" "is_ascii_digit c"
    using position_digits [OF p] by (cases s) auto
  moreover from p have "parse_unsigned 64 s = Some i"
    by (simp add: position_def split: if_splits)
  ultimately show ?thesis
    using digit_not_plus [of c]
    by (auto simp: parse_unsigned_def split: option.splits if_splits dest: parse_digits_Some)
qed

lemma ten_times_plus_inject:
  fixes a b x y :: nat
  assumes "10 * x + a = 10 * y + b" and "a < 10" and "b < 10"
  shows "x = y \<and> a = b"
proof -
  from assms(1) have "(10 * x + a) div 10 = (10 * y + b) div 10" by simp
  with assms(2,3) have "x = y" by simp
  with assms(1) show ?thesis by simp
qed

text \<open>Without a leading zero the digits of a number are determined by its value.\<close>

lemma digits_value_inject:
  assumes "list_all is_ascii_digit s" "list_all is_ascii_digit t"
    and "length s = length t" "digits_value s = digits_value t"
  shows "s = t"
  using assms
proof (induction s arbitrary: t rule: rev_induct)
  case Nil
  then show ?case by simp
next
  case (snoc c s)
  then obtain d u where t: "t = u @ [d]" by (metis append_butlast_last_id length_0_conv snoc_eq_iff_butlast)
  from snoc.prems t have c: "48 \<le> byte c" "byte c < 58" and d: "48 \<le> byte d" "byte d < 58"
    by (auto simp: is_ascii_digit_def)
  from snoc.prems(4) t have eq: "10 * digits_value s + (byte c - 48) = 10 * digits_value u + (byte d - 48)"
    by (simp add: digits_value_snoc)
  have "byte c - 48 < 10" "byte d - 48 < 10" using c d by linarith+
  from ten_times_plus_inject [OF eq this]
  have "digits_value s = digits_value u" and ends: "byte c - 48 = byte d - 48" by auto
  moreover from ends c d have "byte c = byte d" by linarith
  ultimately have "digits_value s = digits_value u" "c = d" by simp_all
  with snoc.IH [of u] snoc.prems t show ?case by simp
qed

lemma digits_value_lower:
  assumes "is_ascii_digit c" "c \<noteq> CHR ''0''"
  shows "10 ^ length s \<le> digits_value (c # s)"
proof -
  have "byte c \<noteq> byte (CHR ''0'')" using assms(2) by simp
  then have "1 \<le> byte c - 48" using assms(1) by (simp add: is_ascii_digit_def byte_def) arith
  then have "1 * 10 ^ length s \<le> (byte c - 48) * 10 ^ length s" by (rule mult_le_mono1)
  then show ?thesis unfolding digits_value_Cons by linarith
qed

lemma position_canonical:
  assumes "position s = Some i" "position t = Some i"
  shows "length s \<le> length t"
proof (cases "length s \<le> 1")
  case True
  with position_digits [OF assms(2)] show ?thesis by (cases t) auto
next
  case False
  with assms(1) obtain c u where s: "s = c # u" "is_ascii_digit c" "c \<noteq> CHR ''0''"
    by (cases s) (auto simp: position_def split: if_splits)
  then have "10 ^ length u \<le> i"
    using digits_value_lower [of c u] position_value [OF assms(1)] by simp
  moreover have "i < 10 ^ length t"
    using position_value [OF assms(2)] position_digits [OF assms(2)] digits_value_less by blast
  ultimately have "(10::nat) ^ length u < 10 ^ length t" by (rule le_less_trans)
  then show ?thesis using s by (simp add: power_less_imp_less_exp)
qed

lemma position_inject: "position s = Some i \<Longrightarrow> position t = Some i \<Longrightarrow> s = t"
  using position_canonical [of s i t] position_canonical [of t i s]
    position_digits [of s i] position_digits [of t i] position_value [of s i] position_value [of t i]
  by (intro digits_value_inject) auto

section \<open>One step of a walk\<close>

lemma list_slot_Some:
  "list_slot v s = Some i \<longleftrightarrow>
     (\<exists>items. v = JArr items \<and> position s = Some i \<and> i < length items)"
  by (auto simp: list_slot_def split: json.splits option.splits if_splits)

lemma slot_update_list [path_simps]:
  "list_slot (JArr items) s = Some i \<Longrightarrow>
     slot_update (JArr items) s f = JArr (items[i := f (items ! i)])"
  by (simp add: slot_update_def)

lemma slot_update_object [path_simps]:
  "list_slot v s = None \<Longrightarrow>
     slot_update v s f =
       JObj (obj_insert s (f (case obj_get (members v) s of Some w \<Rightarrow> w | None \<Rightarrow> JNull)) (members v))"
  by (cases v) (simp_all add: slot_update_def Let_def)

text \<open>The place a step of a write updates holds what \<open>f\<close> makes of what was there.\<close>

lemma child_slot_update [simp]:
  "child_at (slot_update v s f) s = Some (f (case child_at v s of Some w \<Rightarrow> w | None \<Rightarrow> JNull))"
proof (cases "list_slot v s")
  case None
  then show ?thesis
    by (cases v) (auto simp: path_simps child_at_def members_def list_slot_def
        split: option.splits if_splits)
next
  case (Some i)
  then show ?thesis by (auto simp: list_slot_Some path_simps child_at_def)
qed

text \<open>Where the step found a container with that place, or an object, its siblings stay.\<close>

definition stays :: "json \<Rightarrow> string \<Rightarrow> bool" where
  "stays v s \<longleftrightarrow> (case v of JObj _ \<Rightarrow> True | JArr _ \<Rightarrow> list_slot v s \<noteq> None | _ \<Rightarrow> False)"

lemma child_slot_update_other:
  assumes "stays v a" and "a \<noteq> b"
  shows "child_at (slot_update v a f) b = child_at v b"
proof (cases "list_slot v a")
  case None
  with assms show ?thesis
    by (cases v) (auto simp: stays_def path_simps child_at_def members_def)
next
  case (Some i)
  then obtain items where v: "v = JArr items" "position a = Some i" "i < length items"
    by (auto simp: list_slot_Some)
  have "position b \<noteq> Some i" using v(2) assms(2) position_inject by blast
  with v Some show ?thesis by (auto simp: path_simps child_at_def split: option.splits)
qed

lemma slot_update_twice:
  "slot_update (slot_update v s f) s g = slot_update v s (\<lambda>w. g (f w))"
proof (cases "list_slot v s")
  case None
  then show ?thesis
    by (simp add: path_simps list_slot_def members_def Let_def)
next
  case (Some i)
  then obtain items where v: "v = JArr items" "position s = Some i" "i < length items"
    by (auto simp: list_slot_Some)
  then have "list_slot (JArr (items[i := f (items ! i)])) s = Some i"
    by (simp add: list_slot_def)
  with v Some show ?thesis by (simp add: path_simps)
qed

section \<open>Reads after writes\<close>

lemma read_at_write_at: "read_at (write_at r p v) p = Some v"
  by (induction p arbitrary: r) auto

lemma read_at_append:
  "read_at r (p @ q) = (case read_at r p of None \<Rightarrow> None | Some w \<Rightarrow> read_at w q)"
  by (induction p arbitrary: r) (auto split: option.splits)

lemma write_at_write_at: "write_at (write_at r p v) p w = write_at r p w"
  by (induction p arbitrary: r) (auto simp: slot_update_twice)

text \<open>A write through \<open>c @ a # x\<close> leaves every path that leaves it at \<open>c\<close> alone, when what
  \<open>c\<close> names is an object or a list that has the position \<open>a\<close>.\<close>

lemma read_at_write_at_other:
  assumes "read_at r c = Some w" and "stays w a" and "a \<noteq> b"
  shows "read_at (write_at r (c @ a # x) v) (c @ b # y) = read_at r (c @ b # y)"
  using assms
proof (induction c arbitrary: r)
  case Nil
  then show ?case by (simp add: child_slot_update_other)
next
  case (Cons s c)
  from Cons.prems(1) obtain u where u: "child_at r s = Some u" "read_at u c = Some w"
    by (auto split: option.splits)
  from Cons.IH [OF u(2) Cons.prems(2,3)] u(1) show ?case by simp
qed

section \<open>Removal\<close>

lemma remove_child_fst: "fst (remove_child v s) = child_at v s"
  by (auto simp: remove_child_def child_at_def split: json.splits option.splits)

lemma remove_at_fst: "fst (remove_at r p) = read_at r p"
  by (induction r p rule: remove_at.induct)
    (auto simp: remove_child_fst Let_def split: option.splits prod.splits)

lemma remove_child_absent: "child_at v s = None \<Longrightarrow> snd (remove_child v s) = v"
proof (cases v)
  case (JObj m)
  assume "child_at v s = None"
  with JObj have "s \<notin> fst ` set m"
    by (simp add: child_at_def obj_get_def map_of_eq_None_iff)
  then have "obj_remove s m = m" unfolding obj_remove_def by (intro filter_True) auto
  with JObj show ?thesis by (simp add: remove_child_def)
qed (auto simp: remove_child_def child_at_def split: option.splits if_splits)

lemma put_child_same:
  assumes "wf_json v" and "child_at v s = Some w"
  shows "put_child v s w = v"
  using assms
  by (cases v) (auto simp: put_child_def child_at_def obj_insert_same split: option.splits if_splits)

lemma wf_json_child: "wf_json v \<Longrightarrow> child_at v s = Some w \<Longrightarrow> wf_json w"
  by (cases v) (auto simp: child_at_def split: option.splits if_splits
      dest: obj_get_all [where P = wf_json])

text \<open>Removing what is not there changes nothing.\<close>

lemma remove_at_absent:
  "wf_json r \<Longrightarrow> read_at r p = None \<Longrightarrow> snd (remove_at r p) = r"
proof (induction r p rule: remove_at.induct)
  case (2 r s)
  then show ?case by (simp add: remove_child_absent split: option.splits)
next
  case (3 r s t ss)
  show ?case
  proof (cases "child_at r s")
    case None
    then show ?thesis by simp
  next
    case (Some w)
    with 3 have "snd (remove_at w (t # ss)) = w"
      by (simp add: wf_json_child del: remove_at.simps)
    with Some 3 show ?thesis
      by (auto simp: Let_def put_child_same split: prod.splits)
  qed
qed simp

lemma child_put_child: "child_at v s = Some w \<Longrightarrow> child_at (put_child v s u) s = Some u"
  by (cases v) (auto simp: put_child_def child_at_def split: option.splits if_splits)

text \<open>A key removed from an object reads as absent afterwards.\<close>

lemma remove_at_object:
  "read_at r c = Some (JObj m) \<Longrightarrow> read_at (snd (remove_at r (c @ [s]))) (c @ [s]) = None"
proof (induction c arbitrary: r)
  case Nil
  then show ?case by (simp add: remove_child_def child_at_def)
next
  case (Cons t c)
  from Cons.prems obtain u where u: "child_at r t = Some u" "read_at u c = Some (JObj m)"
    by (auto split: option.splits)
  obtain h hs where c: "c @ [s] = h # hs" by (cases c) auto
  from u(1) c have "remove_at r (t # c @ [s])
      = (fst (remove_at u (c @ [s])), put_child r t (snd (remove_at u (c @ [s]))))"
    by (simp add: Let_def split: prod.splits)
  with Cons.IH [OF u(2)] u(1) show ?case by (simp add: child_put_child)
qed

text \<open>A removal at \<open>c @ [a]\<close> from an object leaves the paths that leave it at \<open>c\<close> alone.\<close>

lemma remove_at_object_other:
  assumes "read_at r c = Some (JObj m)" and "a \<noteq> b"
  shows "read_at (snd (remove_at r (c @ [a]))) (c @ b # y) = read_at r (c @ b # y)"
  using assms(1)
proof (induction c arbitrary: r)
  case Nil
  with assms(2) show ?case by (simp add: remove_child_def child_at_def)
next
  case (Cons t c)
  from Cons.prems obtain u where u: "child_at r t = Some u" "read_at u c = Some (JObj m)"
    by (auto split: option.splits)
  obtain h hs where c: "c @ [a] = h # hs" by (cases c) auto
  from u(1) c have "remove_at r (t # c @ [a])
      = (fst (remove_at u (c @ [a])), put_child r t (snd (remove_at u (c @ [a]))))"
    by (simp add: Let_def split: prod.splits)
  with Cons.IH [OF u(2)] u(1) show ?case by (simp add: child_put_child)
qed

section \<open>Well-formedness\<close>

lemma wf_members: "wf_json v \<Longrightarrow> wf_json (JObj (members v))"
  by (cases v) (simp_all add: members_def)

lemma wf_slot_update:
  assumes "wf_json v" and f: "\<And>w. wf_json w \<Longrightarrow> wf_json (f w)"
  shows "wf_json (slot_update v s f)"
proof (cases "list_slot v s")
  case None
  let ?old = "case obj_get (members v) s of Some w \<Rightarrow> w | None \<Rightarrow> JNull"
  have "wf_json (JObj (members v))" using assms(1) by (rule wf_members)
  then have old: "wf_json ?old" and m: "wf_obj (members v)" "\<forall>kv \<in> set (members v). wf_json (snd kv)"
    by (auto split: option.splits dest: obj_get_all [where P = wf_json])
  have "\<forall>kv \<in> set (obj_insert s (f ?old) (members v)). wf_json (snd kv)"
    using set_obj_insert [of s "f ?old" "members v"] m(2) f [OF old] by fastforce
  with None m(1) show ?thesis by (simp add: path_simps)
next
  case (Some i)
  then obtain items where v: "v = JArr items" "i < length items"
    by (auto simp: list_slot_Some)
  with assms have "wf_json (f (items ! i))" by simp
  with v assms(1) Some show ?thesis
    by (auto simp: path_simps dest!: set_update_subset_insert [THEN subsetD])
qed

lemma wf_write_at: "wf_json r \<Longrightarrow> wf_json v \<Longrightarrow> wf_json (write_at r p v)"
  by (induction p arbitrary: r) (auto intro: wf_slot_update)

lemma wf_put_child: "wf_json v \<Longrightarrow> wf_json w \<Longrightarrow> wf_json (put_child v s w)"
proof (cases v)
  case (JObj m)
  assume "wf_json v" "wf_json w"
  with JObj set_obj_insert [of s w m] show ?thesis by (fastforce simp: put_child_def)
qed (auto simp: put_child_def split: option.splits dest!: set_update_subset_insert [THEN subsetD])

lemma wf_remove_child: "wf_json v \<Longrightarrow> wf_json (snd (remove_child v s))"
  by (cases v)
    (auto simp: remove_child_def obj_remove_def [of s, symmetric] split: option.splits
      dest: in_set_takeD in_set_dropD, auto simp: obj_remove_def)

lemma wf_remove_at: "wf_json r \<Longrightarrow> wf_json (snd (remove_at r p))"
proof (induction r p rule: remove_at.induct)
  case (3 r s t ss)
  then show ?case
    by (auto simp: wf_put_child wf_json_child Let_def split: option.splits prod.splits)
qed (simp_all add: wf_remove_child)

section \<open>Displayed paths parse back\<close>

lemma segment_char_byte: "is_segment_char c \<Longrightarrow> byte c < 128 \<and> \<not> is_segment_end c \<and> c \<noteq> DQ"
  by (auto simp: is_segment_char_def is_segment_end_def is_bracket_def text_simps)

lemma utf8_chars_ascii: "list_all (\<lambda>c. byte c < 192) s \<Longrightarrow> utf8_chars s = map (\<lambda>c. [c]) s"
  by (induction s) (simp_all add: utf8_len_def)

lemma utf8_chars_segment:
  "list_all is_segment_char s \<Longrightarrow> utf8_chars s = map (\<lambda>c. [c]) s"
proof (rule utf8_chars_ascii)
  assume "list_all is_segment_char s"
  moreover have "is_segment_char c \<Longrightarrow> byte c < 192" for c
    using segment_char_byte [of c] by simp
  ultimately show "list_all (\<lambda>c. byte c < 192) s" by (simp add: list_all_iff)
qed

lemma find_bad_segment_point:
  "list_all is_segment_char s \<Longrightarrow> find (\<lambda>p. \<not> is_segment_point p) (utf8_chars s) = None"
  by (simp add: utf8_chars_segment find_None_iff list_all_iff)

lemma escape_Nil [simp]: "escape_segment_text [] = []"
  by (simp add: escape_segment_text_def)

lemma escape_Cons [simp]:
  "escape_segment_text (c # s) =
     (if c = BSLASH then [BSLASH, BSLASH] else if c = DQ then [BSLASH, DQ] else [c])
       @ escape_segment_text s"
  by (simp add: escape_segment_text_def)

lemma quoted_scan_escape:
  "quoted_scan DQ (escape_segment_text s @ DQ # t) i = Some (i + length (escape_segment_text s) + 1)"
  by (induction s arbitrary: i) auto

lemma unquote_inner_escape:
  "unquote_inner path start fin at (escape_segment_text s) = Inr s"
  by (induction s arbitrary: at) auto

lemma unquote_display:
  "unquote (pre @ DQ # escape_segment_text s @ DQ # t) (length pre)
     = Inr (s, length pre + length (escape_segment_text s) + 2)"
  by (simp add: unquote_def quoted_end_def quoted_scan_escape slice_def unquote_inner_escape)

text \<open>The text of the segments after the first.\<close>

definition tail_text :: "string list \<Rightarrow> string" where
  "tail_text ss = concat (map (\<lambda>t. DOT # display_segment t) ss)"

lemma tail_text_hd: "tail_text ss = [] \<or> (\<exists>u. tail_text ss = DOT # u)"
  by (cases ss) (auto simp: tail_text_def)

lemma takeWhile_segment:
  assumes "list_all is_segment_char s"
  shows "takeWhile (\<lambda>c. \<not> is_segment_end c) (s @ tail_text ss) = s"
proof -
  have "takeWhile (\<lambda>c. \<not> is_segment_end c) (s @ tail_text ss)
      = s @ takeWhile (\<lambda>c. \<not> is_segment_end c) (tail_text ss)"
    using assms by (intro takeWhile_all) (auto simp: list_all_iff dest!: segment_char_byte)
  then show ?thesis using tail_text_hd [of ss] by (auto simp: is_segment_end_def)
qed

lemma next_segment_display:
  assumes "s \<noteq> []"
  shows "next_segment (pre @ display_segment s @ tail_text ss) (length pre) segs
    = Inr (s, length pre + length (display_segment s))"
proof (cases "list_all is_segment_char s")
  case True
  with assms have "s @ tail_text ss \<noteq> []" "hd (s @ tail_text ss) \<noteq> DQ"
    by (cases s; auto dest!: segment_char_byte)+
  with True assms show ?thesis
    by (simp add: next_segment_def display_segment_def takeWhile_segment find_bad_segment_point)
next
  case False
  then show ?thesis
    using assms unquote_display [of pre s "tail_text ss"]
    by (auto simp: next_segment_def display_segment_def)
qed

lemma split_loop_display:
  assumes "list_all (\<lambda>t. t \<noteq> []) (s # ss)"
  shows "split_loop (pre @ display_segment s @ tail_text ss) (length pre) segs = Inr (segs @ s # ss)"
  using assms
proof (induction ss arbitrary: pre s segs)
  case Nil
  then show ?case
    using next_segment_display [of s pre "[]"]
    by (subst split_loop.simps) (simp add: tail_text_def)
next
  case (Cons t ts)
  let ?path = "pre @ display_segment s @ tail_text (t # ts)"
  let ?pre = "pre @ display_segment s @ ''.''"
  have path: "?path = ?pre @ display_segment t @ tail_text ts"
    by (simp add: tail_text_def)
  have "display_segment t \<noteq> []" by (simp add: display_segment_def)
  moreover have "split_loop ?path (length ?pre) (segs @ [s]) = Inr ((segs @ [s]) @ t # ts)"
    using Cons.IH [of t ?pre "segs @ [s]"] Cons.prems path by simp
  ultimately show ?case
    using next_segment_display [of s pre "t # ts"] Cons.prems
    by (subst split_loop.simps) (simp add: tail_text_def)
qed

lemma split_segments_display:
  "list_all (\<lambda>t. t \<noteq> []) (s # ss) \<Longrightarrow>
     split_segments (display_segment s @ tail_text ss) = Inr (s # ss)"
  using split_loop_display [of s ss "[]" "[]"] by (simp add: split_segments_def)

definition wf_path :: "field_path \<Rightarrow> bool" where
  "wf_path p = (case p of MetaPath _ \<Rightarrow> True | RecordPath ss \<Rightarrow> list_all (\<lambda>t. t \<noteq> []) ss)"

lemma display_segment_hd: "s \<noteq> [] \<Longrightarrow> \<exists>c cs. display_segment s = c # cs \<and> c \<noteq> DOT"
  by (cases s) (auto simp: display_segment_def is_segment_end_def dest!: segment_char_byte)

lemma display_META_ROOT: "display_segment META_ROOT = META_ROOT"
  by code_simp

lemma display_meta_field: "display_segment (meta_field_str f) = meta_field_str f"
  by (cases f; simp; code_simp)

lemma path_display_tail:
  "path_display (RecordPath (s # ss)) =
     (if s = META_ROOT then ''.'' else []) @ display_segment s @ tail_text ss"
  by (simp add: tail_text_def)

lemma path_parse_display: "wf_path p \<Longrightarrow> path_parse (path_display p) = Inr p"
proof (cases p)
  case (MetaPath f)
  have "path_display p = display_segment META_ROOT @ tail_text [meta_field_str f]"
    by (simp add: MetaPath display_META_ROOT display_meta_field tail_text_def)
  moreover have "split_segments \<dots> = Inr [META_ROOT, meta_field_str f]"
    by (rule split_segments_display) (cases f; simp add: META_ROOT_def)
  moreover have "strip_prefix ''.'' (display_segment META_ROOT @ t) = None" for t
    by (simp add: display_META_ROOT) (simp add: META_ROOT_def)
  ultimately show ?thesis
    by (simp add: MetaPath path_parse_def meta_field_parse_def meta_fields.parse_as_str)
next
  case (RecordPath segs)
  assume wf: "wf_path p"
  show ?thesis
  proof (cases segs)
    case Nil
    then show ?thesis by (simp add: RecordPath path_parse_def)
  next
    case (Cons s ss)
    with wf have ne: "list_all (\<lambda>t. t \<noteq> []) (s # ss)" by (simp add: RecordPath wf_path_def)
    then obtain c cs where d: "display_segment s = c # cs" "c \<noteq> DOT"
      using display_segment_hd [of s] by auto
    show ?thesis
      using split_segments_display [OF ne] d
      by (simp add: RecordPath Cons path_display_tail path_parse_def del: path_display.simps)
  qed
qed

text \<open>Every path that parses has non-empty segments, so its display parses back to it.\<close>

lemma takeWhile_head_bracket:
  "takeWhile (\<lambda>c. \<not> is_segment_end c) rest = [] \<Longrightarrow> rest \<noteq> [] \<Longrightarrow> is_segment_end (hd rest)"
  by (cases rest) (auto split: if_splits)

lemma next_segment_nonempty:
  assumes "next_segment path i segs = Inr (segment, j)"
  shows "segment \<noteq> [] \<or> (drop j path \<noteq> [] \<and> is_bracket (hd (drop j path)))"
  using assms
  by (auto simp: next_segment_def Let_def split: if_splits sum.splits option.splits prod.splits)

lemma split_loop_nonempty:
  "split_loop path i segs = Inr ss \<Longrightarrow> list_all (\<lambda>t. t \<noteq> []) segs \<Longrightarrow> list_all (\<lambda>t. t \<noteq> []) ss"
proof (induction path i segs rule: split_loop.induct)
  case (1 path i segs)
  from "1.prems"(1) obtain segment j where n: "next_segment path i segs = Inr (segment, j)"
    by (auto simp: split_loop.simps [of path i segs] split: sum.splits)
  show ?case
  proof (cases "drop j path")
    case Nil
    with "1.prems"(1) n have "ss = segs @ [segment]"
      by (simp add: split_loop.simps [of path i segs])
    with next_segment_nonempty [OF n] Nil "1.prems"(2) show ?thesis by simp
  next
    case (Cons c cs)
    with "1.prems"(1) n have dot: "c = DOT" "j + 1 \<noteq> length path"
      and rest: "split_loop path (j + 1) (segs @ [segment]) = Inr ss"
      by (auto simp: split_loop.simps [of path i segs] Let_def split: if_splits)
    have "\<not> is_bracket DOT" by (simp add: is_bracket_def)
    with next_segment_nonempty [OF n] Cons dot have "segment \<noteq> []" by auto
    with "1.IH" [OF n refl Cons dot(1)] dot(2) rest "1.prems"(2) show ?thesis by simp
  qed
qed

lemma path_parse_wf: "path_parse text = Inr p \<Longrightarrow> wf_path p"
  by (auto simp: path_parse_def wf_path_def split_segments_def Let_def
      split: option.splits if_splits sum.splits list.splits
      dest!: split_loop_nonempty)

end
