(* ===== verification/Condition.thy ===== *)
theory Condition
  imports Path
begin

text \<open>
  \<open>crates/core/src/condition.rs\<close>: the condition grammar of \<open>filter\<close> and \<open>route\<close>: the lexer,
  the recursive-descent parser and the evaluator. The parser runs on the tokens that are left
  and carries fuel, because its loops and its recursion through parentheses are not structural;
  \<open>Condition_Laws\<close> proves that the fuel \<open>condition_parse\<close> gives is always enough.
\<close>

datatype compare_op = CEq | CNe | CLt | CGt | CLe | CGe | CMatch | CNotMatch

datatype literal = LNull | LBool bool | LInt int | LFloat f64 | LStr string

datatype condition =
    Compare field_path compare_op literal
  | CAnd condition condition
  | COr condition condition
  | CNot condition

datatype condition_error =
    UnexpectedChar string nat
  | UnexpectedEnd
  | UnexpectedToken string nat
  | UnterminatedString nat
  | InvalidNumber string nat
  | RegexNeedsString nat
  | FieldError nat path_error

section \<open>Evaluation\<close>

fun order_of :: "field_value \<Rightarrow> literal \<Rightarrow> ord option" where
  "order_of (FNum a) (LInt b) = num_partial_cmp a (NInt b)"
| "order_of (FNum a) (LFloat b) = num_partial_cmp a (NFloat b)"
| "order_of (FStr a) (LStr b) = Some (cmp a b)"
| "order_of _ _ = None"

fun equals :: "field_value \<Rightarrow> literal \<Rightarrow> bool" where
  "equals FNull LNull = True"
| "equals (FBool a) (LBool b) = (a = b)"
| "equals (FStr a) (LStr b) = (a = b)"
| "equals (FNum a) (LInt b) = (order_of (FNum a) (LInt b) = Some Equal)"
| "equals (FNum a) (LFloat b) = (order_of (FNum a) (LFloat b) = Some Equal)"
| "equals _ _ = False"

fun compare_field :: "field_value \<Rightarrow> compare_op \<Rightarrow> literal \<Rightarrow> bool" where
  "compare_field v CEq l = equals v l"
| "compare_field v CNe l = (\<not> equals v l)"
| "compare_field v CLt l = (order_of v l = Some Less)"
| "compare_field v CGt l = (order_of v l = Some Greater)"
| "compare_field v CLe l = (order_of v l = Some Less \<or> order_of v l = Some Equal)"
| "compare_field v CGe l = (order_of v l = Some Greater \<or> order_of v l = Some Equal)"
| "compare_field v CMatch l = False"
| "compare_field v CNotMatch l = False"

text \<open>Whether a leaf asks the match function, and with which pattern.\<close>

fun regex_leaf :: "compare_op \<Rightarrow> literal \<Rightarrow> string option" where
  "regex_leaf CMatch (LStr p) = Some p"
| "regex_leaf CNotMatch (LStr p) = Some p"
| "regex_leaf _ _ = None"

fun regex_patterns :: "condition \<Rightarrow> string list" where
  "regex_patterns (Compare f op l) = (case regex_leaf op l of Some p \<Rightarrow> [p] | None \<Rightarrow> [])"
| "regex_patterns (CAnd a b) = regex_patterns a @ regex_patterns b"
| "regex_patterns (COr a b) = regex_patterns a @ regex_patterns b"
| "regex_patterns (CNot c) = regex_patterns c"

text \<open>\<open>matches_with\<close>: \<open>regex\<close> is the code's \<open>FnMut\<close>, so it threads a state of its own; the
  first error it returns ends the evaluation.\<close>

type_synonym ('s, 'e) matcher = "string \<Rightarrow> string \<Rightarrow> 's \<Rightarrow> ('e + bool) \<times> 's"

fun matches_with ::
  "('s, 'e) matcher \<Rightarrow> rec_value \<Rightarrow> meta \<Rightarrow> condition \<Rightarrow> 's \<Rightarrow> ('e + bool) \<times> 's" where
  "matches_with regex r m (Compare field op l) st =
     (case regex_leaf op l of
        Some pattern \<Rightarrow>
          (let (matched, st') =
             (case path_read field r m of FStr text \<Rightarrow> regex pattern text st | _ \<Rightarrow> (Inr False, st))
           in (map_sum id (\<lambda>b. if op = CMatch then b else \<not> b) matched, st'))
      | None \<Rightarrow> (Inr (compare_field (path_read field r m) op l), st))"
| "matches_with regex r m (CAnd a b) st =
     (case matches_with regex r m a st of
        (Inl e, st') \<Rightarrow> (Inl e, st')
      | (Inr v, st') \<Rightarrow> if v then matches_with regex r m b st' else (Inr False, st'))"
| "matches_with regex r m (COr a b) st =
     (case matches_with regex r m a st of
        (Inl e, st') \<Rightarrow> (Inl e, st')
      | (Inr v, st') \<Rightarrow> if v then (Inr True, st') else matches_with regex r m b st')"
| "matches_with regex r m (CNot c) st =
     (case matches_with regex r m c st of
        (Inl e, st') \<Rightarrow> (Inl e, st')
      | (Inr v, st') \<Rightarrow> (Inr (\<not> v), st'))"

definition matches_plain :: "condition \<Rightarrow> rec_value \<Rightarrow> meta \<Rightarrow> bool" where
  "matches_plain c r m =
     (case fst (matches_with (\<lambda>_ _ st. (Inr False :: unit + bool, st)) r m c ()) of
        Inr b \<Rightarrow> b
      | Inl _ \<Rightarrow> False)"

section \<open>Lexer\<close>

datatype tok =
    TIdent string
  | TPath string
  | TStr string
  | TInt int
  | TFloat f64
  | TOp compare_op
  | TLParen
  | TRParen

record token =
  tok :: tok
  offset :: nat
  tok_text :: string

definition unexpected :: "token \<Rightarrow> condition_error" where
  "unexpected t = UnexpectedToken (tok_text t) (offset t)"

definition is_blank :: "char \<Rightarrow> bool" where
  "is_blank c \<longleftrightarrow> byte c = 32 \<or> byte c = 9 \<or> byte c = 10 \<or> byte c = 13"

definition continues_bare_segment :: "char \<Rightarrow> bool" where
  "continues_bare_segment c \<longleftrightarrow>
     \<not> (is_blank c \<or> c \<in> set [DOT, CHR ''('', CHR '')'', CHR ''['', CHR '']'', CHR ''='', CHR ''!'',
          CHR ''<'', CHR ''>'', DQ, SQ])"

text \<open>The offset of the first byte from \<open>i\<close> on that does not satisfy \<open>P\<close>.\<close>

definition skip_while :: "(char \<Rightarrow> bool) \<Rightarrow> string \<Rightarrow> nat \<Rightarrow> nat" where
  "skip_while P s i = i + length (takeWhile P (drop i s))"

text \<open>The inner loop over an old-style bracket: to its \<open>]\<close>, quotes honoured.\<close>

function bracket_skip :: "string \<Rightarrow> nat \<Rightarrow> nat" where
  "bracket_skip expr i =
     (if i < length expr \<and> expr ! i \<noteq> CHR '']'' then
        bracket_skip expr
          (if expr ! i = DQ \<or> expr ! i = SQ then
             (case quoted_end expr i of Some e \<Rightarrow> e | None \<Rightarrow> length expr)
           else i + 1)
      else i)"
  by pat_completeness auto
termination
  by (relation "measure (\<lambda>(expr, i). length expr - i)")
    (auto split: option.splits dest!: quoted_end_bounds)

declare bracket_skip.simps [simp del]

lemma bracket_skip_ge: "i \<le> bracket_skip expr i"
proof (induction expr i rule: bracket_skip.induct)
  case (1 expr i)
  define j where "j = (if expr ! i = DQ \<or> expr ! i = SQ then
      (case quoted_end expr i of Some e \<Rightarrow> e | None \<Rightarrow> length expr) else i + 1)"
  show ?case
  proof (cases "i < length expr \<and> expr ! i \<noteq> CHR '']''")
    case True
    then have "i \<le> j" by (auto simp: j_def split: option.splits dest!: quoted_end_bounds)
    moreover have "j \<le> bracket_skip expr j" using 1 True by (simp add: j_def)
    ultimately show ?thesis using True by (simp add: bracket_skip.simps [of expr i] flip: j_def)
  next
    case False
    have "bracket_skip expr i = i" by (subst bracket_skip.simps) (rule if_not_P [OF False])
    then show ?thesis by simp
  qed
qed

function lex_path_rest :: "string \<Rightarrow> nat \<Rightarrow> nat \<Rightarrow> condition_error + nat" where
  "lex_path_rest expr start i =
     (if length expr \<le> i then Inr i
      else if expr ! i = DOT then
        (if i + 1 < length expr \<and> expr ! (i + 1) = DQ then
           (case quoted_end expr (i + 1) of
              None \<Rightarrow> Inl (FieldError start (UnterminatedQuote (drop start expr)))
            | Some e \<Rightarrow> lex_path_rest expr start (skip_while continues_bare_segment expr e))
         else lex_path_rest expr start (skip_while continues_bare_segment expr (i + 1)))
      else if expr ! i = CHR ''['' then
        lex_path_rest expr start (min (bracket_skip expr (i + 1) + 1) (length expr))
      else Inr i)"
  by pat_completeness auto
termination
proof (relation "measure (\<lambda>(expr, start, i). length expr - i)", goal_cases)
  case (4 expr start i)
  then show ?case using bracket_skip_ge [of "i + 1" expr] by auto
qed (auto simp: skip_while_def dest!: quoted_end_bounds)

declare lex_path_rest.simps [simp del]

text \<open>The contents and the end of a quoted string; \<open>i\<close> is the offset of the byte at hand.\<close>

definition string_escape :: "char \<Rightarrow> char" where
  "string_escape c =
     (if c = CHR ''n'' then char_of (10::nat)
      else if c = CHR ''t'' then char_of (9::nat)
      else if c = CHR ''r'' then char_of (13::nat)
      else c)"

fun lex_string_scan :: "char \<Rightarrow> nat \<Rightarrow> string \<Rightarrow> nat \<Rightarrow> condition_error + (string \<times> nat)" where
  "lex_string_scan quote start [] i = Inl (UnterminatedString start)"
| "lex_string_scan quote start (c # cs) i =
     (if c = BSLASH then
        (case cs of
           [] \<Rightarrow> Inl (UnterminatedString start)
         | d # ds \<Rightarrow>
             map_sum id (\<lambda>(out, e). (string_escape d # out, e))
               (lex_string_scan quote start ds (i + 2)))
      else if c = quote then Inr ([], i + 1)
      else map_sum id (\<lambda>(out, e). (c # out, e)) (lex_string_scan quote start cs (i + 1)))"

definition lex_string :: "string \<Rightarrow> nat \<Rightarrow> condition_error + (string \<times> nat)" where
  "lex_string expr start =
     (case drop start expr of
        [] \<Rightarrow> Inl UnexpectedEnd
      | quote # rest \<Rightarrow> lex_string_scan quote start rest (start + 1))"

definition lex_op :: "char \<Rightarrow> char option \<Rightarrow> (compare_op \<times> nat) option" where
  "lex_op c nxt =
     (if c = CHR ''='' \<and> nxt = Some (CHR ''='') then Some (CEq, 2)
      else if c = CHR ''='' \<and> nxt = Some (CHR ''~'') then Some (CMatch, 2)
      else if c = CHR ''!'' \<and> nxt = Some (CHR ''='') then Some (CNe, 2)
      else if c = CHR ''!'' \<and> nxt = Some (CHR ''~'') then Some (CNotMatch, 2)
      else if c = CHR ''<'' \<and> nxt = Some (CHR ''='') then Some (CLe, 2)
      else if c = CHR ''>'' \<and> nxt = Some (CHR ''='') then Some (CGe, 2)
      else if c = CHR ''<'' then Some (CLt, 1)
      else if c = CHR ''>'' then Some (CGt, 1)
      else None)"

definition is_number_char :: "char \<Rightarrow> bool" where
  "is_number_char c \<longleftrightarrow>
     is_ascii_digit c \<or> c \<in> set [CHR ''.'', CHR ''e'', CHR ''E'', CHR ''+'', CHR ''-'']"

definition lex_number :: "string \<Rightarrow> nat \<Rightarrow> condition_error + tok" where
  "lex_number text start =
     (case parse_signed 128 text of
        Some n \<Rightarrow> Inr (TInt n)
      | None \<Rightarrow>
          (case parse_f64 text of
             Some f \<Rightarrow> Inr (TFloat f)
           | None \<Rightarrow> Inl (InvalidNumber text start)))"

text \<open>The token that starts at \<open>i\<close>, a byte that is not blank, and the offset after it.\<close>

definition lex_one :: "string \<Rightarrow> nat \<Rightarrow> condition_error + (tok \<times> nat)" where
  "lex_one expr i =
     (let c = expr ! i;
          nxt = (if i + 1 < length expr then Some (expr ! (i + 1)) else None)
      in if c = CHR ''('' then Inr (TLParen, i + 1)
         else if c = CHR '')'' then Inr (TRParen, i + 1)
         else if c \<in> set [CHR ''='', CHR ''!'', CHR ''<'', CHR ''>''] then
           (case lex_op c nxt of
              Some (op, len) \<Rightarrow> Inr (TOp op, i + len)
            | None \<Rightarrow> Inl (UnexpectedChar [c] i))
         else if c = DQ \<or> c = SQ then
           map_sum id (\<lambda>(s, e). (TStr s, e)) (lex_string expr i)
         else if c = DOT then
           map_sum id (\<lambda>e. (TPath (slice expr i e), e)) (lex_path_rest expr i i)
         else if c = CHR ''-'' \<or> is_ascii_digit c then
           (let e = skip_while is_number_char expr (i + 1)
            in map_sum id (\<lambda>t. (t, e)) (lex_number (slice expr i e) i))
         else if is_ascii_alphabetic c \<or> c = CHR ''_'' then
           (let e = skip_while continues_bare_segment expr (i + 1)
            in if e < length expr \<and> (expr ! e = DOT \<or> expr ! e = CHR ''['') then
                 map_sum id (\<lambda>e. (TPath (slice expr i e), e)) (lex_path_rest expr i e)
               else Inr (TIdent (slice expr i e), e))
         else Inl (UnexpectedChar (utf8_head (drop i expr)) i))"

lemma skip_while_ge [simp]: "i \<le> skip_while P s i"
  by (simp add: skip_while_def)

lemma lex_path_rest_bare:
  assumes "i < length expr" "expr ! i = DOT" "\<not> (i + 1 < length expr \<and> expr ! (i + 1) = DQ)"
  shows "lex_path_rest expr start i =
    lex_path_rest expr start (skip_while continues_bare_segment expr (i + 1))"
proof -
  have "\<not> length expr \<le> i" using assms(1) by simp
  then show ?thesis
    by (subst lex_path_rest.simps) (simp only: if_not_P [OF assms(3)] assms(2) if_False if_True refl)
qed

lemma lex_path_rest_ge: "lex_path_rest expr start i = Inr e \<Longrightarrow> i \<le> e"
proof (induction expr start i rule: lex_path_rest.induct)
  case (1 expr start i)
  note eq = lex_path_rest.simps [of expr start i]
  consider "length expr \<le> i"
    | "i < length expr" "expr ! i = DOT" "i + 1 < length expr" "expr ! (i + 1) = DQ"
    | "i < length expr" "expr ! i = DOT" "\<not> (i + 1 < length expr \<and> expr ! (i + 1) = DQ)"
    | "i < length expr" "expr ! i \<noteq> DOT" "expr ! i = CHR ''[''"
    | "i < length expr" "expr ! i \<noteq> DOT" "expr ! i \<noteq> CHR ''[''"
    by fastforce
  then show ?case
  proof cases
    case 2
    with 1(4) obtain f where f: "quoted_end expr (i + 1) = Some f"
      by (auto simp: eq split: option.splits)
    let ?k = "skip_while continues_bare_segment expr f"
    have "?k \<le> e" using 1(1) [of f] 1(4) 2 f by (simp add: eq)
    moreover have "i + 1 < f" using quoted_end_bounds [OF f] by simp
    moreover have "f \<le> ?k" by (rule skip_while_ge)
    ultimately show ?thesis by linarith
  next
    case 3
    let ?k = "skip_while continues_bare_segment expr (i + 1)"
    have "?k \<le> e"
      using 1(2) [OF _ 3(2) 3(3)] 1(4) 3(1) unfolding lex_path_rest_bare [OF 3] by simp
    moreover have "i + 1 \<le> ?k" by (rule skip_while_ge)
    ultimately show ?thesis by linarith
  next
    case 4
    let ?k = "min (bracket_skip expr (i + 1) + 1) (length expr)"
    have "?k \<le> e" using 1(3) 1(4) 4 by (simp add: eq)
    moreover have "i \<le> ?k" using 4 bracket_skip_ge [of "i + 1" expr] by simp
    ultimately show ?thesis by linarith
  qed (use 1(4) in \<open>simp_all add: eq\<close>)
qed

lemma lex_path_rest_gt:
  assumes "lex_path_rest expr start i = Inr e" "i < length expr" "expr ! i = DOT"
  shows "i < e"
proof (cases "i + 1 < length expr \<and> expr ! (i + 1) = DQ")
  case True
  with assms obtain f where f: "quoted_end expr (i + 1) = Some f"
    by (auto simp: lex_path_rest.simps [of expr start i] split: option.splits)
  let ?k = "skip_while continues_bare_segment expr f"
  have "lex_path_rest expr start ?k = Inr e"
    using assms True f by (simp add: lex_path_rest.simps [of expr start i])
  then have "?k \<le> e" by (rule lex_path_rest_ge)
  moreover have "i + 1 < f" using quoted_end_bounds [OF f] by simp
  moreover have "f \<le> ?k" by (rule skip_while_ge)
  ultimately show ?thesis by linarith
next
  case False
  let ?k = "skip_while continues_bare_segment expr (i + 1)"
  have "lex_path_rest expr start ?k = Inr e"
    using assms(1) unfolding lex_path_rest_bare [OF assms(2,3) False] .
  then have "?k \<le> e" by (rule lex_path_rest_ge)
  moreover have "i + 1 \<le> ?k" by (rule skip_while_ge)
  ultimately show ?thesis by linarith
qed

lemma lex_string_scan_gt: "lex_string_scan q start cs i = Inr (out, e) \<Longrightarrow> i < e"
  by (induction q start cs i arbitrary: out rule: lex_string_scan.induct)
    (fastforce split: if_splits list.splits simp: map_sum_Inr_iff)+

lemma lex_one_gt:
  assumes "i < length expr" "lex_one expr i = Inr (t, e)"
  shows "i < e"
proof -
  have *: "i < skip_while P expr (i + 1)" for P
    using skip_while_ge [of "i + 1" P expr] by linarith
  have s: "lex_string expr i = Inr (u, e) \<Longrightarrow> i < e" for u
    by (auto simp: lex_string_def dest!: lex_string_scan_gt split: list.splits)
  have o: "lex_op c n = Some (op, len) \<Longrightarrow> 0 < len" for c n op len
    by (auto simp: lex_op_def split: if_splits)
  have r: "lex_path_rest expr i (skip_while P expr (i + 1)) = Inr e \<Longrightarrow> i < e" for P
    using * [of P] lex_path_rest_ge less_le_trans by blast
  show ?thesis
    using assms unfolding lex_one_def Let_def
    by (auto simp: map_sum_Inr_iff split: if_splits option.splits
        dest: o s r [simplified] lex_path_rest_gt intro: * [simplified])
qed

function lex_loop :: "string \<Rightarrow> nat \<Rightarrow> condition_error + token list" where
  "lex_loop expr i =
     (if length expr \<le> i then Inr []
      else if is_blank (expr ! i) then lex_loop expr (i + 1)
      else
        (case lex_one expr i of
           Inl e \<Rightarrow> Inl e
         | Inr (t, j) \<Rightarrow>
             map_sum id (Cons \<lparr>tok = t, offset = i, tok_text = slice expr i j\<rparr>)
               (lex_loop expr j)))"
  by pat_completeness auto
termination
  by (relation "measure (\<lambda>(expr, i). length expr - i)")
    (auto dest!: lex_one_gt [rotated] simp: not_le)

declare lex_loop.simps [simp del]

definition lex :: "string \<Rightarrow> condition_error + token list" where
  "lex expr = lex_loop expr 0"

section \<open>Parser\<close>

definition peek_keyword :: "string \<Rightarrow> token list \<Rightarrow> bool" where
  "peek_keyword kw ts = (case ts of t # _ \<Rightarrow> tok t = TIdent kw | [] \<Rightarrow> False)"

definition is_regex_op :: "compare_op \<Rightarrow> bool" where
  "is_regex_op op \<longleftrightarrow> op = CMatch \<or> op = CNotMatch"

fun is_str :: "literal \<Rightarrow> bool" where
  "is_str (LStr _) = True"
| "is_str _ = False"

fun literal_of :: "tok \<Rightarrow> literal option" where
  "literal_of (TStr s) = Some (LStr s)"
| "literal_of (TInt n) = Some (LInt n)"
| "literal_of (TFloat f) = Some (LFloat f)"
| "literal_of (TIdent kw) =
     (if kw = ''true'' then Some (LBool True)
      else if kw = ''false'' then Some (LBool False)
      else if kw = ''null'' then Some LNull
      else None)"
| "literal_of _ = None"

type_synonym 'a parsed = "condition_error + ('a \<times> token list)"

fun p_literal :: "token list \<Rightarrow> literal parsed" where
  "p_literal [] = Inl UnexpectedEnd"
| "p_literal (t # ts) =
     (case literal_of (tok t) of Some l \<Rightarrow> Inr (l, ts) | None \<Rightarrow> Inl (unexpected t))"

text \<open>\<open>primary\<close> after its first token \<open>t\<close>, when that one is a name or a path.\<close>

definition p_compare :: "token \<Rightarrow> string \<Rightarrow> token list \<Rightarrow> condition parsed" where
  "p_compare t name ts =
     (case path_parse name of
        Inl e \<Rightarrow> Inl (FieldError (offset t) e)
      | Inr field \<Rightarrow>
          (case ts of
             [] \<Rightarrow> Inl UnexpectedEnd
           | u # ts \<Rightarrow>
               (case tok u of
                  TOp op \<Rightarrow>
                    (let literal_offset = (case ts of [] \<Rightarrow> 0 | v # _ \<Rightarrow> offset v) in
                     case p_literal ts of
                       Inl e \<Rightarrow> Inl e
                     | Inr (literal, ts) \<Rightarrow>
                         if is_regex_op op \<and> \<not> is_str literal
                         then Inl (RegexNeedsString literal_offset)
                         else Inr (Compare field op literal, ts))
                | _ \<Rightarrow> Inl (unexpected u))))"

text \<open>The code's \<open>?\<close>; \<open>None\<close> is a run out of fuel.\<close>

definition pbind ::
  "'a parsed option \<Rightarrow> ('a \<Rightarrow> token list \<Rightarrow> 'b parsed option) \<Rightarrow> 'b parsed option" where
  "pbind r f =
     (case r of
        None \<Rightarrow> None
      | Some (Inl e) \<Rightarrow> Some (Inl e)
      | Some (Inr (x, ts)) \<Rightarrow> f x ts)"

fun p_or :: "nat \<Rightarrow> token list \<Rightarrow> condition parsed option"
and p_or_loop :: "nat \<Rightarrow> condition \<Rightarrow> token list \<Rightarrow> condition parsed option"
and p_and :: "nat \<Rightarrow> token list \<Rightarrow> condition parsed option"
and p_and_loop :: "nat \<Rightarrow> condition \<Rightarrow> token list \<Rightarrow> condition parsed option"
and p_not :: "nat \<Rightarrow> token list \<Rightarrow> condition parsed option"
and p_primary :: "nat \<Rightarrow> token list \<Rightarrow> condition parsed option"
where
  "p_or 0 ts = None"
| "p_or (Suc n) ts = pbind (p_and n ts) (\<lambda>left ts. p_or_loop n left ts)"
| "p_or_loop 0 left ts = None"
| "p_or_loop (Suc n) left ts =
     (if peek_keyword ''or'' ts then
        pbind (p_and n (tl ts)) (\<lambda>right ts. p_or_loop n (COr left right) ts)
      else Some (Inr (left, ts)))"
| "p_and 0 ts = None"
| "p_and (Suc n) ts = pbind (p_not n ts) (\<lambda>left ts. p_and_loop n left ts)"
| "p_and_loop 0 left ts = None"
| "p_and_loop (Suc n) left ts =
     (if peek_keyword ''and'' ts then
        pbind (p_not n (tl ts)) (\<lambda>right ts. p_and_loop n (CAnd left right) ts)
      else Some (Inr (left, ts)))"
| "p_not 0 ts = None"
| "p_not (Suc n) ts =
     (if peek_keyword ''not'' ts then pbind (p_not n (tl ts)) (\<lambda>c ts. Some (Inr (CNot c, ts)))
      else p_primary n ts)"
| "p_primary 0 ts = None"
| "p_primary (Suc n) ts =
     (case ts of
        [] \<Rightarrow> Some (Inl UnexpectedEnd)
      | t # ts \<Rightarrow>
          (case tok t of
             TLParen \<Rightarrow>
               pbind (p_or n ts) (\<lambda>inner ts.
                 case ts of
                   [] \<Rightarrow> Some (Inl UnexpectedEnd)
                 | u # ts \<Rightarrow>
                     if tok u = TRParen then Some (Inr (inner, ts)) else Some (Inl (unexpected u)))
           | TIdent name \<Rightarrow> Some (p_compare t name ts)
           | TPath name \<Rightarrow> Some (p_compare t name ts)
           | _ \<Rightarrow> Some (Inl (unexpected t))))"

definition parser_fuel :: "token list \<Rightarrow> nat" where
  "parser_fuel ts = 6 * length ts + 6"

definition parse_tokens :: "token list \<Rightarrow> (condition_error + condition) option" where
  "parse_tokens ts =
     (case p_or (parser_fuel ts) ts of
        None \<Rightarrow> None
      | Some (Inl e) \<Rightarrow> Some (Inl e)
      | Some (Inr (c, [])) \<Rightarrow> Some (Inr c)
      | Some (Inr (c, t # _)) \<Rightarrow> Some (Inl (unexpected t)))"

definition condition_parse :: "string \<Rightarrow> (condition_error + condition) option" where
  "condition_parse expr =
     (case lex expr of Inl e \<Rightarrow> Some (Inl e) | Inr tokens \<Rightarrow> parse_tokens tokens)"

end
