(* ===== verification/Condition_Laws.thy ===== *)
theory Condition_Laws
  imports Condition Path_Laws "HOL-Library.Sublist"
begin

text \<open>
  What holds of \<open>crates/core/src/condition.rs\<close>: the parser never runs out of the fuel it is given
  and accepts exactly the grammar of the module comment; evaluation is the truth value of the
  condition, asks the match function only for patterns \<open>regex_patterns\<close> lists, and stops at
  its first error.
\<close>

section \<open>The fuel is enough\<close>

text \<open>A parser step ends on some fuel, and what it leaves is shorter by at least \<open>k\<close> tokens.\<close>

definition ends_within :: "nat \<Rightarrow> token list \<Rightarrow> 'a parsed option \<Rightarrow> bool" where
  "ends_within k ts r \<longleftrightarrow>
     (\<exists>v. r = Some v \<and> (\<forall>c ts'. v = Inr (c, ts') \<longrightarrow> length ts' + k \<le> length ts))"

lemma ends_within_Some [simp]:
  "ends_within k ts (Some (Inl e))"
  "ends_within k ts (Some (Inr (c, ts'))) \<longleftrightarrow> length ts' + k \<le> length ts"
  by (auto simp: ends_within_def)

lemma ends_within_weaken: "ends_within k us r \<Longrightarrow> length us + l \<le> length ts + k \<Longrightarrow> ends_within l ts r"
  by (fastforce simp: ends_within_def)

lemma ends_within_pbind:
  assumes "ends_within 1 us r" "length us \<le> length ts" "k \<le> 1"
    and "\<And>c ts'. length ts' < length us \<Longrightarrow> ends_within 0 ts' (f c ts')"
  shows "ends_within k ts (pbind r f)"
proof -
  obtain v where v: "r = Some v" "\<And>c ts'. v = Inr (c, ts') \<Longrightarrow> length ts' < length us"
    using assms(1) unfolding ends_within_def
    by (metis Suc_eq_plus1 Suc_le_lessD)
  show ?thesis
  proof (cases v)
    case (Inr w)
    obtain c ts' where w: "w = (c, ts')" by (cases w)
    from v Inr w have lt: "length ts' < length us" by simp
    from assms(4) [OF this] have "ends_within k ts (f c ts')"
      by (rule ends_within_weaken) (use lt assms(2,3) in linarith)
    with v Inr w show ?thesis by (simp add: pbind_def)
  qed (simp add: v pbind_def ends_within_def)
qed

lemma p_literal_shorter: "p_literal ts = Inr (l, ts') \<Longrightarrow> length ts' < length ts"
  by (cases ts) (auto split: option.splits)

lemma p_compare_shorter: "p_compare t name ts = Inr (c, ts') \<Longrightarrow> length ts' < length ts"
  by (auto simp: p_compare_def Let_def split: sum.splits list.splits tok.splits if_splits
      dest!: p_literal_shorter simp del: p_literal.simps)

lemma peek_keyword_Cons: "peek_keyword kw ts \<Longrightarrow> \<exists>t us. ts = t # us \<and> tok t = TIdent kw"
  by (auto simp: peek_keyword_def split: list.splits)

lemma parser_ends:
  "6 * length ts + 6 \<le> n \<Longrightarrow> ends_within 1 ts (p_or n ts)"
  "6 * length ts + 5 \<le> n \<Longrightarrow> ends_within 0 ts (p_or_loop n c ts)"
  "6 * length ts + 4 \<le> n \<Longrightarrow> ends_within 1 ts (p_and n ts)"
  "6 * length ts + 3 \<le> n \<Longrightarrow> ends_within 0 ts (p_and_loop n c ts)"
  "6 * length ts + 2 \<le> n \<Longrightarrow> ends_within 1 ts (p_not n ts)"
  "6 * length ts + 1 \<le> n \<Longrightarrow> ends_within 1 ts (p_primary n ts)"
proof (induction n ts and n c ts and n ts and n c ts and n ts and n ts
    rule: p_or_p_or_loop_p_and_p_and_loop_p_not_p_primary.induct)
  case (2 n ts)
  then show ?case by (auto intro!: ends_within_pbind [where us = ts])
next
  case (4 n left ts)
  show ?case
  proof (cases "peek_keyword ''or'' ts")
    case True
    then obtain t us where "ts = t # us" using peek_keyword_Cons by blast
    with 4 True show ?thesis by (auto intro!: ends_within_pbind [where us = us])
  qed (simp add: ends_within_def)
next
  case (6 n ts)
  then show ?case by (auto intro!: ends_within_pbind [where us = ts])
next
  case (8 n left ts)
  show ?case
  proof (cases "peek_keyword ''and'' ts")
    case True
    then obtain t us where "ts = t # us" using peek_keyword_Cons by blast
    with 8 True show ?thesis by (auto intro!: ends_within_pbind [where us = us])
  qed (simp add: ends_within_def)
next
  case (10 n ts)
  show ?case
  proof (cases "peek_keyword ''not'' ts")
    case True
    then obtain t us where "ts = t # us" using peek_keyword_Cons by blast
    with 10 True show ?thesis
      by (auto intro!: ends_within_pbind [where us = us])
  next
    case False
    with 10(2) [OF False] 10(3) show ?thesis by simp
  qed
next
  case (12 n ts)
  show ?case
  proof (cases ts)
    case (Cons t us)
    show ?thesis
    proof (cases "tok t")
      case TLParen
      with 12 Cons have "ends_within 1 us (p_or n us)" by simp
      then show ?thesis using TLParen Cons
        by (auto intro!: ends_within_pbind [where us = us] split: list.splits)
    qed (use Cons in \<open>auto simp: ends_within_def dest!: p_compare_shorter\<close>)
  qed (simp add: ends_within_def)
qed auto

lemma p_or_ends: "\<exists>v. p_or (parser_fuel ts) ts = Some v"
  using parser_ends(1) [of ts "parser_fuel ts"] by (auto simp: ends_within_def parser_fuel_def)

lemma parse_tokens_ends: "\<exists>v. parse_tokens ts = Some v"
  using p_or_ends [of ts]
  by (auto simp: parse_tokens_def split: sum.splits list.splits prod.splits)

section \<open>The grammar\<close>

definition name_of :: "tok \<Rightarrow> string option" where
  "name_of t = (case t of TIdent n \<Rightarrow> Some n | TPath n \<Rightarrow> Some n | _ \<Rightarrow> None)"

text \<open>The grammar of the module comment over tokens. The last rule makes explicit what the
  comment leaves open: a comparison cannot start with the bare word \<open>not\<close>, and the two regex
  operators take a string.\<close>

inductive g_or :: "condition \<Rightarrow> token list \<Rightarrow> bool"
  and g_and :: "condition \<Rightarrow> token list \<Rightarrow> bool"
  and g_not :: "condition \<Rightarrow> token list \<Rightarrow> bool"
  and g_primary :: "condition \<Rightarrow> token list \<Rightarrow> bool"
where
  or_one: "g_and c ts \<Longrightarrow> g_or c ts"
| or_more:
    "g_or a ts \<Longrightarrow> tok k = TIdent ''or'' \<Longrightarrow> g_and b us \<Longrightarrow> g_or (COr a b) (ts @ k # us)"
| and_one: "g_not c ts \<Longrightarrow> g_and c ts"
| and_more:
    "g_and a ts \<Longrightarrow> tok k = TIdent ''and'' \<Longrightarrow> g_not b us \<Longrightarrow> g_and (CAnd a b) (ts @ k # us)"
| not_one: "g_primary c ts \<Longrightarrow> g_not c ts"
| not_more: "tok k = TIdent ''not'' \<Longrightarrow> g_not c ts \<Longrightarrow> g_not (CNot c) (k # ts)"
| paren: "tok l = TLParen \<Longrightarrow> g_or c ts \<Longrightarrow> tok r = TRParen \<Longrightarrow> g_primary c (l # ts @ [r])"
| comparison:
    "name_of (tok t) = Some name \<Longrightarrow> tok t \<noteq> TIdent ''not'' \<Longrightarrow> path_parse name = Inr f \<Longrightarrow>
     tok u = TOp op \<Longrightarrow> literal_of (tok v) = Some l \<Longrightarrow> (is_regex_op op \<Longrightarrow> is_str l) \<Longrightarrow>
     g_primary (Compare f op l) [t, u, v]"

lemma pbind_Inr:
  "pbind r f = Some (Inr (c, us)) \<longleftrightarrow> (\<exists>x ts. r = Some (Inr (x, ts)) \<and> f x ts = Some (Inr (c, us)))"
  by (auto simp: pbind_def split: option.splits sum.splits)

lemma p_compare_Inr:
  "p_compare t name ts = Inr (c, r) \<longleftrightarrow>
     (\<exists>f u op v l. path_parse name = Inr f \<and> ts = u # v # r \<and> tok u = TOp op
        \<and> literal_of (tok v) = Some l \<and> (is_regex_op op \<longrightarrow> is_str l) \<and> c = Compare f op l)"
  by (auto simp: p_compare_def Let_def split: sum.splits list.splits tok.splits option.splits if_splits)

lemma parser_sound:
  "p_or n ts = Some (Inr (c, r)) \<Longrightarrow> \<exists>us. ts = us @ r \<and> g_or c us"
  "p_or_loop n a ts = Some (Inr (c, r)) \<Longrightarrow> \<exists>us. ts = us @ r \<and> (\<forall>ls. g_or a ls \<longrightarrow> g_or c (ls @ us))"
  "p_and n ts = Some (Inr (c, r)) \<Longrightarrow> \<exists>us. ts = us @ r \<and> g_and c us"
  "p_and_loop n a ts = Some (Inr (c, r)) \<Longrightarrow>
     \<exists>us. ts = us @ r \<and> (\<forall>ls. g_and a ls \<longrightarrow> g_and c (ls @ us))"
  "p_not n ts = Some (Inr (c, r)) \<Longrightarrow> \<exists>us. ts = us @ r \<and> g_not c us"
  "p_primary n ts = Some (Inr (c, r)) \<Longrightarrow> \<not> peek_keyword ''not'' ts \<Longrightarrow>
     \<exists>us. ts = us @ r \<and> g_primary c us"
proof (induction n ts and n a ts and n ts and n a ts and n ts and n ts arbitrary: c r and c r and c r
    and c r and c r and c r rule: p_or_p_or_loop_p_and_p_and_loop_p_not_p_primary.induct)
  case (2 n ts)
  from 2(3) obtain x us where a: "p_and n ts = Some (Inr (x, us))" and
    l: "p_or_loop n x us = Some (Inr (c, r))" by (auto simp: pbind_Inr)
  from 2(1) [OF a] 2(2) [OF l] show ?case by (auto intro: or_one)
next
  case (4 n left ts)
  show ?case
  proof (cases "peek_keyword ''or'' ts")
    case True
    then obtain k us where ts: "ts = k # us" "tok k = TIdent ''or''" using peek_keyword_Cons by blast
    from 4(3) True ts obtain x vs where a: "p_and n us = Some (Inr (x, vs))" and
      l: "p_or_loop n (COr left x) vs = Some (Inr (c, r))" by (auto simp: pbind_Inr)
    from 4(1) [OF True, of x vs] ts a obtain ws where ws: "us = ws @ vs" "g_and x ws" by auto
    from 4(2) [OF True l] obtain ys where
      ys: "vs = ys @ r" "\<And>ls. g_or (COr left x) ls \<Longrightarrow> g_or c (ls @ ys)" by auto
    have "g_or c (ls @ k # ws @ ys)" if "g_or left ls" for ls
      using ys(2) [OF or_more [OF that ts(2) ws(2)]] by simp
    with ts ws ys show ?thesis by (intro exI [of _ "k # ws @ ys"]) simp
  qed (use 4(3) in simp)
next
  case (6 n ts)
  from 6(3) obtain x us where a: "p_not n ts = Some (Inr (x, us))" and
    l: "p_and_loop n x us = Some (Inr (c, r))" by (auto simp: pbind_Inr)
  from 6(1) [OF a] 6(2) [OF l] show ?case by (auto intro: and_one)
next
  case (8 n left ts)
  show ?case
  proof (cases "peek_keyword ''and'' ts")
    case True
    then obtain k us where ts: "ts = k # us" "tok k = TIdent ''and''" using peek_keyword_Cons by blast
    from 8(3) True ts obtain x vs where a: "p_not n us = Some (Inr (x, vs))" and
      l: "p_and_loop n (CAnd left x) vs = Some (Inr (c, r))" by (auto simp: pbind_Inr)
    from 8(1) [OF True, of x vs] ts a obtain ws where ws: "us = ws @ vs" "g_not x ws" by auto
    from 8(2) [OF True l] obtain ys where
      ys: "vs = ys @ r" "\<And>ls. g_and (CAnd left x) ls \<Longrightarrow> g_and c (ls @ ys)" by auto
    have "g_and c (ls @ k # ws @ ys)" if "g_and left ls" for ls
      using ys(2) [OF and_more [OF that ts(2) ws(2)]] by simp
    with ts ws ys show ?thesis by (intro exI [of _ "k # ws @ ys"]) simp
  qed (use 8(3) in simp)
next
  case (10 n ts)
  show ?case
  proof (cases "peek_keyword ''not'' ts")
    case True
    then obtain k us where ts: "ts = k # us" "tok k = TIdent ''not''" using peek_keyword_Cons by blast
    from 10(3) True ts obtain x where "p_not n us = Some (Inr (x, r))" "c = CNot x"
      by (auto simp: pbind_Inr)
    with 10(1) [OF True] ts show ?thesis by (fastforce intro: not_more)
  next
    case False
    with 10(2) [OF False _ False] 10(3) show ?thesis by (auto intro: not_one)
  qed
next
  case (12 n ts)
  show ?case
  proof (cases ts)
    case (Cons t us)
    note prem = 12(2) [unfolded Cons]
    have compare: ?thesis if "name_of (tok t) = Some name" "p_compare t name us = Inr (c, r)" for name
    proof -
      from that(2) obtain f u op v l where p: "path_parse name = Inr f" "us = u # v # r"
        "tok u = TOp op" "literal_of (tok v) = Some l" "is_regex_op op \<longrightarrow> is_str l"
        "c = Compare f op l" by (auto simp: p_compare_Inr)
      have "g_primary c [t, u, v]" unfolding p(6)
        by (rule comparison [OF that(1) _ p(1,3,4)]) (use p(5) 12(3) Cons in \<open>auto simp: peek_keyword_def\<close>)
      then show ?thesis using p(2) Cons by (intro exI [of _ "[t, u, v]"]) simp
    qed
    show ?thesis
    proof (cases "tok t")
      case TLParen
      with prem obtain x ys where x: "p_or n us = Some (Inr (x, ys))" and
        y: "(case ys of [] \<Rightarrow> Some (Inl UnexpectedEnd)
          | u # ts \<Rightarrow> if tok u = TRParen then Some (Inr (x, ts)) else Some (Inl (unexpected u)))
          = Some (Inr (c, r))"
        by (auto simp: pbind_Inr)
      from x y obtain v where "p_or n us = Some (Inr (c, v # r))" "tok v = TRParen"
        by (cases ys) (auto split: if_splits)
      with 12(1) [OF Cons TLParen] TLParen Cons show ?thesis by (fastforce intro: paren)
    qed (use prem compare in \<open>auto simp: name_of_def\<close>)
  qed (use 12(2) in simp)
qed auto

lemma pbind_mono:
  assumes "pbind r f = Some v" "\<And>w. r = Some w \<Longrightarrow> r' = Some w"
    and "\<And>x ts. f x ts = Some v \<Longrightarrow> f' x ts = Some v"
  shows "pbind r' f' = Some v"
  using assms by (auto simp: pbind_def split: option.splits sum.splits)

lemma parser_mono:
  "p_or n ts = Some v \<Longrightarrow> n \<le> m \<Longrightarrow> p_or m ts = Some v"
  "p_or_loop n a ts = Some v \<Longrightarrow> n \<le> m \<Longrightarrow> p_or_loop m a ts = Some v"
  "p_and n ts = Some v \<Longrightarrow> n \<le> m \<Longrightarrow> p_and m ts = Some v"
  "p_and_loop n a ts = Some v \<Longrightarrow> n \<le> m \<Longrightarrow> p_and_loop m a ts = Some v"
  "p_not n ts = Some v \<Longrightarrow> n \<le> m \<Longrightarrow> p_not m ts = Some v"
  "p_primary n ts = Some v \<Longrightarrow> n \<le> m \<Longrightarrow> p_primary m ts = Some v"
proof (induction n ts and n a ts and n ts and n a ts and n ts and n ts arbitrary: v m and v m and v m
    and v m and v m and v m rule: p_or_p_or_loop_p_and_p_and_loop_p_not_p_primary.induct)
  case (2 n ts)
  from 2(4) obtain k where m: "m = Suc k" "n \<le> k" by (cases m) auto
  from 2(3) show ?case unfolding m p_or.simps
    by (rule pbind_mono) (use 2(1,2) m in blast)+
next
  case (4 n left ts)
  from 4(4) obtain k where m: "m = Suc k" "n \<le> k" by (cases m) auto
  show ?case
  proof (cases "peek_keyword ''or'' ts")
    case True
    from 4(3) show ?thesis unfolding m p_or_loop.simps if_P [OF True]
      by (rule pbind_mono) (use 4(1,2) True m in blast)+
  qed (use 4(3) in \<open>simp add: m\<close>)
next
  case (6 n ts)
  from 6(4) obtain k where m: "m = Suc k" "n \<le> k" by (cases m) auto
  from 6(3) show ?case unfolding m p_and.simps
    by (rule pbind_mono) (use 6(1,2) m in blast)+
next
  case (8 n left ts)
  from 8(4) obtain k where m: "m = Suc k" "n \<le> k" by (cases m) auto
  show ?case
  proof (cases "peek_keyword ''and'' ts")
    case True
    from 8(3) show ?thesis unfolding m p_and_loop.simps if_P [OF True]
      by (rule pbind_mono) (use 8(1,2) True m in blast)+
  qed (use 8(3) in \<open>simp add: m\<close>)
next
  case (10 n ts)
  from 10(4) obtain k where m: "m = Suc k" "n \<le> k" by (cases m) auto
  show ?case
  proof (cases "peek_keyword ''not'' ts")
    case True
    from 10(3) show ?thesis unfolding m p_not.simps if_P [OF True]
      by (rule pbind_mono) (use 10(1) True m in blast)+
  next
    case False
    from 10(3) False have "p_primary n ts = Some v" by simp
    from 10(2) [OF False this m(2)] False show ?thesis by (simp add: m)
  qed
next
  case (12 n ts)
  from 12(3) obtain k where m: "m = Suc k" "n \<le> k" by (cases m) auto
  show ?case
  proof (cases ts)
    case (Cons t us)
    show ?thesis
    proof (cases "tok t")
      case TLParen
      from 12(2) show ?thesis unfolding m p_primary.simps Cons list.case TLParen tok.case
        by (rule pbind_mono) (use 12(1) [OF Cons TLParen] m in blast)+
    qed (use 12(2) Cons in \<open>simp_all add: m\<close>)
  qed (use 12(2) in \<open>simp add: m\<close>)
qed (simp_all only: p_or.simps p_and.simps p_not.simps p_or_loop.simps p_and_loop.simps
  p_primary.simps option.distinct)

text \<open>A token list that does not go on with a keyword.\<close>

lemma peek_keyword_Nil [simp]: "\<not> peek_keyword kw []"
  and peek_keyword_Cons_iff [simp]: "peek_keyword kw (t # ts) \<longleftrightarrow> tok t = TIdent kw"
  by (simp_all add: peek_keyword_def)

lemma p_loops_stop:
  "\<not> peek_keyword ''or'' r \<Longrightarrow> p_or_loop (Suc 0) c r = Some (Inr (c, r))"
  "\<not> peek_keyword ''and'' r \<Longrightarrow> p_and_loop (Suc 0) c r = Some (Inr (c, r))"
  by simp_all

lemma p_and_step:
  assumes "p_not n ts = Some (Inr (c, r))" "p_and_loop m c r = Some v"
  shows "p_and (Suc (max n m)) ts = Some v"
  using parser_mono(5) [OF assms(1), of "max n m"] parser_mono(4) [OF assms(2), of "max n m"]
  by (simp add: pbind_def)

lemma p_or_step:
  assumes "p_and n ts = Some (Inr (c, r))" "p_or_loop m c r = Some v"
  shows "p_or (Suc (max n m)) ts = Some v"
  using parser_mono(3) [OF assms(1), of "max n m"] parser_mono(2) [OF assms(2), of "max n m"]
  by (simp add: pbind_def)

lemma p_and_loop_step:
  assumes "tok k = TIdent ''and''" "p_not n ts = Some (Inr (c, r))" "p_and_loop m (CAnd a c) r = Some v"
  shows "p_and_loop (Suc (max n m)) a (k # ts) = Some v"
  using parser_mono(5) [OF assms(2), of "max n m"] parser_mono(4) [OF assms(3), of "max n m"] assms(1)
  by (simp add: pbind_def)

lemma p_or_loop_step:
  assumes "tok k = TIdent ''or''" "p_and n ts = Some (Inr (c, r))" "p_or_loop m (COr a c) r = Some v"
  shows "p_or_loop (Suc (max n m)) a (k # ts) = Some v"
  using parser_mono(3) [OF assms(2), of "max n m"] parser_mono(2) [OF assms(3), of "max n m"] assms(1)
  by (simp add: pbind_def)

lemma g_starts:
  "g_or c ts \<Longrightarrow> ts \<noteq> []"
  "g_and c ts \<Longrightarrow> ts \<noteq> []"
  "g_not c ts \<Longrightarrow> ts \<noteq> []"
  "g_primary c ts \<Longrightarrow> ts \<noteq> [] \<and> \<not> peek_keyword ''not'' (ts @ r)"
  by (induction rule: g_or_g_and_g_not_g_primary.inducts) auto

text \<open>Completeness, by continuation: a phrase is read off the front of the tokens, and the loop
  around it goes on with the rest.\<close>

lemma parser_complete:
  "g_or c ts \<Longrightarrow> \<not> peek_keyword ''and'' r \<Longrightarrow> (\<exists>n. p_or_loop n c r = Some v) \<Longrightarrow>
     \<exists>n. p_or n (ts @ r) = Some v"
  "g_and c ts \<Longrightarrow> (\<exists>n. p_and_loop n c r = Some v) \<Longrightarrow> \<exists>n. p_and n (ts @ r) = Some v"
  "g_not c ts \<Longrightarrow> \<exists>n. p_not n (ts @ r) = Some (Inr (c, r))"
  "g_primary c ts \<Longrightarrow> \<exists>n. p_primary n (ts @ r) = Some (Inr (c, r))"
proof (induction arbitrary: r v and r v and r and r rule: g_or_g_and_g_not_g_primary.inducts)
  case (or_one c ts)
  from or_one.IH [of r "Inr (c, r)"] p_loops_stop(2) [OF or_one.prems(1)]
  obtain n where "p_and n (ts @ r) = Some (Inr (c, r))" by blast
  with or_one.prems(2) p_or_step show ?case by blast
next
  case (or_more a ts k b us)
  from or_more.IH(2) [of r "Inr (b, r)"] p_loops_stop(2) [OF or_more.prems(1)]
  obtain n where "p_and n (us @ r) = Some (Inr (b, r))" by blast
  with or_more.prems(2) p_or_loop_step [OF or_more.hyps(2)]
  have "\<exists>n. p_or_loop n a (k # us @ r) = Some v" by blast
  with or_more.IH(1) [of "k # us @ r" v] or_more.hyps(2) show ?case by simp
next
  case (and_one c ts)
  then show ?case using p_and_step by blast
next
  case (and_more a ts k b us)
  from and_more.IH(2) [of r] obtain n where "p_not n (us @ r) = Some (Inr (b, r))" by blast
  with and_more.prems p_and_loop_step [OF and_more.hyps(2)]
  have "\<exists>n. p_and_loop n a (k # us @ r) = Some v" by blast
  with and_more.IH(1) [of "k # us @ r" v] show ?case by simp
next
  case (not_one c ts)
  then obtain n where "p_primary n (ts @ r) = Some (Inr (c, r))" by blast
  with g_starts(4) [OF not_one.hyps, of r] have "p_not (Suc n) (ts @ r) = Some (Inr (c, r))" by simp
  then show ?case by blast
next
  case (not_more k c ts)
  then obtain n where "p_not n (ts @ r) = Some (Inr (c, r))" by blast
  with not_more.hyps(1) have "p_not (Suc n) ((k # ts) @ r) = Some (Inr (CNot c, r))"
    by (simp add: pbind_def)
  then show ?case by blast
next
  case (paren l c ts k)
  from paren.IH [of "k # r" "Inr (c, k # r)"] paren.hyps(3) p_loops_stop(1) [of "k # r" c]
  obtain n where "p_or n (ts @ k # r) = Some (Inr (c, k # r))" by fastforce
  with paren.hyps have "p_primary (Suc n) ((l # ts @ [k]) @ r) = Some (Inr (c, r))"
    by (simp add: pbind_def)
  then show ?case by blast
next
  case (comparison t name f u op v l)
  then have "p_compare t name (u # v # r) = Inr (Compare f op l, r)" by (simp add: p_compare_Inr)
  with comparison(1) have "p_primary (Suc 0) ([t, u, v] @ r) = Some (Inr (Compare f op l, r))"
    by (auto simp: name_of_def split: tok.splits)
  then show ?case by blast
qed

lemma parse_tokens_grammar: "parse_tokens ts = Some (Inr c) \<longleftrightarrow> g_or c ts"
proof
  assume "parse_tokens ts = Some (Inr c)"
  then have "p_or (parser_fuel ts) ts = Some (Inr (c, []))"
    by (auto simp: parse_tokens_def split: option.splits sum.splits list.splits prod.splits)
  from parser_sound(1) [OF this] show "g_or c ts" by simp
next
  assume "g_or c ts"
  from parser_complete(1) [OF this, of "[]" "Inr (c, [])"] p_loops_stop(1) [of "[]" c]
  obtain n where n: "p_or n ts = Some (Inr (c, []))" by fastforce
  obtain v where v: "p_or (parser_fuel ts) ts = Some v" using p_or_ends by blast
  from parser_mono(1) [OF n, of "max n (parser_fuel ts)"]
    parser_mono(1) [OF v, of "max n (parser_fuel ts)"] have "v = Inr (c, [])" by simp
  with v show "parse_tokens ts = Some (Inr c)" by (simp add: parse_tokens_def)
qed

section \<open>Evaluation\<close>

text \<open>The truth value of a condition, when \<open>rx pattern text\<close> is whether a pattern matches.\<close>

fun holds :: "(string \<Rightarrow> string \<Rightarrow> bool) \<Rightarrow> rec_value \<Rightarrow> meta \<Rightarrow> condition \<Rightarrow> bool" where
  "holds rx r m (Compare f op l) =
     (case regex_leaf op l of
        Some p \<Rightarrow>
          (op = CMatch) = (case path_read f r m of FStr text \<Rightarrow> rx p text | _ \<Rightarrow> False)
      | None \<Rightarrow> compare_field (path_read f r m) op l)"
| "holds rx r m (CAnd a b) = (holds rx r m a \<and> holds rx r m b)"
| "holds rx r m (COr a b) = (holds rx r m a \<or> holds rx r m b)"
| "holds rx r m (CNot c) = (\<not> holds rx r m c)"

lemma matches_with_holds:
  assumes "\<And>p text st. p \<in> set (regex_patterns c) \<Longrightarrow> fst (regex p text st) = Inr (rx p text)"
  shows "fst (matches_with regex r m c st) = Inr (holds rx r m c)"
  using assms
proof (induction c arbitrary: st)
  case (Compare f op l)
  then show ?case
    by (auto split: option.splits field_value.splits prod.splits simp: map_sum_Inr_iff)
      (metis fst_conv)+
next
  case (CAnd a b)
  from CAnd.IH(1) [of st] CAnd.prems
  obtain st' where "matches_with regex r m a st = (Inr (holds rx r m a), st')"
    by (cases "matches_with regex r m a st") auto
  with CAnd show ?case by simp
next
  case (COr a b)
  from COr.IH(1) [of st] COr.prems
  obtain st' where "matches_with regex r m a st = (Inr (holds rx r m a), st')"
    by (cases "matches_with regex r m a st") auto
  with COr show ?case by simp
next
  case (CNot c)
  from CNot.IH [of st] CNot.prems
  obtain st' where "matches_with regex r m c st = (Inr (holds rx r m c), st')"
    by (cases "matches_with regex r m c st") auto
  then show ?case by simp
qed

lemma matches_plain_holds: "matches_plain c r m = holds (\<lambda>_ _. False) r m c"
  using matches_with_holds [of c "\<lambda>_ _ st. (Inr False :: unit + bool, st)" "\<lambda>_ _. False" r m "()"]
  by (simp add: matches_plain_def)

text \<open>The match function with a log of the patterns it was asked.\<close>

definition logging :: "('s, 'e) matcher \<Rightarrow> ('s \<times> string list, 'e) matcher" where
  "logging regex p text st =
     (case regex p text (fst st) of (v, s) \<Rightarrow> (v, (s, snd st @ [p])))"

lemma matches_with_asked:
  "\<exists>asked. snd (snd (matches_with (logging regex) r m c (st, log))) = log @ asked
     \<and> subseq asked (regex_patterns c)"
proof (induction c arbitrary: st log)
  case (Compare f op l)
  show ?case
  proof (cases "regex_leaf op l")
    case (Some p)
    then show ?thesis
      by (cases "path_read f r m")
        (auto simp: logging_def split: prod.splits intro: exI [of _ "[p]"])
  qed simp
next
  case (CAnd a b)
  obtain v s' l' where a: "matches_with (logging regex) r m a (st, log) = (v, (s', l'))"
    by (metis prod.exhaust)
  from CAnd.IH(1) [of st log] a obtain x where x: "l' = log @ x" "subseq x (regex_patterns a)" by auto
  from CAnd.IH(2) [of s' l'] obtain y where
    y: "snd (snd (matches_with (logging regex) r m b (s', l'))) = l' @ y" "subseq y (regex_patterns b)"
    by auto
  from x y a list_emb_append_mono [OF x(2) y(2)] subseq_rev_drop_many [OF x(2), of "regex_patterns b"]
  show ?case by (auto split: sum.splits)
next
  case (COr a b)
  obtain v s' l' where a: "matches_with (logging regex) r m a (st, log) = (v, (s', l'))"
    by (metis prod.exhaust)
  from COr.IH(1) [of st log] a obtain x where x: "l' = log @ x" "subseq x (regex_patterns a)" by auto
  from COr.IH(2) [of s' l'] obtain y where
    y: "snd (snd (matches_with (logging regex) r m b (s', l'))) = l' @ y" "subseq y (regex_patterns b)"
    by auto
  from x y a list_emb_append_mono [OF x(2) y(2)] subseq_rev_drop_many [OF x(2), of "regex_patterns b"]
  show ?case by (auto split: sum.splits)
next
  case (CNot c)
  obtain v s' l' where a: "matches_with (logging regex) r m c (st, log) = (v, (s', l'))"
    by (metis prod.exhaust)
  with CNot.IH [of st log] show ?case by (auto split: sum.splits)
qed

lemma matches_with_error:
  "matches_with regex r m c st = (Inl e, st') \<Longrightarrow>
     \<exists>p text s s'. p \<in> set (regex_patterns c) \<and> regex p text s = (Inl e, s')"
proof (induction c arbitrary: st st')
  case (Compare f op l)
  then show ?case
    by (cases "regex_leaf op l"; cases "path_read f r m")
      (auto split: prod.splits simp: map_sum_Inl_iff)
qed (fastforce split: prod.splits sum.splits if_splits)+

end
