(* ===== verification/Config.thy ===== *)
theory Config
  imports Json
begin

text \<open>
  \<open>crates/core/src/config.rs\<close> and \<open>crates/core/src/route.rs\<close>: the pipeline config after YAML
  parsing, and the outputs a route node declares. Reading YAML text, and deserializing a
  node's parameters into a struct, is \<open>serde\<close>: both are parameters here, and the definitions
  start from what they return.
\<close>

section \<open>Config\<close>

text \<open>A YAML value (\<open>serde_yaml_ng::Value\<close>); a mapping keeps its file order.\<close>

datatype yaml =
    YNull
  | YBool bool
  | YNumber jnum
  | YString string
  | YSequence "yaml list"
  | YMapping "(yaml \<times> yaml) list"
  | YTagged string yaml

fun yaml_as_str :: "yaml \<Rightarrow> string option" where
  "yaml_as_str (YString s) = Some s"
| "yaml_as_str (YTagged t v) = yaml_as_str v"
| "yaml_as_str _ = None"

definition SOURCE_ID :: string where "SOURCE_ID = ''source''"

definition DEFAULT_NAME :: string where "DEFAULT_NAME = ''pipeline''"

datatype config_error =
    Yaml string
  | ReservedId string
  | DottedId string
  | ColonId string
  | ColonName string
  | DuplicateId string
  | UnknownFrom string string
  | RouteNeedsLabel string string
  | NotARoute string string string
  | UnknownRouteLabel string string string
  | UnconsumedRouteLabel string string
  | Cycle string
  | Unreachable string
  | NoSink
  | UnknownType string string
  | InvalidParams string string

record source_config =
  src_kind :: string
  src_params :: yaml

record node_config =
  node_id :: string
  node_kind :: string
  node_from :: "string list"
  node_params :: yaml

record config =
  cfg_name :: string
  cfg_workers :: "nat option"
  cfg_source :: "source_config option"
  cfg_nodes :: "node_config list"

datatype one_or_many = One string | Many "string list"

fun one_or_many_vec :: "one_or_many \<Rightarrow> string list" where
  "one_or_many_vec (One one) = [one]"
| "one_or_many_vec (Many many) = many"

record raw_node =
  raw_id :: string
  raw_kind :: string
  raw_from :: "one_or_many option"
  raw_params :: yaml

record raw_config =
  raw_name :: "string option"
  raw_workers :: "nat option"
  raw_source :: "source_config option"
  raw_nodes :: "raw_node list"

definition is_sink :: "node_config \<Rightarrow> bool" where
  "is_sink node \<longleftrightarrow> starts_with (node_kind node) ''sink.''"

definition invalid_params :: "node_config \<Rightarrow> string \<Rightarrow> config_error" where
  "invalid_params node message = InvalidParams (node_id node) message"

text \<open>\<open>parse_params\<close>: \<open>from_value\<close> is the deserializer, with its error as text.\<close>

definition parse_params :: "(yaml \<Rightarrow> string + 'p) \<Rightarrow> node_config \<Rightarrow> config_error + 'p" where
  "parse_params from_value node = map_sum (invalid_params node) id (from_value (node_params node))"

fun normalize_params :: "yaml \<Rightarrow> yaml" where
  "normalize_params YNull = YMapping []"
| "normalize_params other = other"

text \<open>The loop of \<open>Config::from_yaml\<close>: \<open>seen\<close> is the ids so far, \<open>previous\<close> the id a node without
  \<open>from\<close> reads from.\<close>

fun load_nodes :: "string list \<Rightarrow> string \<Rightarrow> raw_node list \<Rightarrow> config_error + node_config list" where
  "load_nodes seen previous [] = Inr []"
| "load_nodes seen previous (node # rest) =
     (if raw_id node = SOURCE_ID then Inl (ReservedId (raw_id node))
      else if CHR ''.'' \<in> set (raw_id node) then Inl (DottedId (raw_id node))
      else if CHR '':'' \<in> set (raw_id node) then Inl (ColonId (raw_id node))
      else if raw_id node \<in> set seen then Inl (DuplicateId (raw_id node))
      else
        map_sum id
          (Cons \<lparr>node_id = raw_id node, node_kind = raw_kind node,
             node_from = (case raw_from node of None \<Rightarrow> [previous] | Some f \<Rightarrow> one_or_many_vec f),
             node_params = normalize_params (raw_params node)\<rparr>)
          (load_nodes (raw_id node # seen) (raw_id node) rest))"

definition config_from_raw :: "raw_config \<Rightarrow> config_error + config" where
  "config_from_raw raw =
     (let name = (case raw_name raw of Some n \<Rightarrow> n | None \<Rightarrow> DEFAULT_NAME)
      in if CHR '':'' \<in> set name then Inl (ColonName name)
         else
           map_sum id
             (\<lambda>nodes. \<lparr>cfg_name = name, cfg_workers = raw_workers raw,
                cfg_source = map_option
                  (\<lambda>s. \<lparr>src_kind = src_kind s, src_params = normalize_params (src_params s)\<rparr>)
                  (raw_source raw),
                cfg_nodes = nodes\<rparr>)
             (load_nodes [] SOURCE_ID (raw_nodes raw)))"

definition config_from_yaml :: "(string \<Rightarrow> string + raw_config) \<Rightarrow> string \<Rightarrow> config_error + config" where
  "config_from_yaml from_str yaml =
     (case from_str yaml of Inl e \<Rightarrow> Inl (Yaml e) | Inr raw \<Rightarrow> config_from_raw raw)"

section \<open>Route declarations\<close>

definition ROUTE_KIND :: string where "ROUTE_KIND = ''route''"

definition DROP :: string where "DROP = ''drop''"

datatype fallback = FLabel string | FDrop

record route_rule =
  rule_label :: string
  rule_condition :: string

record route_spec =
  spec_routes :: "route_rule list"
  spec_fallback :: fallback

text \<open>\<open>Params\<close>, what deserializing a route node yields.\<close>

record route_params =
  rp_routes :: "(yaml \<times> yaml) list"
  rp_default :: string

fun route_rules :: "node_config \<Rightarrow> (yaml \<times> yaml) list \<Rightarrow> config_error + route_rule list" where
  "route_rules node [] = Inr []"
| "route_rules node ((label, condition) # rest) =
     (case yaml_as_str label of
        None \<Rightarrow> Inl (invalid_params node ''route labels must be strings'')
      | Some label \<Rightarrow>
          if label = DROP then
            Inl (invalid_params node ''route label `drop` is reserved for `default: drop`'')
          else
            (case yaml_as_str condition of
               None \<Rightarrow>
                 Inl (invalid_params node
                   (''route `'' @ label @ ''` must map to a condition string''))
             | Some condition \<Rightarrow>
                 map_sum id (Cons \<lparr>rule_label = label, rule_condition = condition\<rparr>)
                   (route_rules node rest)))"

definition route_spec_from_params :: "node_config \<Rightarrow> route_params \<Rightarrow> config_error + route_spec" where
  "route_spec_from_params node params =
     (if rp_routes params = [] then
        Inl (invalid_params node ''`routes` must name at least one label'')
      else
        map_sum id
          (\<lambda>routes. \<lparr>spec_routes = routes,
             spec_fallback = (if rp_default params = DROP then FDrop else FLabel (rp_default params))\<rparr>)
          (route_rules node (rp_routes params)))"

definition route_spec_from_node ::
  "(yaml \<Rightarrow> string + route_params) \<Rightarrow> node_config \<Rightarrow> config_error + route_spec" where
  "route_spec_from_node from_value node =
     (case parse_params from_value node of
        Inl e \<Rightarrow> Inl e
      | Inr params \<Rightarrow> route_spec_from_params node params)"

definition route_labels :: "route_spec \<Rightarrow> string list" where
  "route_labels spec =
     map rule_label (spec_routes spec) @
     (case spec_fallback spec of
        FLabel label \<Rightarrow> if label \<in> set (map rule_label (spec_routes spec)) then [] else [label]
      | FDrop \<Rightarrow> [])"

section \<open>What loading promises\<close>

lemma load_nodes_Inr:
  "load_nodes seen previous raw = Inr nodes \<Longrightarrow>
     map node_id nodes = map raw_id raw \<and> distinct (map node_id nodes)
       \<and> set (map node_id nodes) \<inter> set seen = {}
       \<and> (\<forall>n \<in> set nodes. node_id n \<noteq> SOURCE_ID \<and> CHR ''.'' \<notin> set (node_id n)
            \<and> CHR '':'' \<notin> set (node_id n))"
proof (induction raw arbitrary: seen previous nodes)
  case (Cons r rest)
  from Cons.prems obtain n more where n: "nodes = n # more" "node_id n = raw_id r"
    and more: "load_nodes (raw_id r # seen) (raw_id r) rest = Inr more"
    and ok: "raw_id r \<noteq> SOURCE_ID" "CHR ''.'' \<notin> set (raw_id r)" "CHR '':'' \<notin> set (raw_id r)"
      "raw_id r \<notin> set seen"
    by (simp add: map_sum_Inr_iff split: if_splits) (metis node_config.select_convs(1))
  have ids: "map node_id nodes = map raw_id (r # rest)" using Cons.IH [OF more] n by simp
  from Cons.IH [OF more] have d: "distinct (map node_id more)"
    and s: "set (map node_id more) \<inter> set (raw_id r # seen) = {}"
    and o: "\<forall>n \<in> set more. node_id n \<noteq> SOURCE_ID \<and> CHR ''.'' \<notin> set (node_id n)
      \<and> CHR '':'' \<notin> set (node_id n)" by blast+
  from d s have "distinct (map node_id nodes)" unfolding n(1) list.map distinct.simps n(2) by auto
  moreover from s ok(4) have "set (map node_id nodes) \<inter> set seen = {}"
    unfolding n(1) list.map n(2) by auto
  moreover have "\<forall>m \<in> set nodes. node_id m \<noteq> SOURCE_ID \<and> CHR ''.'' \<notin> set (node_id m)
      \<and> CHR '':'' \<notin> set (node_id m)" using o ok n by simp
  ultimately show ?case using ids by blast
qed simp

lemma route_rules_Inl: "route_rules node rs = Inl e \<Longrightarrow> \<exists>message. e = InvalidParams (node_id node) message"
  by (induction node rs rule: route_rules.induct)
    (auto simp: map_sum_Inl_iff invalid_params_def split: option.splits if_splits)

lemma route_rules_labels: "route_rules node rs = Inr rules \<Longrightarrow> DROP \<notin> set (map rule_label rules)"
  by (induction rs arbitrary: rules)
    (auto simp: map_sum_Inr_iff split: option.splits if_splits)

lemma route_rules_length: "route_rules node rs = Inr rules \<Longrightarrow> length rules = length rs"
  by (induction rs arbitrary: rules)
    (auto simp: map_sum_Inr_iff split: option.splits if_splits)

lemma route_labels_ok:
  assumes "route_spec_from_node fv node = Inr spec"
  shows "spec_routes spec \<noteq> [] \<and> DROP \<notin> set (route_labels spec)"
proof -
  obtain params where "route_spec_from_params node params = Inr spec"
    using assms by (auto simp: route_spec_from_node_def split: sum.splits)
  then have p: "rp_routes params \<noteq> []" "route_rules node (rp_routes params) = Inr (spec_routes spec)"
    "spec_fallback spec = (if rp_default params = DROP then FDrop else FLabel (rp_default params))"
    unfolding route_spec_from_params_def by (auto simp: map_sum_Inr_iff split: if_splits)
  from route_rules_length [OF p(2)] p(1) have "spec_routes spec \<noteq> []" by auto
  with route_rules_labels [OF p(2)] p(3) show ?thesis by (auto simp: route_labels_def)
qed

text \<open>An empty \<open>from\<close> list loads as it is; it is the graph that refuses the node.\<close>

lemma empty_from_loads:
  "load_nodes [] SOURCE_ID [\<lparr>raw_id = ''a'', raw_kind = k, raw_from = Some (Many []), raw_params = p\<rparr>]
   = Inr [\<lparr>node_id = ''a'', node_kind = k, node_from = [], node_params = normalize_params p\<rparr>]"
  by (simp add: SOURCE_ID_def)

end
