(* ===== verification/Dag.thy ===== *)
theory Dag
  imports Config "HOL-Library.Multiset"
begin

text \<open>
  \<open>crates/core/src/dag.rs\<close>: wiring the nodes of a config into a graph, its validation (labels,
  reachability, cycles) and the topological order the engine runs on. A \<open>Vec\<close> indexed by node
  is a list; the indices the code uses are all in range (\<open>Dag_Laws\<close>), so the value given to a
  read beyond the end, which would panic, is never used.
\<close>

record edge =
  edge_target :: nat
  edge_label :: "string option"

record dag =
  dag_nodes :: "node_config list"
  dag_edges :: "edge list list"
  dag_sources :: "nat list"
  dag_successor_ids :: "string \<Rightarrow> string list option"

datatype mark = Unvisited | InProgress | Done

definition parse_from :: "string \<Rightarrow> string \<times> string option" where
  "parse_from entry =
     (case split_once DOT entry of
        Some (target, label) \<Rightarrow> if label \<noteq> [] then (target, Some label) else (entry, None)
      | None \<Rightarrow> (entry, None))"

text \<open>The file position of an id; as in the code's map, a later node with the same id wins.\<close>

definition position_of :: "node_config list \<Rightarrow> string \<Rightarrow> nat option" where
  "position_of nodes nid = map_of (rev (zip (map node_id nodes) [0..<length nodes])) nid"

fun collect_routes ::
  "(yaml \<Rightarrow> string + route_params) \<Rightarrow> nat \<Rightarrow> node_config list \<Rightarrow> config_error + (nat \<times> route_spec) list"
where
  "collect_routes fv i [] = Inr []"
| "collect_routes fv i (node # rest) =
     (if node_kind node = ROUTE_KIND then
        (case route_spec_from_node fv node of
           Inl e \<Rightarrow> Inl e
         | Inr spec \<Rightarrow> map_sum id (Cons (i, spec)) (collect_routes fv (i + 1) rest))
      else collect_routes fv (i + 1) rest)"

section \<open>Wiring\<close>

record wiring =
  wi_succ :: "edge list list"
  wi_source :: "nat list"
  wi_consumed :: "(nat \<times> string) list"

text \<open>The position a target names: \<open>None\<close> is the implicit source.\<close>

definition resolve_target ::
  "node_config list \<Rightarrow> node_config \<Rightarrow> string \<Rightarrow> config_error + nat option" where
  "resolve_target nodes node entry =
     (let target = fst (parse_from entry) in
      if target = SOURCE_ID then Inr None
      else (case position_of nodes target of
              None \<Rightarrow> Inl (UnknownFrom (node_id node) entry)
            | Some t \<Rightarrow> Inr (Some t)))"

text \<open>The label check of one \<open>from\<close> entry, with the consumed labels after it.\<close>

definition check_label ::
  "(nat \<times> route_spec) list \<Rightarrow> node_config \<Rightarrow> string \<Rightarrow> nat option \<Rightarrow> (nat \<times> string) list
     \<Rightarrow> config_error + (nat \<times> string) list" where
  "check_label routes node entry target consumed =
     (let (name, label) = parse_from entry;
          route = (case target of None \<Rightarrow> None | Some t \<Rightarrow> map_option (Pair t) (map_of routes t))
      in case (route, label) of
           (Some (t, spec), Some label) \<Rightarrow>
             if label \<notin> set (route_labels spec) then Inl (UnknownRouteLabel (node_id node) name label)
             else Inr ((t, label) # consumed)
         | (Some _, None) \<Rightarrow> Inl (RouteNeedsLabel (node_id node) name)
         | (None, Some label) \<Rightarrow> Inl (NotARoute (node_id node) name label)
         | (None, None) \<Rightarrow> Inr consumed)"

definition wire_entry ::
  "node_config list \<Rightarrow> (nat \<times> route_spec) list \<Rightarrow> nat \<Rightarrow> string \<Rightarrow> wiring \<Rightarrow> config_error + wiring" where
  "wire_entry nodes routes i entry w =
     (let node = nodes ! i in
      case resolve_target nodes node entry of
        Inl e \<Rightarrow> Inl e
      | Inr target \<Rightarrow>
          (case check_label routes node entry target (wi_consumed w) of
             Inl e \<Rightarrow> Inl e
           | Inr consumed \<Rightarrow>
               (let w = w\<lparr>wi_consumed := consumed\<rparr> in
                case target of
                  None \<Rightarrow> Inr (w\<lparr>wi_source := wi_source w @ [i]\<rparr>)
                | Some t \<Rightarrow>
                    if is_sink (nodes ! t) then Inr w
                    else Inr (w\<lparr>wi_succ := (wi_succ w)[t := wi_succ w ! t @
                               [\<lparr>edge_target = i, edge_label = snd (parse_from entry)\<rparr>]]\<rparr>))))"

text \<open>The two nested loops, over nodes and over the \<open>from\<close> entries of each, as one list.\<close>

definition all_entries :: "node_config list \<Rightarrow> (nat \<times> string) list" where
  "all_entries nodes = concat (map (\<lambda>i. map (Pair i) (node_from (nodes ! i))) [0..<length nodes])"

fun wire_loop ::
  "node_config list \<Rightarrow> (nat \<times> route_spec) list \<Rightarrow> (nat \<times> string) list \<Rightarrow> wiring \<Rightarrow> config_error + wiring"
where
  "wire_loop nodes routes [] w = Inr w"
| "wire_loop nodes routes ((i, entry) # rest) w =
     (case wire_entry nodes routes i entry w of
        Inl e \<Rightarrow> Inl e
      | Inr w \<Rightarrow> wire_loop nodes routes rest w)"

definition empty_wiring :: "nat \<Rightarrow> wiring" where
  "empty_wiring n = \<lparr>wi_succ = replicate n [], wi_source = [], wi_consumed = []\<rparr>"

fun find_unconsumed ::
  "node_config list \<Rightarrow> (nat \<times> string) list \<Rightarrow> (nat \<times> route_spec) list \<Rightarrow> config_error option" where
  "find_unconsumed nodes consumed [] = None"
| "find_unconsumed nodes consumed ((r, spec) # rest) =
     (case List.find (\<lambda>l. (r, l) \<notin> set consumed) (route_labels spec) of
        Some label \<Rightarrow> Some (UnconsumedRouteLabel (node_id (nodes ! r)) label)
      | None \<Rightarrow> find_unconsumed nodes consumed rest)"

section \<open>Reachability\<close>

definition targets :: "edge list list \<Rightarrow> nat \<Rightarrow> nat list" where
  "targets succ i = (if i < length succ then map edge_target (succ ! i) else [])"

lemma count_update_less:
  assumes "i < length xs" "xs ! i = a" "b \<noteq> a"
  shows "count_list (xs[i := b]) a < count_list xs a"
proof -
  have "xs = take i xs @ a # drop (Suc i) xs" using assms id_take_nth_drop by metis
  moreover have "xs[i := b] = take i xs @ b # drop (Suc i) xs" using assms upd_conv_take_nth_drop by metis
  ultimately show ?thesis using assms(3)
    by (metis (no_types, lifting) add_less_cancel_left count_list.simps(2) count_list_append less_add_one)
qed

lemma count_update_le: "b \<noteq> a \<Longrightarrow> count_list (xs[i := b]) a \<le> count_list xs a"
  by (induction xs arbitrary: i) (auto split: nat.splits simp: le_SucI)

text \<open>The stack's top is the head of the list.\<close>

function reach :: "edge list list \<Rightarrow> nat list \<Rightarrow> bool list \<Rightarrow> bool list" where
  "reach succ [] reachable = reachable"
| "reach succ (i # stack) reachable =
     (if i < length reachable \<and> \<not> reachable ! i
      then reach succ (rev (targets succ i) @ stack) (reachable[i := True])
      else reach succ stack reachable)"
  by pat_completeness auto
termination
  by (relation "measures [\<lambda>(succ, stack, reachable). count_list reachable False,
      \<lambda>(succ, stack, reachable). length stack]")
    (auto intro: count_update_less)

section \<open>The depth-first order\<close>

definition mark_at :: "mark list \<Rightarrow> nat \<Rightarrow> mark" where
  "mark_at marks i = (if i < length marks then marks ! i else Done)"

function visit_loop ::
  "edge list list \<Rightarrow> (nat \<times> nat) list \<Rightarrow> mark list \<Rightarrow> nat list \<Rightarrow> nat + (mark list \<times> nat list)" where
  "visit_loop succ [] marks post = Inr (marks, post)"
| "visit_loop succ ((node, nxt) # stack) marks post =
     (if nxt < length (targets succ node) then
        (let child = targets succ node ! nxt in
         case mark_at marks child of
           InProgress \<Rightarrow> Inl child
         | Done \<Rightarrow> visit_loop succ ((node, nxt + 1) # stack) marks post
         | Unvisited \<Rightarrow>
             visit_loop succ ((child, 0) # (node, nxt + 1) # stack) (marks[child := InProgress]) post)
      else visit_loop succ stack (marks[node := Done]) (post @ [node]))"
  by pat_completeness auto
termination
proof (relation "measures [\<lambda>(succ, stack, marks, post). count_list marks Unvisited,
      \<lambda>(succ, stack, marks, post). (\<Sum>(n, k) \<leftarrow> stack. length (targets succ n) - k),
      \<lambda>(succ, stack, marks, post). length stack]", goal_cases)
  case (2 succ node nxt stack marks post child)
  then show ?case
    using count_update_less [of child marks Unvisited InProgress]
    by (auto simp: mark_at_def split: if_splits)
next
  case (4 succ node nxt stack marks post)
  then show ?case
    using count_update_le [of Done Unvisited marks node] by (auto simp: le_less)
qed auto

definition visit ::
  "nat \<Rightarrow> edge list list \<Rightarrow> mark list \<Rightarrow> nat list \<Rightarrow> nat + (mark list \<times> nat list)" where
  "visit start succ marks post =
     (if mark_at marks start = Done then Inr (marks, post)
      else visit_loop succ [(start, 0)] (marks[start := InProgress]) post)"

fun visit_all ::
  "edge list list \<Rightarrow> nat list \<Rightarrow> mark list \<Rightarrow> nat list \<Rightarrow> nat + (mark list \<times> nat list)" where
  "visit_all succ [] marks post = Inr (marks, post)"
| "visit_all succ (start # rest) marks post =
     (case visit start succ marks post of
        Inl i \<Rightarrow> Inl i
      | Inr (marks, post) \<Rightarrow> visit_all succ rest marks post)"

section \<open>Building the graph\<close>

fun renumber :: "nat list \<Rightarrow> nat \<Rightarrow> nat list \<Rightarrow> nat list" where
  "renumber [] new index = index"
| "renumber (old # rest) new index = renumber rest (new + 1) (index[old := new])"

definition build_dag :: "node_config list \<Rightarrow> wiring \<Rightarrow> nat list \<Rightarrow> dag" where
  "build_dag file_order w order =
     (let new_index = renumber order 0 (replicate (length file_order) 0);
          nodes = map (\<lambda>old. file_order ! old) order;
          edges = map (\<lambda>old. map (\<lambda>e. \<lparr>edge_target = new_index ! edge_target e,
                                           edge_label = edge_label e\<rparr>) (wi_succ w ! old)) order;
          sources = map (\<lambda>s. new_index ! s) (wi_source w);
          ids = map (\<lambda>i. node_id (nodes ! i));
          by_id = map_of (rev (map (\<lambda>(n, es). (node_id n, ids (map edge_target es))) (zip nodes edges)))
      in \<lparr>dag_nodes = nodes, dag_edges = edges, dag_sources = sources,
          dag_successor_ids = by_id(SOURCE_ID \<mapsto> ids sources)\<rparr>)"

definition dag_from_config :: "(yaml \<Rightarrow> string + route_params) \<Rightarrow> config \<Rightarrow> config_error + dag" where
  "dag_from_config fv cfg =
     (let nodes = cfg_nodes cfg in
      if \<not> list_ex is_sink nodes then Inl NoSink
      else case collect_routes fv 0 nodes of
        Inl e \<Rightarrow> Inl e
      | Inr routes \<Rightarrow>
        (case wire_loop nodes routes (all_entries nodes) (empty_wiring (length nodes)) of
           Inl e \<Rightarrow> Inl e
         | Inr w \<Rightarrow>
           (case find_unconsumed nodes (wi_consumed w) routes of
              Some e \<Rightarrow> Inl e
            | None \<Rightarrow>
              (case List.find (\<lambda>i. \<not> reach (wi_succ w) (rev (wi_source w))
                      (replicate (length nodes) False) ! i) [0..<length nodes] of
                 Some i \<Rightarrow> Inl (Unreachable (node_id (nodes ! i)))
               | None \<Rightarrow>
                 (case visit_all (wi_succ w) (wi_source w) (replicate (length nodes) Unvisited) [] of
                    Inl i \<Rightarrow> Inl (Cycle (node_id (nodes ! i)))
                  | Inr (marks, post) \<Rightarrow> Inr (build_dag nodes w (rev post)))))))"

section \<open>Reading the graph\<close>

definition dag_node :: "dag \<Rightarrow> nat \<Rightarrow> node_config" where
  "dag_node d i = dag_nodes d ! i"

definition dag_index_of :: "dag \<Rightarrow> string \<Rightarrow> nat option" where
  "dag_index_of d nid = List.find (\<lambda>i. node_id (dag_nodes d ! i) = nid) [0..<length (dag_nodes d)]"

definition dag_successors :: "dag \<Rightarrow> string \<Rightarrow> string list" where
  "dag_successors d nid = (case dag_successor_ids d nid of Some ids \<Rightarrow> ids | None \<Rightarrow> [])"

definition dag_consumers :: "dag \<Rightarrow> nat \<Rightarrow> string option \<Rightarrow> nat list" where
  "dag_consumers d i label =
     map edge_target
       (filter (\<lambda>e. case label of None \<Rightarrow> True | Some l \<Rightarrow> edge_label e = Some l) (dag_edges d ! i))"

definition dag_label :: "dag \<Rightarrow> nat \<Rightarrow> string \<Rightarrow> string option" where
  "dag_label d i label =
     (if \<exists>e \<in> set (dag_edges d ! i). edge_label e = Some label then Some label else None)"

end
