(* ===== verification/Dag_Laws.thy ===== *)
theory Dag_Laws
  imports Dag
begin

text \<open>
  What holds of a graph \<open>dag_from_config\<close> builds: the reachability loop marks exactly the nodes
  data can reach, the depth-first search either names a node on a cycle or orders every node
  after all its readers, and the wiring has exactly the edges the config declares.
\<close>

definition succ_rel :: "edge list list \<Rightarrow> (nat \<times> nat) set" where
  "succ_rel succ = {(i, c). c \<in> set (targets succ i)}"

lemma succ_rel_iff [simp]: "(i, c) \<in> succ_rel succ \<longleftrightarrow> c \<in> set (targets succ i)"
  by (simp add: succ_rel_def)

definition in_range :: "edge list list \<Rightarrow> bool" where
  "in_range succ \<longleftrightarrow> (\<forall>i. \<forall>c \<in> set (targets succ i). c < length succ)"

lemma in_rangeD: "in_range succ \<Longrightarrow> c \<in> set (targets succ i) \<Longrightarrow> c < length succ"
  by (auto simp: in_range_def)

lemma targets_nth_range: "in_range succ \<Longrightarrow> j < length (targets succ i) \<Longrightarrow> targets succ i ! j < length succ"
  by (metis in_rangeD nth_mem)

section \<open>Reachability\<close>

lemma length_reach [simp]: "length (reach succ stack r) = length r"
  by (induction succ stack r rule: reach.induct) auto

lemma reach_sound:
  assumes "\<And>i c. i \<in> X \<Longrightarrow> c \<in> set (targets succ i) \<Longrightarrow> c \<in> X"
  shows "(\<And>i. i < length r \<Longrightarrow> r ! i \<Longrightarrow> i \<in> X) \<Longrightarrow> set stack \<subseteq> X \<Longrightarrow>
    i < length r \<Longrightarrow> reach succ stack r ! i \<Longrightarrow> i \<in> X"
  using assms
proof (induction succ stack r rule: reach.induct)
  case (2 succ j stack r)
  show ?case
  proof (cases "j < length r \<and> \<not> r ! j")
    case True
    show ?thesis
      by (rule 2(1) [OF True]) (use 2(3-7) True in \<open>auto simp: nth_list_update split: if_splits\<close>)
  next
    case False
    show ?thesis
      by (rule 2(2) [OF False]) (use 2(3-7) False in \<open>auto split: if_splits\<close>)
  qed
qed simp

lemma reach_complete:
  assumes "in_range succ"
  shows "set stack \<subseteq> {..<length r} \<Longrightarrow> length r = length succ \<Longrightarrow>
    (\<And>i c. i < length r \<Longrightarrow> r ! i \<Longrightarrow> c \<in> set (targets succ i) \<Longrightarrow> r ! c \<or> c \<in> set stack) \<Longrightarrow>
    (\<forall>i < length r. r ! i \<or> i \<in> set stack \<longrightarrow> reach succ stack r ! i) \<and>
    (\<forall>i < length r. reach succ stack r ! i \<longrightarrow> (\<forall>c \<in> set (targets succ i). reach succ stack r ! c))"
  using assms
proof (induction succ stack r rule: reach.induct)
  case (2 succ j stack r)
  show ?case
  proof (cases "j < length r \<and> \<not> r ! j")
    case True
    let ?r = "r[j := True]" and ?s = "rev (targets succ j) @ stack"
    have "(\<forall>i < length ?r. ?r ! i \<or> i \<in> set ?s \<longrightarrow> reach succ ?s ?r ! i) \<and>
      (\<forall>i < length ?r. reach succ ?s ?r ! i \<longrightarrow> (\<forall>c \<in> set (targets succ i). reach succ ?s ?r ! c))"
    proof (rule 2(1) [OF True])
      show "set ?s \<subseteq> {..<length ?r}" using 2(3,4,6) by (auto dest: in_rangeD)
      show "?r ! c \<or> c \<in> set ?s" if "i < length ?r" "?r ! i" "c \<in> set (targets succ i)" for i c
        using that 2(4) 2(5) [of i c] in_rangeD [OF 2(6) that(3)] True
        by (cases "i = j") (auto simp: nth_list_update)
    qed (use 2(4,6) in simp_all)
    with True show ?thesis by (auto simp: nth_list_update)
  next
    case False
    have "(\<forall>i < length r. r ! i \<or> i \<in> set stack \<longrightarrow> reach succ stack r ! i) \<and>
      (\<forall>i < length r. reach succ stack r ! i \<longrightarrow> (\<forall>c \<in> set (targets succ i). reach succ stack r ! c))"
    proof (rule 2(2) [OF False])
      show "r ! c \<or> c \<in> set stack" if "i < length r" "r ! i" "c \<in> set (targets succ i)" for i c
        using that 2(4) 2(5) [of i c] in_rangeD [OF 2(6) that(3)] False by auto
    qed (use 2(3,4,6) in auto)
    with False 2(3) show ?thesis by auto
  qed
qed simp

lemma reach_iff:
  assumes "in_range succ" "set sources \<subseteq> {..<length succ}" "i < length succ"
  shows "reach succ (rev sources) (replicate (length succ) False) ! i \<longleftrightarrow>
    i \<in> (succ_rel succ)\<^sup>* `` set sources"
proof
  assume r: "reach succ (rev sources) (replicate (length succ) False) ! i"
  show "i \<in> (succ_rel succ)\<^sup>* `` set sources"
  proof (rule reach_sound [OF _ _ _ _ r])
    show "c \<in> (succ_rel succ)\<^sup>* `` set sources"
      if "j \<in> (succ_rel succ)\<^sup>* `` set sources" "c \<in> set (targets succ j)" for j c
      using that rtrancl.rtrancl_into_rtrancl [of _ j "succ_rel succ" c] by auto
  qed (use assms(3) in auto)
next
  let ?res = "reach succ (rev sources) (replicate (length succ) False)"
  assume "i \<in> (succ_rel succ)\<^sup>* `` set sources"
  then obtain s where s: "s \<in> set sources" "(s, i) \<in> (succ_rel succ)\<^sup>*" by auto
  from reach_complete [OF assms(1), of "rev sources" "replicate (length succ) False"] assms(2)
  have *: "\<forall>j < length succ. j \<in> set sources \<longrightarrow> ?res ! j"
    "\<forall>j < length succ. ?res ! j \<longrightarrow> (\<forall>c \<in> set (targets succ j). ?res ! c)" by auto
  from s(2) have "i < length succ \<and> ?res ! i"
  proof induction
    case base
    show ?case using *(1) s(1) assms(2) by auto
  next
    case (step j c)
    then have "c \<in> set (targets succ j)" by simp
    with step.IH *(2) in_rangeD [OF assms(1) this] show ?case by blast
  qed
  then show "?res ! i" by simp
qed

section \<open>The depth-first order\<close>

text \<open>Every node comes after all the nodes that read from it.\<close>

fun topo :: "edge list list \<Rightarrow> nat list \<Rightarrow> bool" where
  "topo succ [] \<longleftrightarrow> True"
| "topo succ (i # rest) \<longleftrightarrow> i \<notin> set rest \<and> set (targets succ i) \<subseteq> set rest \<and> topo succ rest"

text \<open>The stack: the children a frame has passed are done, but for the one above it.\<close>

fun frames :: "edge list list \<Rightarrow> nat set \<Rightarrow> nat option \<Rightarrow> (nat \<times> nat) list \<Rightarrow> bool" where
  "frames succ D upper [] \<longleftrightarrow> True"
| "frames succ D upper ((n, k) # rest) \<longleftrightarrow>
     k \<le> length (targets succ n)
   \<and> (case upper of
        None \<Rightarrow> \<forall>j < k. targets succ n ! j \<in> D
      | Some a \<Rightarrow> 0 < k \<and> targets succ n ! (k - 1) = a \<and> (\<forall>j < k - 1. targets succ n ! j \<in> D))
   \<and> frames succ D (Some n) rest"

definition visit_inv ::
  "edge list list \<Rightarrow> (nat \<times> nat) list \<Rightarrow> mark list \<Rightarrow> nat list \<Rightarrow> bool" where
  "visit_inv succ stack marks post \<longleftrightarrow>
     in_range succ \<and> length marks = length succ
   \<and> distinct (map fst stack)
   \<and> (\<forall>i. (i < length marks \<and> marks ! i = InProgress) \<longleftrightarrow> i \<in> fst ` set stack)
   \<and> (\<forall>i. (i < length marks \<and> marks ! i = Done) \<longleftrightarrow> i \<in> set post)
   \<and> topo succ (rev post)
   \<and> frames succ (set post) None stack"

lemma frames_mono: "frames succ D a st \<Longrightarrow> D \<subseteq> E \<Longrightarrow> frames succ E a st"
  by (induction st arbitrary: a) (auto split: option.splits simp: subset_iff)

lemma frames_done: "frames succ D (Some n) st \<Longrightarrow> frames succ (insert n D) None st"
proof (cases st)
  case (Cons f rest)
  obtain m k where f: "f = (m, k)" by (cases f)
  assume "frames succ D (Some n) st"
  then have *: "0 < k" "k \<le> length (targets succ m)" "targets succ m ! (k - 1) = n"
    "\<forall>j < k - 1. targets succ m ! j \<in> D" "frames succ D (Some m) rest" by (simp_all add: Cons f)
  have "targets succ m ! j \<in> insert n D" if "j < k" for j
    using that * by (cases "j = k - 1") auto
  with * show ?thesis using frames_mono [OF *(5), of "insert n D"] by (auto simp: Cons f)
qed simp

lemma frames_path:
  "frames succ D (Some a) st \<Longrightarrow> m \<in> fst ` set st \<Longrightarrow> (m, a) \<in> (succ_rel succ)\<^sup>+"
proof (induction st arbitrary: a)
  case (Cons f rest)
  obtain n k where f: "f = (n, k)" by (cases f)
  from Cons.prems have *: "0 < k" "k \<le> length (targets succ n)" "targets succ n ! (k - 1) = a"
    "frames succ D (Some n) rest" by (simp_all add: f)
  then have "a \<in> set (targets succ n)" using nth_mem [of "k - 1" "targets succ n"] by simp
  then have step: "(n, a) \<in> (succ_rel succ)\<^sup>+" by auto
  show ?case
  proof (cases "m = n")
    case False
    with Cons.prems(2) f have "m \<in> fst ` set rest" by auto
    from Cons.IH [OF *(4) this] step show ?thesis by (rule trancl_trans)
  qed (use step in simp)
qed simp

definition visit_result ::
  "edge list list \<Rightarrow> nat set \<Rightarrow> nat + (mark list \<times> nat list) \<Rightarrow> bool" where
  "visit_result succ seen r \<longleftrightarrow>
     (case r of
        Inl c \<Rightarrow> c < length succ \<and> (c, c) \<in> (succ_rel succ)\<^sup>+
      | Inr (marks, post) \<Rightarrow> visit_inv succ [] marks post \<and> seen \<subseteq> set post)"

lemma visit_result_mono: "visit_result succ S r \<Longrightarrow> T \<subseteq> S \<Longrightarrow> visit_result succ T r"
  by (auto simp: visit_result_def split: sum.splits)

lemma visit_inv_skip:
  assumes "visit_inv succ ((n, k) # stack) marks post" "k < length (targets succ n)"
    and "mark_at marks (targets succ n ! k) = Done"
  shows "visit_inv succ ((n, k + 1) # stack) marks post"
proof -
  have "targets succ n ! k < length succ"
    using assms by (auto simp: visit_inv_def intro: targets_nth_range)
  then have "targets succ n ! k \<in> set post"
    using assms by (auto simp: visit_inv_def mark_at_def)
  then show ?thesis using assms by (auto simp: visit_inv_def less_Suc_eq)
qed

lemma visit_inv_push:
  assumes "visit_inv succ ((n, k) # stack) marks post" "k < length (targets succ n)"
    and "mark_at marks (targets succ n ! k) = Unvisited"
  shows "visit_inv succ ((targets succ n ! k, 0) # (n, k + 1) # stack)
    (marks[targets succ n ! k := InProgress]) post"
proof -
  let ?c = "targets succ n ! k"
  have c: "?c < length marks" "marks ! ?c = Unvisited"
    using assms(3) by (auto simp: mark_at_def split: if_splits)
  have new: "?c \<notin> fst ` set ((n, k) # stack)" "?c \<notin> set post"
    using assms(1) c unfolding visit_inv_def by (metis mark.distinct(1), metis mark.distinct(3))
  have "\<forall>i. (i < length (marks[?c := InProgress]) \<and> marks[?c := InProgress] ! i = InProgress)
      \<longleftrightarrow> i \<in> fst ` set ((?c, 0) # (n, k + 1) # stack)"
    using assms(1) c by (auto simp: visit_inv_def nth_list_update)
  moreover have "\<forall>i. (i < length (marks[?c := InProgress]) \<and> marks[?c := InProgress] ! i = Done)
      \<longleftrightarrow> i \<in> set post"
    using assms(1) c new(2) unfolding visit_inv_def
    by (metis length_list_update mark.distinct(5) nth_list_update_eq nth_list_update_neq)
  ultimately show ?thesis using assms(1,2) new(1) unfolding visit_inv_def by auto
qed

lemma visit_inv_pop:
  assumes "visit_inv succ ((n, k) # stack) marks post" "\<not> k < length (targets succ n)"
  shows "visit_inv succ stack (marks[n := Done]) (post @ [n])"
proof -
  have n: "n < length marks" "marks ! n = InProgress"
    using assms(1) unfolding visit_inv_def by (metis fst_conv image_eqI list.set_intros(1))+
  then have new: "n \<notin> set post" using assms(1) unfolding visit_inv_def by (metis mark.distinct(5))
  have "\<forall>i. (i < length (marks[n := Done]) \<and> marks[n := Done] ! i = InProgress) \<longleftrightarrow> i \<in> fst ` set stack"
    using assms(1) n by (auto simp: visit_inv_def nth_list_update)
  moreover have "\<forall>i. (i < length (marks[n := Done]) \<and> marks[n := Done] ! i = Done)
      \<longleftrightarrow> i \<in> set (post @ [n])"
    using assms(1) n by (auto simp: visit_inv_def nth_list_update)
  moreover have "set (targets succ n) \<subseteq> set post"
    using assms by (auto simp: visit_inv_def in_set_conv_nth)
  moreover have "frames succ (set (post @ [n])) None stack"
    using assms(1) frames_done [of succ "set post" n stack] by (simp add: visit_inv_def)
  ultimately show ?thesis using assms(1) new by (simp add: visit_inv_def)
qed

lemma visit_inv_back_edge:
  assumes "visit_inv succ ((n, k) # stack) marks post" "k < length (targets succ n)"
    and "mark_at marks (targets succ n ! k) = InProgress"
  shows "targets succ n ! k < length succ \<and>
    (targets succ n ! k, targets succ n ! k) \<in> (succ_rel succ)\<^sup>+"
proof -
  let ?c = "targets succ n ! k"
  have "?c < length marks \<and> marks ! ?c = InProgress"
    using assms(3) by (auto simp: mark_at_def split: if_splits)
  then have mem: "?c < length succ" "?c \<in> fst ` set ((n, k) # stack)"
    using assms(1) unfolding visit_inv_def by (simp, blast)
  have step: "(n, ?c) \<in> succ_rel succ" using assms(2) by simp
  show ?thesis
  proof (cases "?c = n")
    case True
    with step mem show ?thesis by auto
  next
    case False
    with mem have "?c \<in> fst ` set stack" by auto
    moreover have "frames succ (set post) (Some n) stack" using assms(1) by (simp add: visit_inv_def)
    ultimately have "(?c, n) \<in> (succ_rel succ)\<^sup>+" using frames_path by blast
    with step mem(1) show ?thesis by (meson trancl.trancl_into_trancl)
  qed
qed

lemma visit_loop_result:
  "visit_inv succ stack marks post \<Longrightarrow>
     visit_result succ (set post \<union> fst ` set stack) (visit_loop succ stack marks post)"
proof (induction succ stack marks post rule: visit_loop.induct)
  case (1 succ marks post)
  then show ?case by (simp add: visit_result_def)
next
  case (2 succ n k stack marks post)
  show ?case
  proof (cases "k < length (targets succ n)")
    case True
    show ?thesis
    proof (cases "mark_at marks (targets succ n ! k)")
      case Unvisited
      have "visit_loop succ ((n, k) # stack) marks post =
        visit_loop succ ((targets succ n ! k, 0) # (n, k + 1) # stack)
          (marks[targets succ n ! k := InProgress]) post"
        unfolding visit_loop.simps(2) [of succ n k stack marks post] if_P [OF True] Let_def
          Unvisited mark.case ..
      with 2(1) [OF True refl Unvisited visit_inv_push [OF 2(4) True Unvisited]]
      show ?thesis by (auto elim!: visit_result_mono simp del: visit_loop.simps)
    next
      case InProgress
      from visit_inv_back_edge [OF 2(4) True InProgress] True InProgress
      show ?thesis by (simp add: visit_result_def)
    next
      case Done
      from 2(2) [OF True refl Done visit_inv_skip [OF 2(4) True Done]] True Done
      show ?thesis by simp
    qed
  next
    case False
    from 2(3) [OF False visit_inv_pop [OF 2(4) False]] False
    show ?thesis by (auto elim!: visit_result_mono)
  qed
qed

lemma visit_inv_start:
  assumes "visit_inv succ [] marks post" "start < length succ" "mark_at marks start \<noteq> Done"
  shows "visit_inv succ [(start, 0)] (marks[start := InProgress]) post"
proof -
  have u: "start < length marks" "marks ! start = Unvisited"
    using assms by (auto simp: visit_inv_def mark_at_def) (metis mark.exhaust)
  then have "start \<notin> set post" using assms(1) unfolding visit_inv_def by (metis mark.distinct(3))
  moreover have "\<forall>i. (i < length (marks[start := InProgress]) \<and> marks[start := InProgress] ! i = Done)
      \<longleftrightarrow> i \<in> set post"
    using assms(1) u calculation unfolding visit_inv_def
    by (metis length_list_update mark.distinct(5) nth_list_update_eq nth_list_update_neq)
  ultimately show ?thesis
    using assms(1) u by (auto simp: visit_inv_def nth_list_update)
qed

lemma visit_all_result:
  "visit_inv succ [] marks post \<Longrightarrow> set starts \<subseteq> {..<length succ} \<Longrightarrow>
     visit_result succ (set post \<union> set starts) (visit_all succ starts marks post)"
proof (induction starts arbitrary: marks post)
  case Nil
  then show ?case by (simp add: visit_result_def)
next
  case (Cons start rest)
  have step: "visit_result succ (insert start (set post)) (visit start succ marks post)"
  proof (cases "mark_at marks start = Done")
    case True
    with Cons.prems show ?thesis
      by (auto simp: visit_def visit_result_def visit_inv_def mark_at_def)
  next
    case False
    with visit_loop_result [OF visit_inv_start [OF Cons.prems(1) _ False]] Cons.prems(2)
    show ?thesis by (simp add: visit_def)
  qed
  show ?case
  proof (cases "visit start succ marks post")
    case (Inl c)
    with step show ?thesis by (simp add: visit_result_def)
  next
    case (Inr r)
    obtain marks' post' where r: "r = (marks', post')" by (cases r)
    from step Inr r have "visit_inv succ [] marks' post'" "insert start (set post) \<subseteq> set post'"
      by (simp_all add: visit_result_def)
    with Cons.IH [of marks' post'] Cons.prems(2) Inr r show ?thesis
      by (auto elim!: visit_result_mono)
  qed
qed

lemma visit_inv_empty: "in_range succ \<Longrightarrow> visit_inv succ [] (replicate (length succ) Unvisited) []"
  by (auto simp: visit_inv_def)

lemma topo_closed: "topo succ order \<Longrightarrow> i \<in> set order \<Longrightarrow> set (targets succ i) \<subseteq> set order"
  by (induction order) auto

lemma topo_distinct: "topo succ order \<Longrightarrow> distinct order"
  by (induction order) auto

lemma topo_later:
  "topo succ order \<Longrightarrow> k < length order \<Longrightarrow> c \<in> set (targets succ (order ! k)) \<Longrightarrow>
     \<exists>l. k < l \<and> l < length order \<and> order ! l = c"
proof (induction order arbitrary: k)
  case (Cons i rest)
  show ?case
  proof (cases k)
    case 0
    with Cons.prems obtain l where "l < length rest" "rest ! l = c"
      by (auto simp: subset_iff in_set_conv_nth)
    with 0 show ?thesis by (intro exI [of _ "Suc l"]) simp
  next
    case (Suc m)
    with Cons.IH [of m] Cons.prems obtain l where "m < l" "l < length rest" "rest ! l = c" by auto
    with Suc show ?thesis by (intro exI [of _ "Suc l"]) simp
  qed
qed simp

text \<open>The outcome of the search on a graph all of whose nodes are reachable.\<close>

lemma visit_all_order:
  assumes "in_range succ" "set sources \<subseteq> {..<length succ}"
    and "{..<length succ} \<subseteq> (succ_rel succ)\<^sup>* `` set sources"
    and "visit_all succ sources (replicate (length succ) Unvisited) [] = Inr (marks, post)"
  shows "topo succ (rev post)" "set post = {..<length succ}"
proof -
  have r: "visit_inv succ [] marks post" "set sources \<subseteq> set post"
    using visit_all_result [OF visit_inv_empty [OF assms(1)] assms(2)] assms(4)
    by (simp_all add: visit_result_def)
  then show t: "topo succ (rev post)" by (simp add: visit_inv_def)
  have "j \<in> set post" if "(i, j) \<in> (succ_rel succ)\<^sup>*" "i \<in> set sources" for i j
    using that by (induction) (use r(2) topo_closed [OF t] in auto)
  with assms(3) have "{..<length succ} \<subseteq> set post" by auto
  moreover have "set post \<subseteq> {..<length succ}" using r(1) by (auto simp: visit_inv_def)
  ultimately show "set post = {..<length succ}" by blast
qed

lemma visit_all_cycle:
  assumes "in_range succ" "set sources \<subseteq> {..<length succ}"
    and "visit_all succ sources (replicate (length succ) Unvisited) [] = Inl c"
  shows "c < length succ \<and> (c, c) \<in> (succ_rel succ)\<^sup>+"
  using visit_all_result [OF visit_inv_empty [OF assms(1)] assms(2)] assms(3)
  by (simp add: visit_result_def)

section \<open>Renumbering\<close>

lemma length_renumber [simp]: "length (renumber order s index) = length index"
  by (induction order s index rule: renumber.induct) simp_all

lemma renumber_other: "x \<notin> set order \<Longrightarrow> renumber order s index ! x = index ! x"
  by (induction order s index rule: renumber.induct) auto

lemma renumber_nth:
  "distinct order \<Longrightarrow> set order \<subseteq> {..<length index} \<Longrightarrow> k < length order \<Longrightarrow>
     renumber order s index ! (order ! k) = s + k"
proof (induction order arbitrary: s index k)
  case (Cons old rest)
  then show ?case
    by (cases k) (auto simp: renumber_other)
qed simp

section \<open>Wiring\<close>

lemma position_of_Some: "position_of nodes x = Some t \<Longrightarrow> t < length nodes \<and> node_id (nodes ! t) = x"
  by (auto simp: position_of_def dest!: map_of_SomeD simp: set_zip)

lemma position_of_distinct:
  assumes "distinct (map node_id nodes)" "t < length nodes"
  shows "position_of nodes (node_id (nodes ! t)) = Some t"
proof -
  have "distinct (map fst (rev (zip (map node_id nodes) [0..<length nodes])))"
    using assms(1) by (simp flip: rev_map)
  moreover have "(node_id (nodes ! t), t) \<in> set (rev (zip (map node_id nodes) [0..<length nodes]))"
    using assms(2) by (auto simp: set_zip intro: exI [of _ t])
  ultimately show ?thesis unfolding position_of_def by (rule map_of_is_SomeI)
qed

definition entry_target :: "node_config list \<Rightarrow> string \<Rightarrow> nat option" where
  "entry_target nodes entry =
     (if fst (parse_from entry) = SOURCE_ID then None else position_of nodes (fst (parse_from entry)))"

definition declared_sources :: "(nat \<times> string) list \<Rightarrow> nat list" where
  "declared_sources es = map fst (filter (\<lambda>(i, entry). fst (parse_from entry) = SOURCE_ID) es)"

definition declared_edges :: "node_config list \<Rightarrow> (nat \<times> string) list \<Rightarrow> nat \<Rightarrow> edge list" where
  "declared_edges nodes es t =
     (if is_sink (nodes ! t) then []
      else map (\<lambda>(i, entry). \<lparr>edge_target = i, edge_label = snd (parse_from entry)\<rparr>)
             (filter (\<lambda>(i, entry). entry_target nodes entry = Some t) es))"

text \<open>What the loop accepts of an entry: the source, or a node, with a label exactly when that node
  is a route, one the route declares.\<close>

definition entry_ok :: "node_config list \<Rightarrow> (nat \<times> route_spec) list \<Rightarrow> string \<Rightarrow> bool" where
  "entry_ok nodes routes entry \<longleftrightarrow>
     (case entry_target nodes entry of
        None \<Rightarrow> fst (parse_from entry) = SOURCE_ID \<and> snd (parse_from entry) = None
      | Some t \<Rightarrow>
          (case map_of routes t of
             None \<Rightarrow> snd (parse_from entry) = None
           | Some spec \<Rightarrow> \<exists>l \<in> set (route_labels spec). snd (parse_from entry) = Some l))"

definition consumes :: "node_config list \<Rightarrow> (nat \<times> string) list \<Rightarrow> nat \<times> string \<Rightarrow> bool" where
  "consumes nodes es c \<longleftrightarrow>
     (\<exists>(i, entry) \<in> set es. entry_target nodes entry = Some (fst c)
        \<and> snd (parse_from entry) = Some (snd c))"

lemma wire_entry_Inr:
  assumes "wire_entry nodes routes i entry w = Inr w'" "length (wi_succ w) = length nodes"
  shows "entry_ok nodes routes entry
    \<and> wi_source w' = wi_source w @ declared_sources [(i, entry)]
    \<and> length (wi_succ w') = length nodes
    \<and> (\<forall>t < length nodes. wi_succ w' ! t = wi_succ w ! t @ declared_edges nodes [(i, entry)] t)
    \<and> (\<forall>c \<in> set (wi_consumed w'). c \<in> set (wi_consumed w) \<or> consumes nodes [(i, entry)] c)"
proof -
  obtain name label where e: "parse_from entry = (name, label)" by (cases "parse_from entry")
  show ?thesis
  proof (cases "name = SOURCE_ID")
    case True
    with assms e show ?thesis
      by (auto simp: wire_entry_def Let_def resolve_target_def check_label_def entry_ok_def
          entry_target_def declared_sources_def declared_edges_def consumes_def split: option.splits)
  next
    case False
    with assms(1) e obtain t where t: "position_of nodes name = Some t"
      by (auto simp: wire_entry_def Let_def resolve_target_def split: option.splits)
    from position_of_Some [OF t] False t e assms show ?thesis
      by (auto simp: wire_entry_def Let_def resolve_target_def check_label_def entry_ok_def
          entry_target_def declared_sources_def declared_edges_def consumes_def nth_list_update
          split: option.splits if_splits)
  qed
qed

lemma declared_Cons:
  "declared_sources (x # es) = declared_sources [x] @ declared_sources es"
  "declared_edges nodes (x # es) t = declared_edges nodes [x] t @ declared_edges nodes es t"
  "consumes nodes (x # es) c \<longleftrightarrow> consumes nodes [x] c \<or> consumes nodes es c"
  by (auto simp: declared_sources_def declared_edges_def consumes_def)

lemma wire_loop_Inr:
  "wire_loop nodes routes es w = Inr w' \<Longrightarrow> length (wi_succ w) = length nodes \<Longrightarrow>
     (\<forall>(i, entry) \<in> set es. entry_ok nodes routes entry)
   \<and> wi_source w' = wi_source w @ declared_sources es
   \<and> length (wi_succ w') = length nodes
   \<and> (\<forall>t < length nodes. wi_succ w' ! t = wi_succ w ! t @ declared_edges nodes es t)
   \<and> (\<forall>c \<in> set (wi_consumed w'). c \<in> set (wi_consumed w) \<or> consumes nodes es c)"
proof (induction nodes routes es w rule: wire_loop.induct)
  case (1 nodes routes w)
  then show ?case by (simp add: declared_sources_def declared_edges_def)
next
  case (2 nodes routes i entry rest w)
  from 2(2) obtain w1 where w1: "wire_entry nodes routes i entry w = Inr w1"
    "wire_loop nodes routes rest w1 = Inr w'" by (auto split: sum.splits)
  from wire_entry_Inr [OF w1(1) 2(3)] 2(1) [OF w1]
  show ?case
    unfolding declared_Cons(1) [of "(i, entry)" rest] declared_Cons(2,3) [of nodes "(i, entry)" rest]
    by (simp add: ball_Un) blast
qed

end
