(* ===== verification/Dag_Theorems.thy ===== *)
theory Dag_Theorems
  imports Dag_Laws
begin

text \<open>
  The theorems on \<open>dag_from_config\<close>: what a loaded graph is, against the config it was built from.
\<close>

section \<open>The parts of a loaded graph\<close>

lemma all_entries_iff:
  "(i, entry) \<in> set (all_entries nodes) \<longleftrightarrow> i < length nodes \<and> entry \<in> set (node_from (nodes ! i))"
  by (auto simp: all_entries_def)

lemma collect_routes_map:
  "collect_routes fv s nodes = Inr routes \<Longrightarrow>
     (t < s \<longrightarrow> map_of routes t = None) \<and>
     (t < length nodes \<longrightarrow>
       (if node_kind (nodes ! t) = ROUTE_KIND
        then \<exists>spec. map_of routes (s + t) = Some spec \<and> route_spec_from_node fv (nodes ! t) = Inr spec
        else map_of routes (s + t) = None))"
proof (induction nodes arbitrary: s routes t)
  case (Cons node rest)
  show ?case
  proof (cases "node_kind node = ROUTE_KIND")
    case True
    with Cons.prems obtain spec more where r: "route_spec_from_node fv node = Inr spec"
      "collect_routes fv (Suc s) rest = Inr more" "routes = (s, spec) # more"
      by (auto simp: map_sum_Inr_iff split: sum.splits)
    from Cons.IH [OF r(2), of "t - 1"] Cons.IH [OF r(2), of t] True r(1,3)
    show ?thesis by (cases t) auto
  next
    case False
    with Cons.prems have r: "collect_routes fv (Suc s) rest = Inr routes" by simp
    from Cons.IH [OF r, of "t - 1"] Cons.IH [OF r, of t] Cons.IH [OF r, of s] False
    show ?thesis by (cases t) auto
  qed
qed simp

lemma find_unconsumed_None:
  "find_unconsumed nodes consumed routes = None \<longleftrightarrow>
     (\<forall>(r, spec) \<in> set routes. \<forall>l \<in> set (route_labels spec). (r, l) \<in> set consumed)"
  by (induction routes) (auto split: option.splits simp: find_None_iff find_Some_iff)

lemma wiring_in_range:
  assumes "length (wi_succ w) = length nodes"
    and "\<And>t. t < length nodes \<Longrightarrow> wi_succ w ! t = declared_edges nodes (all_entries nodes) t"
  shows "in_range (wi_succ w)"
  using assms by (auto simp: in_range_def targets_def declared_edges_def all_entries_iff split: if_splits)

lemma declared_sources_range: "set (declared_sources (all_entries nodes)) \<subseteq> {..<length nodes}"
  by (auto simp: declared_sources_def all_entries_iff)

definition wired :: "node_config list \<Rightarrow> (nat \<times> route_spec) list \<Rightarrow> wiring \<Rightarrow> bool" where
  "wired nodes routes w \<longleftrightarrow>
     length (wi_succ w) = length nodes
   \<and> (\<forall>t < length nodes. wi_succ w ! t = declared_edges nodes (all_entries nodes) t)
   \<and> wi_source w = declared_sources (all_entries nodes)
   \<and> (\<forall>(i, entry) \<in> set (all_entries nodes). entry_ok nodes routes entry)
   \<and> (\<forall>c \<in> set (wi_consumed w). consumes nodes (all_entries nodes) c)"

lemma wire_loop_wired:
  assumes "wire_loop nodes routes (all_entries nodes) (empty_wiring (length nodes)) = Inr w"
  shows "wired nodes routes w"
  using wire_loop_Inr [OF assms] by (simp add: wired_def empty_wiring_def)

lemma wired_range:
  assumes "wired nodes routes w"
  shows "in_range (wi_succ w)" "set (wi_source w) \<subseteq> {..<length (wi_succ w)}"
  using assms wiring_in_range [of w nodes] declared_sources_range [of nodes] by (simp_all add: wired_def)

text \<open>What a successful load went through.\<close>

lemma dag_from_config_Inr:
  assumes "dag_from_config fv cfg = Inr d"
  obtains routes w order where
    "collect_routes fv 0 (cfg_nodes cfg) = Inr routes" "wired (cfg_nodes cfg) routes w"
    "find_unconsumed (cfg_nodes cfg) (wi_consumed w) routes = None"
    "{..<length (wi_succ w)} \<subseteq> (succ_rel (wi_succ w))\<^sup>* `` set (wi_source w)"
    "topo (wi_succ w) order" "set order = {..<length (wi_succ w)}"
    "d = build_dag (cfg_nodes cfg) w order"
proof -
  let ?n = "cfg_nodes cfg"
  from assms obtain routes w marks post where
    r: "collect_routes fv 0 ?n = Inr routes" and
    w: "wire_loop ?n routes (all_entries ?n) (empty_wiring (length ?n)) = Inr w" and
    u: "find_unconsumed ?n (wi_consumed w) routes = None" and
    f: "List.find (\<lambda>i. \<not> reach (wi_succ w) (rev (wi_source w)) (replicate (length ?n) False) ! i)
          [0..<length ?n] = None" and
    v: "visit_all (wi_succ w) (wi_source w) (replicate (length ?n) Unvisited) [] = Inr (marks, post)" and
    d: "d = build_dag ?n w (rev post)"
    unfolding dag_from_config_def Let_def by (auto split: if_splits sum.splits option.splits)
  have wired: "wired ?n routes w" by (rule wire_loop_wired [OF w])
  note range = wired_range [OF wired]
  from wired have len: "length (wi_succ w) = length ?n" by (simp add: wired_def)
  have "{..<length (wi_succ w)} \<subseteq> (succ_rel (wi_succ w))\<^sup>* `` set (wi_source w)"
  proof
    fix i assume i: "i \<in> {..<length (wi_succ w)}"
    with f len have "reach (wi_succ w) (rev (wi_source w)) (replicate (length (wi_succ w)) False) ! i"
      by (auto simp: find_None_iff)
    with reach_iff [OF range] i show "i \<in> (succ_rel (wi_succ w))\<^sup>* `` set (wi_source w)" by blast
  qed
  with visit_all_order [OF range this] v len r wired u d that [of routes w "rev post"]
  show thesis by simp
qed

lemma dag_from_config_Cycle:
  assumes "dag_from_config fv cfg = Inl (Cycle x)"
  obtains routes w i where "wired (cfg_nodes cfg) routes w" "i < length (cfg_nodes cfg)"
    "node_id (cfg_nodes cfg ! i) = x" "(i, i) \<in> (succ_rel (wi_succ w))\<^sup>+"
proof -
  let ?n = "cfg_nodes cfg"
  have routes: "collect_routes fv s nodes \<noteq> Inl (Cycle x)" for s nodes
    by (induction nodes arbitrary: s)
      (auto simp: map_sum_Inl_iff route_spec_from_node_def parse_params_def invalid_params_def
        route_spec_from_params_def split: sum.splits if_splits dest!: route_rules_Inl)
  have wire: "wire_loop nodes routes es w \<noteq> Inl (Cycle x)" for nodes routes es w
    by (induction nodes routes es w rule: wire_loop.induct)
      (auto simp: wire_entry_def resolve_target_def check_label_def Let_def
        split: sum.splits option.splits prod.splits if_splits)
  have uncons: "find_unconsumed nodes c routes \<noteq> Some (Cycle x)" for nodes c routes
    by (induction nodes c routes rule: find_unconsumed.induct) (auto split: option.splits)
  from assms obtain routes w i where
    w: "wire_loop ?n routes (all_entries ?n) (empty_wiring (length ?n)) = Inr w" and
    v: "visit_all (wi_succ w) (wi_source w) (replicate (length ?n) Unvisited) [] = Inl i" and
    i: "node_id (?n ! i) = x"
    using routes wire uncons unfolding dag_from_config_def Let_def
    by (auto split: if_splits sum.splits option.splits)
  have wired: "wired ?n routes w" by (rule wire_loop_wired [OF w])
  then have len: "length (wi_succ w) = length ?n" by (simp add: wired_def)
  from visit_all_cycle [OF wired_range [OF wired]] v len that [OF wired _ i] show thesis by simp
qed

section \<open>The built graph\<close>

text \<open>The place of a file position in the order.\<close>

definition place :: "nat list \<Rightarrow> nat \<Rightarrow> nat" where
  "place order i = renumber order 0 (replicate (length order) 0) ! i"

lemma place_nth:
  "distinct order \<Longrightarrow> set order = {..<length order} \<Longrightarrow> k < length order \<Longrightarrow> place order (order ! k) = k"
  unfolding place_def by (subst renumber_nth) auto

lemma place_range:
  assumes "distinct order" "set order = {..<length order}" "i < length order"
  shows "place order i < length order" "order ! place order i = i"
proof -
  from assms obtain k where "k < length order" "order ! k = i"
    by (metis in_set_conv_nth lessThan_iff)
  with place_nth [OF assms(1,2), of k] show "place order i < length order" "order ! place order i = i"
    by auto
qed

definition placed :: "node_config list \<Rightarrow> wiring \<Rightarrow> nat list \<Rightarrow> bool" where
  "placed nodes w order \<longleftrightarrow>
     distinct order \<and> set order = {..<length order} \<and> length order = length nodes
   \<and> length (wi_succ w) = length nodes \<and> topo (wi_succ w) order \<and> in_range (wi_succ w)
   \<and> set (wi_source w) \<subseteq> {..<length nodes}"

lemma dag_parts:
  assumes "dag_from_config fv cfg = Inr d"
  obtains routes w order where
    "collect_routes fv 0 (cfg_nodes cfg) = Inr routes" "wired (cfg_nodes cfg) routes w"
    "find_unconsumed (cfg_nodes cfg) (wi_consumed w) routes = None"
    "{..<length (wi_succ w)} \<subseteq> (succ_rel (wi_succ w))\<^sup>* `` set (wi_source w)"
    "placed (cfg_nodes cfg) w order" "d = build_dag (cfg_nodes cfg) w order"
proof -
  from dag_from_config_Inr [OF assms] obtain routes w order where p:
    "collect_routes fv 0 (cfg_nodes cfg) = Inr routes" "wired (cfg_nodes cfg) routes w"
    "find_unconsumed (cfg_nodes cfg) (wi_consumed w) routes = None"
    "{..<length (wi_succ w)} \<subseteq> (succ_rel (wi_succ w))\<^sup>* `` set (wi_source w)"
    "topo (wi_succ w) order" "set order = {..<length (wi_succ w)}"
    "d = build_dag (cfg_nodes cfg) w order" .
  from topo_distinct [OF p(5)] have "distinct order" .
  then have "length order = length (wi_succ w)" using p(6) distinct_card by fastforce
  with p topo_distinct [OF p(5)] wired_range [OF p(2)] have "placed (cfg_nodes cfg) w order"
    by (simp add: placed_def wired_def)
  with p that show thesis by blast
qed

lemma build_dag_parts:
  assumes "placed nodes w order"
  shows "length (dag_nodes (build_dag nodes w order)) = length nodes"
    and "length (dag_edges (build_dag nodes w order)) = length nodes"
    and "k < length nodes \<Longrightarrow> dag_nodes (build_dag nodes w order) ! k = nodes ! (order ! k)"
    and "k < length nodes \<Longrightarrow> dag_edges (build_dag nodes w order) ! k =
      map (\<lambda>e. \<lparr>edge_target = place order (edge_target e), edge_label = edge_label e\<rparr>)
        (wi_succ w ! (order ! k))"
    and "dag_sources (build_dag nodes w order) = map (place order) (wi_source w)"
  using assms by (simp_all add: build_dag_def Let_def placed_def place_def)

lemma targets_build_dag:
  assumes "placed nodes w order" "i < length nodes"
  shows "targets (dag_edges (build_dag nodes w order)) (place order i) =
    map (place order) (targets (wi_succ w) i)"
  using assms build_dag_parts [OF assms(1)] place_range [of order i]
  by (simp add: targets_def placed_def)

lemma targets_build_dag_nth:
  assumes "placed nodes w order" "k < length nodes"
  shows "targets (dag_edges (build_dag nodes w order)) k =
    map (place order) (targets (wi_succ w) (order ! k))"
  using assms build_dag_parts [OF assms(1)] nth_mem [of k order]
  by (simp add: targets_def placed_def)

section \<open>Theorems\<close>

theorem dag_topological:
  assumes "dag_from_config fv cfg = Inr d"
  shows "mset (dag_nodes d) = mset (cfg_nodes cfg) \<and> length (dag_edges d) = length (dag_nodes d)
    \<and> (\<forall>i < length (dag_nodes d). \<forall>c \<in> set (targets (dag_edges d) i). i < c \<and> c < length (dag_nodes d))
    \<and> set (dag_sources d) \<subseteq> {..<length (dag_nodes d)}"
proof -
  from dag_parts [OF assms] obtain routes w order where
    p: "placed (cfg_nodes cfg) w order" and d: "d = build_dag (cfg_nodes cfg) w order" .
  note b = build_dag_parts [OF p]
  from p have o: "distinct order" "set order = {..<length order}" "length order = length (cfg_nodes cfg)"
    "topo (wi_succ w) order" by (simp_all add: placed_def)
  have "set order = set [0..<length (cfg_nodes cfg)]" 
    by (simp only: o(2) o(3) set_upt atLeast0LessThan)
  with o(1) have "mset order = mset [0..<length (cfg_nodes cfg)]"
    by (metis distinct_upt set_eq_iff_mset_eq_distinct)
  then have "mset (map (\<lambda>i. cfg_nodes cfg ! i) order) = mset (map (\<lambda>i. cfg_nodes cfg ! i) [0..<length (cfg_nodes cfg)])"
    by simp
  then have "mset (dag_nodes d) = mset (cfg_nodes cfg)"
    unfolding map_nth by (simp add: d build_dag_def Let_def)
  moreover have "k < c \<and> c < length (cfg_nodes cfg)"
    if "k < length (cfg_nodes cfg)" "c \<in> set (targets (dag_edges d) k)" for k c
  proof -
    from that targets_build_dag_nth [OF p that(1)] d obtain x where
      x: "x \<in> set (targets (wi_succ w) (order ! k))" "c = place order x" by auto
    from topo_later [OF o(4), of k x] that(1) o(3) x(1) obtain l where
      "k < l" "l < length order" "order ! l = x" by auto
    with place_nth [OF o(1,2)] x(2) o(3) show ?thesis by auto
  qed
  moreover have "set (dag_sources d) \<subseteq> {..<length (cfg_nodes cfg)}"
  proof
    fix k assume "k \<in> set (dag_sources d)"
    then obtain s where s: "s \<in> set (wi_source w)" "k = place order s" using b(5) d by auto
    then have "s < length order" using p by (auto simp: placed_def)
    from place_range(1) [OF o(1,2) this] s(2) o(3) show "k \<in> {..<length (cfg_nodes cfg)}" by simp
  qed
  moreover have "length (dag_nodes d) = length (cfg_nodes cfg)"
    "length (dag_edges d) = length (cfg_nodes cfg)" using b(1,2) d by blast+
  ultimately show ?thesis by metis
qed

text \<open>C10: every node of a loaded graph is reached from the source.\<close>

theorem dag_reachable:
  assumes "dag_from_config fv cfg = Inr d" "i < length (dag_nodes d)"
  shows "i \<in> (succ_rel (dag_edges d))\<^sup>* `` set (dag_sources d)"
proof -
  from dag_parts [OF assms(1)] obtain routes w order where
    wired: "wired (cfg_nodes cfg) routes w" and
    r: "{..<length (wi_succ w)} \<subseteq> (succ_rel (wi_succ w))\<^sup>* `` set (wi_source w)" and
    p: "placed (cfg_nodes cfg) w order" and d: "d = build_dag (cfg_nodes cfg) w order" .
  note b = build_dag_parts [OF p]
  from p have o: "distinct order" "set order = {..<length order}" "length order = length (cfg_nodes cfg)"
    "length (wi_succ w) = length (cfg_nodes cfg)" "in_range (wi_succ w)"
    "set (wi_source w) \<subseteq> {..<length (cfg_nodes cfg)}" by (simp_all add: placed_def)
  have i: "i < length order" using assms(2) b(1) d o(3) by simp
  then have "order ! i < length (wi_succ w)" using o nth_mem [OF i] by auto
  with r obtain s where s: "s \<in> set (wi_source w)" "(s, order ! i) \<in> (succ_rel (wi_succ w))\<^sup>*" by auto
  from s(2) have "(place order s, place order (order ! i)) \<in> (succ_rel (dag_edges d))\<^sup>* \<and>
    order ! i < length (cfg_nodes cfg)"
  proof (induction rule: rtrancl_induct)
    case base
    then show ?case using s(1) o(6) by auto
  next
    case (step y z)
    then have "z < length (cfg_nodes cfg)" using in_rangeD [OF o(5)] o(4) by auto
    moreover have "(place order y, place order z) \<in> succ_rel (dag_edges d)"
      using step targets_build_dag [OF p, of y] d by auto
    ultimately show ?case using step.IH by (meson rtrancl.rtrancl_into_rtrancl)
  qed
  then have "(place order s, i) \<in> (succ_rel (dag_edges d))\<^sup>*" using place_nth [OF o(1,2) i] by simp
  with s(1) b(5) d show ?thesis by auto
qed

theorem dag_route_labels:
  assumes "dag_from_config fv cfg = Inr d" "i < length (dag_nodes d)"
  shows "if node_kind (dag_nodes d ! i) = ROUTE_KIND
    then \<exists>spec. route_spec_from_node fv (dag_nodes d ! i) = Inr spec
           \<and> set (map edge_label (dag_edges d ! i)) = Some ` set (route_labels spec)
    else set (map edge_label (dag_edges d ! i)) \<subseteq> {None}"
proof -
  from dag_parts [OF assms(1)] obtain routes w order where
    routes: "collect_routes fv 0 (cfg_nodes cfg) = Inr routes" and
    wired: "wired (cfg_nodes cfg) routes w" and
    u: "find_unconsumed (cfg_nodes cfg) (wi_consumed w) routes = None" and
    p: "placed (cfg_nodes cfg) w order" and d: "d = build_dag (cfg_nodes cfg) w order" .
  let ?nodes = "cfg_nodes cfg" and ?t = "order ! i"
  note b = build_dag_parts [OF p]
  from p have o: "set order = {..<length order}" "length order = length ?nodes" by (simp_all add: placed_def)
  have i: "i < length ?nodes" using assms(2) b(1) d by simp
  then have t: "?t < length ?nodes" using o nth_mem [of i order] by auto
  have node: "dag_nodes d ! i = ?nodes ! ?t" using b(3) [OF i] d by simp
  have labels: "map edge_label (dag_edges d ! i) =
    map edge_label (declared_edges ?nodes (all_entries ?nodes) ?t)"
    using b(4) [OF i] wired t by (simp add: d wired_def comp_def)
  have ok: "entry_ok ?nodes routes entry" if "(j, entry) \<in> set (all_entries ?nodes)" for j entry
    using wired that by (auto simp: wired_def)
  show ?thesis
  proof (cases "node_kind (?nodes ! ?t) = ROUTE_KIND")
    case True
    from collect_routes_map [OF routes, of ?t] t True obtain spec where
      spec: "map_of routes ?t = Some spec" "route_spec_from_node fv (?nodes ! ?t) = Inr spec" by auto
    have "\<not> is_sink (?nodes ! ?t)"
      using True by (auto simp: is_sink_def ROUTE_KIND_def starts_with_def)
    then have declared: "declared_edges ?nodes (all_entries ?nodes) ?t =
      map (\<lambda>(j, entry). \<lparr>edge_target = j, edge_label = snd (parse_from entry)\<rparr>)
        (filter (\<lambda>(j, entry). entry_target ?nodes entry = Some ?t) (all_entries ?nodes))"
      by (simp add: declared_edges_def)
    have "set (map edge_label (dag_edges d ! i)) = Some ` set (route_labels spec)"
    proof (intro set_eqI iffI)
      fix l assume "l \<in> set (map edge_label (dag_edges d ! i))"
      then obtain j entry where e: "(j, entry) \<in> set (all_entries ?nodes)"
        "entry_target ?nodes entry = Some ?t" "l = snd (parse_from entry)"
        unfolding labels declared by auto
      with ok [OF e(1)] spec(1) show "l \<in> Some ` set (route_labels spec)"
        by (auto simp: entry_ok_def)
    next
      fix l assume "l \<in> Some ` set (route_labels spec)"
      then obtain x where x: "l = Some x" "x \<in> set (route_labels spec)" by auto
      with u map_of_SomeD [OF spec(1)] have "(?t, x) \<in> set (wi_consumed w)"
        by (auto simp: find_unconsumed_None)
      with wired have "consumes ?nodes (all_entries ?nodes) (?t, x)" by (auto simp: wired_def)
      with x(1) show "l \<in> set (map edge_label (dag_edges d ! i))"
        unfolding labels declared by (force simp: consumes_def)
    qed
    with spec(2) node True show ?thesis by simp
  next
    case False
    from collect_routes_map [OF routes, of ?t] t False have none: "map_of routes ?t = None" by auto
    have "set (map edge_label (dag_edges d ! i)) \<subseteq> {None}"
    proof
      fix l assume "l \<in> set (map edge_label (dag_edges d ! i))"
      then obtain j entry where e: "(j, entry) \<in> set (all_entries ?nodes)"
        "entry_target ?nodes entry = Some ?t" "l = snd (parse_from entry)"
        unfolding labels by (auto simp: declared_edges_def split: if_splits)
      with ok [OF e(1)] none show "l \<in> {None}" by (simp add: entry_ok_def)
    qed
    with node False show ?thesis by simp
  qed
qed

text \<open>Which node feeds which, read off the config: \<open>b\<close> names \<open>a\<close> in its \<open>from\<close>, and \<open>a\<close> is
  not a sink.\<close>

definition feeds :: "config \<Rightarrow> (string \<times> string) set" where
  "feeds cfg =
     {(a, b). a \<noteq> SOURCE_ID \<and>
        (\<exists>x \<in> set (cfg_nodes cfg). \<exists>y \<in> set (cfg_nodes cfg). node_id x = a \<and> node_id y = b \<and> \<not> is_sink x
          \<and> (\<exists>entry \<in> set (node_from y). fst (parse_from entry) = a))}"

lemma wired_feeds:
  assumes "wired (cfg_nodes cfg) routes w" "i < length (cfg_nodes cfg)" "j \<in> set (targets (wi_succ w) i)"
  shows "(node_id (cfg_nodes cfg ! i), node_id (cfg_nodes cfg ! j)) \<in> feeds cfg"
proof -
  have "wi_succ w ! i = declared_edges (cfg_nodes cfg) (all_entries (cfg_nodes cfg)) i"
    "length (wi_succ w) = length (cfg_nodes cfg)" using assms by (simp_all add: wired_def)
  with assms(2,3) obtain entry where e: "(j, entry) \<in> set (all_entries (cfg_nodes cfg))"
    "entry_target (cfg_nodes cfg) entry = Some i" "\<not> is_sink (cfg_nodes cfg ! i)"
    by (auto simp: targets_def declared_edges_def split: if_splits)
  then have "fst (parse_from entry) \<noteq> SOURCE_ID" "node_id (cfg_nodes cfg ! i) = fst (parse_from entry)"
    by (auto simp: entry_target_def dest!: position_of_Some split: if_splits)
  with e assms(2) have "\<exists>x \<in> set (cfg_nodes cfg). \<exists>y \<in> set (cfg_nodes cfg).
      node_id x = node_id (cfg_nodes cfg ! i) \<and> node_id y = node_id (cfg_nodes cfg ! j) \<and> \<not> is_sink x
      \<and> (\<exists>entry \<in> set (node_from y). fst (parse_from entry) = node_id (cfg_nodes cfg ! i))"
    by (intro bexI [of _ "cfg_nodes cfg ! i"] bexI [of _ "cfg_nodes cfg ! j"])
      (auto simp: all_entries_iff)
  with \<open>fst (parse_from entry) \<noteq> SOURCE_ID\<close> \<open>node_id (cfg_nodes cfg ! i) = fst (parse_from entry)\<close>
  show ?thesis unfolding feeds_def by simp
qed

lemma feeds_wired:
  assumes "wired (cfg_nodes cfg) routes w" "distinct (map node_id (cfg_nodes cfg))"
    and "(a, b) \<in> feeds cfg"
  obtains i j where "i < length (cfg_nodes cfg)" "j < length (cfg_nodes cfg)"
    "node_id (cfg_nodes cfg ! i) = a" "node_id (cfg_nodes cfg ! j) = b" "j \<in> set (targets (wi_succ w) i)"
proof -
  from assms(3) obtain x y entry where f: "a \<noteq> SOURCE_ID" "x \<in> set (cfg_nodes cfg)" "y \<in> set (cfg_nodes cfg)"
    "node_id x = a" "node_id y = b" "\<not> is_sink x" "entry \<in> set (node_from y)" "fst (parse_from entry) = a"
    unfolding feeds_def by auto
  then obtain i j where ij: "i < length (cfg_nodes cfg)" "cfg_nodes cfg ! i = x"
    "j < length (cfg_nodes cfg)" "cfg_nodes cfg ! j = y" by (auto simp: in_set_conv_nth)
  have "entry_target (cfg_nodes cfg) entry = Some i"
    using position_of_distinct [OF assms(2) ij(1)] f ij by (simp add: entry_target_def)
  moreover have "(j, entry) \<in> set (all_entries (cfg_nodes cfg))" using f ij by (auto simp: all_entries_iff)
  ultimately have "j \<in> set (map edge_target (declared_edges (cfg_nodes cfg) (all_entries (cfg_nodes cfg)) i))"
    using f ij by (force simp: declared_edges_def)
  then have "j \<in> set (targets (wi_succ w) i)" using assms(1) ij by (simp add: wired_def targets_def)
  with that ij f show thesis by blast
qed

text \<open>C12: a config is refused for a cycle only when the named node feeds itself through other nodes.\<close>

theorem dag_cycle_sound:
  assumes "dag_from_config fv cfg = Inl (Cycle x)"
  shows "(x, x) \<in> (feeds cfg)\<^sup>+"
proof -
  from dag_from_config_Cycle [OF assms] obtain routes w i where
    wired: "wired (cfg_nodes cfg) routes w" and i: "i < length (cfg_nodes cfg)"
    and x: "node_id (cfg_nodes cfg ! i) = x" and c: "(i, i) \<in> (succ_rel (wi_succ w))\<^sup>+" .
  have len: "length (wi_succ w) = length (cfg_nodes cfg)" using wired by (simp add: wired_def)
  have "(node_id (cfg_nodes cfg ! i), node_id (cfg_nodes cfg ! j)) \<in> (feeds cfg)\<^sup>+ \<and> j < length (cfg_nodes cfg)"
    if "(i, j) \<in> (succ_rel (wi_succ w))\<^sup>+" for j
    using that
  proof induction
    case (base j)
    with wired_feeds [OF wired i] in_rangeD [OF wired_range(1) [OF wired]] len show ?case by auto
  next
    case (step j k)
    with wired_feeds [OF wired, of j k] in_rangeD [OF wired_range(1) [OF wired], of k j] len
    show ?case by (auto intro: trancl.trancl_into_trancl)
  qed
  from this [OF c] x show ?thesis by simp
qed

text \<open>In a config that loads, no node feeds itself, directly or through others.\<close>

theorem dag_acyclic:
  assumes "dag_from_config fv cfg = Inr d" "distinct (map node_id (cfg_nodes cfg))"
  shows "acyclic (feeds cfg)"
proof -
  from dag_parts [OF assms(1)] obtain routes w order where
    wired: "wired (cfg_nodes cfg) routes w" and p: "placed (cfg_nodes cfg) w order" .
  let ?n = "cfg_nodes cfg"
  from p have o: "distinct order" "set order = {..<length order}" "length order = length ?n"
    "topo (wi_succ w) order" by (simp_all add: placed_def)
  define rank where "rank a = place order (the (position_of ?n a))" for a
  have "feeds cfg \<subseteq> measure rank"
  proof (rule subrelI)
    fix a b assume "(a, b) \<in> feeds cfg"
    from feeds_wired [OF wired assms(2) this] obtain i j where
      ij: "i < length ?n" "j < length ?n" "node_id (?n ! i) = a" "node_id (?n ! j) = b"
        "j \<in> set (targets (wi_succ w) i)" .
    have r: "rank a = place order i" "rank b = place order j"
      using position_of_distinct [OF assms(2)] ij by (auto simp: rank_def)
    from place_range [OF o(1,2), of i] ij(1) o(3) have pi: "place order i < length order"
      "order ! place order i = i" by auto
    from topo_later [OF o(4) pi(1), of j] pi(2) ij(5) obtain l where
      "place order i < l" "l < length order" "order ! l = j" by auto
    with place_nth [OF o(1,2)] have "place order i < place order j" "place order j < length order" by auto
    with r show "(a, b) \<in> measure rank" by simp
  qed
  moreover have "acyclic (measure rank)" by (simp add: wf_acyclic)
  ultimately show ?thesis by (meson acyclic_subset)
qed

end
