(* ===== verification/Regex_Facade.thy ===== *)
theory Regex_Facade
  imports Closed_Sets
begin

text \<open>
  \<open>crates/regex/src/lib.rs\<close>, the guards of \<open>scan.rs\<close> and the safe part of \<open>pcre2.rs\<close>: the two-engine
  regex facade. The engines are outside the repository: a compiled \<open>regex\<close>-crate pattern is its
  \<open>is_match\<close> and \<open>captures_at\<close>, a compiled PCRE2 pattern is its \<open>pcre2_match\<close> call, both functions
  here. The lint and the canary, which walk \<open>regex-syntax\<close> trees and probe PCRE2, are the fields
  \<open>ld_lint\<close> and \<open>ld_canary\<close> of \<open>loader\<close>. A panic, or an iteration that never ends, is \<open>None\<close>.
\<close>

datatype engine = EngLinear | EngBacktracking

fun engine_str :: "engine \<Rightarrow> string" where
  "engine_str EngLinear = ''linear''" | "engine_str EngBacktracking = ''backtracking''"

datatype engine_choice = ChooseAuto | ChooseLinear | ChooseBacktracking

record limits =
  li_match :: u32
  li_depth :: u32
  li_heap_kib :: u32
  li_work :: "u32 option"
  li_input_bytes :: nat
  li_max_pattern :: nat
  li_parens :: nat

definition limits_default :: limits where
  "limits_default =
     \<lparr>li_match = 1000000, li_depth = 1000000, li_heap_kib = 20000, li_work = Some 10000000,
      li_input_bytes = 64 * 1024, li_max_pattern = 8192, li_parens = 250\<rparr>"

datatype redos_policy = RedosReject | RedosWarn

datatype redos_risk =
    NestedQuantifiers nat
  | OverlappingAlternation nat
  | OverlappingSuffix nat
  | NotParsed

datatype match_error =
    MatchLimit
  | DepthLimit
  | HeapLimit
  | WorkLimit
  | InputTooLarge nat nat
  | MatchOutOfMemory
  | EngineError int string

record canary_config =
  cc_work_per_byte :: u32
  cc_sizes :: "nat list"

definition canary_default :: canary_config where
  "canary_default = \<lparr>cc_work_per_byte = 64, cc_sizes = [1024, 8192, 65536]\<rparr>"

datatype input_shape =
    Repeated string
  | RepeatedThenPoison string
  | LiteralsThenRepeatedThenPoison string
  | Cycled
  | CycledThenPoison

record canary_trip =
  ct_input_len :: nat
  ct_shape :: input_shape
  ct_anchored :: bool
  ct_match_limit :: u32
  ct_work_limit :: "u32 option"
  ct_error :: match_error

datatype compile_error =
    Syntax engine "int option" string nat
  | PatternTooLong nat nat nat
  | CompiledTooBig nat
  | ParensTooDeep nat nat
  | RedosRisk "redos_risk list"
  | CanaryTripped canary_trip
  | CompileOutOfMemory
  | InternalError int string

record options =
  op_limits :: limits
  op_engine :: engine_choice
  op_on_risk :: redos_policy
  op_lint :: bool
  op_canary :: "canary_config option"

definition options_unchecked :: options where
  "options_unchecked =
     \<lparr>op_limits = limits_default, op_engine = ChooseAuto, op_on_risk = RedosReject, op_lint = False,
      op_canary = None\<rparr>"

definition options_checked :: options where
  "options_checked = options_unchecked\<lparr>op_lint := True, op_canary := Some canary_default\<rparr>"

section \<open>The guards\<close>

definition is_char_boundary :: "string \<Rightarrow> nat \<Rightarrow> bool" where
  "is_char_boundary s i \<longleftrightarrow>
     i = length s \<or> (i < length s \<and> \<not> (128 \<le> byte (s ! i) \<and> byte (s ! i) < 192)) \<or> i = 0"

fun floor_boundary :: "string \<Rightarrow> nat \<Rightarrow> nat" where
  "floor_boundary s 0 = 0"
| "floor_boundary s (Suc i) = (if is_char_boundary s (Suc i) then Suc i else floor_boundary s i)"

record class_state =
  in_class :: bool
  class_start :: bool

definition class_step :: "string \<Rightarrow> nat \<Rightarrow> class_state \<Rightarrow> nat option \<times> class_state" where
  "class_step s i c =
     (if in_class c then
        (Some 1, \<lparr>in_class = \<not> (s ! i = CHR '']'' \<and> \<not> class_start c), class_start = False\<rparr>)
      else if s ! i = CHR ''['' then
        (Some (1 + (if i + 1 < length s \<and> s ! (i + 1) = CHR ''^'' then 1 else 0)),
         \<lparr>in_class = True, class_start = True\<rparr>)
      else (None, c))"

function guard_loop :: "string \<Rightarrow> nat \<Rightarrow> nat \<Rightarrow> class_state \<Rightarrow> nat \<Rightarrow> compile_error option" where
  "guard_loop s limit i c depth =
     (if length s \<le> i then None
      else if s ! i = CHR 0x5C then guard_loop s limit (i + 2) c depth
      else case class_step s i c of
        (Some n, c') \<Rightarrow> guard_loop s limit (i + n) c' depth
      | (None, c') \<Rightarrow>
          (if s ! i = CHR ''('' then
             (if limit < depth + 1 then Some (ParensTooDeep limit i)
              else guard_loop s limit (i + 1) c' (depth + 1))
           else if s ! i = CHR '')'' then guard_loop s limit (i + 1) c' (depth - 1)
           else guard_loop s limit (i + 1) c' depth))"
  by pat_completeness auto
termination
  by (relation "measure (\<lambda>(s, limit, i, c, depth). length s - i)")
    (auto simp: class_step_def split: if_splits)

declare guard_loop.simps [simp del]

definition class_none :: class_state where
  "class_none = \<lparr>in_class = False, class_start = False\<rparr>"

definition check_guards :: "string \<Rightarrow> limits \<Rightarrow> compile_error option" where
  "check_guards pattern l =
     (if li_max_pattern l < length pattern then
        Some (PatternTooLong (length pattern) (li_max_pattern l)
          (floor_boundary pattern (li_max_pattern l)))
      else guard_loop pattern (li_parens l) 0 class_none 0)"

section \<open>Compiled patterns\<close>

record span =
  sp_start :: nat
  sp_end :: nat

type_synonym groups = "span option list"

text \<open>A pattern on the \<open>regex\<close> crate.\<close>

record linear_regex =
  lr_is_match :: "string \<Rightarrow> bool"
  lr_captures_at :: "string \<Rightarrow> nat \<Rightarrow> groups option"
  lr_names :: "string option list"

text \<open>What one \<open>pcre2_match\<close> call gives: the return code with the offset pairs, no match, or an error;
  and the work left.\<close>

datatype pcre2_result =
    PMatched nat groups
  | PNoMatch
  | PMatchLimit
  | PDepthLimit
  | PHeapLimit
  | PCallout
  | PNoMemory
  | POther int string

record pcre2_regex =
  pr_match :: "string \<Rightarrow> nat \<Rightarrow> bool \<Rightarrow> nat option \<Rightarrow> pcre2_result \<times> nat"
  pr_names :: "compile_error + string option list"
  pr_work :: "u32 option"

fun match_error_of :: "pcre2_result \<Rightarrow> match_error + (nat \<times> groups) option" where
  "match_error_of (PMatched rc ovector) = Inr (Some (rc, ovector))"
| "match_error_of PNoMatch = Inr None"
| "match_error_of PMatchLimit = Inl MatchLimit"
| "match_error_of PDepthLimit = Inl DepthLimit"
| "match_error_of PHeapLimit = Inl HeapLimit"
| "match_error_of PCallout = Inl WorkLimit"
| "match_error_of PNoMemory = Inl MatchOutOfMemory"
| "match_error_of (POther code message) = Inl (EngineError code message)"

definition pcre2_exec ::
  "pcre2_regex \<Rightarrow> string \<Rightarrow> nat \<Rightarrow> bool \<Rightarrow> nat option \<Rightarrow> (match_error + (nat \<times> groups) option) \<times> nat" where
  "pcre2_exec re h start anchored budget =
     (if length h < start then (Inr None, case budget of Some b \<Rightarrow> b | None \<Rightarrow> 0)
      else (case pr_match re h start anchored budget of (r, left) \<Rightarrow> (match_error_of r, left)))"

definition pcre2_budget :: "pcre2_regex \<Rightarrow> nat option" where
  "pcre2_budget re = map_option unat (pr_work re)"

definition pcre2_probe :: "pcre2_regex \<Rightarrow> string \<Rightarrow> bool \<Rightarrow> u32 option \<Rightarrow> match_error + bool" where
  "pcre2_probe re h anchored work =
     map_sum id (\<lambda>found. found \<noteq> None) (fst (pcre2_exec re h 0 anchored (map_option unat work)))"

definition pcre2_is_match :: "pcre2_regex \<Rightarrow> string \<Rightarrow> match_error + bool" where
  "pcre2_is_match re h = pcre2_probe re h False (pr_work re)"

definition pcre2_captures_from ::
  "pcre2_regex \<Rightarrow> string \<Rightarrow> nat \<Rightarrow> nat option \<Rightarrow> match_error + (groups option \<times> nat option)" where
  "pcre2_captures_from re h start budget =
     (case pcre2_exec re h start False budget of
        (Inl e, left) \<Rightarrow> Inl e
      | (Inr None, left) \<Rightarrow> Inr (None, map_option (\<lambda>_. left) budget)
      | (Inr (Some (rc, ovector)), left) \<Rightarrow>
          (if rc = 0 then Inl (EngineError 0 ''match data block too small for the pattern's groups'')
           else Inr (Some (map (\<lambda>(i, g). if rc \<le> i then None else g) (enumerate 0 ovector)),
                     map_option (\<lambda>_. left) budget)))"

datatype inner = InnerLinear linear_regex | InnerBacktracking pcre2_regex

record regex =
  rx_pattern :: string
  rx_inner :: inner
  rx_names :: "string option list"
  rx_input_bytes :: nat
  rx_warnings :: "redos_risk list"
  rx_canary :: "canary_trip option"

text \<open>What loading a pattern needs from the engines and the two load-time checks.\<close>

record loader =
  ld_linear :: "string \<Rightarrow> compile_error + linear_regex"
  ld_pcre2 :: "string \<Rightarrow> limits \<Rightarrow> compile_error + pcre2_regex"
  ld_lint :: "string \<Rightarrow> redos_risk list option"
  ld_canary :: "string \<Rightarrow> canary_config \<Rightarrow> limits \<Rightarrow> compile_error + canary_trip option"

definition choose_inner :: "loader \<Rightarrow> string \<Rightarrow> options \<Rightarrow> compile_error + inner" where
  "choose_inner ld pattern opts =
     (let backtracking = map_sum id InnerBacktracking (ld_pcre2 ld pattern (op_limits opts)) in
      case op_engine opts of
        ChooseAuto \<Rightarrow>
          (case ld_linear ld pattern of Inr re \<Rightarrow> Inr (InnerLinear re) | Inl _ \<Rightarrow> backtracking)
      | ChooseLinear \<Rightarrow> map_sum id InnerLinear (ld_linear ld pattern)
      | ChooseBacktracking \<Rightarrow> backtracking)"

definition lint_check :: "loader \<Rightarrow> string \<Rightarrow> options \<Rightarrow> compile_error + redos_risk list" where
  "lint_check ld pattern opts =
     (if \<not> op_lint opts then Inr []
      else
        (let risks = (case ld_lint ld pattern of
             Some risks \<Rightarrow> risks
           | None \<Rightarrow> if op_canary opts = None then [NotParsed] else [])
         in if op_on_risk opts = RedosReject \<and> risks \<noteq> [] then Inl (RedosRisk risks) else Inr risks))"

definition canary_check :: "loader \<Rightarrow> string \<Rightarrow> options \<Rightarrow> inner \<Rightarrow> compile_error + canary_trip option" where
  "canary_check ld pattern opts inner =
     (case (op_canary opts, inner) of
        (Some config, InnerBacktracking _) \<Rightarrow>
          (case ld_canary ld pattern config (op_limits opts) of
             Inl e \<Rightarrow> Inl e
           | Inr None \<Rightarrow> Inr None
           | Inr (Some trip) \<Rightarrow>
               (case op_on_risk opts of
                  RedosReject \<Rightarrow> Inl (CanaryTripped trip)
                | RedosWarn \<Rightarrow> Inr (Some trip)))
      | _ \<Rightarrow> Inr None)"

definition regex_with_options :: "loader \<Rightarrow> string \<Rightarrow> options \<Rightarrow> compile_error + regex" where
  "regex_with_options ld pattern opts =
     (case check_guards pattern (op_limits opts) of
        Some e \<Rightarrow> Inl e
      | None \<Rightarrow>
     (case choose_inner ld pattern opts of
        Inl e \<Rightarrow> Inl e
      | Inr inner \<Rightarrow>
     (case lint_check ld pattern opts of
        Inl e \<Rightarrow> Inl e
      | Inr warnings \<Rightarrow>
     (case canary_check ld pattern opts inner of
        Inl e \<Rightarrow> Inl e
      | Inr canary \<Rightarrow>
          map_sum id
            (\<lambda>names. \<lparr>rx_pattern = pattern, rx_inner = inner, rx_names = names,
               rx_input_bytes = li_input_bytes (op_limits opts), rx_warnings = warnings,
               rx_canary = canary\<rparr>)
            (case inner of InnerLinear re \<Rightarrow> Inr (lr_names re) | InnerBacktracking re \<Rightarrow> pr_names re)))))"

definition regex_new :: "loader \<Rightarrow> string \<Rightarrow> compile_error + regex" where
  "regex_new ld pattern = regex_with_options ld pattern options_unchecked"

definition regex_engine :: "regex \<Rightarrow> engine" where
  "regex_engine re = (case rx_inner re of InnerLinear _ \<Rightarrow> EngLinear | InnerBacktracking _ \<Rightarrow> EngBacktracking)"

section \<open>Matching\<close>

definition check_input :: "regex \<Rightarrow> string \<Rightarrow> match_error option" where
  "check_input re h =
     (if rx_input_bytes re < length h then Some (InputTooLarge (length h) (rx_input_bytes re)) else None)"

definition is_match :: "regex \<Rightarrow> string \<Rightarrow> match_error + bool" where
  "is_match re h =
     (case check_input re h of
        Some e \<Rightarrow> Inl e
      | None \<Rightarrow>
          (case rx_inner re of
             InnerLinear lr \<Rightarrow> Inr (lr_is_match lr h)
           | InnerBacktracking pr \<Rightarrow> pcre2_is_match pr h))"

definition captures :: "regex \<Rightarrow> string \<Rightarrow> match_error + groups option" where
  "captures re h =
     (case check_input re h of
        Some e \<Rightarrow> Inl e
      | None \<Rightarrow>
          (case rx_inner re of
             InnerLinear lr \<Rightarrow> Inr (lr_captures_at lr h 0)
           | InnerBacktracking pr \<Rightarrow> map_sum id fst (pcre2_captures_from pr h 0 (pcre2_budget pr))))"

text \<open>The methods of \<open>Captures\<close>, on the groups, the haystack and the names.\<close>

definition group_span :: "groups \<Rightarrow> nat \<Rightarrow> span option" where
  "group_span g i = (if i < length g then g ! i else None)"

definition str_get :: "string \<Rightarrow> nat \<Rightarrow> nat \<Rightarrow> string option" where
  "str_get h a b =
     (if a \<le> b \<and> b \<le> length h \<and> is_char_boundary h a \<and> is_char_boundary h b
      then Some (take (b - a) (drop a h)) else None)"

definition group_text :: "string \<Rightarrow> groups \<Rightarrow> nat \<Rightarrow> string option" where
  "group_text h g i = (case group_span g i of None \<Rightarrow> None | Some s \<Rightarrow> str_get h (sp_start s) (sp_end s))"

definition named_groups :: "regex \<Rightarrow> string \<Rightarrow> groups \<Rightarrow> (string \<times> string) list" where
  "named_groups re h g =
     List.map_filter
       (\<lambda>(i, n). case n of
          None \<Rightarrow> None
        | Some name \<Rightarrow> map_option (Pair name) (group_text h g i))
       (enumerate 0 (rx_names re))"

definition group_name_text :: "regex \<Rightarrow> string \<Rightarrow> groups \<Rightarrow> string \<Rightarrow> string option" where
  "group_name_text re h g name =
     (case List.find (\<lambda>i. rx_names re ! i = Some name) [0..<length (rx_names re)] of
        None \<Rightarrow> None
      | Some i \<Rightarrow> group_text h g i)"

section \<open>Every match\<close>

definition captures_at ::
  "regex \<Rightarrow> string \<Rightarrow> nat \<Rightarrow> nat option \<Rightarrow> match_error + (groups option \<times> nat option)" where
  "captures_at re h start budget =
     (case rx_inner re of
        InnerLinear lr \<Rightarrow> Inr (lr_captures_at lr h start, budget)
      | InnerBacktracking pr \<Rightarrow> pcre2_captures_from pr h start budget)"

definition next_char_boundary :: "string \<Rightarrow> nat \<Rightarrow> nat" where
  "next_char_boundary h at =
     (if at < length h \<and> is_char_boundary h at then at + utf8_len (h ! at) else at + 1)"

lemma next_char_boundary_gt: "at < next_char_boundary h at"
  by (simp add: next_char_boundary_def utf8_len_def)

record captures_iter =
  ci_start :: nat
  ci_last_end :: "nat option"
  ci_budget :: "nat option"
  ci_checked :: bool
  ci_done :: bool

definition captures_iter_new :: "regex \<Rightarrow> captures_iter" where
  "captures_iter_new re =
     \<lparr>ci_start = 0, ci_last_end = None,
      ci_budget = (case rx_inner re of InnerLinear _ \<Rightarrow> None | InnerBacktracking pr \<Rightarrow> pcre2_budget pr),
      ci_checked = False, ci_done = False\<rparr>"

text \<open>The loop of \<open>next\<close>. It ends, as each round that goes on has moved the start.\<close>

function iter_loop ::
  "regex \<Rightarrow> string \<Rightarrow> captures_iter \<Rightarrow> (match_error + groups) option \<times> captures_iter" where
  "iter_loop re h it =
     (if length h < ci_start it then (None, it\<lparr>ci_done := True\<rparr>)
      else case captures_at re h (ci_start it) (ci_budget it) of
        Inl e \<Rightarrow> (Some (Inl e), it\<lparr>ci_done := True\<rparr>)
      | Inr (None, budget) \<Rightarrow> (None, it\<lparr>ci_budget := budget, ci_done := True\<rparr>)
      | Inr (Some g, budget) \<Rightarrow>
          (case group_span g 0 of
             None \<Rightarrow> (None, it\<lparr>ci_budget := budget, ci_done := True\<rparr>)
           | Some s \<Rightarrow>
               (if sp_start s = sp_end s \<and> Some (sp_end s) = ci_last_end it then
                  iter_loop re h
                    (it\<lparr>ci_budget := budget, ci_start := next_char_boundary h (ci_start it)\<rparr>)
                else (Some (Inr g), it\<lparr>ci_budget := budget, ci_last_end := Some (sp_end s),
                                       ci_start := sp_end s\<rparr>))))"
  by pat_completeness auto
termination
  by (relation "measure (\<lambda>(re, h, it). length h + 1 - ci_start it)")
    (auto simp: diff_less_mono2 next_char_boundary_gt)

declare iter_loop.simps [simp del]

definition captures_next ::
  "regex \<Rightarrow> string \<Rightarrow> captures_iter \<Rightarrow> (match_error + groups) option \<times> captures_iter" where
  "captures_next re h it =
     (if ci_done it then (None, it)
      else if ci_checked it then iter_loop re h it
      else (case check_input re h of
              Some e \<Rightarrow> (Some (Inl e), it\<lparr>ci_checked := True, ci_done := True\<rparr>)
            | None \<Rightarrow> iter_loop re h (it\<lparr>ci_checked := True\<rparr>)))"

text \<open>\<open>replace_all\<close>; \<open>out\<close> and \<open>copied\<close> are its two variables. A slice out of range, or not on character
  boundaries, panics; one unit of fuel is one match.\<close>

fun replace_loop ::
  "nat \<Rightarrow> regex \<Rightarrow> string \<Rightarrow> string \<Rightarrow> captures_iter \<Rightarrow> string option \<Rightarrow> nat
     \<Rightarrow> (match_error + string option) option" where
  "replace_loop 0 re h replacement it out copied = None"
| "replace_loop (Suc n) re h replacement it out copied =
     (case captures_next re h it of
        (None, it) \<Rightarrow>
          (case out of
             None \<Rightarrow> Some (Inr None)
           | Some text \<Rightarrow>
               (case str_get h copied (length h) of
                  None \<Rightarrow> None
                | Some rest \<Rightarrow> Some (Inr (Some (text @ rest)))))
      | (Some (Inl e), it) \<Rightarrow> Some (Inl e)
      | (Some (Inr g), it) \<Rightarrow>
          (case group_span g 0 of
             None \<Rightarrow> replace_loop n re h replacement it out copied
           | Some s \<Rightarrow>
               (case str_get h copied (sp_start s) of
                  None \<Rightarrow> None
                | Some between \<Rightarrow>
                    replace_loop n re h replacement it
                      (Some ((case out of Some t \<Rightarrow> t | None \<Rightarrow> []) @ between @ replacement)) (sp_end s))))"

definition replace_all :: "regex \<Rightarrow> string \<Rightarrow> string \<Rightarrow> (match_error + string option) option" where
  "replace_all re h replacement =
     replace_loop (2 * length h + 4) re h replacement (captures_iter_new re) None 0"

end
