(* ===== verification/Regex_Laws.thy ===== *)
theory Regex_Laws
  imports Regex_Facade
begin

text \<open>
  What the facade guarantees over any engines: a pattern that fails a guard or a check under
  \<open>reject\<close> never loads, an oversized input never reaches an engine, and on engines that report
  spans inside the haystack at or after the start asked for, \<open>replace_all\<close> ends, never slices out
  of range and rewrites exactly the matches the iterator reports.
\<close>

section \<open>Loading\<close>

lemma regex_with_options_Inr:
  assumes "regex_with_options ld pattern opts = Inr re"
  shows "length pattern \<le> li_max_pattern (op_limits opts)
    \<and> choose_inner ld pattern opts = Inr (rx_inner re) \<and> rx_pattern re = pattern
    \<and> rx_input_bytes re = li_input_bytes (op_limits opts)
    \<and> (op_on_risk opts = RedosReject \<longrightarrow> rx_warnings re = [] \<and> rx_canary re = None)"
  using assms
  by (auto simp: regex_with_options_def check_guards_def lint_check_def canary_check_def map_sum_Inr_iff Let_def
      split: option.splits sum.splits if_splits inner.splits redos_policy.splits)

lemma choose_inner_auto:
  "op_engine opts = ChooseAuto \<Longrightarrow> choose_inner ld pattern opts = Inr inner \<Longrightarrow>
     (case inner of InnerLinear re \<Rightarrow> ld_linear ld pattern = Inr re
      | InnerBacktracking re \<Rightarrow> (\<exists>e. ld_linear ld pattern = Inl e) \<and> ld_pcre2 ld pattern (op_limits opts) = Inr re)"
  by (auto simp: choose_inner_def map_sum_Inr_iff split: sum.splits inner.splits)

text \<open>The size of an input is checked before any engine runs.\<close>

lemma oversized_input:
  assumes "rx_input_bytes re < length h"
  shows "is_match re h = Inl (InputTooLarge (length h) (rx_input_bytes re))"
    and "captures re h = Inl (InputTooLarge (length h) (rx_input_bytes re))"
    and "replace_all re h x = Some (Inl (InputTooLarge (length h) (rx_input_bytes re)))"
proof -
  have *: "check_input re h = Some (InputTooLarge (length h) (rx_input_bytes re))"
    using assms by (simp add: check_input_def)
  have "replace_loop (Suc n) re h x (captures_iter_new re) None 0 =
      Some (Inl (InputTooLarge (length h) (rx_input_bytes re)))" for n
    by (simp add: captures_next_def captures_iter_new_def *)
  moreover have four: "2 * length h + 4 = Suc (2 * length h + 3)" by simp
  ultimately show "replace_all re h x = Some (Inl (InputTooLarge (length h) (rx_input_bytes re)))"
    unfolding replace_all_def by (simp only: four add_Suc_right)
qed (use assms in \<open>simp_all add: is_match_def captures_def check_input_def\<close>)

section \<open>Iterating\<close>

definition slice_ok :: "string \<Rightarrow> nat \<Rightarrow> span \<Rightarrow> bool" where
  "slice_ok h from s \<longleftrightarrow>
     from \<le> sp_start s \<and> sp_start s \<le> sp_end s \<and> sp_end s \<le> length h
   \<and> is_char_boundary h (sp_start s) \<and> is_char_boundary h (sp_end s)"

text \<open>What both engines document of a search from a character boundary.\<close>

definition well_placed :: "regex \<Rightarrow> string \<Rightarrow> bool" where
  "well_placed re h \<longleftrightarrow>
     (\<forall>start budget g left. start \<le> length h \<longrightarrow> captures_at re h start budget = Inr (Some g, left) \<longrightarrow>
        (\<exists>s. group_span g 0 = Some s \<and> slice_ok h start s))"

inductive iterates :: "regex \<Rightarrow> string \<Rightarrow> captures_iter \<Rightarrow> span list \<Rightarrow> match_error option \<Rightarrow> bool"
  for re h where
  stop: "captures_next re h it = (None, it') \<Longrightarrow> iterates re h it [] None"
| failed: "captures_next re h it = (Some (Inl e), it') \<Longrightarrow> iterates re h it [] (Some e)"
| more: "captures_next re h it = (Some (Inr g), it') \<Longrightarrow> group_span g 0 = Some s \<Longrightarrow>
    iterates re h it' ss e \<Longrightarrow> iterates re h it (s # ss) e"

fun ordered_spans :: "string \<Rightarrow> nat \<Rightarrow> span list \<Rightarrow> bool" where
  "ordered_spans h from [] \<longleftrightarrow> True"
| "ordered_spans h from (s # ss) \<longleftrightarrow> slice_ok h from s \<and> ordered_spans h (sp_end s) ss"

text \<open>The haystack from \<open>from\<close> on, with the spans replaced.\<close>

fun splice :: "string \<Rightarrow> string \<Rightarrow> nat \<Rightarrow> span list \<Rightarrow> string" where
  "splice h x from [] = drop from h"
| "splice h x from (s # ss) = take (sp_start s - from) (drop from h) @ x @ splice h x (sp_end s) ss"

definition progress :: "string \<Rightarrow> captures_iter \<Rightarrow> nat" where
  "progress h it = 2 * (length h + 1 - ci_start it) + (if ci_last_end it = Some (ci_start it) then 0 else 1)"

lemma iter_loop_match:
  "well_placed re h \<Longrightarrow> iter_loop re h it = (Some (Inr g), it') \<Longrightarrow>
    \<exists>s. group_span g 0 = Some s \<and> slice_ok h (ci_start it) s \<and> ci_start it' = sp_end s
      \<and> ci_checked it' = ci_checked it \<and> progress h it' < progress h it"
proof (induction re h it rule: iter_loop.induct)
  case (1 re h it)
  let ?n = "ci_start it"
  have n: "?n \<le> length h" using "1.prems"(2) by (rule contrapos_pp) (simp add: iter_loop.simps)
  obtain g0 left where at: "captures_at re h ?n (ci_budget it) = Inr (Some g0, left)"
    using "1.prems"(2) n by (auto simp: iter_loop.simps [of re h it] split: sum.splits option.splits)
  from "1.prems"(1) n at obtain s where s: "group_span g0 0 = Some s" "slice_ok h ?n s"
    unfolding well_placed_def by blast
  show ?case
  proof (cases "sp_start s = sp_end s \<and> Some (sp_end s) = ci_last_end it")
    case True
    let ?it = "it\<lparr>ci_budget := left, ci_start := next_char_boundary h ?n\<rparr>"
    have rec: "iter_loop re h ?it = (Some (Inr g), it')"
      using "1.prems"(2) n at s(1) True by (simp add: iter_loop.simps [of re h it])
    have "\<exists>s. group_span g 0 = Some s \<and> slice_ok h (ci_start ?it) s \<and> ci_start it' = sp_end s
      \<and> ci_checked it' = ci_checked ?it \<and> progress h it' < progress h ?it"
      by (rule "1.IH" [OF _ at refl refl s(1) True "1.prems"(1) rec]) (use n in simp)
    moreover have "progress h ?it < progress h it"
      using n next_char_boundary_gt [of ?n h] by (auto simp: progress_def)
    moreover have "?n \<le> next_char_boundary h ?n" using next_char_boundary_gt [of ?n h] by simp
    ultimately show ?thesis by (force simp: slice_ok_def)
  next
    case False
    with "1.prems"(2) n at s(1)
    have it': "g = g0" "it' = it\<lparr>ci_budget := left, ci_last_end := Some (sp_end s), ci_start := sp_end s\<rparr>"
      by (auto simp: iter_loop.simps [of re h it])
    have "progress h it' < progress h it"
    proof (cases "?n < sp_end s")
      case True
      then show ?thesis using n by (simp add: progress_def it')
    next
      case nomove: False
      then have "sp_end s = ?n" "sp_start s = ?n" using s(2) by (auto simp: slice_ok_def)
      with False show ?thesis by (auto simp: progress_def it')
    qed
    with s it' show ?thesis by auto
  qed
qed

lemma captures_next_match:
  assumes "well_placed re h" "captures_next re h it = (Some (Inr g), it')"
  shows "\<exists>s. group_span g 0 = Some s \<and> slice_ok h (ci_start it) s \<and> ci_start it' = sp_end s
    \<and> progress h it' < progress h it"
  using iter_loop_match [OF assms(1), of it g it'] iter_loop_match [OF assms(1), of "it\<lparr>ci_checked := True\<rparr>" g it']
    assms(2)
  by (auto simp: captures_next_def progress_def split: if_splits option.splits)

section \<open>Rewriting\<close>

definition rewrite :: "string \<Rightarrow> string \<Rightarrow> string option \<Rightarrow> nat \<Rightarrow> span list \<Rightarrow> match_error option
    \<Rightarrow> match_error + string option" where
  "rewrite h x out copied ss e =
     (case e of
        Some e \<Rightarrow> Inl e
      | None \<Rightarrow>
          Inr (if ss = [] \<and> out = None then None
               else Some ((case out of Some t \<Rightarrow> t | None \<Rightarrow> []) @ splice h x copied ss)))"

lemma slice_ok_get:
  "slice_ok h c s \<Longrightarrow> is_char_boundary h c \<Longrightarrow> str_get h c (sp_start s) = Some (take (sp_start s - c) (drop c h))"
  by (simp add: slice_ok_def str_get_def)

lemma replace_loop_splice:
  assumes "well_placed re h"
  shows "progress h it < n \<Longrightarrow> copied = ci_start it \<Longrightarrow> copied \<le> length h \<Longrightarrow> is_char_boundary h copied \<Longrightarrow>
    \<exists>ss e. iterates re h it ss e \<and> ordered_spans h copied ss \<and>
      replace_loop n re h x it out copied = Some (rewrite h x out copied ss e)"
proof (induction n arbitrary: it out copied)
  case (Suc n)
  obtain r it' where nx: "captures_next re h it = (r, it')" by force
  consider (stop) "r = None" | (failed) e where "r = Some (Inl e)" | (more) g where "r = Some (Inr g)"
    by (metis not_None_eq obj_sumE)
  then show ?case
  proof cases
    case stop
    have "str_get h copied (length h) = Some (drop copied h)"
      using Suc.prems by (simp add: str_get_def is_char_boundary_def)
    then have "replace_loop (Suc n) re h x it out copied = Some (rewrite h x out copied [] None)"
      by (simp add: nx stop rewrite_def split: option.splits)
    with nx stop show ?thesis by (metis iterates.stop ordered_spans.simps(1))
  next
    case failed
    then have "replace_loop (Suc n) re h x it out copied = Some (rewrite h x out copied [] (Some e))"
      by (simp add: nx rewrite_def)
    with nx failed show ?thesis by (metis iterates.failed ordered_spans.simps(1))
  next
    case more
    from captures_next_match [OF assms nx [unfolded more]] obtain s where
      s: "group_span g 0 = Some s" "slice_ok h (ci_start it) s" "ci_start it' = sp_end s"
      and p: "progress h it' < progress h it" by blast
    let ?out = "Some ((case out of Some t \<Rightarrow> t | None \<Rightarrow> []) @ take (sp_start s - copied) (drop copied h) @ x)"
    have "progress h it' < n" "sp_end s = ci_start it'" "sp_end s \<le> length h" "is_char_boundary h (sp_end s)"
      using p Suc.prems s by (auto simp: slice_ok_def)
    from Suc.IH [OF this, of ?out] obtain ss e where
      ss: "iterates re h it' ss e" "ordered_spans h (sp_end s) ss"
      and loop: "replace_loop n re h x it' ?out (sp_end s) = Some (rewrite h x ?out (sp_end s) ss e)" by blast
    have get: "str_get h copied (sp_start s) = Some (take (sp_start s - copied) (drop copied h))"
      using slice_ok_get s(2) Suc.prems by simp
    have "replace_loop (Suc n) re h x it out copied = Some (rewrite h x out copied (s # ss) e)"
      using loop by (auto simp: nx more s(1) get rewrite_def split: option.splits)
    moreover have "iterates re h it (s # ss) e"
      using iterates.more [OF nx [unfolded more] s(1) ss(1)] .
    moreover have "ordered_spans h copied (s # ss)" using s(2) ss(2) Suc.prems by simp
    ultimately show ?thesis by blast
  qed
qed simp

lemma replace_all_splice:
  assumes "well_placed re h"
  shows "\<exists>ss e. iterates re h (captures_iter_new re) ss e \<and> ordered_spans h 0 ss \<and>
    replace_all re h x =
      Some (case e of Some e \<Rightarrow> Inl e | None \<Rightarrow> Inr (if ss = [] then None else Some (splice h x 0 ss)))"
proof -
  have "progress h (captures_iter_new re) < 2 * length h + 4"
    by (simp add: progress_def captures_iter_new_def)
  from replace_loop_splice [OF assms this, of 0 x None] obtain ss e where
    i: "iterates re h (captures_iter_new re) ss e" "ordered_spans h 0 ss"
    and r: "replace_all re h x = Some (rewrite h x None 0 ss e)"
    by (auto simp: replace_all_def captures_iter_new_def is_char_boundary_def)
  have "rewrite h x None 0 ss e =
      (case e of Some e \<Rightarrow> Inl e | None \<Rightarrow> Inr (if ss = [] then None else Some (splice h x 0 ss)))"
    by (simp add: rewrite_def split: option.split)
  with i r show ?thesis by metis
qed

end
