(* ===== verification/Hash.thy ===== *)
theory Hash
  imports Prelude
begin

text \<open>
  The two hashes of \<open>crates/core/src/hash.rs\<close> on 64-bit words with wrapping
  multiplication: FNV-1a over bytes and the splitmix64 finalizer. The code says that the
  finalizer is a bijection and fixes 0; both are proved here from an explicit inverse.
\<close>

definition FNV_OFFSET :: u64 where "FNV_OFFSET = 0xcbf29ce484222325"
definition FNV_PRIME :: u64 where "FNV_PRIME = 0x00000100000001b3"

definition fnv1a64 :: "string \<Rightarrow> u64" where
  "fnv1a64 bytes =
     foldl (\<lambda>hash b. (hash XOR of_nat (byte b)) * FNV_PRIME) FNV_OFFSET bytes"

definition mix :: "u64 \<Rightarrow> u64" where
  "mix x =
     (let x = (x XOR drop_bit 30 x) * 0xbf58476d1ce4e5b9;
          x = (x XOR drop_bit 27 x) * 0x94d049bb133111eb
      in x XOR drop_bit 31 x)"

section \<open>The finalizer is a bijection\<close>

text \<open>The inverse: each xor-shift undone by two more shifts, each odd factor by its inverse.\<close>

definition unmix :: "u64 \<Rightarrow> u64" where
  "unmix y =
     (let y = (y XOR drop_bit 31 y XOR drop_bit 62 y) * 0x319642b2d24d8ec3;
          y = (y XOR drop_bit 27 y XOR drop_bit 54 y) * 0x96de1b173f119089
      in y XOR drop_bit 30 y XOR drop_bit 60 y)"

lemma xorshift_inverse:
  fixes x :: u64
  assumes "64 \<le> 3 * k"
  shows "(x XOR drop_bit k x) XOR drop_bit k (x XOR drop_bit k x)
           XOR drop_bit (k + k) (x XOR drop_bit k x) = x"
  using assms
  by (intro bit_word_eqI) (auto simp: bit_simps ac_simps dest: bit_imp_le_length)

lemma xorshift_inverse':
  fixes y :: u64
  assumes "64 \<le> 3 * k"
  shows "(y XOR drop_bit k y XOR drop_bit (k + k) y)
           XOR drop_bit k (y XOR drop_bit k y XOR drop_bit (k + k) y) = y"
  using assms
  by (intro bit_word_eqI) (auto simp: bit_simps ac_simps dest: bit_imp_le_length)

lemma xorshift_30:
  fixes x :: u64
  shows "(x XOR drop_bit 30 x) XOR drop_bit 30 (x XOR drop_bit 30 x)
           XOR drop_bit 60 (x XOR drop_bit 30 x) = x"
    and "(x XOR drop_bit 30 x XOR drop_bit 60 x)
           XOR drop_bit 30 (x XOR drop_bit 30 x XOR drop_bit 60 x) = x"
  using xorshift_inverse [of 30 x] xorshift_inverse' [of 30 x] by simp_all

lemma xorshift_27:
  fixes x :: u64
  shows "(x XOR drop_bit 27 x) XOR drop_bit 27 (x XOR drop_bit 27 x)
           XOR drop_bit 54 (x XOR drop_bit 27 x) = x"
    and "(x XOR drop_bit 27 x XOR drop_bit 54 x)
           XOR drop_bit 27 (x XOR drop_bit 27 x XOR drop_bit 54 x) = x"
  using xorshift_inverse [of 27 x] xorshift_inverse' [of 27 x] by simp_all

lemma xorshift_31:
  fixes x :: u64
  shows "(x XOR drop_bit 31 x) XOR drop_bit 31 (x XOR drop_bit 31 x)
           XOR drop_bit 62 (x XOR drop_bit 31 x) = x"
    and "(x XOR drop_bit 31 x XOR drop_bit 62 x)
           XOR drop_bit 31 (x XOR drop_bit 31 x XOR drop_bit 62 x) = x"
  using xorshift_inverse [of 31 x] xorshift_inverse' [of 31 x] by simp_all

lemma factor_inverses:
  shows "(0xbf58476d1ce4e5b9 * 0x96de1b173f119089 :: u64) = 1"
    and "(0x94d049bb133111eb * 0x319642b2d24d8ec3 :: u64) = 1"
    and "(0x00000100000001b3 * 0xce965057aff6957b :: u64) = 1"
  by code_simp+

lemmas factor_inverses_swapped =
  factor_inverses(1) [unfolded mult.commute [of "0xbf58476d1ce4e5b9"]]
  factor_inverses(2) [unfolded mult.commute [of "0x94d049bb133111eb"]]

lemma mult_inverse_1: "(x * 0xbf58476d1ce4e5b9) * 0x96de1b173f119089 = (x :: u64)"
  and mult_inverse_1': "(x * 0x96de1b173f119089) * 0xbf58476d1ce4e5b9 = (x :: u64)"
  and mult_inverse_2: "(x * 0x94d049bb133111eb) * 0x319642b2d24d8ec3 = (x :: u64)"
  and mult_inverse_2': "(x * 0x319642b2d24d8ec3) * 0x94d049bb133111eb = (x :: u64)"
  and mult_inverse_FNV: "(x * FNV_PRIME) * 0xce965057aff6957b = x"
  by (simp_all only: mult.assoc factor_inverses factor_inverses_swapped mult_1_right FNV_PRIME_def)

lemma unmix_mix: "unmix (mix x) = x"
  unfolding unmix_def mix_def Let_def
  by (simp only: xorshift_31 mult_inverse_2 xorshift_27 mult_inverse_1 xorshift_30)

lemma mix_unmix: "mix (unmix x) = x"
  unfolding unmix_def mix_def Let_def
  by (simp only: xorshift_31 mult_inverse_2' xorshift_27 mult_inverse_1' xorshift_30)

lemma mix_inject [simp]: "mix x = mix y \<longleftrightarrow> x = y"
  by (metis unmix_mix)

lemma mix_0 [simp]: "mix 0 = 0"
  by (simp add: mix_def)

lemma mix_eq_0 [simp]: "mix x = 0 \<longleftrightarrow> x = 0"
  using mix_inject [of x 0] by simp

text \<open>Appending a byte is one more round of FNV-1a.\<close>

lemma fnv1a64_snoc: "fnv1a64 (s @ [b]) = (fnv1a64 s XOR of_nat (byte b)) * FNV_PRIME"
  by (simp add: fnv1a64_def)

text \<open>One round is injective in the byte: two texts that differ in their last byte only
  never collide.\<close>

lemma FNV_PRIME_cancel: "x * FNV_PRIME = y * FNV_PRIME \<longleftrightarrow> x = y"
  by (metis mult_inverse_FNV)

lemma of_nat_byte_inject: "(of_nat (byte b) :: u64) = of_nat (byte c) \<Longrightarrow> b = c"
proof -
  have small: "byte d < 2 ^ LENGTH(64)" for d
    using byte_less_256 [of d] by (rule less_trans) simp
  assume "(of_nat (byte b) :: u64) = of_nat (byte c)"
  then show "b = c"
    using small [of b] small [of c] by (metis byte_inject of_nat_inverse)
qed

lemma fnv1a64_snoc_inject: "fnv1a64 (s @ [b]) = fnv1a64 (s @ [c]) \<longleftrightarrow> b = c"
proof
  assume "fnv1a64 (s @ [b]) = fnv1a64 (s @ [c])"
  then have "fnv1a64 s XOR of_nat (byte b) = fnv1a64 s XOR of_nat (byte c)"
    by (simp add: fnv1a64_snoc FNV_PRIME_cancel)
  then have "fnv1a64 s XOR (fnv1a64 s XOR of_nat (byte b))
      = fnv1a64 s XOR (fnv1a64 s XOR of_nat (byte c))" by simp
  then have "(of_nat (byte b) :: u64) = of_nat (byte c)"
    by (simp flip: xor.assoc)
  then show "b = c" by (rule of_nat_byte_inject)
qed simp

end
