(* ===== verification/Trace.thy ===== *)
theory Trace
  imports Hash Meta
begin

text \<open>
  \<open>crates/core/src/trace.rs\<close>: the ids of a record's trace, trace sampling, and the span drafts a
  worker keeps while it walks a record. An \<open>Instant\<close> and a \<open>SystemTime\<close> are nanoseconds since the
  start of their clock.
\<close>

definition TRACE_SALT :: u64 where "TRACE_SALT = 0x74726163655f6964"
definition SPAN_SALT :: u64 where "SPAN_SALT = 0x7370616e5f696421"

type_synonym trace_id = u128
type_synonym span_id = u64

definition trace_id_display :: "trace_id \<Rightarrow> string" where
  "trace_id_display i = hex_digits 32 (unat i)"

definition span_id_display :: "span_id \<Rightarrow> string" where
  "span_id_display i = hex_digits 16 (unat i)"

record trace_context =
  tc_trace :: trace_id
  tc_span :: span_id

record trace_key =
  tk_key :: u64
  tk_record :: u64

definition trace_key_new :: "record_id \<Rightarrow> string \<Rightarrow> trace_key" where
  "trace_key_new i name = \<lparr>tk_key = mix (i XOR fnv1a64 name XOR TRACE_SALT), tk_record = i\<rparr>"

definition trace_key_of :: "meta \<Rightarrow> trace_key" where
  "trace_key_of m = trace_key_new (record_id m) (tenant m)"

definition key_trace_id :: "trace_key \<Rightarrow> trace_id" where
  "key_trace_id k =
     (let i = push_bit 64 (ucast (tk_key k) :: u128) OR ucast (tk_record k)
      in if i = 0 then 1 else i)"

definition key_span_id :: "trace_key \<Rightarrow> u64 \<Rightarrow> u32 \<Rightarrow> span_id" where
  "key_span_id k delivery visit =
     (let position = mix (push_bit 32 delivery XOR ucast visit XOR SPAN_SALT);
          i = mix (tk_key k XOR position)
      in if i = 0 then 1 else i)"

definition delivery_span_id :: "trace_key \<Rightarrow> u64 \<Rightarrow> span_id" where
  "delivery_span_id k delivery = key_span_id k delivery 0"

definition delivery_context :: "trace_key \<Rightarrow> u64 \<Rightarrow> trace_context" where
  "delivery_context k delivery =
     \<lparr>tc_trace = key_trace_id k, tc_span = delivery_span_id k delivery\<rparr>"

section \<open>Sampling\<close>

text \<open>\<open>2f64.powi(64)\<close>, exactly.\<close>

definition TWO_64 :: f64 where "TWO_64 = 0x43f0000000000000"

record trace_sampling =
  ts_threshold :: "u64 option"

definition trace_sampling_ratio :: "f64 \<Rightarrow> trace_sampling" where
  "trace_sampling_ratio ratio =
     \<lparr>ts_threshold =
        (if f64_nan ratio \<or> f64_partial_cmp ratio (f64_of_int 0) \<noteq> Some Greater then None
         else if f64_partial_cmp ratio (f64_of_int 1) \<noteq> Some Less then Some (- 1)
         else Some (f64_as_u64 (f64_mul TWO_64 ratio)))\<rparr>"

definition sampling_keeps :: "trace_sampling \<Rightarrow> trace_key \<Rightarrow> bool" where
  "sampling_keeps s k = (case ts_threshold s of None \<Rightarrow> False | Some t \<Rightarrow> tk_key k \<le> t)"

section \<open>Spans\<close>

datatype span_result =
    SPass
  | SRouted string
  | SSplit u64
  | SDrop drop_reason
  | SStateErrorPass
  | SWritten
  | SError failure_kind string

fun span_result_outcome :: "span_result \<Rightarrow> span_outcome" where
  "span_result_outcome SPass = OutPass"
| "span_result_outcome (SRouted l) = OutRouted"
| "span_result_outcome (SSplit n) = OutSplit"
| "span_result_outcome (SDrop r) = OutDrop"
| "span_result_outcome SStateErrorPass = OutStateErrorPass"
| "span_result_outcome SWritten = OutWritten"
| "span_result_outcome (SError k e) = OutError"

record node_span =
  ns_span_id :: span_id
  ns_parent :: span_id
  ns_node :: string
  ns_start :: nat
  ns_end :: nat
  ns_result :: span_result

record record_trace =
  rt_trace_id :: trace_id
  rt_span_id :: span_id
  rt_record_id :: record_id
  rt_tenant :: string
  rt_delivery :: u64
  rt_settlement :: settlement
  rt_start :: nat
  rt_end :: nat
  rt_spans :: "node_span list"

record draft =
  dr_node :: string
  dr_parent :: "nat option"
  dr_start :: nat
  dr_result :: "span_result option"
  dr_end :: nat

record trace_buffer =
  tb_tracing :: bool
  tb_started :: nat
  tb_started_at :: nat
  tb_drafts :: "draft list"
  tb_opened :: nat

definition trace_buffer_new :: "bool \<Rightarrow> nat \<Rightarrow> nat \<Rightarrow> trace_buffer" where
  "trace_buffer_new tracing instant wall =
     \<lparr>tb_tracing = tracing, tb_started = instant, tb_started_at = wall, tb_drafts = [], tb_opened = 0\<rparr>"

text \<open>\<open>begin\<close>; the clock readings are used only when tracing. (\<open>shrink_to\<close> changes no value.)\<close>

definition buffer_begin :: "nat \<Rightarrow> nat \<Rightarrow> trace_buffer \<Rightarrow> trace_buffer" where
  "buffer_begin instant wall b =
     (let b = b\<lparr>tb_opened := 0\<rparr> in
      if \<not> tb_tracing b then b
      else b\<lparr>tb_drafts := [], tb_started := instant, tb_started_at := wall\<rparr>)"

definition buffer_open :: "string \<Rightarrow> nat option \<Rightarrow> nat \<Rightarrow> trace_buffer \<Rightarrow> nat \<times> trace_buffer" where
  "buffer_open node parent start b =
     (let handle = tb_opened b;
          b = b\<lparr>tb_opened := tb_opened b + 1\<rparr>
      in if \<not> tb_tracing b then (handle, b)
         else (handle, b\<lparr>tb_drafts := tb_drafts b @
                 [\<lparr>dr_node = node, dr_parent = parent, dr_start = start, dr_result = None, dr_end = start\<rparr>]\<rparr>))"

definition buffer_close :: "nat \<Rightarrow> nat \<Rightarrow> span_result \<Rightarrow> trace_buffer \<Rightarrow> trace_buffer" where
  "buffer_close handle fin result b =
     (if \<not> tb_tracing b then b
      else if handle < length (tb_drafts b) then
        b\<lparr>tb_drafts := (tb_drafts b)[handle :=
            (tb_drafts b ! handle)\<lparr>dr_end := fin, dr_result := Some result\<rparr>]\<rparr>
      else b)"

definition buffer_fail_open :: "nat \<Rightarrow> failure_kind \<Rightarrow> string \<Rightarrow> trace_buffer \<Rightarrow> trace_buffer" where
  "buffer_fail_open fin failure error b =
     (if \<not> tb_tracing b then b
      else b\<lparr>tb_drafts :=
          map (\<lambda>d. if dr_result d = None
                   then d\<lparr>dr_end := fin, dr_result := Some (SError failure error)\<rparr> else d)
            (tb_drafts b)\<rparr>)"

text \<open>\<open>visit\<close>: the \<open>u32\<close> visit index of a handle, saturating.\<close>

definition visit_index :: "nat \<Rightarrow> u32" where
  "visit_index handle = of_nat (min (handle + 1) (2 ^ 32 - 1))"

definition buffer_context :: "trace_key \<Rightarrow> u64 \<Rightarrow> nat \<Rightarrow> trace_context" where
  "buffer_context k delivery handle =
     \<lparr>tc_trace = key_trace_id k, tc_span = key_span_id k delivery (visit_index handle)\<rparr>"

text \<open>\<open>finish\<close>: the trace, and the buffer drained of its drafts.\<close>

definition finish_span :: "trace_key \<Rightarrow> u64 \<Rightarrow> (nat \<Rightarrow> nat) \<Rightarrow> nat \<Rightarrow> nat \<times> draft \<Rightarrow> node_span" where
  "finish_span k delivery at now entry =
     (let (handle, d) = entry;
          (result, fin) =
            (case dr_result d of
               Some r \<Rightarrow> (r, dr_end d)
             | None \<Rightarrow> (SError PanicKind ''span was never closed'', now))
      in \<lparr>ns_span_id = key_span_id k delivery (visit_index handle),
          ns_parent =
            (case dr_parent d of
               None \<Rightarrow> delivery_span_id k delivery
             | Some parent \<Rightarrow> key_span_id k delivery (visit_index parent)),
          ns_node = dr_node d, ns_start = at (dr_start d), ns_end = at fin, ns_result = result\<rparr>)"

definition buffer_finish ::
  "trace_key \<Rightarrow> meta \<Rightarrow> settlement \<Rightarrow> nat \<Rightarrow> trace_buffer \<Rightarrow> record_trace \<times> trace_buffer" where
  "buffer_finish k m settlement now b =
     (let delivery = delivery_count m;
          at = (\<lambda>instant. tb_started_at b + (instant - tb_started b))
      in (\<lparr>rt_trace_id = key_trace_id k, rt_span_id = delivery_span_id k delivery,
           rt_record_id = record_id m, rt_tenant = tenant m, rt_delivery = delivery,
           rt_settlement = settlement, rt_start = tb_started_at b, rt_end = at now,
           rt_spans = map (finish_span k delivery at now) (enumerate 0 (tb_drafts b))\<rparr>,
          b\<lparr>tb_drafts := []\<rparr>))"

section \<open>Ids\<close>

lemma trace_id_nonzero: "key_trace_id k \<noteq> 0"
  by (simp add: key_trace_id_def Let_def)

lemma span_id_nonzero: "key_span_id k delivery visit \<noteq> 0"
  by (simp add: key_span_id_def Let_def)

text \<open>The record id is the lower half of the trace id, when the key is not zero.\<close>

lemma trace_id_record:
  assumes "tk_key k \<noteq> 0 \<or> tk_record k \<noteq> 0"
  shows "ucast (key_trace_id k) = tk_record k"
    and "ucast (drop_bit 64 (key_trace_id k)) = tk_key k"
proof -
  let ?i = "push_bit 64 (ucast (tk_key k) :: u128) OR ucast (tk_record k)"
  have low: "ucast ?i = tk_record k"
    by (rule bit_word_eqI) (auto simp: bit_simps)
  have high: "ucast (drop_bit 64 ?i) = tk_key k"
    by (rule bit_word_eqI) (auto simp: bit_simps dest: bit_imp_le_length)
  have "?i \<noteq> 0"
  proof
    assume "?i = 0"
    then have "tk_record k = 0" "tk_key k = 0" using low high by simp_all
    with assms show False by simp
  qed
  then have "key_trace_id k = ?i" by (simp add: key_trace_id_def Let_def)
  with low high show "ucast (key_trace_id k) = tk_record k"
    "ucast (drop_bit 64 (key_trace_id k)) = tk_key k" by simp_all
qed

text \<open>Within a record's trace, two spans of deliveries below \<open>2 ^ 32\<close> have the same id only when they
  are the same visit of the same delivery, unless one of the two is the id that stands for 0.\<close>

lemma bit_above: "unat x < 2 ^ k \<Longrightarrow> k \<le> n \<Longrightarrow> \<not> bit x n"
proof -
  assume "unat x < 2 ^ k" "k \<le> n"
  then have "\<not> bit (unat x) n"
    by (metis bit_take_bit_iff linorder_not_less take_bit_nat_eq_self_iff)
  then show ?thesis by (simp add: bit_unsigned_iff)
qed

lemma span_position_inject:
  fixes d d' :: u64 and v v' :: u32
  assumes "unat d < 2 ^ 32" "unat d' < 2 ^ 32"
  shows "push_bit 32 d XOR ucast v = push_bit 32 d' XOR (ucast v' :: u64) \<longleftrightarrow> d = d' \<and> v = v'"
proof
  assume eq: "push_bit 32 d XOR ucast v = push_bit 32 d' XOR (ucast v' :: u64)"
  then have bits: "bit (push_bit 32 d XOR ucast v) n = bit (push_bit 32 d' XOR (ucast v' :: u64)) n" for n
    by simp
  have high: "\<not> bit v (32 + n)" "\<not> bit v' (32 + n)" for n
    by (auto dest: bit_imp_le_length)
  have "v = v'"
  proof (rule bit_word_eqI)
    fix n assume "n < LENGTH(32)"
    then show "bit v n = bit v' n" using bits [of n] by (simp add: bit_simps)
  qed
  moreover have "d = d'"
  proof (rule bit_word_eqI)
    fix n
    show "bit d n = bit d' n"
    proof (cases "n < 32")
      case True
      then show ?thesis using bits [of "32 + n"] high [of n] by (simp add: bit_simps)
    next
      case False
      with bit_above [OF assms(1), of n] bit_above [OF assms(2), of n] show ?thesis by simp
    qed
  qed
  ultimately show "d = d' \<and> v = v'" by simp
qed simp

lemma xor_cancel:
  fixes x a b :: u64
  shows "x XOR a = x XOR b \<longleftrightarrow> a = b" and "a XOR x = b XOR x \<longleftrightarrow> a = b"
proof -
  have l: "x XOR (x XOR y) = y" for y by (simp flip: xor.assoc)
  then show "x XOR a = x XOR b \<longleftrightarrow> a = b" by metis
  then show "a XOR x = b XOR x \<longleftrightarrow> a = b" by (simp add: xor.commute)
qed

lemma span_id_inject:
  assumes "unat d < 2 ^ 32" "unat d' < 2 ^ 32" "key_span_id k d v \<noteq> 1"
  shows "key_span_id k d v = key_span_id k d' v' \<longleftrightarrow> d = d' \<and> v = v'"
proof
  let ?m = "\<lambda>d v. mix (tk_key k XOR mix (push_bit 32 d XOR ucast (v :: u32) XOR SPAN_SALT))"
  assume eq: "key_span_id k d v = key_span_id k d' v'"
  with assms(3) have "?m d v = ?m d' v'"
    by (simp add: key_span_id_def Let_def split: if_splits)
  then have "push_bit 32 d XOR ucast v = push_bit 32 d' XOR (ucast v' :: u64)"
    by (simp only: mix_inject xor_cancel xor.assoc [symmetric])
  with span_position_inject [OF assms(1,2)] show "d = d' \<and> v = v'" by blast
qed simp

section \<open>Sampling\<close>

lemma sampling_keeps_mono:
  assumes "ts_threshold s = Some t" "ts_threshold s' = Some t'" "t \<le> t'" "sampling_keeps s k"
  shows "sampling_keeps s' k"
  using assms by (auto simp: sampling_keeps_def)

end
