(* ===== verification/Events.thy ===== *)
theory Events
  imports Trace Config
begin

text \<open>
  \<open>Failure\<close> of \<open>crates/core/src/io.rs\<close>, the structured log of \<open>crates/core/src/events.rs\<close> and
  the choices of \<open>crates/core/src/signals.rs\<close>: which traces are kept.
\<close>

record failure =
  fl_node :: string
  fl_record :: "record_id option"
  fl_kind :: failure_kind
  fl_error :: string

definition failure_at_source :: "failure_kind \<Rightarrow> string \<Rightarrow> failure" where
  "failure_at_source kind error =
     \<lparr>fl_node = SOURCE_ID, fl_record = None, fl_kind = kind, fl_error = error\<rparr>"

record event =
  ev_kind :: event_kind
  ev_record :: "record_id option"
  ev_tenant :: string
  ev_node :: string
  ev_failure :: "failure_kind option"
  ev_delivery :: u64
  ev_sequence :: "u64 option"
  ev_message :: string
  ev_trace :: "trace_context option"

definition event_new :: "event_kind \<Rightarrow> string \<Rightarrow> string \<Rightarrow> u64 \<Rightarrow> event" where
  "event_new kind t node delivery =
     \<lparr>ev_kind = kind, ev_record = None, ev_tenant = t, ev_node = node, ev_failure = None,
      ev_delivery = delivery, ev_sequence = None, ev_message = [], ev_trace = None\<rparr>"

definition event_of_failure :: "event_kind \<Rightarrow> string \<Rightarrow> failure \<Rightarrow> u64 \<Rightarrow> event" where
  "event_of_failure kind t f delivery =
     (event_new kind t (fl_node f) delivery)
       \<lparr>ev_record := fl_record f, ev_failure := Some (fl_kind f), ev_message := fl_error f\<rparr>"

definition event_display :: "event \<Rightarrow> string" where
  "event_display e =
     event_kind_str (ev_kind e)
   @ (case ev_record e of Some i \<Rightarrow> '' record='' @ show_u64 i | None \<Rightarrow> [])
   @ '' tenant='' @ ev_tenant e @ '' node='' @ ev_node e
   @ (case ev_failure e of Some k \<Rightarrow> '' reason='' @ failure_kind_str k | None \<Rightarrow> [])
   @ '' delivery='' @ show_u64 (ev_delivery e)
   @ (case ev_sequence e of Some n \<Rightarrow> '' stream_sequence='' @ show_u64 n | None \<Rightarrow> [])
   @ (case ev_trace e of Some t \<Rightarrow> '' trace_id='' @ trace_id_display (tc_trace t) | None \<Rightarrow> [])
   @ (if ev_message e \<noteq> [] then '': '' @ ev_message e else [])"

definition events_of_kind :: "event_kind \<Rightarrow> event list \<Rightarrow> event list" where
  "events_of_kind kind es = filter (\<lambda>e. ev_kind e = kind) es"

text \<open>\<open>Signals\<close>: whether anything traces, and the share of passing records traced.\<close>

record signals =
  sg_tracing :: bool
  sg_sampling :: trace_sampling

text \<open>\<open>DEFAULT_SAMPLE_RATIO\<close>, the double nearest to 0.01.\<close>

definition DEFAULT_SAMPLE_RATIO :: f64 where "DEFAULT_SAMPLE_RATIO = 0x3f847ae147ae147b"

definition signals_new :: signals where
  "signals_new = \<lparr>sg_tracing = False, sg_sampling = trace_sampling_ratio DEFAULT_SAMPLE_RATIO\<rparr>"

definition with_traces :: "trace_sampling \<Rightarrow> signals \<Rightarrow> signals" where
  "with_traces sampling s = s\<lparr>sg_tracing := True, sg_sampling := sampling\<rparr>"

definition signals_keeps :: "signals \<Rightarrow> trace_key \<Rightarrow> bool \<Rightarrow> u64 \<Rightarrow> bool" where
  "signals_keeps s k failed delivery \<longleftrightarrow>
     sg_tracing s \<and> (failed \<or> 1 < delivery \<or> sampling_keeps (sg_sampling s) k)"

lemma failure_of_event:
  "ev_failure (event_of_failure kind t f d) = Some (fl_kind f)
   \<and> ev_node (event_of_failure kind t f d) = fl_node f
   \<and> ev_kind (event_of_failure kind t f d) = kind"
  by (simp add: event_of_failure_def event_new_def)

end
