(* ===== verification/Metrics.thy ===== *)
theory Metrics
  imports Closed_Sets F64 "HOL-Library.Multiset"
begin

text \<open>
  \<open>crates/core/src/metrics.rs\<close>: the metric vocabulary, the labels of a measurement and the typed
  methods of \<open>Metrics\<close>. A recorder is what happens to the measurements in order, so the methods
  append to a list of them; \<open>InMemoryRecorder\<close> folds that list into its two maps.
\<close>

section \<open>The vocabulary\<close>

datatype counter_metric =
    RecordsIn | RecordsOut | RecordsDropped | RecordsErrored | StateOps | StateErrors | LuaErrors
  | RegexNonmatch | EditUnapplied | SourceNaks | SourceRedeliveries | SourceInvalidHeaders | Dlq
  | DlqPublishErrors | SinkPublishErrors | BytesIn | BytesOut

datatype histogram_metric =
    StageDuration | StateOpDuration | DlqPublishDuration | SinkPublishDuration | EndToEnd

datatype metric = CounterMetric counter_metric | HistogramMetric histogram_metric

definition counter_ALL :: "counter_metric list" where
  "counter_ALL =
     [RecordsIn, RecordsOut, RecordsDropped, RecordsErrored, StateOps, StateErrors, LuaErrors,
      RegexNonmatch, EditUnapplied, SourceNaks, SourceRedeliveries, SourceInvalidHeaders, Dlq,
      DlqPublishErrors, SinkPublishErrors, BytesIn, BytesOut]"

definition histogram_ALL :: "histogram_metric list" where
  "histogram_ALL = [StageDuration, StateOpDuration, DlqPublishDuration, SinkPublishDuration, EndToEnd]"

text \<open>The whole list, in the order the macro's list has.\<close>

definition metric_ALL :: "metric list" where
  "metric_ALL =
     [CounterMetric RecordsIn, CounterMetric RecordsOut, CounterMetric RecordsDropped,
      CounterMetric RecordsErrored, HistogramMetric StageDuration, CounterMetric StateOps,
      HistogramMetric StateOpDuration, CounterMetric StateErrors, CounterMetric LuaErrors,
      CounterMetric RegexNonmatch, CounterMetric EditUnapplied, CounterMetric SourceNaks,
      CounterMetric SourceRedeliveries, CounterMetric SourceInvalidHeaders, CounterMetric Dlq,
      CounterMetric DlqPublishErrors, HistogramMetric DlqPublishDuration,
      HistogramMetric SinkPublishDuration, CounterMetric SinkPublishErrors, HistogramMetric EndToEnd,
      CounterMetric BytesIn, CounterMetric BytesOut]"

fun counter_str :: "counter_metric \<Rightarrow> string" where
  "counter_str RecordsIn = ''records_in_total''"
| "counter_str RecordsOut = ''records_out_total''"
| "counter_str RecordsDropped = ''records_dropped_total''"
| "counter_str RecordsErrored = ''records_errored_total''"
| "counter_str StateOps = ''state_ops_total''"
| "counter_str StateErrors = ''state_errors_total''"
| "counter_str LuaErrors = ''lua_errors_total''"
| "counter_str RegexNonmatch = ''regex_nonmatch_total''"
| "counter_str EditUnapplied = ''edit_unapplied_total''"
| "counter_str SourceNaks = ''source_naks_total''"
| "counter_str SourceRedeliveries = ''source_redeliveries_total''"
| "counter_str SourceInvalidHeaders = ''source_invalid_headers_total''"
| "counter_str Dlq = ''dlq_total''"
| "counter_str DlqPublishErrors = ''dlq_publish_errors_total''"
| "counter_str SinkPublishErrors = ''sink_publish_errors_total''"
| "counter_str BytesIn = ''bytes_in_total''"
| "counter_str BytesOut = ''bytes_out_total''"

fun histogram_str :: "histogram_metric \<Rightarrow> string" where
  "histogram_str StageDuration = ''stage_duration_seconds''"
| "histogram_str StateOpDuration = ''state_op_duration_seconds''"
| "histogram_str DlqPublishDuration = ''dlq_publish_duration_seconds''"
| "histogram_str SinkPublishDuration = ''sink_publish_duration_seconds''"
| "histogram_str EndToEnd = ''pipeline_end_to_end_seconds''"

fun metric_str :: "metric \<Rightarrow> string" where
  "metric_str (CounterMetric c) = counter_str c"
| "metric_str (HistogramMetric h) = histogram_str h"

interpretation counters: closed_set counter_ALL counter_str
proof unfold_locales
  show "v \<in> set counter_ALL" for v by (cases v) (simp_all add: counter_ALL_def)
qed (simp add: counter_ALL_def)

interpretation histograms: closed_set histogram_ALL histogram_str
proof unfold_locales
  show "v \<in> set histogram_ALL" for v by (cases v) (simp_all add: histogram_ALL_def)
qed (simp add: histogram_ALL_def)

interpretation metrics: closed_set metric_ALL metric_str
proof unfold_locales
  show "v \<in> set metric_ALL" for v
  proof (cases v)
    case (CounterMetric c)
    then show ?thesis by (cases c) (simp_all add: metric_ALL_def)
  next
    case (HistogramMetric h)
    then show ?thesis by (cases h) (simp_all add: metric_ALL_def)
  qed
qed (simp add: metric_ALL_def)

section \<open>Labels\<close>

datatype reason = DropLabel drop_reason | FailureLabel failure_kind

fun reason_str :: "reason \<Rightarrow> string" where
  "reason_str (DropLabel r) = drop_reason_str r"
| "reason_str (FailureLabel k) = failure_kind_str k"

record labels =
  lb_tenant :: string
  lb_stage :: "string option"
  lb_engine :: "engine_label option"
  lb_reason :: "reason option"
  lb_kind :: "string option"
  lb_edit :: "(edit_op \<times> string \<times> edit_cause) option"

definition labels_new :: "string \<Rightarrow> string \<Rightarrow> labels" where
  "labels_new tenant stage =
     \<lparr>lb_tenant = tenant, lb_stage = Some stage, lb_engine = None, lb_reason = None, lb_kind = None,
      lb_edit = None\<rparr>"

definition labels_for_tenant :: "string \<Rightarrow> labels" where
  "labels_for_tenant tenant =
     \<lparr>lb_tenant = tenant, lb_stage = None, lb_engine = None, lb_reason = None, lb_kind = None,
      lb_edit = None\<rparr>"

definition with_engine :: "engine_label option \<Rightarrow> labels \<Rightarrow> labels" where
  "with_engine e l = l\<lparr>lb_engine := e\<rparr>"

definition with_reason :: "drop_reason \<Rightarrow> labels \<Rightarrow> labels" where
  "with_reason r l = l\<lparr>lb_reason := Some (DropLabel r)\<rparr>"

definition with_failure :: "failure_kind \<Rightarrow> labels \<Rightarrow> labels" where
  "with_failure k l = l\<lparr>lb_reason := Some (FailureLabel k)\<rparr>"

definition with_kind :: "string \<Rightarrow> labels \<Rightarrow> labels" where
  "with_kind k l = l\<lparr>lb_kind := Some k\<rparr>"

definition with_edit :: "edit_op \<Rightarrow> string \<Rightarrow> edit_cause \<Rightarrow> labels \<Rightarrow> labels" where
  "with_edit op field cause l = l\<lparr>lb_edit := Some (op, field, cause)\<rparr>"

definition label_pairs :: "labels \<Rightarrow> (string \<times> string) list" where
  "label_pairs l =
     List.map_filter id
       [Some (''tenant'', lb_tenant l),
        map_option (Pair ''stage'') (lb_stage l),
        map_option (\<lambda>e. (''engine'', engine_label_str e)) (lb_engine l),
        map_option (\<lambda>r. (''reason'', reason_str r)) (lb_reason l),
        map_option (Pair ''kind'') (lb_kind l),
        map_option (\<lambda>(op, field, cause). (''op'', edit_op_str op)) (lb_edit l),
        map_option (\<lambda>(op, field, cause). (''field'', field)) (lb_edit l),
        map_option (\<lambda>(op, field, cause). (''cause'', edit_cause_str cause)) (lb_edit l)]"

section \<open>Measurements\<close>

datatype measure = Count counter_metric labels u64 | Observe histogram_metric labels f64

type_synonym measures = "measure list"

text \<open>\<open>Duration::as_secs_f64\<close> of a duration in nanoseconds: whole seconds plus the fraction, both
  nonnegative.\<close>

definition f64_add_nonneg :: "f64 \<Rightarrow> f64 \<Rightarrow> f64" where
  "f64_add_nonneg a b = f64_make False (round_bits (f64_mag a + f64_mag b) (2 ^ 1074))"

definition as_secs_f64 :: "nat \<Rightarrow> f64" where
  "as_secs_f64 nanos =
     f64_add_nonneg (f64_of_int (int (nanos div 1000000000)))
       (f64_div (f64_of_int (int (nanos mod 1000000000))) (f64_of_int 1000000000))"

definition records_in :: "labels \<Rightarrow> measures" where
  "records_in l = [Count RecordsIn l 1]"

definition records_out :: "labels \<Rightarrow> u64 \<Rightarrow> measures" where
  "records_out l n = [Count RecordsOut l n]"

definition dropped :: "labels \<Rightarrow> drop_reason \<Rightarrow> measures" where
  "dropped l r = [Count RecordsDropped (with_reason r l) 1]"

definition errored :: "labels \<Rightarrow> measures" where
  "errored l = [Count RecordsErrored l 1]"

definition stage_duration :: "labels \<Rightarrow> nat \<Rightarrow> measures" where
  "stage_duration l elapsed = [Observe StageDuration l (as_secs_f64 elapsed)]"

definition sink_publish_duration :: "labels \<Rightarrow> nat \<Rightarrow> measures" where
  "sink_publish_duration l elapsed = [Observe SinkPublishDuration l (as_secs_f64 elapsed)]"

definition sink_publish_error :: "labels \<Rightarrow> measures" where
  "sink_publish_error l = [Count SinkPublishErrors l 1]"

definition state_op :: "labels \<Rightarrow> nat \<Rightarrow> measures" where
  "state_op l elapsed = [Count StateOps l 1, Observe StateOpDuration l (as_secs_f64 elapsed)]"

definition state_error_count :: "labels \<Rightarrow> measures" where
  "state_error_count l = [Count StateErrors l 1]"

definition regex_nonmatch :: "labels \<Rightarrow> measures" where
  "regex_nonmatch l = [Count RegexNonmatch l 1]"

definition edit_unapplied_count :: "labels \<Rightarrow> measures" where
  "edit_unapplied_count l = [Count EditUnapplied l 1]"

definition lua_error_count :: "labels \<Rightarrow> measures" where
  "lua_error_count l = [Count LuaErrors l 1]"

definition source_nak :: "string \<Rightarrow> measures" where
  "source_nak tenant = [Count SourceNaks (labels_for_tenant tenant) 1]"

definition source_redelivery :: "string \<Rightarrow> measures" where
  "source_redelivery tenant = [Count SourceRedeliveries (labels_for_tenant tenant) 1]"

definition source_invalid_header :: "string \<Rightarrow> measures" where
  "source_invalid_header tenant = [Count SourceInvalidHeaders (labels_for_tenant tenant) 1]"

definition dead_lettered :: "string \<Rightarrow> string \<Rightarrow> failure_kind \<Rightarrow> measures" where
  "dead_lettered tenant stage kind = [Count Dlq (with_failure kind (labels_new tenant stage)) 1]"

definition dlq_publish_error :: "string \<Rightarrow> measures" where
  "dlq_publish_error tenant = [Count DlqPublishErrors (labels_for_tenant tenant) 1]"

definition dlq_publish_duration :: "string \<Rightarrow> nat \<Rightarrow> measures" where
  "dlq_publish_duration tenant elapsed =
     [Observe DlqPublishDuration (labels_for_tenant tenant) (as_secs_f64 elapsed)]"

definition bytes_in :: "string \<Rightarrow> u64 \<Rightarrow> measures" where
  "bytes_in tenant bytes = [Count BytesIn (labels_for_tenant tenant) bytes]"

definition bytes_out :: "labels \<Rightarrow> u64 \<Rightarrow> measures" where
  "bytes_out l bytes = [Count BytesOut l bytes]"

definition end_to_end :: "string \<Rightarrow> nat \<Rightarrow> measures" where
  "end_to_end tenant elapsed = [Observe EndToEnd (labels_for_tenant tenant) (as_secs_f64 elapsed)]"

lemmas metric_method_defs = records_in_def records_out_def dropped_def errored_def stage_duration_def
  sink_publish_duration_def sink_publish_error_def state_op_def state_error_count_def
  regex_nonmatch_def edit_unapplied_count_def lua_error_count_def source_nak_def
  source_redelivery_def source_invalid_header_def dead_lettered_def dlq_publish_error_def
  dlq_publish_duration_def bytes_in_def bytes_out_def end_to_end_def

section \<open>The in-memory recorder\<close>

type_synonym series = "metric \<times> (string \<times> string) list"

record observed =
  ob_counters :: "series \<Rightarrow> u64 option"
  ob_samples :: "series \<Rightarrow> f64 list option"

definition observed_new :: observed where
  "observed_new = \<lparr>ob_counters = \<lambda>_. None, ob_samples = \<lambda>_. None\<rparr>"

definition series_key :: "metric \<Rightarrow> labels \<Rightarrow> series" where
  "series_key m l = (m, label_pairs l)"

text \<open>The counter wraps at its width, as a release build's addition does.\<close>

fun record_measure :: "measure \<Rightarrow> observed \<Rightarrow> observed" where
  "record_measure (Count c l by) obs =
     (let k = series_key (CounterMetric c) l;
          old = (case ob_counters obs k of Some n \<Rightarrow> n | None \<Rightarrow> 0)
      in obs\<lparr>ob_counters := (ob_counters obs)(k \<mapsto> old + by)\<rparr>)"
| "record_measure (Observe h l v) obs =
     (let k = series_key (HistogramMetric h) l;
          old = (case ob_samples obs k of Some vs \<Rightarrow> vs | None \<Rightarrow> [])
      in obs\<lparr>ob_samples := (ob_samples obs)(k \<mapsto> old @ [v])\<rparr>)"

definition record_all :: "measures \<Rightarrow> observed \<Rightarrow> observed" where
  "record_all ms obs = fold record_measure ms obs"

definition counter :: "counter_metric \<Rightarrow> (string \<times> string) list \<Rightarrow> observed \<Rightarrow> u64" where
  "counter c ls obs = (case ob_counters obs (CounterMetric c, ls) of Some n \<Rightarrow> n | None \<Rightarrow> 0)"

definition samples :: "histogram_metric \<Rightarrow> (string \<times> string) list \<Rightarrow> observed \<Rightarrow> f64 list" where
  "samples h ls obs = (case ob_samples obs (HistogramMetric h, ls) of Some vs \<Rightarrow> vs | None \<Rightarrow> [])"

text \<open>What a list of measurements adds to a counter under a set of labels.\<close>

fun counted :: "counter_metric \<Rightarrow> (string \<times> string) list \<Rightarrow> measures \<Rightarrow> u64" where
  "counted c ls [] = 0"
| "counted c ls (Count c' l by # ms) =
     (if c' = c \<and> label_pairs l = ls then by else 0) + counted c ls ms"
| "counted c ls (Observe h l v # ms) = counted c ls ms"

lemma counted_append [simp]: "counted c ls (ms @ ns) = counted c ls ms + counted c ls ns"
  by (induction c ls ms rule: counted.induct) simp_all

lemma counter_record_all: "counter c ls (record_all ms obs) = counter c ls obs + counted c ls ms"
  by (induction c ls ms arbitrary: obs rule: counted.induct)
    (auto simp: record_all_def counter_def series_key_def Let_def split: option.splits)

text \<open>A series never carries two labels of one name.\<close>

lemma label_pairs_distinct: "distinct (map fst (label_pairs l))"
  unfolding label_pairs_def
  by (cases "lb_stage l"; cases "lb_engine l"; cases "lb_reason l"; cases "lb_kind l"; cases "lb_edit l";
      simp add: map_filter_simps split: prod.split)

end
