(* ===== verification/State_Store.thy ===== *)
theory State_Store
  imports Prelude
begin

text \<open>
  \<open>crates/core/src/state.rs\<close> and the state store of \<open>crates/core/src/memory.rs\<close>: the contract of a
  state store as a locale, proved of the in-memory store on its fake clock. Values are byte
  strings; a \<open>Duration\<close> is its nanoseconds. The test hook that runs a closure between a refusal
  and its reply (\<open>after_next_holder_reply\<close>) is left out: its queue is empty outside tests.
\<close>

type_synonym duration = nat

datatype state_error = StateErr (state_message: string)

datatype state_policy = PolicyPass | PolicyNak

text \<open>The operations of the \<open>StateStore\<close> trait, over a store with state \<open>'s\<close>.\<close>

record 's store_ops =
  so_set_nx :: "string \<Rightarrow> string \<Rightarrow> duration \<Rightarrow> 's \<Rightarrow> (state_error + string option) \<times> 's"
  so_set :: "string \<Rightarrow> string \<Rightarrow> duration \<Rightarrow> 's \<Rightarrow> (state_error + unit) \<times> 's"
  so_compare_and_set ::
    "string \<Rightarrow> string \<Rightarrow> string \<Rightarrow> duration \<Rightarrow> 's \<Rightarrow> (state_error + string option) \<times> 's"
  so_get :: "string \<Rightarrow> 's \<Rightarrow> (state_error + string option) \<times> 's"
  so_incr :: "string \<Rightarrow> int \<Rightarrow> duration \<Rightarrow> 's \<Rightarrow> (state_error + int) \<times> 's"
  so_del :: "string \<Rightarrow> 's \<Rightarrow> (state_error + unit) \<times> 's"

text \<open>A key after a write: a value written with no time to live is gone at once.\<close>

definition written :: "string \<Rightarrow> string \<Rightarrow> duration \<Rightarrow> (string \<Rightarrow> string option) \<Rightarrow> string \<Rightarrow> string option" where
  "written k v ttl m = m(k := if 0 < ttl then Some v else None)"

text \<open>What \<open>incr\<close> answers for the value at hand.\<close>

definition incremented :: "string \<Rightarrow> string option \<Rightarrow> int \<Rightarrow> state_error + int" where
  "incremented k current by =
     (case (case current of None \<Rightarrow> Some 0 | Some text \<Rightarrow> parse_signed 64 text) of
        None \<Rightarrow> Inl (StateErr (''key `'' @ k @ ''` is not an integer''))
      | Some n \<Rightarrow>
          if - (2 ^ 63) \<le> n + by \<and> n + by < 2 ^ 63 then Inr (n + by)
          else Inl (StateErr (''key `'' @ k @ ''` would overflow'')))"

text \<open>A key that holds the count \<open>c\<close>: as \<open>incr\<close> writes it, or zero and absent.\<close>

definition holds_count :: "int \<Rightarrow> string option \<Rightarrow> bool" where
  "holds_count c held \<longleftrightarrow>
     - (2 ^ 63) \<le> c \<and> c < 2 ^ 63 \<and> (held = Some (show_int c) \<or> held = None \<and> c = 0)"

section \<open>The contract\<close>

text \<open>What every store promises for a positive time to live. \<open>view s\<close> is what the store holds at \<open>s\<close>,
  expired values left out; \<open>up s\<close> that it answers.\<close>

locale state_store =
  fixes ops :: "'s store_ops"
    and view :: "'s \<Rightarrow> string \<Rightarrow> string option"
    and up :: "'s \<Rightarrow> bool"
  assumes set_nx_up: "up s \<Longrightarrow> 0 < ttl \<Longrightarrow> so_set_nx ops k v ttl s = (r, s') \<Longrightarrow>
      r = Inr (view s k) \<and> up s' \<and>
      view s' = (if view s k = None then written k v ttl (view s) else view s)"
    and set_up: "up s \<Longrightarrow> 0 < ttl \<Longrightarrow> so_set ops k v ttl s = (u, s') \<Longrightarrow>
      u = Inr () \<and> up s' \<and> view s' = written k v ttl (view s)"
    and compare_and_set_up: "up s \<Longrightarrow> 0 < ttl \<Longrightarrow> so_compare_and_set ops k expected v ttl s = (r, s') \<Longrightarrow>
      up s' \<and>
      (if view s k = None \<or> view s k = Some expected
       then r = Inr None \<and> view s' = written k v ttl (view s)
       else r = Inr (view s k) \<and> view s' = view s)"
    and get_up: "up s \<Longrightarrow> so_get ops k s = (r, s') \<Longrightarrow> r = Inr (view s k) \<and> up s' \<and> view s' = view s"
    and incr_up: "up s \<Longrightarrow> 0 < ttl \<Longrightarrow> so_incr ops k by ttl s = (n, s') \<Longrightarrow>
      up s' \<and> (isl n \<longrightarrow> view s' = view s) \<and>
      (\<forall>c. holds_count c (view s k) \<longrightarrow>
        (if - (2 ^ 63) \<le> c + by \<and> c + by < 2 ^ 63
         then n = Inr (c + by) \<and> view s' = written k (show_int (c + by)) ttl (view s) else isl n))"
    and del_up: "up s \<Longrightarrow> so_del ops k s = (u, s') \<Longrightarrow>
      u = Inr () \<and> up s' \<and> view s' = (view s)(k := None)"
    and set_nx_down: "\<not> up s \<Longrightarrow> \<exists>e s'. so_set_nx ops k v ttl s = (Inl e, s')"
    and incr_down: "\<not> up s \<Longrightarrow> \<exists>e s'. so_incr ops k by ttl s = (Inl e, s')"
    and compare_and_set_down: "\<not> up s \<Longrightarrow> \<exists>e s'. so_compare_and_set ops k x v ttl s = (Inl e, s')"
begin

text \<open>One claim wins: who comes second reads the value of who came first.\<close>

lemma claim_excludes:
  assumes "so_set_nx ops k v ttl s = (Inr None, s1)" "0 < ttl" "0 < ttl'" "so_set_nx ops k w ttl' s1 = (r, s2)"
  shows "r = Inr (Some v)"
proof -
  have up: "up s" using set_nx_down [of s k v ttl] assms(1) by auto
  from set_nx_up [OF up assms(2,1)] have free: "view s k = None" and up1: "up s1"
    and v: "view s1 = written k v ttl (view s)" by auto
  have "view s1 k = Some v" using v assms(2) by (simp add: written_def)
  with set_nx_up [OF up1 assms(3,4)] show ?thesis by simp
qed

text \<open>Of two takeovers from the same holder, the second is refused with the first's value.\<close>

lemma takeover_excludes:
  assumes "so_compare_and_set ops k x v ttl s = (Inr None, s1)" "0 < ttl" "0 < ttl'" "v \<noteq> x"
    and "so_compare_and_set ops k x w ttl' s1 = (r, s2)"
  shows "r = Inr (Some v)"
proof -
  have up: "up s" using compare_and_set_down [of s k x v ttl] assms(1) by auto
  from compare_and_set_up [OF up assms(2,1)] have "view s1 = written k v ttl (view s)" and up1: "up s1"
    by (auto split: if_splits)
  then have "view s1 k = Some v" using assms(2) by (simp add: written_def)
  with compare_and_set_up [OF up1 assms(3,5)] assms(4) show ?thesis by simp
qed

text \<open>Counting: from a count \<open>c\<close>, \<open>incr\<close> by one answers \<open>c + 1\<close> and leaves it there.\<close>

lemma incr_counts:
  assumes "up s" "view s k = Some (show_int c) \<or> view s k = None \<and> c = 0" "0 \<le> c" "c + 1 < 2 ^ 63" "0 < ttl"
    and "so_incr ops k 1 ttl s = (r, s')"
  shows "r = Inr (c + 1) \<and> up s' \<and> view s' k = Some (show_int (c + 1))"
proof -
  have "holds_count c (view s k)" using assms(2-4) by (auto simp: holds_count_def)
  with incr_up [OF assms(1,5,6)] assms(3-5) show ?thesis by (auto simp: written_def)
qed

end

text \<open>A store that is exact: a value with no time to live is gone at once, \<open>incr\<close> says what is wrong, and
  a store that does not answer changes nothing.\<close>

locale exact_store = state_store +
  assumes no_ttl: "up s \<Longrightarrow> so_set ops k v 0 s = (u, s') \<Longrightarrow> view s' = (view s)(k := None)"
    and incr_says: "up s \<Longrightarrow> so_incr ops k by ttl s = (n, s') \<Longrightarrow> n = incremented k (view s k) by"
    and down_same: "\<not> up s \<Longrightarrow> \<exists>e. so_set_nx ops k v ttl s = (Inl e, s) \<and> so_set ops k v ttl s = (Inl e, s)
      \<and> so_compare_and_set ops k x v ttl s = (Inl e, s) \<and> so_get ops k s = (Inl e, s)
      \<and> so_incr ops k by ttl s = (Inl e, s) \<and> so_del ops k s = (Inl e, s)"
begin

lemma incr_refuses_text: "up s \<Longrightarrow> view s k = Some t \<Longrightarrow> parse_signed 64 t = None \<Longrightarrow> isl (fst (so_incr ops k by ttl s))"
  using incr_says [of s k "by" ttl "fst (so_incr ops k by ttl s)" "snd (so_incr ops k by ttl s)"]
  by (simp add: incremented_def)

end

section \<open>The in-memory store\<close>

record entry =
  entry_value :: string
  expires_at :: duration

record state_data =
  entries :: "string \<Rightarrow> entry option"
  sd_now :: duration
  failing :: bool

definition state_data_new :: state_data where
  "state_data_new = \<lparr>entries = \<lambda>_. None, sd_now = 0, failing = False\<rparr>"

definition INJECTED_STATE_FAILURE :: string where
  "INJECTED_STATE_FAILURE = ''memory state store is set to fail''"

text \<open>\<open>live\<close>: the entry at \<open>k\<close>, after an expired one is removed.\<close>

definition live :: "string \<Rightarrow> state_data \<Rightarrow> entry option \<times> state_data" where
  "live k d =
     (let d = (case entries d k of
                 Some e \<Rightarrow> if expires_at e \<le> sd_now d then d\<lparr>entries := (entries d)(k := None)\<rparr> else d
               | None \<Rightarrow> d)
      in (entries d k, d))"

definition sd_write :: "string \<Rightarrow> string \<Rightarrow> duration \<Rightarrow> state_data \<Rightarrow> state_data" where
  "sd_write k v ttl d =
     d\<lparr>entries := (entries d)(k \<mapsto> \<lparr>entry_value = v, expires_at = sd_now d + ttl\<rparr>)\<rparr>"

text \<open>\<open>check\<close>, then the operation.\<close>

definition checked :: "(state_data \<Rightarrow> (state_error + 'a) \<times> state_data) \<Rightarrow> state_data
    \<Rightarrow> (state_error + 'a) \<times> state_data" where
  "checked op d = (if failing d then (Inl (StateErr INJECTED_STATE_FAILURE), d) else op d)"

definition mem_set_nx ::
  "string \<Rightarrow> string \<Rightarrow> duration \<Rightarrow> state_data \<Rightarrow> (state_error + string option) \<times> state_data" where
  "mem_set_nx k v ttl = checked (\<lambda>d.
     case live k d of
       (Some existing, d) \<Rightarrow> (Inr (Some (entry_value existing)), d)
     | (None, d) \<Rightarrow> (Inr None, sd_write k v ttl d))"

definition mem_set ::
  "string \<Rightarrow> string \<Rightarrow> duration \<Rightarrow> state_data \<Rightarrow> (state_error + unit) \<times> state_data" where
  "mem_set k v ttl = checked (\<lambda>d. (Inr (), sd_write k v ttl d))"

definition mem_compare_and_set ::
  "string \<Rightarrow> string \<Rightarrow> string \<Rightarrow> duration \<Rightarrow> state_data
     \<Rightarrow> (state_error + string option) \<times> state_data" where
  "mem_compare_and_set k expected v ttl = checked (\<lambda>d.
     case live k d of
       (Some current, d) \<Rightarrow>
         if entry_value current \<noteq> expected then (Inr (Some (entry_value current)), d)
         else (Inr None, sd_write k v ttl d)
     | (None, d) \<Rightarrow> (Inr None, sd_write k v ttl d))"

definition mem_get :: "string \<Rightarrow> state_data \<Rightarrow> (state_error + string option) \<times> state_data" where
  "mem_get k = checked (\<lambda>d. case live k d of (e, d) \<Rightarrow> (Inr (map_option entry_value e), d))"

definition mem_incr ::
  "string \<Rightarrow> int \<Rightarrow> duration \<Rightarrow> state_data \<Rightarrow> (state_error + int) \<times> state_data" where
  "mem_incr k by ttl = checked (\<lambda>d.
     case live k d of (e, d) \<Rightarrow>
       (case (case e of None \<Rightarrow> Some 0 | Some e \<Rightarrow> parse_signed 64 (entry_value e)) of
          None \<Rightarrow> (Inl (StateErr (''key `'' @ k @ ''` is not an integer'')), d)
        | Some current \<Rightarrow>
            (let next = current + by in
             if - (2 ^ 63) \<le> next \<and> next < 2 ^ 63 then (Inr next, sd_write k (show_int next) ttl d)
             else (Inl (StateErr (''key `'' @ k @ ''` would overflow'')), d))))"

definition mem_del :: "string \<Rightarrow> state_data \<Rightarrow> (state_error + unit) \<times> state_data" where
  "mem_del k = checked (\<lambda>d. (Inr (), d\<lparr>entries := (entries d)(k := None)\<rparr>))"

definition mem_advance :: "duration \<Rightarrow> state_data \<Rightarrow> state_data" where
  "mem_advance by d = d\<lparr>sd_now := sd_now d + by\<rparr>"

definition mem_fail_all :: "bool \<Rightarrow> state_data \<Rightarrow> state_data" where
  "mem_fail_all f d = d\<lparr>failing := f\<rparr>"

definition memory_ops :: "state_data store_ops" where
  "memory_ops =
     \<lparr>so_set_nx = mem_set_nx, so_set = mem_set, so_compare_and_set = mem_compare_and_set,
      so_get = mem_get, so_incr = mem_incr, so_del = mem_del\<rparr>"

text \<open>What the store holds: the values that have not expired.\<close>

definition mem_view :: "state_data \<Rightarrow> string \<Rightarrow> string option" where
  "mem_view d k =
     (case entries d k of
        Some e \<Rightarrow> if expires_at e \<le> sd_now d then None else Some (entry_value e)
      | None \<Rightarrow> None)"

lemma live_view:
  assumes "live k d = (e, d')"
  shows "map_option entry_value e = mem_view d k \<and> mem_view d' = mem_view d
    \<and> sd_now d' = sd_now d \<and> failing d' = failing d"
  using assms by (cases "entries d k") (auto simp: live_def mem_view_def fun_eq_iff split: option.split if_splits
      dest: sym)

lemma view_write [simp]: "mem_view (sd_write k v ttl d) = written k v ttl (mem_view d)"
  by (auto simp: sd_write_def mem_view_def written_def fun_eq_iff split: option.split)

lemma failing_write [simp]: "failing (sd_write k v ttl d) = failing d"
  by (simp add: sd_write_def)

lemma incremented_count:
  assumes "holds_count c held"
  shows "incremented k held by =
    (if - (2 ^ 63) \<le> c + by \<and> c + by < 2 ^ 63 then Inr (c + by)
     else Inl (StateErr (''key `'' @ k @ ''` would overflow'')))"
  using assms by (auto simp: holds_count_def incremented_def parse_signed_show_int)

lemma mem_incr_result:
  assumes "\<not> failing s" "mem_incr k by ttl s = (n, s')"
  shows "n = incremented k (mem_view s k) by \<and> \<not> failing s' \<and>
    mem_view s' = (case n of Inl e \<Rightarrow> mem_view s | Inr i \<Rightarrow> written k (show_int i) ttl (mem_view s))"
  using assms
  by (cases "live k s"; cases "fst (live k s)")
    (auto simp: mem_incr_def checked_def incremented_def Let_def split: option.splits if_splits dest!: live_view)

interpretation mem: exact_store memory_ops mem_view "\<lambda>d. \<not> failing d"
proof
  fix s s' k v and ttl :: duration and r :: "state_error + string option"
  assume "\<not> failing s" "so_set_nx memory_ops k v ttl s = (r, s')"
  then show "r = Inr (mem_view s k) \<and> \<not> failing s' \<and>
      mem_view s' = (if mem_view s k = None then written k v ttl (mem_view s) else mem_view s)"
    by (cases "live k s"; cases "fst (live k s)")
      (auto simp: memory_ops_def mem_set_nx_def checked_def dest!: live_view)
next
  fix s s' k v u and ttl :: duration
  assume "\<not> failing s" "so_set memory_ops k v ttl s = (u, s')"
  then show "u = Inr () \<and> \<not> failing s' \<and> mem_view s' = written k v ttl (mem_view s)"
    by (auto simp: memory_ops_def mem_set_def checked_def)
next
  fix s s' k expected v and ttl :: duration and r :: "state_error + string option"
  assume "\<not> failing s" "so_compare_and_set memory_ops k expected v ttl s = (r, s')"
  then show "\<not> failing s' \<and>
      (if mem_view s k = None \<or> mem_view s k = Some expected
       then r = Inr None \<and> mem_view s' = written k v ttl (mem_view s)
       else r = Inr (mem_view s k) \<and> mem_view s' = mem_view s)"
    by (cases "live k s"; cases "fst (live k s)")
      (auto simp: memory_ops_def mem_compare_and_set_def checked_def split: if_splits dest!: live_view)
next
  fix s s' k and r :: "state_error + string option"
  assume "\<not> failing s" "so_get memory_ops k s = (r, s')"
  then show "r = Inr (mem_view s k) \<and> \<not> failing s' \<and> mem_view s' = mem_view s"
    by (cases "live k s") (auto simp: memory_ops_def mem_get_def checked_def dest!: live_view)
next
  fix s s' k "by" n and ttl :: duration
  assume "\<not> failing s" "so_incr memory_ops k by ttl s = (n, s')"
  with mem_incr_result [of s k "by" ttl n s']
  have n: "n = incremented k (mem_view s k) by" "\<not> failing s'"
    "mem_view s' = (case n of Inl e \<Rightarrow> mem_view s | Inr i \<Rightarrow> written k (show_int i) ttl (mem_view s))"
    by (auto simp: memory_ops_def)
  then show "\<not> failing s' \<and> (isl n \<longrightarrow> mem_view s' = mem_view s) \<and>
      (\<forall>c. holds_count c (mem_view s k) \<longrightarrow>
        (if - (2 ^ 63) \<le> c + by \<and> c + by < 2 ^ 63
         then n = Inr (c + by) \<and> mem_view s' = written k (show_int (c + by)) ttl (mem_view s) else isl n))"
    by (auto simp: incremented_count isl_def)
  show "n = incremented k (mem_view s k) by" by (rule n)
next
  fix s s' k u
  assume "\<not> failing s" "so_del memory_ops k s = (u, s')"
  then show "u = Inr () \<and> \<not> failing s' \<and> mem_view s' = (mem_view s)(k := None)"
    by (auto simp: memory_ops_def mem_del_def checked_def mem_view_def fun_eq_iff
        split: option.splits if_splits)
next
  fix s s' k v u
  assume "\<not> failing s" "so_set memory_ops k v 0 s = (u, s')"
  then show "mem_view s' = (mem_view s)(k := None)"
    by (auto simp: memory_ops_def mem_set_def checked_def written_def)
qed (auto simp: memory_ops_def mem_set_nx_def mem_incr_def mem_compare_and_set_def mem_set_def mem_get_def
    mem_del_def checked_def)

section \<open>Time\<close>

text \<open>Time only takes values away; a value written lives until its time is up.\<close>

lemma mem_view_advance:
  "mem_view (mem_advance t d) k = mem_view d k \<or> mem_view (mem_advance t d) k = None"
  by (auto simp: mem_view_def mem_advance_def split: option.splits)

lemma mem_view_write_advance:
  "mem_view (mem_advance t (sd_write k v ttl d)) k = (if t < ttl then Some v else None)"
  by (auto simp: mem_view_def mem_advance_def sd_write_def)

end
