(* ===== verification/Stage.thy ===== *)
theory Stage
  imports Events Metrics State_Store
begin

text \<open>
  \<open>crates/core/src/stage.rs\<close>: the stage contract. A worker acts on a \<open>world\<close>: the shared state
  store, whatever the sinks write to, the measurements, events and traces so far, and how often a
  clock was read. A stage is the functions of the \<open>Stage\<close> trait; a panic is the result \<open>None\<close>.
\<close>

section \<open>What a worker acts on\<close>

text \<open>A stage reaches the store, its metrics and the clock; only the engine reaches the sinks, the event
  log and the traces. \<open>w_ticks\<close> is the number of clock readings so far.\<close>

record 's port =
  w_store :: 's
  w_measures :: measures
  w_ticks :: nat

record ('s, 'k) world = "'s port" +
  w_sinks :: 'k
  w_events :: "event list"
  w_traces :: "record_trace list"

definition port_of :: "('s, 'k) world \<Rightarrow> 's port" where
  "port_of w = \<lparr>w_store = w_store w, w_measures = w_measures w, w_ticks = w_ticks w\<rparr>"

definition put_port :: "'s port \<Rightarrow> ('s, 'k) world \<Rightarrow> ('s, 'k) world" where
  "put_port p w = w\<lparr>w_store := w_store p, w_measures := w_measures p, w_ticks := w_ticks p\<rparr>"

text \<open>What does not change while a worker runs: the pipeline name, the store's operations, the
  signals and the clocks, each a function of how many readings came before. A wall clock reading
  is nanoseconds since the Unix epoch.\<close>

record 's environment =
  en_pipeline :: string
  en_ops :: "'s store_ops"
  en_signals :: signals
  en_instant :: "nat \<Rightarrow> nat"
  en_wall :: "nat \<Rightarrow> nat"

definition read_instant ::
  "'s environment \<Rightarrow> ('s, 'z) port_scheme \<Rightarrow> nat \<times> ('s, 'z) port_scheme" where
  "read_instant env w = (en_instant env (w_ticks w), w\<lparr>w_ticks := w_ticks w + 1\<rparr>)"

definition read_wall ::
  "'s environment \<Rightarrow> ('s, 'z) port_scheme \<Rightarrow> nat \<times> ('s, 'z) port_scheme" where
  "read_wall env w = (en_wall env (w_ticks w), w\<lparr>w_ticks := w_ticks w + 1\<rparr>)"

text \<open>\<open>unix_nanos_now\<close>, saturating at the width.\<close>

definition unix_nanos_now ::
  "'s environment \<Rightarrow> ('s, 'z) port_scheme \<Rightarrow> u64 \<times> ('s, 'z) port_scheme" where
  "unix_nanos_now env w =
     (let (n, w) = read_wall env w in (of_nat (min n (2 ^ 64 - 1)), w))"

definition measure :: "measures \<Rightarrow> ('s, 'z) port_scheme \<Rightarrow> ('s, 'z) port_scheme" where
  "measure ms w = w\<lparr>w_measures := w_measures w @ ms\<rparr>"

definition emit :: "event \<Rightarrow> ('s, 'k) world \<Rightarrow> ('s, 'k) world" where
  "emit e w = w\<lparr>w_events := w_events w @ [e]\<rparr>"

definition export_trace :: "'s environment \<Rightarrow> record_trace \<Rightarrow> ('s, 'k) world \<Rightarrow> ('s, 'k) world" where
  "export_trace env t w =
     (if sg_tracing (en_signals env) then w\<lparr>w_traces := w_traces w @ [t]\<rparr> else w)"

lemmas world_defs = read_instant_def read_wall_def unix_nanos_now_def measure_def emit_def
  export_trace_def port_of_def put_port_def Let_def

section \<open>The state handle\<close>

definition escape_segment :: "string \<Rightarrow> string" where
  "escape_segment segment =
     concat (map (\<lambda>c. if c = CHR '':'' then ''%3A'' else if c = CHR ''%'' then ''%25'' else [c]) segment)"

record state_handle =
  sh_prefix :: string
  sh_tenant :: string
  sh_node :: string
  sh_engine :: "engine_label option"
  sh_declared :: bool

definition state_handle_new ::
  "string \<Rightarrow> string \<Rightarrow> string \<Rightarrow> engine_label option \<Rightarrow> bool \<Rightarrow> state_handle" where
  "state_handle_new pipeline tnt node engine declared =
     \<lparr>sh_prefix = pipeline @ '':'' @ escape_segment tnt @ '':'' @ node @ '':'',
      sh_tenant = tnt, sh_node = node, sh_engine = engine, sh_declared = declared\<rparr>"

definition state_key :: "state_handle \<Rightarrow> string \<Rightarrow> string" where
  "state_key h key = sh_prefix h @ key"

definition state_timed ::
  "'s environment \<Rightarrow> state_handle \<Rightarrow> ('s \<Rightarrow> (state_error + 'a) \<times> 's) \<Rightarrow> 's port
     \<Rightarrow> (state_error + 'a) \<times> 's port" where
  "state_timed env h op w =
     (if \<not> sh_declared h then
        (Inl (StateErr (''node `'' @ sh_node h @
           ''` used the state store without declaring `uses_state`'')), w)
      else
        (let (started, w) = read_instant env w;
             (result, s) = op (w_store w);
             w = w\<lparr>w_store := s\<rparr>;
             l = with_engine (sh_engine h) (labels_new (sh_tenant h) (sh_node h));
             (now, w) = read_instant env w;
             w = measure (state_op l (now - started)) w;
             w = (case result of Inl _ \<Rightarrow> measure (state_error_count l) w | Inr _ \<Rightarrow> w)
         in (result, w)))"

definition state_set_nx ::
  "'s environment \<Rightarrow> state_handle \<Rightarrow> string \<Rightarrow> string \<Rightarrow> duration \<Rightarrow> 's port
     \<Rightarrow> (state_error + string option) \<times> 's port" where
  "state_set_nx env h key v ttl = state_timed env h (so_set_nx (en_ops env) (state_key h key) v ttl)"

definition state_set ::
  "'s environment \<Rightarrow> state_handle \<Rightarrow> string \<Rightarrow> string \<Rightarrow> duration \<Rightarrow> 's port
     \<Rightarrow> (state_error + unit) \<times> 's port" where
  "state_set env h key v ttl = state_timed env h (so_set (en_ops env) (state_key h key) v ttl)"

definition state_compare_and_set ::
  "'s environment \<Rightarrow> state_handle \<Rightarrow> string \<Rightarrow> string \<Rightarrow> string \<Rightarrow> duration \<Rightarrow> 's port
     \<Rightarrow> (state_error + string option) \<times> 's port" where
  "state_compare_and_set env h key expected v ttl =
     state_timed env h (so_compare_and_set (en_ops env) (state_key h key) expected v ttl)"

definition state_get ::
  "'s environment \<Rightarrow> state_handle \<Rightarrow> string \<Rightarrow> 's port
     \<Rightarrow> (state_error + string option) \<times> 's port" where
  "state_get env h key = state_timed env h (so_get (en_ops env) (state_key h key))"

definition state_incr ::
  "'s environment \<Rightarrow> state_handle \<Rightarrow> string \<Rightarrow> int \<Rightarrow> duration \<Rightarrow> 's port
     \<Rightarrow> (state_error + int) \<times> 's port" where
  "state_incr env h key by ttl = state_timed env h (so_incr (en_ops env) (state_key h key) by ttl)"

definition state_del ::
  "'s environment \<Rightarrow> state_handle \<Rightarrow> string \<Rightarrow> 's port
     \<Rightarrow> (state_error + unit) \<times> 's port" where
  "state_del env h key = state_timed env h (so_del (en_ops env) (state_key h key))"

section \<open>Stages\<close>

record stage_error =
  se_message :: string
  se_source :: "string option"

datatype stage_output =
    Pass rec_value
  | Drop drop_reason
  | Routed string rec_value
  | Split "rec_value list"
  | StageFailed stage_error
  | StoreFailed rec_value state_error

text \<open>The context of one run: node, \<open>Meta\<close>, state handle and the labels of the stage's own metrics.\<close>

record stage_context =
  cx_node :: string
  cx_meta :: meta
  cx_state :: state_handle
  cx_labels :: labels

record 's stage =
  st_process :: "'s environment \<Rightarrow> rec_value \<Rightarrow> stage_context \<Rightarrow> 's port
    \<Rightarrow> stage_output option \<times> 's port"
  st_engine :: "engine_label option"
  st_uses_state :: bool
  st_on_state_error :: state_policy

text \<open>\<open>StageEnvironment::context\<close>.\<close>

definition make_context :: "'s environment \<Rightarrow> meta \<Rightarrow> string \<Rightarrow> 's stage \<Rightarrow> stage_context" where
  "make_context env m node st =
     \<lparr>cx_node = node, cx_meta = m,
      cx_state = state_handle_new (en_pipeline env) (tenant m) node (st_engine st) (st_uses_state st),
      cx_labels = with_engine (st_engine st) (labels_new (tenant m) node)\<rparr>"

text \<open>The metrics a stage emits for itself (\<open>StageMetrics\<close>).\<close>

definition stage_regex_nonmatch :: "stage_context \<Rightarrow> 's port \<Rightarrow> 's port" where
  "stage_regex_nonmatch ctx = measure (regex_nonmatch (cx_labels ctx))"

definition stage_edit_unapplied ::
  "stage_context \<Rightarrow> edit_op \<Rightarrow> string \<Rightarrow> edit_cause \<Rightarrow> 's port \<Rightarrow> 's port" where
  "stage_edit_unapplied ctx op field cause =
     measure (edit_unapplied_count (with_edit op field cause (cx_labels ctx)))"

definition stage_lua_error :: "stage_context \<Rightarrow> lua_error_kind \<Rightarrow> 's port \<Rightarrow> 's port" where
  "stage_lua_error ctx kind =
     measure (lua_error_count (with_kind (lua_error_kind_str kind) (cx_labels ctx)))"

section \<open>What a stage may do\<close>

text \<open>The per-node series of the engine; a stage has no method that counts on them.\<close>

definition engine_owned :: "counter_metric set" where
  "engine_owned = {RecordsIn, RecordsOut, RecordsDropped, RecordsErrored}"

fun stage_owned :: "measure \<Rightarrow> bool" where
  "stage_owned (Count c l n) \<longleftrightarrow> c \<notin> engine_owned"
| "stage_owned (Observe h l v) \<longleftrightarrow> True"

definition appends_owned :: "'s port \<Rightarrow> 's port \<Rightarrow> bool" where
  "appends_owned w w' \<longleftrightarrow> (\<exists>ms. w_measures w' = w_measures w @ ms \<and> list_all stage_owned ms)"

text \<open>The contract of a stage towards the engine: it only adds measurements of its own.\<close>

locale stage_contract =
  fixes st :: "'s stage"
  assumes only_own: "st_process st env r ctx w = (out, w') \<Longrightarrow> appends_owned w w'"

lemma appends_owned_refl [simp]: "appends_owned w w"
  by (simp add: appends_owned_def)

lemma appends_owned_trans: "appends_owned u v \<Longrightarrow> appends_owned v w \<Longrightarrow> appends_owned u w"
  by (auto simp: appends_owned_def)

lemma appends_owned_measure: "list_all stage_owned ms \<Longrightarrow> appends_owned w (measure ms w)"
  by (auto simp: appends_owned_def measure_def)

lemma state_timed_owned: "state_timed env h op w = (r, w') \<Longrightarrow> appends_owned w w'"
  by (auto simp: state_timed_def appends_owned_def world_defs state_op_def state_error_count_def
      engine_owned_def split: if_splits prod.splits sum.splits)

lemma state_timed_result:
  "sh_declared h \<Longrightarrow> op (w_store w) = (r, s) \<Longrightarrow>
     \<exists>w'. state_timed env h op w = (r, w') \<and> w_store w' = s"
  by (cases r) (auto simp: state_timed_def world_defs)

lemma state_timed_Inr:
  "state_timed env h op w = (Inr x, w') \<Longrightarrow> op (w_store w) = (Inr x, w_store w')"
  by (auto simp: state_timed_def world_defs split: if_splits prod.splits sum.splits)

lemma stage_metrics_owned:
  "appends_owned w (stage_regex_nonmatch ctx w)"
  "appends_owned w (stage_edit_unapplied ctx op field cause w)"
  "appends_owned w (stage_lua_error ctx kind w)"
  by (simp_all add: stage_regex_nonmatch_def stage_edit_unapplied_def stage_lua_error_def
      appends_owned_measure regex_nonmatch_def edit_unapplied_count_def lua_error_count_def
      engine_owned_def)

section \<open>The key prefix separates tenants, nodes and pipelines\<close>

lemma escape_segment_Cons [simp]:
  "escape_segment (c # s) =
     (if c = CHR '':'' then ''%3A'' else if c = CHR ''%'' then ''%25'' else [c]) @ escape_segment s"
  and escape_segment_Nil [simp]: "escape_segment [] = []"
  by (simp_all add: escape_segment_def)

lemma escape_segment_no_colon: "CHR '':'' \<notin> set (escape_segment s)"
  by (induction s) auto

lemma escape_segment_inject: "escape_segment s = escape_segment t \<longleftrightarrow> s = t"
proof
  show "escape_segment s = escape_segment t \<Longrightarrow> s = t"
  proof (induction s arbitrary: t)
    case Nil
    then show ?case by (cases t) (auto split: if_splits)
  next
    case (Cons c s)
    then show ?case by (cases t) (auto split: if_splits)
  qed
qed simp

lemma before_colon_inject:
  assumes "CHR '':'' \<notin> set a" "CHR '':'' \<notin> set b" "a @ '':'' @ x = b @ '':'' @ y"
  shows "a = b \<and> x = y"
proof -
  have "split_once (CHR '':'') (a @ '':'' @ x) = split_once (CHR '':'') (b @ '':'' @ y)"
    by (rule arg_cong [OF assms(3)])
  then show ?thesis
    by (simp only: append.simps split_once_append [OF assms(1)] split_once_append [OF assms(2)]
        option.inject prod.inject)
qed

lemma state_key_inject:
  assumes "CHR '':'' \<notin> set p" "CHR '':'' \<notin> set p'" "CHR '':'' \<notin> set n" "CHR '':'' \<notin> set n'"
  shows "state_key (state_handle_new p t n e d) k = state_key (state_handle_new p' t' n' e' d') k'
    \<longleftrightarrow> p = p' \<and> t = t' \<and> n = n' \<and> k = k'"
proof
  assume "state_key (state_handle_new p t n e d) k = state_key (state_handle_new p' t' n' e' d') k'"
  then have "p @ '':'' @ (escape_segment t @ '':'' @ (n @ '':'' @ k)) =
      p' @ '':'' @ (escape_segment t' @ '':'' @ (n' @ '':'' @ k'))"
    by (simp add: state_key_def state_handle_new_def)
  from before_colon_inject [OF assms(1,2) this]
  have p: "p = p'" and "escape_segment t @ '':'' @ (n @ '':'' @ k) = escape_segment t' @ '':'' @ (n' @ '':'' @ k')"
    by blast+
  from before_colon_inject [OF escape_segment_no_colon escape_segment_no_colon this(2)]
  have t: "t = t'" and "n @ '':'' @ k = n' @ '':'' @ k'" by (auto simp: escape_segment_inject)
  from before_colon_inject [OF assms(3,4) this(2)] p t show "p = p' \<and> t = t' \<and> n = n' \<and> k = k'" by blast
qed (simp add: state_key_def state_handle_new_def)

end
