(* ===== verification/Engine.thy ===== *)
theory Engine
  imports Stage Dag
begin

text \<open>
  \<open>crates/core/src/engine.rs\<close>, \<open>pipeline.rs\<close>, \<open>registry.rs\<close> and the sink of \<open>io.rs\<close>: compiling a
  pipeline and walking one record through its graph. The recursion of the walk carries fuel;
  \<open>Engine_Laws\<close> proves that one unit per node is enough on a loaded graph. A panic is a result of
  its own, which unwinds to the handler. The threads, the channel between source and workers
  and the ack handle's transport are outside the model: \<open>handle\<close> returns how the message settled.
\<close>

section \<open>Pipelines\<close>

text \<open>A sink's \<open>write\<close> of a batch of one; an error is its text.\<close>

record 'k sink =
  sk_write :: "meta \<Rightarrow> rec_value \<Rightarrow> 'k \<Rightarrow> (string + u64) option \<times> 'k"

datatype ('s, 'k) compiled_node = CStage "'s stage" | CSink "'k sink"

record ('s, 'k) registry =
  rg_stages :: "string \<Rightarrow> (node_config \<Rightarrow> config_error + 's stage) option"
  rg_sinks :: "string \<Rightarrow> (node_config \<Rightarrow> config_error + 'k sink) option"

definition registry_new :: "('s, 'k) registry" where
  "registry_new = \<lparr>rg_stages = (\<lambda>_. None), rg_sinks = (\<lambda>_. None)\<rparr>"

definition register_stage ::
  "string \<Rightarrow> (node_config \<Rightarrow> config_error + 's stage) \<Rightarrow> ('s, 'k) registry \<Rightarrow> ('s, 'k) registry" where
  "register_stage kind factory g = g\<lparr>rg_stages := (rg_stages g)(kind \<mapsto> factory)\<rparr>"

definition register_sink ::
  "string \<Rightarrow> (node_config \<Rightarrow> config_error + 'k sink) \<Rightarrow> ('s, 'k) registry \<Rightarrow> ('s, 'k) registry" where
  "register_sink kind factory g = g\<lparr>rg_sinks := (rg_sinks g)(kind \<mapsto> factory)\<rparr>"

definition unknown_type :: "node_config \<Rightarrow> config_error" where
  "unknown_type node = UnknownType (node_id node) (node_kind node)"

definition build_stage :: "('s, 'k) registry \<Rightarrow> node_config \<Rightarrow> config_error + 's stage" where
  "build_stage g node =
     (case rg_stages g (node_kind node) of
        None \<Rightarrow> Inl (unknown_type node)
      | Some factory \<Rightarrow> factory node)"

definition build_sink :: "('s, 'k) registry \<Rightarrow> node_config \<Rightarrow> config_error + 'k sink" where
  "build_sink g node =
     (case rg_sinks g (node_kind node) of
        None \<Rightarrow> Inl (unknown_type node)
      | Some factory \<Rightarrow> factory node)"

record ('s, 'k) pipeline =
  pl_name :: string
  pl_dag :: dag
  pl_nodes :: "('s, 'k) compiled_node list"
  pl_workers :: "nat option"

definition build_node :: "('s, 'k) registry \<Rightarrow> node_config \<Rightarrow> config_error + ('s, 'k) compiled_node" where
  "build_node g node =
     (if is_sink node then map_sum id CSink (build_sink g node)
      else map_sum id CStage (build_stage g node))"

fun build_nodes ::
  "('s, 'k) registry \<Rightarrow> node_config list \<Rightarrow> config_error + ('s, 'k) compiled_node list" where
  "build_nodes g [] = Inr []"
| "build_nodes g (node # rest) =
     (case build_node g node of
        Inl e \<Rightarrow> Inl e
      | Inr n \<Rightarrow> map_sum id (Cons n) (build_nodes g rest))"

definition pipeline_compile ::
  "(yaml \<Rightarrow> string + route_params) \<Rightarrow> config \<Rightarrow> ('s, 'k) registry \<Rightarrow> config_error + ('s, 'k) pipeline" where
  "pipeline_compile fv cfg g =
     (case dag_from_config fv cfg of
        Inl e \<Rightarrow> Inl e
      | Inr d \<Rightarrow>
          map_sum id
            (\<lambda>nodes. \<lparr>pl_name = cfg_name cfg, pl_dag = d, pl_nodes = nodes, pl_workers = cfg_workers cfg\<rparr>)
            (build_nodes g (dag_nodes d)))"

definition pipeline_uses_state :: "('s, 'k) pipeline \<Rightarrow> bool" where
  "pipeline_uses_state pl \<longleftrightarrow>
     list_ex (\<lambda>n. case n of CStage st \<Rightarrow> st_uses_state st | CSink _ \<Rightarrow> False) (pl_nodes pl)"

text \<open>\<open>worker_count\<close>; the parallelism the host reports is an argument.\<close>

definition worker_count :: "nat option \<Rightarrow> ('s, 'k) pipeline \<Rightarrow> nat" where
  "worker_count parallelism pl =
     max 1 (case pl_workers pl of
              Some n \<Rightarrow> n
            | None \<Rightarrow> (case parallelism of Some n \<Rightarrow> n | None \<Rightarrow> 1))"

section \<open>A walk\<close>

record at =
  at_labels :: labels
  at_span :: "nat option"

record walk =
  wk_at :: "at option"
  wk_failure :: "failure option"
  wk_spans :: trace_buffer

type_synonym ('s, 'k) walking = "walk \<times> ('s, 'k) world"

datatype 'a run = Finished 'a | Panicked 'a | NoFuel

definition walk_fail ::
  "'s environment \<Rightarrow> meta \<Rightarrow> trace_key \<Rightarrow> at \<Rightarrow> nat \<Rightarrow> failure_kind \<Rightarrow> string
     \<Rightarrow> ('s, 'k) walking \<Rightarrow> ('s, 'k) walking" where
  "walk_fail env m key at ended kind error s =
     (let (wk, w) = s;
          node = (case lb_stage (at_labels at) of Some n \<Rightarrow> n | None \<Rightarrow> SOURCE_ID);
          delivery = delivery_count m;
          w = measure (errored (at_labels at)) w;
          w = emit ((event_new EvStageError (tenant m) node delivery)
                \<lparr>ev_record := Some (record_id m), ev_failure := Some kind, ev_message := error,
                 ev_trace :=
                   (if sg_tracing (en_signals env) then
                      Some (case at_span at of
                              None \<Rightarrow> delivery_context key delivery
                            | Some span \<Rightarrow> buffer_context key delivery span)
                    else None)\<rparr>) w;
          wk = wk\<lparr>wk_failure :=
                (case wk_failure wk of
                   Some f \<Rightarrow> Some f
                 | None \<Rightarrow> Some \<lparr>fl_node = node, fl_record = Some (record_id m), fl_kind = kind,
                                fl_error = error\<rparr>)\<rparr>;
          wk = (case at_span at of
                  Some span \<Rightarrow> wk\<lparr>wk_spans := buffer_close span ended (SError kind error) (wk_spans wk)\<rparr>
                | None \<Rightarrow> wk)
      in (wk, w))"

text \<open>The texts of the errors (\<open>Display\<close> of \<open>StateError\<close>).\<close>

definition state_error_display :: "state_error \<Rightarrow> string" where
  "state_error_display e = ''state store: '' @ state_message e"

text \<open>What a node hands on: the records, one fan-out each, to the targets.\<close>

record handover =
  ho_targets :: "nat list"
  ho_records :: "rec_value list"

definition handover_none :: handover where
  "handover_none = \<lparr>ho_targets = [], ho_records = []\<rparr>"

definition close_span ::
  "nat \<Rightarrow> nat \<Rightarrow> span_result \<Rightarrow> ('s, 'k) walking \<Rightarrow> ('s, 'k) walking" where
  "close_span span ended result s =
     (case s of (wk, w) \<Rightarrow> (wk\<lparr>wk_spans := buffer_close span ended result (wk_spans wk)\<rparr>, w))"

definition measured :: "measures \<Rightarrow> ('s, 'k) walking \<Rightarrow> ('s, 'k) walking" where
  "measured ms s = (case s of (wk, w) \<Rightarrow> (wk, measure ms w))"

text \<open>What the engine does with a stage's output; \<open>st\<close> is the stage that gave it.\<close>

definition settle_output ::
  "'s environment \<Rightarrow> dag \<Rightarrow> meta \<Rightarrow> trace_key \<Rightarrow> nat \<Rightarrow> 's stage \<Rightarrow> at \<Rightarrow> nat \<Rightarrow> nat \<Rightarrow> stage_output
     \<Rightarrow> ('s, 'k) walking \<Rightarrow> handover \<times> ('s, 'k) walking" where
  "settle_output env d m key index st at span ended out s =
     (let all = dag_consumers d index None; l = at_labels at in
      case out of
        Pass r \<Rightarrow>
          (\<lparr>ho_targets = all, ho_records = [r]\<rparr>, close_span span ended SPass (measured (records_out l 1) s))
      | StoreFailed r e \<Rightarrow>
          (case st_on_state_error st of
             PolicyPass \<Rightarrow>
               (\<lparr>ho_targets = all, ho_records = [r]\<rparr>,
                close_span span ended SStateErrorPass (measured (records_out l 1) s))
           | PolicyNak \<Rightarrow>
               (handover_none, walk_fail env m key at ended StateErrorKind (state_error_display e) s))
      | Split rs \<Rightarrow>
          (let n = of_nat (length rs) in
           (\<lparr>ho_targets = all, ho_records = rs\<rparr>,
            close_span span ended (SSplit n) (measured (records_out l n) s)))
      | Drop reason \<Rightarrow>
          (handover_none, close_span span ended (SDrop reason) (measured (dropped l reason) s))
      | Routed label r \<Rightarrow>
          (let s = measured (records_out l 1) s; ts = dag_consumers d index (Some label) in
           if ts = [] then
             (handover_none, walk_fail env m key at ended StageErrorKind
                (''no consumer for route label `'' @ label @ ''`'') s)
           else (\<lparr>ho_targets = ts, ho_records = [r]\<rparr>,
                 if sg_tracing (en_signals env) then close_span span ended (SRouted label) s else s))
      | StageFailed e \<Rightarrow>
          (handover_none, walk_fail env m key at ended StageErrorKind (se_message e) s))"

text \<open>\<open>run_node\<close> up to its recursive calls: the span of the node and what it hands on.\<close>

definition visit_node ::
  "'s environment \<Rightarrow> ('s, 'k) pipeline \<Rightarrow> meta \<Rightarrow> trace_key \<Rightarrow> nat \<Rightarrow> rec_value \<Rightarrow> nat option
     \<Rightarrow> ('s, 'k) walking \<Rightarrow> (nat \<times> handover \<times> ('s, 'k) walking) run" where
  "visit_node env pl m key index r parent s =
     (let (wk, w) = s;
          d = pl_dag pl;
          name = node_id (dag_node d index);
          node = pl_nodes pl ! index;
          engine = (case node of CSink _ \<Rightarrow> None | CStage st \<Rightarrow> st_engine st);
          l = with_engine engine (labels_new (tenant m) name);
          w = measure (records_in l) w;
          (started, w) = read_instant env w;
          (span, spans) = buffer_open name parent started (wk_spans wk);
          at = \<lparr>at_labels = l, at_span = Some span\<rparr>;
          wk = wk\<lparr>wk_spans := spans, wk_at := Some at\<rparr>
      in case node of
           CSink sink \<Rightarrow>
             (let (written, k) = sk_write sink m r (w_sinks w);
                  w = w\<lparr>w_sinks := k\<rparr>
              in case written of
                   None \<Rightarrow> Panicked (span, handover_none, (wk, w))
                 | Some result \<Rightarrow>
                     (let (ended, w) = read_instant env w;
                          w = measure (sink_publish_duration l (ended - started)) w
                      in case result of
                           Inr bytes \<Rightarrow>
                             Finished (span, handover_none,
                               close_span span ended SWritten
                                 (measured (bytes_out l bytes) (measured (records_out l 1) (wk, w))))
                         | Inl err \<Rightarrow>
                             Finished (span, handover_none,
                               walk_fail env m key at ended SinkErrorKind err
                                 (measured (sink_publish_error l) (wk, w)))))
         | CStage st \<Rightarrow>
             (let ctx = make_context env m name st;
                  (out, p) = st_process st env r ctx (port_of w);
                  w = put_port p w
              in case out of
                   None \<Rightarrow> Panicked (span, handover_none, (wk, w))
                 | Some output \<Rightarrow>
                     (let (ended, w) = read_instant env w;
                          w = measure (stage_duration l (ended - started)) w;
                          (h, s) = settle_output env d m key index st at span ended output (wk, w)
                      in Finished (span, h, s))))"

text \<open>\<open>run_node\<close>, \<open>fan_out\<close> (over the targets) and the loop over the records of a split.\<close>

definition leave :: "('s, 'k) walking \<Rightarrow> ('s, 'k) walking" where
  "leave s = (case s of (wk, w) \<Rightarrow> (wk\<lparr>wk_at := None\<rparr>, w))"

function (sequential) run_node ::
    "nat \<Rightarrow> 's environment \<Rightarrow> ('s, 'k) pipeline \<Rightarrow> meta \<Rightarrow> trace_key \<Rightarrow> nat \<Rightarrow> rec_value \<Rightarrow> nat option
       \<Rightarrow> ('s, 'k) walking \<Rightarrow> ('s, 'k) walking run"
  and fan_out ::
    "nat \<Rightarrow> 's environment \<Rightarrow> ('s, 'k) pipeline \<Rightarrow> meta \<Rightarrow> trace_key \<Rightarrow> nat list \<Rightarrow> rec_value \<Rightarrow> nat option
       \<Rightarrow> ('s, 'k) walking \<Rightarrow> ('s, 'k) walking run"
  and fan_all ::
    "nat \<Rightarrow> 's environment \<Rightarrow> ('s, 'k) pipeline \<Rightarrow> meta \<Rightarrow> trace_key \<Rightarrow> nat list \<Rightarrow> rec_value list
       \<Rightarrow> nat option \<Rightarrow> ('s, 'k) walking \<Rightarrow> ('s, 'k) walking run"
where
  "run_node 0 env pl m key index r parent s = NoFuel"
| "run_node (Suc n) env pl m key index r parent s =
     (case visit_node env pl m key index r parent s of
        NoFuel \<Rightarrow> NoFuel
      | Panicked (span, h, s) \<Rightarrow> Panicked s
      | Finished (span, h, s) \<Rightarrow> fan_all n env pl m key (ho_targets h) (ho_records h) (Some span) s)"
| "fan_out n env pl m key [] r parent s = Finished s"
| "fan_out n env pl m key (t # ts) r parent s =
     (case run_node n env pl m key t r parent s of
        Finished s \<Rightarrow> fan_out n env pl m key ts r parent (leave s)
      | Panicked s \<Rightarrow> Panicked s
      | NoFuel \<Rightarrow> NoFuel)"
| "fan_all n env pl m key ts [] parent s = Finished s"
| "fan_all n env pl m key ts (r # rs) parent s =
     (case fan_out n env pl m key ts r parent s of
        Finished s \<Rightarrow> fan_all n env pl m key ts rs parent s
      | Panicked s \<Rightarrow> Panicked s
      | NoFuel \<Rightarrow> NoFuel)"
  by pat_completeness auto
termination
  by (relation "measures
      [\<lambda>x. case x of Inl (n, _) \<Rightarrow> n | Inr (Inl (n, _)) \<Rightarrow> n | Inr (Inr (n, _)) \<Rightarrow> n,
       \<lambda>x. case x of Inl _ \<Rightarrow> 0 | Inr (Inl _) \<Rightarrow> 1 | Inr (Inr _) \<Rightarrow> 2,
       \<lambda>x. case x of Inl _ \<Rightarrow> 0 | Inr (Inl (_, _, _, _, _, ts, _)) \<Rightarrow> length ts
         | Inr (Inr (_, _, _, _, _, _, rs, _)) \<Rightarrow> length rs]") auto

section \<open>Handling an envelope\<close>

record envelope =
  en_record :: rec_value
  en_arrival :: arrival

datatype ack_outcome = Acked | Nakked "duration option" failure

text \<open>\<open>begin\<close> with its two clock readings, taken only when tracing.\<close>

definition walk_begin ::
  "'s environment \<Rightarrow> trace_buffer \<Rightarrow> ('s, 'k) world \<Rightarrow> trace_buffer \<times> ('s, 'k) world" where
  "walk_begin env spans w =
     (if tb_tracing spans then
        (let (i, w) = read_instant env w; (t, w) = read_wall env w in (buffer_begin i t spans, w))
      else (buffer_begin 0 0 spans, w))"

text \<open>\<open>Meta::resolve\<close>; the clock is read only for an accepted arrival without a time.\<close>

definition resolve_now ::
  "'s environment \<Rightarrow> arrival \<Rightarrow> ('s, 'k) world \<Rightarrow> (rejected + meta) \<times> ('s, 'k) world" where
  "resolve_now env a w =
     (if is_log a \<and> arr_record_id a \<noteq> None \<and> arr_time a = None then
        (let (now, w) = unix_nanos_now env w in (resolve now a, w))
      else (resolve 0 a, w))"

definition log_nak ::
  "string \<Rightarrow> u64 \<Rightarrow> failure \<Rightarrow> trace_context option \<Rightarrow> ('s, 'k) world \<Rightarrow> ('s, 'k) world" where
  "log_nak tnt delivery f trace = emit ((event_of_failure EvNak tnt f delivery)\<lparr>ev_trace := trace\<rparr>)"

definition redelivery_event :: "'s environment \<Rightarrow> string \<Rightarrow> u64 \<Rightarrow> meta option \<Rightarrow> event" where
  "redelivery_event env tnt delivery resolved =
     (event_new EvRedelivery tnt SOURCE_ID delivery)
       \<lparr>ev_record := map_option record_id resolved,
        ev_trace :=
          (if sg_tracing (en_signals env)
           then map_option (\<lambda>m. delivery_context (trace_key_of m) delivery) resolved else None)\<rparr>"

text \<open>Intake: what is counted and logged before the record enters the graph.\<close>

definition intake ::
  "'s environment \<Rightarrow> arrival \<Rightarrow> rejected + meta \<Rightarrow> ('s, 'k) world \<Rightarrow> ('s, 'k) world" where
  "intake env a resolved w =
     (let tnt = (case resolved of Inl rejected \<Rightarrow> rej_tenant rejected | Inr m \<Rightarrow> tenant m);
          delivery = arr_delivery a;
          w = measure (records_in (labels_new tnt SOURCE_ID)) w;
          w = (case arr_bytes a of Some bytes \<Rightarrow> measure (bytes_in tnt bytes) w | None \<Rightarrow> w)
      in if 1 < delivery then
           emit (redelivery_event env tnt delivery (case resolved of Inr m \<Rightarrow> Some m | Inl _ \<Rightarrow> None))
             (measure (source_redelivery tnt) w)
         else w)"

text \<open>The walk, a panic contained: the failing node, or the source, is charged with it.\<close>

definition walk_record ::
  "nat \<Rightarrow> 's environment \<Rightarrow> ('s, 'k) pipeline \<Rightarrow> meta \<Rightarrow> rec_value \<Rightarrow> trace_buffer \<Rightarrow> ('s, 'k) world
     \<Rightarrow> ('s, 'k) walking option" where
  "walk_record fuel env pl m r spans w =
     (let key = trace_key_of m in
      case fan_out fuel env pl m key (dag_sources (pl_dag pl)) r None
             (\<lparr>wk_at = None, wk_failure = None, wk_spans = spans\<rparr>, w) of
        NoFuel \<Rightarrow> None
      | Finished s \<Rightarrow> Some s
      | Panicked (wk, w) \<Rightarrow>
          (let panicked = ''stage or sink panicked'';
               at = (case wk_at wk of
                       Some at \<Rightarrow> at
                     | None \<Rightarrow> \<lparr>at_labels = labels_new (tenant m) SOURCE_ID, at_span = None\<rparr>);
               (now, w) = read_instant env w;
               (wk, w) = walk_fail env m key at now PanicKind panicked (wk, w)
           in Some (wk\<lparr>wk_spans := buffer_fail_open now PanicKind panicked (wk_spans wk)\<rparr>, w)))"

text \<open>Settling: the trace if it is kept, then the nak with its log line or the ack.\<close>

definition keep_trace ::
  "'s environment \<Rightarrow> meta \<Rightarrow> ('s, 'k) walking \<Rightarrow> trace_buffer \<times> ('s, 'k) world" where
  "keep_trace env m s =
     (let (wk, w) = s; key = trace_key_of m; failed = (wk_failure wk \<noteq> None) in
      if signals_keeps (en_signals env) key failed (delivery_count m) then
        (let (now, w) = read_instant env w;
             (t, spans) = buffer_finish key m (if failed then SettleNak else SettleAck) now (wk_spans wk)
         in (spans, export_trace env t w))
      else (wk_spans wk, w))"

definition settle_walk ::
  "'s environment \<Rightarrow> meta \<Rightarrow> ('s, 'k) walking \<Rightarrow> ack_outcome \<times> trace_buffer \<times> ('s, 'k) world" where
  "settle_walk env m s =
     (let (spans, w) = keep_trace env m s;
          wk = fst s;
          key = trace_key_of m;
          delivery = delivery_count m
      in case wk_failure wk of
           Some f \<Rightarrow>
             (let w = measure (source_nak (tenant m)) w;
                  trace = (if sg_tracing (en_signals env) then Some (delivery_context key delivery) else None)
              in (Nakked None f, spans, log_nak (tenant m) delivery f trace w))
         | None \<Rightarrow>
             (let w = (case ingestion_time m of
                         Reported nanos \<Rightarrow>
                           (let (now, w) = unix_nanos_now env w in
                            if nanos \<le> now then measure (end_to_end (tenant m) (unat (now - nanos))) w else w)
                       | Clock _ \<Rightarrow> w)
              in (Acked, spans, w)))"

definition reject ::
  "rejected \<Rightarrow> arrival \<Rightarrow> ('s, 'k) world \<Rightarrow> ack_outcome \<times> ('s, 'k) world" where
  "reject rejected a w =
     (let tnt = rej_tenant rejected; src = labels_new tnt SOURCE_ID in
      case rej_reason rejected of
        MissingId \<Rightarrow>
          (let w = measure (source_nak tnt) (measure (dropped src DropMissingId) w);
               f = failure_at_source MissingIdKind ''the message has no record id''
           in (Nakked None f, log_nak tnt (arr_delivery a) f None w))
      | NotLog \<Rightarrow> (Acked, measure (dropped src InvalidRecord) w))"

definition handle ::
  "nat \<Rightarrow> 's environment \<Rightarrow> ('s, 'k) pipeline \<Rightarrow> envelope \<Rightarrow> trace_buffer \<Rightarrow> ('s, 'k) world
     \<Rightarrow> (ack_outcome \<times> trace_buffer \<times> ('s, 'k) world) option" where
  "handle fuel env pl e spans w =
     (let a = en_arrival e;
          (spans, w) = walk_begin env spans w;
          (resolved, w) = resolve_now env a w;
          w = intake env a resolved w
      in case resolved of
           Inl rejected \<Rightarrow> (case reject rejected a w of (outcome, w) \<Rightarrow> Some (outcome, spans, w))
         | Inr m \<Rightarrow>
             map_option (settle_walk env m)
               (walk_record fuel env pl m (en_record e) spans
                  (measure (records_out (labels_new (tenant m) SOURCE_ID) 1) w)))"

text \<open>A worker takes envelopes one after the other, keeping its span buffer.\<close>

fun run_worker ::
  "nat \<Rightarrow> 's environment \<Rightarrow> ('s, 'k) pipeline \<Rightarrow> envelope list \<Rightarrow> trace_buffer \<Rightarrow> ('s, 'k) world
     \<Rightarrow> (ack_outcome list \<times> ('s, 'k) world) option" where
  "run_worker fuel env pl [] spans w = Some ([], w)"
| "run_worker fuel env pl (e # es) spans w =
     (case handle fuel env pl e spans w of
        None \<Rightarrow> None
      | Some (outcome, spans, w) \<Rightarrow>
          map_option (\<lambda>(outcomes, w). (outcome # outcomes, w)) (run_worker fuel env pl es spans w))"

end
