(* ===== verification/Engine_Laws.thy ===== *)
theory Engine_Laws
  imports Engine Dag_Theorems
begin

text \<open>
  What holds of the engine's walk: it ends on one unit of fuel per node, a message is acknowledged
  exactly when no branch failed and otherwise nakked for the first failure, and every record handed
  to a node is passed on, dropped or errored there, panics included.
\<close>

section \<open>Well-formed pipelines\<close>

definition dag_ordered :: "dag \<Rightarrow> bool" where
  "dag_ordered d \<longleftrightarrow>
     length (dag_edges d) = length (dag_nodes d)
   \<and> (\<forall>i < length (dag_nodes d). \<forall>c \<in> set (targets (dag_edges d) i). i < c \<and> c < length (dag_nodes d))
   \<and> set (dag_sources d) \<subseteq> {..<length (dag_nodes d)}"

lemma dag_from_config_ordered: "dag_from_config fv cfg = Inr d \<Longrightarrow> dag_ordered d"
  unfolding dag_ordered_def using dag_topological by blast

lemma dag_orderedD:
  assumes "dag_ordered d"
  shows "length (dag_edges d) = length (dag_nodes d)"
    and "i < length (dag_nodes d) \<Longrightarrow> c \<in> set (targets (dag_edges d) i) \<Longrightarrow> i < c \<and> c < length (dag_nodes d)"
    and "s \<in> set (dag_sources d) \<Longrightarrow> s < length (dag_nodes d)"
  using assms unfolding dag_ordered_def by blast+

definition routes_consumed :: "dag \<Rightarrow> nat \<Rightarrow> 's stage \<Rightarrow> bool" where
  "routes_consumed d i st \<longleftrightarrow>
     (\<forall>env r ctx w label r' w'. st_process st env r ctx w = (Some (Routed label r'), w') \<longrightarrow>
        dag_consumers d i (Some label) \<noteq> [])"

definition node_ok :: "dag \<Rightarrow> nat \<Rightarrow> ('s, 'k) compiled_node \<Rightarrow> bool" where
  "node_ok d i n \<longleftrightarrow>
     (case n of CSink _ \<Rightarrow> True | CStage st \<Rightarrow> stage_contract st \<and> routes_consumed d i st)"

definition pipeline_ok :: "('s, 'k) pipeline \<Rightarrow> bool" where
  "pipeline_ok pl \<longleftrightarrow>
     dag_ordered (pl_dag pl) \<and> length (pl_nodes pl) = length (dag_nodes (pl_dag pl))
   \<and> (\<forall>i < length (pl_nodes pl). node_ok (pl_dag pl) i (pl_nodes pl ! i))"

lemma dag_consumers_targets:
  "i < length (dag_edges d) \<Longrightarrow> set (dag_consumers d i label) \<subseteq> set (targets (dag_edges d) i)"
  by (auto simp: dag_consumers_def targets_def)

section \<open>The fuel is enough\<close>

lemma settle_output_targets:
  assumes "settle_output env d m key i st at span ended out s = (h, s')" "i < length (dag_edges d)"
  shows "set (ho_targets h) \<subseteq> set (targets (dag_edges d) i)"
  using assms(1) subsetD [OF dag_consumers_targets [OF assms(2)]]
  by (auto simp: settle_output_def Let_def handover_none_def
      split: stage_output.splits state_policy.splits if_splits)

lemma visit_node_targets:
  assumes "visit_node env pl m key i r parent s = Finished (span, h, s')"
    and "i < length (dag_edges (pl_dag pl))"
  shows "set (ho_targets h) \<subseteq> set (targets (dag_edges (pl_dag pl)) i)"
  using assms(1)
  by (auto simp: visit_node_def Let_def handover_none_def
      dest!: subsetD [OF settle_output_targets [OF _ assms(2)]] split: prod.splits compiled_node.splits option.splits sum.splits)

lemma visit_node_fuel: "visit_node env pl m key i r parent s \<noteq> NoFuel"
  by (auto simp: visit_node_def Let_def
      split: prod.splits compiled_node.splits option.splits sum.splits)

lemma walk_fuel:
  "dag_ordered (pl_dag pl) \<Longrightarrow> index < length (dag_nodes (pl_dag pl)) \<Longrightarrow>
     length (dag_nodes (pl_dag pl)) - index \<le> n \<Longrightarrow> run_node n env pl m key index r parent s \<noteq> NoFuel"
  "dag_ordered (pl_dag pl) \<Longrightarrow>
     \<forall>t \<in> set ts. t < length (dag_nodes (pl_dag pl)) \<and> length (dag_nodes (pl_dag pl)) - t \<le> n \<Longrightarrow>
     fan_out n env pl m key ts r parent s \<noteq> NoFuel"
  "dag_ordered (pl_dag pl) \<Longrightarrow>
     \<forall>t \<in> set ts. t < length (dag_nodes (pl_dag pl)) \<and> length (dag_nodes (pl_dag pl)) - t \<le> n \<Longrightarrow>
     fan_all n env pl m key ts rs parent s \<noteq> NoFuel"
proof (induction n env pl m key index r parent s and n env pl m key ts r parent s
    and n env pl m key ts rs parent s rule: run_node_fan_out_fan_all.induct)
  case (2 n env pl m key index r parent s)
  show ?case
  proof (cases "visit_node env pl m key index r parent s")
    case (Finished x)
    obtain span h s' where x: "x = (span, h, s')" by (cases x)
    have "index < length (dag_edges (pl_dag pl))" using 2(3) dag_orderedD(1) [OF 2(2)] by simp
    from visit_node_targets [OF Finished [unfolded x] this]
    have later: "index < t \<and> t < length (dag_nodes (pl_dag pl))" if "t \<in> set (ho_targets h)" for t
      using dag_orderedD(2) [OF 2(2,3)] that by blast
    have "\<forall>t \<in> set (ho_targets h). t < length (dag_nodes (pl_dag pl)) \<and>
        length (dag_nodes (pl_dag pl)) - t \<le> n"
    proof
      fix t assume "t \<in> set (ho_targets h)"
      from later [OF this] 2(4) show "t < length (dag_nodes (pl_dag pl)) \<and>
          length (dag_nodes (pl_dag pl)) - t \<le> n" by arith
    qed
    from 2(1) [OF Finished [unfolded x] refl refl 2(2) this] Finished x show ?thesis by simp
  qed (use visit_node_fuel [of env pl m key index r parent s] in auto)
qed (auto split: run.splits)

section \<open>What a walk adds\<close>

text \<open>How often a counter was counted for a node, and how often in all.\<close>

definition hits :: "counter_metric \<Rightarrow> string \<Rightarrow> measures \<Rightarrow> nat" where
  "hits c node ms =
     length (filter (\<lambda>x. case x of Count c' l n \<Rightarrow> c' = c \<and> lb_stage l = Some node | _ \<Rightarrow> False) ms)"

definition count_calls :: "counter_metric \<Rightarrow> measures \<Rightarrow> nat" where
  "count_calls c ms = length (filter (\<lambda>x. case x of Count c' l n \<Rightarrow> c' = c | _ \<Rightarrow> False) ms)"

lemma hits_simps [simp]:
  "hits c node [] = 0"
  "hits c node (Count c' l n # ms) = (if c' = c \<and> lb_stage l = Some node then 1 else 0) + hits c node ms"
  "hits c node (Observe h l v # ms) = hits c node ms"
  "hits c node (ms @ ns) = hits c node ms + hits c node ns"
  by (simp_all add: hits_def)

lemma count_calls_simps [simp]:
  "count_calls c [] = 0"
  "count_calls c (Count c' l n # ms) = (if c' = c then 1 else 0) + count_calls c ms"
  "count_calls c (Observe h l v # ms) = count_calls c ms"
  "count_calls c (ms @ ns) = count_calls c ms + count_calls c ns"
  by (simp_all add: count_calls_def)

lemma stage_owned_hits:
  "list_all stage_owned ms \<Longrightarrow> c \<in> engine_owned \<Longrightarrow> hits c node ms = 0 \<and> count_calls c ms = 0"
proof (induction ms)
  case (Cons x ms)
  then show ?case by (cases x) auto
qed simp

text \<open>The records in at a node that are not yet passed on, dropped or errored.\<close>

definition pending :: "measures \<Rightarrow> string \<Rightarrow> int" where
  "pending ms node =
     int (hits RecordsIn node ms) - int (hits RecordsOut node ms) - int (hits RecordsDropped node ms)
       - int (hits RecordsErrored node ms)"

lemma pending_simps [simp]:
  "pending [] node = 0"
  "pending (ms @ ns) node = pending ms node + pending ns node"
  "pending (Observe h l v # ms) node = pending ms node"
  "pending (Count c l n # ms) node =
     (if lb_stage l = Some node
      then (if c = RecordsIn then 1 else if c \<in> engine_owned then -1 else 0) else 0) + pending ms node"
  by (auto simp: pending_def engine_owned_def)

lemma stage_owned_pending: "list_all stage_owned ms \<Longrightarrow> pending ms node = 0"
  using stage_owned_hits [of ms] by (simp add: pending_def engine_owned_def)

text \<open>An event of a failed node, and the failure it stands for.\<close>

definition failure_event :: "meta \<Rightarrow> event \<Rightarrow> bool" where
  "failure_event m e \<longleftrightarrow>
     ev_kind e = EvStageError \<and> ev_record e = Some (record_id m) \<and> ev_tenant e = tenant m
   \<and> ev_delivery e = delivery_count m \<and> ev_failure e \<noteq> None"

definition failure_of :: "event \<Rightarrow> failure" where
  "failure_of e =
     \<lparr>fl_node = ev_node e, fl_record = ev_record e, fl_kind = the (ev_failure e),
      fl_error = ev_message e\<rparr>"

definition first_failure :: "failure option \<Rightarrow> event list \<Rightarrow> failure option" where
  "first_failure f evs =
     (case f of Some f \<Rightarrow> Some f | None \<Rightarrow> (case evs of [] \<Rightarrow> None | e # _ \<Rightarrow> Some (failure_of e)))"

lemma first_failure_append [simp]:
  "first_failure (first_failure f es) fs = first_failure f (es @ fs)"
  by (cases es) (auto simp: first_failure_def split: option.splits)

lemma first_failure_Nil [simp]: "first_failure f [] = f"
  by (simp add: first_failure_def split: option.splits)

text \<open>Between two states of a walk: what was added, its events with as many counted errors, the first
  failure kept, and the records left pending at each node (\<open>d\<close>).\<close>

definition grown ::
  "meta \<Rightarrow> (string \<Rightarrow> int) \<Rightarrow> ('s, 'k) walking \<Rightarrow> ('s, 'k) walking \<Rightarrow> bool" where
  "grown m d s s' \<longleftrightarrow>
     (\<exists>ms evs.
        w_measures (snd s') = w_measures (snd s) @ ms \<and> w_events (snd s') = w_events (snd s) @ evs
      \<and> w_traces (snd s') = w_traces (snd s)
      \<and> list_all (failure_event m) evs \<and> count_calls RecordsErrored ms = length evs
      \<and> wk_failure (fst s') = first_failure (wk_failure (fst s)) evs
      \<and> pending ms = d)"

definition none_pending :: "string \<Rightarrow> int" where "none_pending = (\<lambda>_. 0)"
definition pending_at :: "string \<Rightarrow> string \<Rightarrow> int" where "pending_at n = (\<lambda>x. if x = n then 1 else 0)"

lemma grownI:
  assumes "w_measures (snd s') = w_measures (snd s) @ ms" "w_events (snd s') = w_events (snd s) @ evs"
    and "w_traces (snd s') = w_traces (snd s)" "list_all (failure_event m) evs"
    and "count_calls RecordsErrored ms = length evs"
    and "wk_failure (fst s') = first_failure (wk_failure (fst s)) evs" "pending ms = d"
  shows "grown m d s s'"
  using assms unfolding grown_def by blast

lemma pending_Nil: "pending [] = none_pending"
  by (simp add: fun_eq_iff none_pending_def)

lemma grown_refl [simp]: "grown m none_pending s s"
  by (rule grownI [where ms = "[]" and evs = "[]"]) (simp_all add: pending_Nil)

lemma grown_trans: "grown m d s t \<Longrightarrow> grown m e t u \<Longrightarrow> grown m (\<lambda>n. d n + e n) s u"
  unfolding grown_def
  by (elim exE, rename_tac ms ns es fs, rule_tac x = "ms @ ns" in exI, rule_tac x = "es @ fs" in exI)
    (auto simp: fun_eq_iff)

lemma grown_then: "grown m none_pending s t \<Longrightarrow> grown m d t u \<Longrightarrow> grown m d s u"
  using grown_trans [of m none_pending s t d u] by (simp add: none_pending_def)

lemma grown_same:
  "w_measures (snd s') = w_measures (snd s) \<Longrightarrow> w_events (snd s') = w_events (snd s) \<Longrightarrow>
   w_traces (snd s') = w_traces (snd s) \<Longrightarrow> wk_failure (fst s') = wk_failure (fst s) \<Longrightarrow>
   grown m none_pending s s'"
  by (rule grownI [where ms = "[]" and evs = "[]"]) (simp_all add: pending_Nil)

lemma grown_measured:
  "count_calls RecordsErrored ms = 0 \<Longrightarrow> grown m (pending ms) s (measured ms s)"
  by (rule grownI [where ms = ms and evs = "[]"])
    (simp_all add: measured_def measure_def split: prod.splits)

lemma grown_close: "grown m none_pending s (close_span span ended result s)"
  by (rule grown_same) (simp_all add: close_span_def split: prod.splits)

lemma grown_leave: "grown m none_pending s (leave s)"
  by (rule grown_same) (simp_all add: leave_def split: prod.splits)

lemma grown_fail:
  assumes "lb_stage (at_labels at) = Some n"
  shows "grown m (\<lambda>x. - pending_at n x) s (walk_fail env m key at ended kind error s)"
proof -
  obtain wk w where s: "s = (wk, w)" by (cases s)
  let ?e = "(event_new EvStageError (tenant m) n (delivery_count m))
     \<lparr>ev_record := Some (record_id m), ev_failure := Some kind, ev_message := error,
      ev_trace := (if sg_tracing (en_signals env) then
        Some (case at_span at of None \<Rightarrow> delivery_context key (delivery_count m)
          | Some span \<Rightarrow> buffer_context key (delivery_count m) span) else None)\<rparr>"
  show ?thesis
    by (rule grownI [where ms = "[Count RecordsErrored (at_labels at) 1]" and evs = "[?e]"])
      (auto simp: s walk_fail_def Let_def assms measure_def emit_def errored_def failure_event_def
        event_new_def first_failure_def failure_of_def fun_eq_iff pending_at_def engine_owned_def
        split: option.splits)
qed

lemma pending_methods:
  "lb_stage l = Some n \<Longrightarrow> pending (records_in l) = pending_at n"
  "lb_stage l = Some n \<Longrightarrow> pending (records_out l k) = (\<lambda>x. - pending_at n x)"
  "lb_stage l = Some n \<Longrightarrow> pending (dropped l reason) = (\<lambda>x. - pending_at n x)"
  "pending (stage_duration l t) = none_pending"
  "pending (sink_publish_duration l t) = none_pending"
  "pending (sink_publish_error l) = none_pending"
  "pending (bytes_out l b) = none_pending"
  by (auto simp: records_in_def records_out_def dropped_def stage_duration_def sink_publish_duration_def
      sink_publish_error_def bytes_out_def with_reason_def pending_at_def none_pending_def
      engine_owned_def fun_eq_iff)

lemma count_methods [simp]:
  "count_calls RecordsErrored (records_in l) = 0"
  "count_calls RecordsErrored (records_out l k) = 0"
  "count_calls RecordsErrored (dropped l reason) = 0"
  "count_calls RecordsErrored (stage_duration l t) = 0"
  "count_calls RecordsErrored (sink_publish_duration l t) = 0"
  "count_calls RecordsErrored (sink_publish_error l) = 0"
  "count_calls RecordsErrored (bytes_out l b) = 0"
  by (simp_all add: records_in_def records_out_def dropped_def stage_duration_def
      sink_publish_duration_def sink_publish_error_def bytes_out_def)

text \<open>Every output settles the node's record once.\<close>

lemma grown_out_close:
  assumes "lb_stage l = Some n"
  shows "grown m (\<lambda>x. - pending_at n x) s (close_span span ended result (measured (records_out l k) s))"
    and "grown m (\<lambda>x. - pending_at n x) s (measured (records_out l k) s)"
    and "grown m (\<lambda>x. - pending_at n x) s (close_span span ended result (measured (dropped l reason) s))"
proof -
  have o: "grown m (\<lambda>x. - pending_at n x) s (measured (records_out l k) s)"
    using grown_measured [of "records_out l k" m s] pending_methods(2) [OF assms] by simp
  have d: "grown m (\<lambda>x. - pending_at n x) s (measured (dropped l reason) s)"
    using grown_measured [of "dropped l reason" m s] pending_methods(3) [OF assms] by simp
  show "grown m (\<lambda>x. - pending_at n x) s (measured (records_out l k) s)" by (rule o)
  show "grown m (\<lambda>x. - pending_at n x) s (close_span span ended result (measured (records_out l k) s))"
    using grown_trans [OF o grown_close] by (simp add: none_pending_def)
  show "grown m (\<lambda>x. - pending_at n x) s (close_span span ended result (measured (dropped l reason) s))"
    using grown_trans [OF d grown_close] by (simp add: none_pending_def)
qed

lemma settle_output_grown:
  assumes "settle_output env d m key i st at span ended out s = (h, s')"
    and "lb_stage (at_labels at) = Some n"
    and "\<And>label r. out = Routed label r \<Longrightarrow> dag_consumers d i (Some label) \<noteq> []"
  shows "grown m (\<lambda>x. - pending_at n x) s s'"
proof (cases out)
  case (Routed label r)
  with assms(1) assms(3) [OF Routed] show ?thesis
    by (auto simp: settle_output_def Let_def intro: grown_out_close [OF assms(2)])
next
  case (StoreFailed r e)
  with assms(1) show ?thesis
    by (auto simp: settle_output_def Let_def split: state_policy.splits
        intro: grown_out_close [OF assms(2)] grown_fail [OF assms(2)])
qed (use assms(1) in \<open>auto simp: settle_output_def Let_def
      intro: grown_out_close [OF assms(2)] grown_fail [OF assms(2)]\<close>)

lemma grown_cancel: "grown m (pending_at n) s t \<Longrightarrow> grown m (\<lambda>x. - pending_at n x) t u \<Longrightarrow> grown m none_pending s u"
  using grown_trans [of m "pending_at n" s t "\<lambda>x. - pending_at n x" u] by (simp add: none_pending_def)

lemma grown_after: "grown m d s t \<Longrightarrow> grown m none_pending t u \<Longrightarrow> grown m d s u"
  using grown_trans [of m d s t none_pending u] by (simp add: none_pending_def)

lemma lb_stage_with_engine [simp]: "lb_stage (with_engine e (labels_new t n)) = Some n"
  by (simp add: with_engine_def labels_new_def)

lemma stage_run_grown:
  assumes "stage_contract st" "st_process st env r ctx (port_of w) = (out, p)"
  shows "grown m none_pending (wk, w) (wk, put_port p w)"
proof -
  have "appends_owned (port_of w) p"
    using stage_contract.only_own [OF assms] .
  then obtain ms where "w_measures p = w_measures w @ ms" "list_all stage_owned ms"
    by (auto simp: appends_owned_def port_of_def)
  with stage_owned_hits [of ms RecordsErrored] stage_owned_pending [of ms] show ?thesis
    by (intro grownI [where ms = ms and evs = "[]"])
      (auto simp: put_port_def engine_owned_def none_pending_def fun_eq_iff)
qed

text \<open>A node is entered, and its run ends with nothing pending; a panic leaves the record pending at
  the node the walk is at.\<close>

definition panicked_at :: "meta \<Rightarrow> ('s, 'k) walking \<Rightarrow> ('s, 'k) walking \<Rightarrow> bool" where
  "panicked_at m s s' \<longleftrightarrow>
     (\<exists>at n. wk_at (fst s') = Some at \<and> lb_stage (at_labels at) = Some n \<and> grown m (pending_at n) s s')"

lemma visit_node_grown:
  assumes "pipeline_ok pl" "i < length (pl_nodes pl)"
  shows "visit_node env pl m key i r parent s = Finished (span, h, s') \<Longrightarrow> grown m none_pending s s'"
    and "visit_node env pl m key i r parent s = Panicked (span, h, s') \<Longrightarrow> panicked_at m s s'"
proof -
  obtain wk w where s: "s = (wk, w)" by (cases s)
  let ?n = "node_id (dag_node (pl_dag pl) i)"
  define engine where
    "engine = (case pl_nodes pl ! i of CSink _ \<Rightarrow> None | CStage st \<Rightarrow> st_engine st)"
  define l where "l = with_engine engine (labels_new (tenant m) ?n)"
  obtain started w1 where w1: "read_instant env (measure (records_in l) w) = (started, w1)" by force
  obtain span1 spans where sp: "buffer_open ?n parent started (wk_spans wk) = (span1, spans)" by force
  define at where "at = \<lparr>at_labels = l, at_span = Some span1\<rparr>"
  define wk1 where "wk1 = wk\<lparr>wk_spans := spans, wk_at := Some at\<rparr>"
  have l: "lb_stage l = Some ?n" by (simp add: l_def)
  have at: "lb_stage (at_labels at) = Some ?n" "wk_at wk1 = Some at" by (simp_all add: at_def wk1_def l)
  have entered: "grown m (pending_at ?n) s (wk1, w1)"
    using w1 pending_methods(1) [OF l]
    by (intro grownI [where ms = "records_in l" and evs = "[]"])
      (auto simp: s wk1_def read_instant_def measure_def)
  have clock: "grown m none_pending (v, u) (v, u')" if "read_instant env u = (t, u')" for v t u u'
    using that by (intro grown_same) (auto simp: read_instant_def)
  have plain: "grown m none_pending (v, u) (v, measure ms u)"
    if "pending ms = none_pending" "count_calls RecordsErrored ms = 0" for v u ms
    using grown_measured [OF that(2), of m "(v, u)"] that(1) by (simp add: measured_def)
  note visit = visit_node_def Let_def s w1 [unfolded l_def engine_def] sp prod.case
  have ok: "node_ok (pl_dag pl) i (pl_nodes pl ! i)" using assms by (simp add: pipeline_ok_def)
  show "grown m none_pending s s'" if v: "visit_node env pl m key i r parent s = Finished (span, h, s')"
  proof (cases "pl_nodes pl ! i")
    case (CSink sink)
    obtain written k where k: "sk_write sink m r (w_sinks w1) = (written, k)" by force
    let ?w = "w1\<lparr>w_sinks := k\<rparr>"
    have e: "engine = None" by (simp add: engine_def CSink)
    obtain ended w2 where w2: "read_instant env ?w = (ended, w2)" by force
    from v k w1 w2 sp CSink obtain result where res: "written = Some result" and
      s': "s' = (case result of
          Inr bytes \<Rightarrow> close_span span1 ended SWritten (measured (bytes_out l bytes) (measured (records_out l 1)
            (wk1, measure (sink_publish_duration l (ended - started)) w2)))
        | Inl err \<Rightarrow> walk_fail env m key at ended SinkErrorKind err (measured (sink_publish_error l)
            (wk1, measure (sink_publish_duration l (ended - started)) w2)))"
      by (cases written)
        (auto simp: visit_node_def Let_def s l_def e wk1_def at_def split: sum.splits)
    have "grown m none_pending (wk1, w1) (wk1, ?w)" by (rule grown_same) simp_all
    from grown_then [OF this clock [OF w2]]
    have "grown m none_pending (wk1, w1) (wk1, measure (sink_publish_duration l (ended - started)) w2)"
      by (rule grown_then) (rule plain, simp_all add: pending_methods)
    note entered' = grown_after [OF entered this]
    show ?thesis
    proof (cases result)
      case (Inl err)
      have "grown m none_pending x (measured (sink_publish_error l) x)" for x
        using grown_measured [of "sink_publish_error l" m x] by (simp add: pending_methods)
      from grown_after [OF entered' this] grown_fail [OF at(1)] show ?thesis
        unfolding s' Inl sum.case by (rule grown_cancel)
    next
      case (Inr bytes)
      have b: "grown m none_pending x (measured (bytes_out l bytes) x)" for x
        using grown_measured [of "bytes_out l bytes" m x] by (simp add: pending_methods)
      from grown_cancel [OF entered' grown_out_close(2) [OF l]] b
      have "grown m none_pending s (measured (bytes_out l bytes) (measured (records_out l 1)
            (wk1, measure (sink_publish_duration l (ended - started)) w2)))" by (rule grown_then)
      from grown_then [OF this grown_close] show ?thesis unfolding s' Inr sum.case .
    qed
  next
    case (CStage st)
    have st: "stage_contract st" "routes_consumed (pl_dag pl) i st"
      using ok CStage by (simp_all add: node_ok_def)
    have e: "engine = st_engine st" by (simp add: engine_def CStage)
    obtain out p where p: "st_process st env r (make_context env m ?n st) (port_of w1) = (out, p)" by force
    obtain ended w2 where w2: "read_instant env (put_port p w1) = (ended, w2)" by force
    from v p w1 w2 sp CStage obtain outp where out: "out = Some outp" and
      so: "settle_output env (pl_dag pl) m key i st at span1 ended outp
        (wk1, measure (stage_duration l (ended - started)) w2) = (h, s')"
      by (cases out) (auto simp: visit_node_def Let_def s l_def e wk1_def at_def split: prod.splits)
    from grown_then [OF stage_run_grown [OF st(1) p] clock [OF w2]]
    have "grown m none_pending (wk1, w1) (wk1, measure (stage_duration l (ended - started)) w2)"
      by (rule grown_then) (rule plain, simp_all add: pending_methods)
    note entered' = grown_after [OF entered this]
    have "grown m (\<lambda>x. - pending_at ?n x) (wk1, measure (stage_duration l (ended - started)) w2) s'"
    proof (rule settle_output_grown [OF so at(1)])
      fix label r1 assume "outp = Routed label r1"
      with p out have "st_process st env r (make_context env m ?n st) (port_of w1) = (Some (Routed label r1), p)"
        by simp
      with st(2) show "dag_consumers (pl_dag pl) i (Some label) \<noteq> []"
        unfolding routes_consumed_def by blast
    qed
    with entered' show ?thesis by (rule grown_cancel)
  qed
  show "panicked_at m s s'" if v: "visit_node env pl m key i r parent s = Panicked (span, h, s')"
  proof (cases "pl_nodes pl ! i")
    case (CSink sink)
    obtain written k where k: "sk_write sink m r (w_sinks w1) = (written, k)" by force
    have e: "engine = None" by (simp add: engine_def CSink)
    from v k w1 sp CSink have "s' = (wk1, w1\<lparr>w_sinks := k\<rparr>)"
      by (auto simp: visit_node_def Let_def s l_def e wk1_def at_def split: option.splits sum.splits prod.splits)
    moreover have "grown m none_pending (wk1, w1) (wk1, w1\<lparr>w_sinks := k\<rparr>)" by (rule grown_same) simp_all
    ultimately show ?thesis using grown_after [OF entered] at by (auto simp: panicked_at_def)
  next
    case (CStage st)
    have st: "stage_contract st" using ok CStage by (simp add: node_ok_def)
    have e: "engine = st_engine st" by (simp add: engine_def CStage)
    obtain out p where p: "st_process st env r (make_context env m ?n st) (port_of w1) = (out, p)" by force
    from v p w1 sp CStage have "s' = (wk1, put_port p w1)"
      by (cases out) (auto simp: visit_node_def Let_def s l_def e wk1_def at_def split: prod.splits)
    with grown_after [OF entered stage_run_grown [OF st p]] at show ?thesis by (auto simp: panicked_at_def)
  qed
qed


lemma grown_panicked: "grown m none_pending s t \<Longrightarrow> panicked_at m t u \<Longrightarrow> panicked_at m s u"
  unfolding panicked_at_def by (blast intro: grown_then)

definition indices :: "('s, 'k) pipeline \<Rightarrow> nat set" where
  "indices pl = {..<length (pl_nodes pl)}"

lemma visit_node_indices:
  assumes "pipeline_ok pl" "i \<in> indices pl" "visit_node env pl m key i r parent s = Finished (span, h, s')"
  shows "set (ho_targets h) \<subseteq> indices pl"
proof -
  have d: "dag_ordered (pl_dag pl)" "length (pl_nodes pl) = length (dag_nodes (pl_dag pl))"
    using assms(1) by (simp_all add: pipeline_ok_def)
  have i: "i < length (dag_nodes (pl_dag pl))" using assms(2) d by (simp add: indices_def)
  with dag_orderedD(1) [OF d(1)] have "i < length (dag_edges (pl_dag pl))" by simp
  from visit_node_targets [OF assms(3) this] dag_orderedD(2) [OF d(1) i] d(2) show ?thesis
    by (auto simp: indices_def)
qed

text \<open>The walk of a record, to its end or to the panic that ends it.\<close>

lemma walk_grown:
  "pipeline_ok pl \<Longrightarrow> index \<in> indices pl \<Longrightarrow>
     (\<forall>s'. run_node n env pl m key index r parent s = Finished s' \<longrightarrow> grown m none_pending s s')
   \<and> (\<forall>s'. run_node n env pl m key index r parent s = Panicked s' \<longrightarrow> panicked_at m s s')"
  "pipeline_ok pl \<Longrightarrow> set ts \<subseteq> indices pl \<Longrightarrow>
     (\<forall>s'. fan_out n env pl m key ts r parent s = Finished s' \<longrightarrow> grown m none_pending s s')
   \<and> (\<forall>s'. fan_out n env pl m key ts r parent s = Panicked s' \<longrightarrow> panicked_at m s s')"
  "pipeline_ok pl \<Longrightarrow> set ts \<subseteq> indices pl \<Longrightarrow>
     (\<forall>s'. fan_all n env pl m key ts rs parent s = Finished s' \<longrightarrow> grown m none_pending s s')
   \<and> (\<forall>s'. fan_all n env pl m key ts rs parent s = Panicked s' \<longrightarrow> panicked_at m s s')"
proof (induction n env pl m key index r parent s and n env pl m key ts r parent s
    and n env pl m key ts rs parent s rule: run_node_fan_out_fan_all.induct)
  case (2 n env pl m key index r parent s)
  have i: "index < length (pl_nodes pl)" using 2(3) by (simp add: indices_def)
  show ?case
  proof (cases "visit_node env pl m key index r parent s")
    case (Finished x)
    obtain span h t where x: "x = (span, h, t)" by (cases x)
    note v = Finished [unfolded x]
    have g: "grown m none_pending s t" by (rule visit_node_grown(1) [OF 2(2) i v])
    have ih: "(\<forall>s'. fan_all n env pl m key (ho_targets h) (ho_records h) (Some span) t = Finished s' \<longrightarrow>
          grown m none_pending t s') \<and>
        (\<forall>s'. fan_all n env pl m key (ho_targets h) (ho_records h) (Some span) t = Panicked s' \<longrightarrow>
          panicked_at m t s')"
      by (rule 2(1) [OF v refl refl 2(2) visit_node_indices [OF 2(2,3) v]])
    have step: "run_node (Suc n) env pl m key index r parent s =
        fan_all n env pl m key (ho_targets h) (ho_records h) (Some span) t" by (simp add: v)
    show ?thesis unfolding step using ih grown_then [OF g] grown_panicked [OF g] by blast
  next
    case (Panicked x)
    obtain span h t where x: "x = (span, h, t)" by (cases x)
    show ?thesis using visit_node_grown(2) [OF 2(2) i Panicked [unfolded x]] Panicked x by simp
  qed simp
next
  case (4 n env pl m key t ts r parent s)
  have in_pl: "t \<in> indices pl" "set ts \<subseteq> indices pl" using 4(4) by simp_all
  show ?case
  proof (cases "run_node n env pl m key t r parent s")
    case (Finished u)
    have "grown m none_pending s u" using 4(1) [OF 4(3) in_pl(1)] Finished by blast
    from grown_then [OF this grown_leave] have g: "grown m none_pending s (leave u)" .
    have step: "fan_out n env pl m key (t # ts) r parent s = fan_out n env pl m key ts r parent (leave u)"
      by (simp add: Finished)
    show ?thesis unfolding step
      using 4(2) [OF Finished 4(3) in_pl(2)] grown_then [OF g] grown_panicked [OF g] by blast
  next
    case (Panicked u)
    then show ?thesis using 4(1) [OF 4(3) in_pl(1)] by simp
  qed simp
next
  case (6 n env pl m key ts r rs parent s)
  show ?case
  proof (cases "fan_out n env pl m key ts r parent s")
    case (Finished u)
    have g: "grown m none_pending s u" using 6(1) [OF 6(3,4)] Finished by blast
    have step: "fan_all n env pl m key ts (r # rs) parent s = fan_all n env pl m key ts rs parent u"
      by (simp add: Finished)
    show ?thesis unfolding step
      using 6(2) [OF Finished 6(3,4)] grown_then [OF g] grown_panicked [OF g] by blast
  next
    case (Panicked u)
    then show ?thesis using 6(1) [OF 6(3,4)] by simp
  qed simp
qed simp_all

section \<open>A record through the engine\<close>

lemma sources_indices: "pipeline_ok pl \<Longrightarrow> set (dag_sources (pl_dag pl)) \<subseteq> indices pl"
  by (auto simp: pipeline_ok_def indices_def dag_ordered_def)

lemma walk_record_total:
  assumes "pipeline_ok pl" "length (pl_nodes pl) \<le> fuel"
  shows "walk_record fuel env pl m r spans w \<noteq> None"
proof -
  have d: "dag_ordered (pl_dag pl)" "length (pl_nodes pl) = length (dag_nodes (pl_dag pl))"
    using assms(1) by (simp_all add: pipeline_ok_def)
  have "\<forall>t \<in> set (dag_sources (pl_dag pl)). t < length (dag_nodes (pl_dag pl)) \<and>
      length (dag_nodes (pl_dag pl)) - t \<le> fuel"
    using dag_orderedD(3) [OF d(1)] assms(2) d(2) by auto
  from walk_fuel(2) [OF d(1) this] show ?thesis
    by (simp add: walk_record_def Let_def split: run.split prod.split)
qed

text \<open>A contained panic settles the record that was pending.\<close>

lemma walk_record_grown:
  assumes "pipeline_ok pl" "walk_record fuel env pl m r spans w = Some s'"
  shows "grown m none_pending (\<lparr>wk_at = None, wk_failure = None, wk_spans = spans\<rparr>, w) s'"
proof -
  let ?s = "(\<lparr>wk_at = None, wk_failure = None, wk_spans = spans\<rparr>, w)"
  let ?run = "fan_out fuel env pl m (trace_key_of m) (dag_sources (pl_dag pl)) r None ?s"
  note walk = walk_grown(2) [OF assms(1) sources_indices [OF assms(1)],
      of fuel env m "trace_key_of m" r None ?s]
  show ?thesis
  proof (cases ?run)
    case (Finished t)
    with assms(2) walk show ?thesis by (simp add: walk_record_def)
  next
    case (Panicked t)
    obtain wk w1 where t: "t = (wk, w1)" by (cases t)
    have "panicked_at m ?s t" using walk Panicked by blast
    then obtain at n where at: "wk_at wk = Some at" "lb_stage (at_labels at) = Some n"
      and g: "grown m (pending_at n) ?s (wk, w1)" by (auto simp: panicked_at_def t)
    obtain now w2 where now: "read_instant env w1 = (now, w2)" by force
    let ?p = "''stage or sink panicked''"
    obtain wk3 w3 where f: "walk_fail env m (trace_key_of m) at now PanicKind ?p (wk, w2) = (wk3, w3)" by force
    have s': "s' = (wk3\<lparr>wk_spans := buffer_fail_open now PanicKind ?p (wk_spans wk3)\<rparr>, w3)"
      using assms(2) by (simp add: walk_record_def Let_def Panicked t at(1) now f)
    have "grown m none_pending (wk, w1) (wk, w2)"
      using now by (intro grown_same) (auto simp: read_instant_def)
    from grown_cancel [OF grown_after [OF g this] grown_fail [OF at(2)]] f
    have "grown m none_pending ?s (wk3, w3)" by (metis (no_types))
    moreover have "grown m none_pending (wk3, w3) s'" unfolding s' by (rule grown_same) simp_all
    ultimately show ?thesis by (rule grown_then)
  qed (use assms(2) in \<open>simp add: walk_record_def\<close>)
qed

end
