(* ===== verification/Engine_Theorems.thy ===== *)
theory Engine_Theorems
  imports Engine_Laws
begin

text \<open>
  The engine's promises on one message and on a worker's run, over \<open>handle\<close> and \<open>run_worker\<close>: every
  message is settled, acknowledged exactly when no branch failed, every record is accounted for at
  every node, and the trace of every failed or redelivered walk is kept.
\<close>

section \<open>The phases of handling\<close>

definition stage_errors :: "event list \<Rightarrow> event list" where
  "stage_errors = filter (\<lambda>e. ev_kind e = EvStageError)"

definition balanced :: "measures \<Rightarrow> bool" where
  "balanced ms \<longleftrightarrow>
     (\<forall>node. hits RecordsIn node ms =
        hits RecordsOut node ms + hits RecordsDropped node ms + hits RecordsErrored node ms)"

lemma balanced_pending: "balanced ms \<longleftrightarrow> pending ms = none_pending"
proof -
  have "hits RecordsIn n ms = hits RecordsOut n ms + hits RecordsDropped n ms + hits RecordsErrored n ms
      \<longleftrightarrow> pending ms n = 0" for n
    unfolding pending_def by arith
  then show ?thesis by (simp add: balanced_def none_pending_def fun_eq_iff)
qed

text \<open>What a step adds to the world: measurements, events and traces.\<close>

definition adds :: "measures \<Rightarrow> event list \<Rightarrow> record_trace list \<Rightarrow> ('s, 'k) world \<Rightarrow> ('s, 'k) world \<Rightarrow> bool" where
  "adds ms evs ts w w' \<longleftrightarrow>
     w_measures w' = w_measures w @ ms \<and> w_events w' = w_events w @ evs \<and> w_traces w' = w_traces w @ ts"

lemma adds_trans: "adds ms es ts u v \<Longrightarrow> adds ms' es' ts' v w \<Longrightarrow> adds (ms @ ms') (es @ es') (ts @ ts') u w"
  by (simp add: adds_def)

lemma adds_unique: "adds ms es ts u v \<Longrightarrow> adds ms' es' ts' u v \<Longrightarrow> ms = ms' \<and> es = es' \<and> ts = ts'"
  by (simp add: adds_def)

lemma walk_begin_adds: "walk_begin env spans w = (spans', w') \<Longrightarrow> adds [] [] [] w w' \<and> w_store w' = w_store w \<and> w_sinks w' = w_sinks w"
  by (auto simp: walk_begin_def world_defs adds_def split: if_splits)

lemma resolve_now_adds: "resolve_now env a w = (x, w') \<Longrightarrow> adds [] [] [] w w' \<and> w_store w' = w_store w \<and> w_sinks w' = w_sinks w"
  by (auto simp: resolve_now_def world_defs adds_def split: if_splits)

lemma resolve_now_resolves:
  assumes "resolve_now env a w = (x, w')"
  shows "\<exists>now. x = resolve now a"
  using assms by (auto simp: resolve_now_def Let_def split: if_splits prod.splits)

text \<open>The clock does not decide whether an arrival is accepted.\<close>

definition accepted :: "arrival \<Rightarrow> bool" where
  "accepted a \<longleftrightarrow> is_log a \<and> arr_record_id a \<noteq> None"

lemma resolve_accepted: "(\<exists>m. resolve now a = Inr m) \<longleftrightarrow> accepted a"
  by (auto simp: resolve_Inr_iff accepted_def)

lemma resolve_rejected:
  assumes "\<not> accepted a"
  shows "\<exists>rj. resolve now a = Inl rj \<and> rej_reason rj = (if is_log a then MissingId else NotLog)
    \<and> rej_tenant rj = tenant_of a"
  using assms by (cases "is_log a") (simp_all add: resolve_def Let_def accepted_def)

definition intake_measures :: "arrival \<Rightarrow> measures" where
  "intake_measures a =
     records_in (labels_new (tenant_of a) SOURCE_ID)
   @ (case arr_bytes a of Some bytes \<Rightarrow> bytes_in (tenant_of a) bytes | None \<Rightarrow> [])
   @ (if 1 < arr_delivery a then source_redelivery (tenant_of a) else [])"

lemma intake_adds:
  assumes "x = resolve now a"
  shows "\<exists>evs. adds (intake_measures a) evs [] w (intake env a x w) \<and> stage_errors evs = []
    \<and> length evs = (if 1 < arr_delivery a then 1 else 0)
    \<and> w_store (intake env a x w) = w_store w \<and> w_sinks (intake env a x w) = w_sinks w"
  unfolding assms
  by (rule exI [where x = "if 1 < arr_delivery a then
        [redelivery_event env (tenant_of a) (arr_delivery a)
           (case resolve now a of Inr m \<Rightarrow> Some m | Inl _ \<Rightarrow> None)] else []"])
    (auto simp: intake_def resolve_tenant adds_def world_defs intake_measures_def stage_errors_def
      redelivery_event_def event_new_def Let_def split: option.splits)

lemma source_pending:
  "pending (intake_measures a) = pending_at SOURCE_ID"
  "pending (records_out (labels_new t SOURCE_ID) k) = (\<lambda>x. - pending_at SOURCE_ID x)"
  by (auto simp: fun_eq_iff intake_measures_def records_in_def bytes_in_def source_redelivery_def
      records_out_def labels_new_def labels_for_tenant_def pending_at_def engine_owned_def split: option.splits)

lemma intake_calls: "count_calls SourceNaks (intake_measures a) = 0"
  by (simp add: intake_measures_def records_in_def bytes_in_def source_redelivery_def split: option.splits)

lemma grown_adds:
  assumes "grown m none_pending (wk, w) (wk', w')"
  shows "\<exists>ms evs. adds ms evs [] w w' \<and> pending ms = none_pending \<and> list_all (failure_event m) evs
    \<and> stage_errors evs = evs \<and> wk_failure wk' = first_failure (wk_failure wk) evs"
proof -
  obtain ms evs where g: "w_measures w' = w_measures w @ ms" "w_events w' = w_events w @ evs"
    "w_traces w' = w_traces w" "list_all (failure_event m) evs" "pending ms = none_pending"
    "wk_failure wk' = first_failure (wk_failure wk) evs"
    using assms unfolding grown_def by auto
  from g(4) have "stage_errors evs = evs"
    unfolding stage_errors_def by (intro filter_True) (auto simp: list_all_iff failure_event_def)
  with g show ?thesis unfolding adds_def by auto
qed

definition outcome_of :: "failure option \<Rightarrow> ack_outcome" where
  "outcome_of f = (case f of None \<Rightarrow> Acked | Some f \<Rightarrow> Nakked None f)"

definition settlement_of :: "failure option \<Rightarrow> settlement" where
  "settlement_of f = (case f of None \<Rightarrow> SettleAck | Some _ \<Rightarrow> SettleNak)"

definition describes :: "meta \<Rightarrow> failure option \<Rightarrow> record_trace \<Rightarrow> bool" where
  "describes m f t \<longleftrightarrow>
     rt_trace_id t = key_trace_id (trace_key_of m) \<and> rt_record_id t = record_id m
   \<and> rt_tenant t = tenant m \<and> rt_delivery t = delivery_count m \<and> rt_settlement t = settlement_of f"

lemma settle_walk_adds:
  assumes "settle_walk env m (wk, w) = (outcome, spans, w')"
  shows "outcome = outcome_of (wk_failure wk)
   \<and> (\<exists>ms evs ts. adds ms evs ts w w' \<and> pending ms = none_pending \<and> stage_errors evs = []
      \<and> length ts = (if signals_keeps (en_signals env) (trace_key_of m) (wk_failure wk \<noteq> None)
            (delivery_count m) then 1 else 0)
      \<and> list_all (describes m (wk_failure wk)) ts)"
proof -
  let ?key = "trace_key_of m" and ?f = "wk_failure wk"
  let ?keep = "signals_keeps (en_signals env) ?key (?f \<noteq> None) (delivery_count m)"
  obtain spans1 w1 where k: "keep_trace env m (wk, w) = (spans1, w1)" by force
  have trace: "\<exists>ts. adds [] [] ts w w1 \<and> length ts = (if ?keep then 1 else 0) \<and> list_all (describes m ?f) ts"
  proof (cases ?keep)
    case True
    then have tr: "sg_tracing (en_signals env)" by (simp add: signals_keeps_def)
    let ?t = "fst (buffer_finish ?key m (if ?f \<noteq> None then SettleNak else SettleAck)
        (en_instant env (w_ticks w)) (wk_spans wk))"
    have "adds [] [] [?t] w w1"
      using k True tr
      by (auto simp: keep_trace_def read_instant_def export_trace_def adds_def buffer_finish_def Let_def)
    moreover have "describes m ?f ?t"
      by (auto simp: describes_def buffer_finish_def Let_def settlement_of_def split: option.splits)
    ultimately show ?thesis using True by (intro exI [where x = "[?t]"]) simp
  next
    case False
    then show ?thesis using k by (intro exI [where x = "[]"]) (simp add: keep_trace_def adds_def)
  qed
  have rest: "(outcome, spans, w') =
     (case ?f of
        Some f \<Rightarrow>
          (Nakked None f, spans1, log_nak (tenant m) (delivery_count m) f
             (if sg_tracing (en_signals env) then Some (delivery_context ?key (delivery_count m)) else None)
             (measure (source_nak (tenant m)) w1))
      | None \<Rightarrow> (Acked, spans1,
          (case ingestion_time m of
             Reported nanos \<Rightarrow> (let (now, w) = unix_nanos_now env w1 in
               if nanos \<le> now then measure (end_to_end (tenant m) (unat (now - nanos))) w else w)
           | Clock _ \<Rightarrow> w1)))"
    using assms k by (auto simp: settle_walk_def Let_def split: option.splits)
  have tail: "\<exists>ms evs. adds ms evs [] w1 w' \<and> pending ms = none_pending \<and> stage_errors evs = []"
  proof (cases ?f)
    case None
    then have "w' = (case ingestion_time m of
             Reported nanos \<Rightarrow> (let (now, w) = unix_nanos_now env w1 in
               if nanos \<le> now then measure (end_to_end (tenant m) (unat (now - nanos))) w else w)
           | Clock _ \<Rightarrow> w1)" using rest by simp
    then have "\<exists>ms. adds ms [] [] w1 w' \<and> (ms = [] \<or> (\<exists>t. ms = end_to_end (tenant m) t))"
      by (auto simp: adds_def world_defs split: ingestion_time.splits if_splits)
    then obtain ms where ms: "adds ms [] [] w1 w'" "ms = [] \<or> (\<exists>t. ms = end_to_end (tenant m) t)" by blast
    from ms(2) have "pending ms = none_pending" by (auto simp: end_to_end_def none_pending_def fun_eq_iff)
    with ms(1) show ?thesis unfolding stage_errors_def by (metis filter.simps(1))
  next
    case (Some f)
    then have w': "w' = log_nak (tenant m) (delivery_count m) f
             (if sg_tracing (en_signals env) then Some (delivery_context ?key (delivery_count m)) else None)
             (measure (source_nak (tenant m)) w1)" using rest by simp
    let ?e = "(event_of_failure EvNak (tenant m) f (delivery_count m))\<lparr>ev_trace :=
       (if sg_tracing (en_signals env) then Some (delivery_context ?key (delivery_count m)) else None)\<rparr>"
    have "adds (source_nak (tenant m)) [?e] [] w1 w'"
      by (simp add: w' adds_def log_nak_def emit_def measure_def)
    moreover have "pending (source_nak (tenant m)) = none_pending"
      by (simp add: source_nak_def none_pending_def fun_eq_iff labels_for_tenant_def)
    moreover have "stage_errors [?e] = []"
      by (simp add: stage_errors_def event_of_failure_def event_new_def)
    ultimately show ?thesis by blast
  qed
  have "outcome = outcome_of ?f" using rest by (auto simp: outcome_of_def split: option.splits)
  moreover obtain ts where t: "adds [] [] ts w w1" "length ts = (if ?keep then 1 else 0)"
    "list_all (describes m ?f) ts" using trace by blast
  moreover obtain ms evs where e: "adds ms evs [] w1 w'" "pending ms = none_pending" "stage_errors evs = []"
    using tail by blast
  have "adds ms evs ts w w'" using adds_trans [OF t(1) e(1)] by simp
  ultimately show ?thesis using e by blast
qed

section \<open>One message\<close>

definition hd_opt :: "'a list \<Rightarrow> 'a option" where
  "hd_opt xs = (case xs of [] \<Rightarrow> None | x # _ \<Rightarrow> Some x)"

lemma walk_record_first:
  assumes "pipeline_ok pl" "walk_record fuel env pl m r spans w = Some (wk, w')"
  shows "\<exists>ms evs. adds ms evs [] w w' \<and> pending ms = none_pending \<and> stage_errors evs = evs
    \<and> list_all (failure_event m) evs \<and> wk_failure wk = map_option failure_of (hd_opt evs)"
proof -
  have f: "first_failure None evs = map_option failure_of (hd_opt evs)" for evs
    by (cases evs) (simp_all add: first_failure_def hd_opt_def)
  from grown_adds [OF walk_record_grown [OF assms]] f show ?thesis by auto
qed

lemma handle_accepted:
  assumes "pipeline_ok pl" "handle fuel env pl e spans w = Some (outcome, spans', w')"
    and "accepted (en_arrival e)"
  shows "\<exists>m now ms evs ts. resolve now (en_arrival e) = Inr m \<and> adds ms evs ts w w'
    \<and> pending ms = none_pending
    \<and> list_all (failure_event m) (stage_errors evs)
    \<and> outcome = outcome_of (map_option failure_of (hd_opt (stage_errors evs)))
    \<and> length ts = (if signals_keeps (en_signals env) (trace_key_of m) (stage_errors evs \<noteq> [])
          (delivery_count m) then 1 else 0)
    \<and> list_all (describes m (map_option failure_of (hd_opt (stage_errors evs)))) ts"
proof -
  let ?a = "en_arrival e"
  obtain spans1 w1 where b: "walk_begin env spans w = (spans1, w1)" by force
  obtain x w2 where x: "resolve_now env ?a w1 = (x, w2)" by force
  from resolve_now_resolves [OF x] obtain now where now: "x = resolve now ?a" ..
  with assms(3) resolve_accepted obtain m where m: "x = Inr m" "resolve now ?a = Inr m" by metis
  have t: "tenant m = tenant_of ?a" using resolve_tenant [of now ?a] m(2) by simp
  let ?w3 = "intake env ?a x w2"
  let ?w4 = "measure (records_out (labels_new (tenant m) SOURCE_ID) 1) ?w3"
  obtain wk w5 where wk: "walk_record fuel env pl m (en_record e) spans1 ?w4 = Some (wk, w5)"
    and st: "settle_walk env m (wk, w5) = (outcome, spans', w')"
    using assms(2) by (auto simp: handle_def b x m Let_def)
  obtain i where i: "adds (intake_measures ?a) i [] w2 ?w3" "stage_errors i = []"
    using intake_adds [OF now] by blast
  have out: "adds (records_out (labels_new (tenant m) SOURCE_ID) 1) [] [] ?w3 ?w4"
    by (simp add: adds_def measure_def)
  obtain ms evs where run: "adds ms evs [] ?w4 w5" "pending ms = none_pending" "stage_errors evs = evs"
    "list_all (failure_event m) evs" and fl: "wk_failure wk = map_option failure_of (hd_opt evs)"
    using walk_record_first [OF assms(1) wk] by blast
  obtain ms' evs' ts where fin: "adds ms' evs' ts w5 w'" "pending ms' = none_pending" "stage_errors evs' = []"
    and len: "length ts = (if signals_keeps (en_signals env) (trace_key_of m) (wk_failure wk \<noteq> None)
          (delivery_count m) then 1 else 0)"
    and des: "list_all (describes m (wk_failure wk)) ts" and o: "outcome = outcome_of (wk_failure wk)"
    using settle_walk_adds [OF st] by blast
  let ?ms = "intake_measures ?a @ records_out (labels_new (tenant m) SOURCE_ID) 1 @ ms @ ms'"
  have start: "adds [] [] [] w w2"
    using adds_trans [of "[]" "[]" "[]" w w1 "[]" "[]" "[]" w2] walk_begin_adds [OF b] resolve_now_adds [OF x]
    by simp
  have a: "adds ?ms (i @ evs @ evs') ts w w'"
    using adds_trans [OF start adds_trans [OF i(1) adds_trans [OF out adds_trans [OF run(1) fin(1)]]]] by simp
  have p: "pending ?ms = none_pending"
    using run(2) fin(2) by (simp add: fun_eq_iff source_pending none_pending_def)
  have se: "stage_errors (i @ evs @ evs') = evs"
    using i(2) run(3) fin(3) by (simp add: stage_errors_def)
  have ne: "evs \<noteq> [] \<longleftrightarrow> wk_failure wk \<noteq> None" unfolding fl by (cases evs) (auto simp: hd_opt_def)
  show ?thesis
    apply (rule exI [where x = m], rule exI [where x = now], rule exI [where x = ?ms],
        rule exI [where x = "i @ evs @ evs'"], rule exI [where x = ts])
    unfolding se ne
    using a p m(2) run(4) len des o fl by (intro conjI) simp_all
qed

section \<open>Every message\<close>

text \<open>What a rejected message does to the world: no node runs, no store or sink is reached.\<close>

lemma handle_rejected:
  assumes "handle fuel env pl e spans w = Some (outcome, spans', w')" "\<not> accepted (en_arrival e)"
  shows "outcome =
       (if is_log (en_arrival e)
        then Nakked None (failure_at_source MissingIdKind ''the message has no record id'') else Acked)
   \<and> w_store w' = w_store w \<and> w_sinks w' = w_sinks w
   \<and> (\<exists>ms evs. adds ms evs [] w w' \<and> stage_errors evs = []
        \<and> ms = intake_measures (en_arrival e) @
            dropped (labels_new (tenant_of (en_arrival e)) SOURCE_ID)
              (if is_log (en_arrival e) then DropMissingId else InvalidRecord) @
            (if is_log (en_arrival e) then source_nak (tenant_of (en_arrival e)) else []))"
proof -
  let ?a = "en_arrival e"
  obtain spans1 w1 where b: "walk_begin env spans w = (spans1, w1)" by force
  obtain x w2 where x: "resolve_now env ?a w1 = (x, w2)" by force
  from resolve_now_resolves [OF x] obtain now where now: "x = resolve now ?a" ..
  with assms(2) obtain rj where rj: "x = Inl rj"
    and rej: "rej_reason rj = (if is_log ?a then MissingId else NotLog)" "rej_tenant rj = tenant_of ?a"
    using resolve_rejected now by blast
  let ?w3 = "intake env ?a x w2"
  have h: "reject rj ?a ?w3 = (outcome, w')"
    using assms(1) by (simp add: handle_def b x rj Let_def split: prod.splits)
  obtain i where i: "adds (intake_measures ?a) i [] w2 ?w3" "stage_errors i = []"
      "w_store ?w3 = w_store w2" "w_sinks ?w3 = w_sinks w2"
    using intake_adds [OF now] by blast
  have start: "adds [] [] [] w w2" "w_store w2 = w_store w" "w_sinks w2 = w_sinks w"
    using adds_trans [of "[]" "[]" "[]" w w1 "[]" "[]" "[]" w2] walk_begin_adds [OF b] resolve_now_adds [OF x]
    by simp_all
  let ?drop = "dropped (labels_new (tenant_of ?a) SOURCE_ID)
      (if is_log ?a then DropMissingId else InvalidRecord)"
  let ?nak = "if is_log ?a then source_nak (tenant_of ?a) else []"
  have "\<exists>evs. adds (?drop @ ?nak) evs [] ?w3 w' \<and> stage_errors evs = []"
  proof (cases "is_log ?a")
    case True
    let ?f = "failure_at_source MissingIdKind ''the message has no record id''"
    let ?e = "(event_of_failure EvNak (tenant_of ?a) ?f (arr_delivery ?a))\<lparr>ev_trace := None\<rparr>"
    have "adds (?drop @ ?nak) [?e] [] ?w3 w'" using h True rej
      by (auto simp: reject_def Let_def adds_def log_nak_def emit_def measure_def)
    moreover have "stage_errors [?e] = []"
      by (simp add: stage_errors_def event_of_failure_def event_new_def)
    ultimately show ?thesis by blast
  next
    case False
    then have "adds (?drop @ ?nak) [] [] ?w3 w'" using h rej
      by (auto simp: reject_def Let_def adds_def measure_def)
    then show ?thesis by (metis filter.simps(1) stage_errors_def)
  qed
  then obtain evs where evs: "adds (?drop @ ?nak) evs [] ?w3 w'" "stage_errors evs = []" by blast
  from adds_trans [OF start(1) adds_trans [OF i(1) evs(1)]]
  have "adds (intake_measures ?a @ ?drop @ ?nak) (i @ evs) [] w w'" by simp
  moreover have "stage_errors (i @ evs) = []" using i(2) evs(2) by (simp add: stage_errors_def)
  moreover have "w_store w' = w_store ?w3" "w_sinks w' = w_sinks ?w3"
    using h rej by (auto simp: reject_def Let_def log_nak_def emit_def measure_def split: if_splits)
  moreover have "outcome = (if is_log ?a then Nakked None
      (failure_at_source MissingIdKind ''the message has no record id'') else Acked)"
    using h rej by (auto simp: reject_def Let_def split: if_splits)
  ultimately show ?thesis using i(3,4) start(2,3) by auto
qed

lemma handle_total:
  assumes "pipeline_ok pl" "length (pl_nodes pl) \<le> fuel"
  shows "handle fuel env pl e spans w \<noteq> None"
  using walk_record_total [OF assms]
  by (simp add: handle_def Let_def option.map_disc_iff del: not_None_eq split: prod.split sum.split)

section \<open>Compiling gives a well-formed pipeline\<close>

text \<open>What a registry promises of the stages it builds: they keep the stage contract, and hand out only
  labels that a \<open>route\<close> node of that config declares.\<close>

definition routes_declared :: "(yaml \<Rightarrow> string + route_params) \<Rightarrow> node_config \<Rightarrow> 's stage \<Rightarrow> bool" where
  "routes_declared fv node st \<longleftrightarrow>
     (\<forall>env r ctx w label r' w'. st_process st env r ctx w = (Some (Routed label r'), w') \<longrightarrow>
        node_kind node = ROUTE_KIND \<and>
        (\<exists>spec. route_spec_from_node fv node = Inr spec \<and> label \<in> set (route_labels spec)))"

definition registry_ok :: "(yaml \<Rightarrow> string + route_params) \<Rightarrow> ('s, 'k) registry \<Rightarrow> bool" where
  "registry_ok fv g \<longleftrightarrow>
     (\<forall>node st. build_stage g node = Inr st \<longrightarrow> stage_contract st \<and> routes_declared fv node st)"

lemma build_nodes_Inr:
  "build_nodes g nodes = Inr ns \<Longrightarrow>
     length ns = length nodes \<and> (\<forall>i < length nodes. build_node g (nodes ! i) = Inr (ns ! i))"
proof (induction nodes arbitrary: ns)
  case (Cons node nodes)
  from Cons.prems obtain n rest where n: "build_node g node = Inr n" "build_nodes g nodes = Inr rest"
    "ns = n # rest" by (auto simp: map_sum_Inr_iff split: sum.splits)
  from Cons.IH [OF n(2)] n(1,3) show ?case by (auto simp: less_Suc_eq_0_disj)
qed simp

lemma node_ok_build:
  assumes "registry_ok fv g" "dag_from_config fv cfg = Inr d" "i < length (dag_nodes d)"
    and "build_node g (dag_nodes d ! i) = Inr n"
  shows "node_ok d i n"
proof (cases n)
  case (CStage st)
  with assms(4) have "build_stage g (dag_nodes d ! i) = Inr st"
    by (auto simp: build_node_def map_sum_Inr_iff split: if_splits)
  with assms(1) have st: "stage_contract st" "routes_declared fv (dag_nodes d ! i) st"
    by (auto simp: registry_ok_def)
  have "dag_consumers d i (Some label) \<noteq> []"
    if "node_kind (dag_nodes d ! i) = ROUTE_KIND" "route_spec_from_node fv (dag_nodes d ! i) = Inr spec"
      "label \<in> set (route_labels spec)" for label spec
  proof -
    from dag_route_labels [OF assms(2,3)] that
    have "Some label \<in> set (map edge_label (dag_edges d ! i))" by auto
    then obtain e where "e \<in> set (dag_edges d ! i)" "edge_label e = Some label" by auto
    then show ?thesis by (auto simp: dag_consumers_def filter_empty_conv)
  qed
  with st(2) have "routes_consumed d i st" unfolding routes_declared_def routes_consumed_def by blast
  with st(1) CStage show ?thesis by (simp add: node_ok_def)
qed (simp add: node_ok_def)

lemma pipeline_compile_ok:
  assumes "registry_ok fv g" "pipeline_compile fv cfg g = Inr pl"
  shows "pipeline_ok pl"
proof -
  obtain d ns where d: "dag_from_config fv cfg = Inr d" "build_nodes g (dag_nodes d) = Inr ns"
    and pl: "pl_dag pl = d" "pl_nodes pl = ns"
    using assms(2) by (auto simp: pipeline_compile_def map_sum_Inr_iff split: sum.splits)
  from build_nodes_Inr [OF d(2)] node_ok_build [OF assms(1) d(1)] dag_from_config_ordered [OF d(1)]
  show ?thesis by (simp add: pipeline_ok_def pl)
qed

section \<open>The properties\<close>


text \<open>C2: a message is acknowledged exactly when no branch of its walk failed, and otherwise nakked with
  no delay for the first failure the log has; each failure in the log is of this record and
  delivery. A message without a record id is nakked for the source, and one that is not a log is
  acknowledged.\<close>

theorem engine_acks_iff_no_failure:
  assumes "pipeline_ok pl" "handle fuel env pl e spans w = Some (outcome, spans', w')"
  shows "\<exists>evs. w_events w' = w_events w @ evs \<and>
    outcome =
      (if accepted (en_arrival e) then outcome_of (map_option failure_of (hd_opt (stage_errors evs)))
       else if is_log (en_arrival e)
         then Nakked None (failure_at_source MissingIdKind ''the message has no record id'')
       else Acked) \<and>
    list_all (\<lambda>f. ev_delivery f = arr_delivery (en_arrival e) \<and> ev_record f = arr_record_id (en_arrival e)
       \<and> ev_tenant f = tenant_of (en_arrival e)) (stage_errors evs)"
proof (cases "accepted (en_arrival e)")
  case True
  from handle_accepted [OF assms True] obtain m now ms evs ts where
    m: "resolve now (en_arrival e) = Inr m" and a: "adds ms evs ts w w'"
    and f: "list_all (failure_event m) (stage_errors evs)"
    and o: "outcome = outcome_of (map_option failure_of (hd_opt (stage_errors evs)))" by blast
  have parts: "delivery_count m = arr_delivery (en_arrival e)" "Some (record_id m) = arr_record_id (en_arrival e)"
    "tenant m = tenant_of (en_arrival e)"
    using m by (auto simp: resolve_Inr_iff)
  from f have "list_all (\<lambda>f. ev_delivery f = arr_delivery (en_arrival e) \<and>
      ev_record f = arr_record_id (en_arrival e) \<and> ev_tenant f = tenant_of (en_arrival e)) (stage_errors evs)"
    by (rule list.pred_mono_strong) (simp add: failure_event_def parts)
  with a o True show ?thesis by (auto simp: adds_def)
next
  case False
  from handle_rejected [OF assms(2) False] obtain ms evs where "adds ms evs [] w w'" "stage_errors evs = []"
    "outcome = (if is_log (en_arrival e)
        then Nakked None (failure_at_source MissingIdKind ''the message has no record id'') else Acked)"
    by blast
  with False show ?thesis by (auto simp: adds_def)
qed


text \<open>C4: the trace of an accepted message is exported once exactly when something traces and the walk
  failed, the message was redelivered, or the record is of the sampled share; it carries the
  record, the delivery and the outcome. A rejected message has no trace.\<close>

theorem engine_keeps_traces:
  assumes "pipeline_ok pl" "handle fuel env pl e spans w = Some (outcome, spans', w')"
  shows "\<exists>ts. w_traces w' = w_traces w @ ts \<and>
    (case resolve 0 (en_arrival e) of
       Inl _ \<Rightarrow> ts = []
     | Inr m \<Rightarrow>
         length ts = (if sg_tracing (en_signals env) \<and> (outcome \<noteq> Acked \<or> 1 < arr_delivery (en_arrival e) \<or>
                          sampling_keeps (sg_sampling (en_signals env)) (trace_key_of m))
                      then 1 else 0) \<and>
         list_all (\<lambda>t. rt_record_id t = record_id m \<and> rt_tenant t = tenant m
           \<and> rt_delivery t = arr_delivery (en_arrival e) \<and> rt_trace_id t = key_trace_id (trace_key_of m)
           \<and> rt_settlement t = (if outcome = Acked then SettleAck else SettleNak)) ts)"
proof (cases "accepted (en_arrival e)")
  case True
  from handle_accepted [OF assms True] obtain m now ms evs ts where
    m: "resolve now (en_arrival e) = Inr m" and a: "adds ms evs ts w w'"
    and o: "outcome = outcome_of (map_option failure_of (hd_opt (stage_errors evs)))"
    and l: "length ts = (if signals_keeps (en_signals env) (trace_key_of m) (stage_errors evs \<noteq> [])
          (delivery_count m) then 1 else 0)"
    and d: "list_all (describes m (map_option failure_of (hd_opt (stage_errors evs)))) ts" by blast
  from True resolve_accepted obtain m0 where m0: "resolve 0 (en_arrival e) = Inr m0" by metis
  have parts: "record_id m0 = record_id m" "tenant m0 = tenant m" "delivery_count m = arr_delivery (en_arrival e)"
    using m m0 by (auto simp: resolve_Inr_iff)
  then have key: "trace_key_of m0 = trace_key_of m" by (simp add: trace_key_of_def)
  have failed: "stage_errors evs \<noteq> [] \<longleftrightarrow> outcome \<noteq> Acked"
    and settled: "settlement_of (map_option failure_of (hd_opt (stage_errors evs))) =
      (if outcome = Acked then SettleAck else SettleNak)"
    unfolding o by (cases "stage_errors evs"; simp add: outcome_of_def hd_opt_def settlement_of_def)+
  have "list_all (\<lambda>t. rt_record_id t = record_id m0 \<and> rt_tenant t = tenant m0
           \<and> rt_delivery t = arr_delivery (en_arrival e) \<and> rt_trace_id t = key_trace_id (trace_key_of m0)
           \<and> rt_settlement t = (if outcome = Acked then SettleAck else SettleNak)) ts"
    using d by (rule list.pred_mono_strong) (auto simp: describes_def parts key settled)
  with a l m0 failed show ?thesis
    by (auto simp: adds_def signals_keeps_def parts key)
next
  case False
  with resolve_accepted obtain rj where "resolve 0 (en_arrival e) = Inl rj"
    by (metis obj_sumE)
  with handle_rejected [OF assms(2) False] show ?thesis by (auto simp: adds_def)
qed

end
