(* ===== verification/Displays.thy ===== *)
theory Displays
  imports Condition Regex_Facade
begin

text \<open>
  The texts of the errors (\<open>Display\<close>) that a stage puts into a config error, for path, condition,
  pattern and match errors. What the standard library or a dependency prints (a character with
  \<open>{:?}\<close>, a double, JSON) is a field of \<open>texts\<close>.
\<close>

record texts =
  tx_char_debug :: "string \<Rightarrow> string"
  tx_float_debug :: "f64 \<Rightarrow> string"
  tx_float :: "f64 \<Rightarrow> string"
  tx_json_str :: "string \<Rightarrow> string"
  tx_json :: "json \<Rightarrow> string"

definition tick :: "string \<Rightarrow> string" where "tick s = ''`'' @ s @ ''`''"

definition META_FIELDS :: string where
  "META_FIELDS = join '', '' (map (\<lambda>f. tick (META_ROOT @ ''.'' @ meta_field_str f)) meta_field_ALL)"

fun path_error_display :: "path_error \<Rightarrow> string" where
  "path_error_display (EmptySegment path) =
     tick path @ '' has an empty segment; instead use `<name>.<name>` with one dot between names''"
| "path_error_display (InvalidSegment segment ch instead) =
     tick segment @ '' has '' @ tick ch @ ''; instead use '' @ tick instead"
| "path_error_display (UnterminatedQuote path) =
     tick path @ '' has an unclosed quote; instead close it: `attributes.'' @ [DQ] @ ''some key'' @ [DQ] @ ''`''"
| "path_error_display (BracketSyntax instead) =
     ''brackets are not allowed; instead use '' @ tick instead"
| "path_error_display (UnknownMetaField path) =
     tick path @ '' is not a meta field; instead use one of '' @ META_FIELDS @
     '', or `.meta...` for a payload key spelled `meta`''"
| "path_error_display (ReadOnly path) =
     tick path @ '' is the pipeline'' @ [SQ] @ ''s and cannot be written or removed; instead copy it into a '' @
     ''record field: `copy {from: '' @ path @ '', to: <field>}`''"

fun condition_error_display :: "condition_error \<Rightarrow> string" where
  "condition_error_display (UnexpectedChar ch i) = ''unexpected character '' @ tick ch @ '' at offset '' @ show_nat i"
| "condition_error_display UnexpectedEnd = ''unexpected end of expression''"
| "condition_error_display (UnexpectedToken t i) = ''unexpected '' @ tick t @ '' at offset '' @ show_nat i"
| "condition_error_display (UnterminatedString i) = ''unterminated string starting at offset '' @ show_nat i"
| "condition_error_display (InvalidNumber t i) = ''invalid number '' @ tick t @ '' at offset '' @ show_nat i"
| "condition_error_display (RegexNeedsString i) =
     ''`=~` and `!~` take a quoted pattern (at offset '' @ show_nat i @ '')''"
| "condition_error_display (FieldError i e) =
     path_error_display e @ '' (path at offset '' @ show_nat i @ '')''"

fun match_error_display :: "match_error \<Rightarrow> string" where
  "match_error_display MatchLimit = ''match limit exceeded''"
| "match_error_display DepthLimit = ''backtracking depth limit exceeded''"
| "match_error_display HeapLimit = ''heap limit exceeded''"
| "match_error_display WorkLimit = ''work limit exceeded across start positions''"
| "match_error_display (InputTooLarge n limit) =
     ''input is '' @ show_nat n @ '' bytes, longer than the '' @ show_nat limit @ '' byte limit''"
| "match_error_display MatchOutOfMemory = ''PCRE2 allocation failed''"
| "match_error_display (EngineError code message) = ''engine error '' @ show_int code @ '': '' @ message"

fun redos_risk_display :: "redos_risk \<Rightarrow> string" where
  "redos_risk_display (NestedQuantifiers i) = ''nested unbounded quantifiers at offset '' @ show_nat i"
| "redos_risk_display (OverlappingAlternation i) =
     ''overlapping alternation under repetition at offset '' @ show_nat i"
| "redos_risk_display (OverlappingSuffix i) =
     ''unbounded quantifier followed by an overlapping quantifier at offset '' @ show_nat i"
| "redos_risk_display NotParsed =
     ''pattern could not be parsed for the lint and no canary is configured to check it''"

fun input_shape_display :: "texts \<Rightarrow> input_shape \<Rightarrow> string" where
  "input_shape_display tx (Repeated c) = tx_char_debug tx c @ '' repeated''"
| "input_shape_display tx (RepeatedThenPoison c) = tx_char_debug tx c @ '' repeated then poison''"
| "input_shape_display tx (LiteralsThenRepeatedThenPoison c) =
     ''literals then '' @ tx_char_debug tx c @ '' repeated then poison''"
| "input_shape_display tx Cycled = ''alphabet cycled''"
| "input_shape_display tx CycledThenPoison = ''alphabet cycled then poison''"

definition canary_trip_display :: "texts \<Rightarrow> canary_trip \<Rightarrow> string" where
  "canary_trip_display tx t =
     match_error_display (ct_error t) @ '' on '' @ (if ct_anchored t then ''anchored'' else ''unanchored'') @
     '' '' @ input_shape_display tx (ct_shape t) @ '' input of '' @ show_nat (ct_input_len t) @
     '' bytes (match limit '' @ show_nat (unat (ct_match_limit t)) @ '', work limit '' @
     (case ct_work_limit t of None \<Rightarrow> ''none'' | Some n \<Rightarrow> show_nat (unat n)) @ '')''"

fun compile_error_display :: "texts \<Rightarrow> compile_error \<Rightarrow> string" where
  "compile_error_display tx (Syntax e code message i) =
     engine_str e @ '' engine: '' @ message @ '' at offset '' @ show_nat i"
| "compile_error_display tx (PatternTooLong n limit i) =
     ''pattern is '' @ show_nat n @ '' bytes, longer than the '' @ show_nat limit @
     '' byte limit (offset '' @ show_nat i @ '')''"
| "compile_error_display tx (CompiledTooBig limit) =
     ''linear engine: compiled program larger than '' @ show_nat limit @ '' bytes''"
| "compile_error_display tx (ParensTooDeep limit i) =
     ''parentheses nest deeper than '' @ show_nat limit @ '' at offset '' @ show_nat i"
| "compile_error_display tx (RedosRisk risks) =
     ''ReDoS risk: '' @ join ''; '' (map redos_risk_display risks)"
| "compile_error_display tx (CanaryTripped trip) = ''canary tripped: '' @ canary_trip_display tx trip"
| "compile_error_display tx CompileOutOfMemory = ''PCRE2 allocation failed''"
| "compile_error_display tx (InternalError code message) =
     ''PCRE2 internal error '' @ show_int code @ '': '' @ message"

end
