(* ===== verification/Key_Hash.thy ===== *)
theory Key_Hash
  imports Hash Config Path_Laws Displays
begin

text \<open>
  \<open>crates/stages/src/key_hash.rs\<close>: the key fields of \<open>dedupe\<close> and \<open>sample\<close> and one hash of their
  values. The text of a double and of a JSON string or document is what \<open>texts\<close> says.
\<close>

fun parse_key_list :: "node_config \<Rightarrow> string list \<Rightarrow> config_error + field_path list" where
  "parse_key_list node [] = Inr []"
| "parse_key_list node (path # rest) =
     (case path_parse path of
        Inl e \<Rightarrow> Inl (invalid_params node (''key '' @ tick path @ '': '' @ path_error_display e))
      | Inr p \<Rightarrow> map_sum id (Cons p) (parse_key_list node rest))"

definition parse_key_fields :: "node_config \<Rightarrow> string list \<Rightarrow> config_error + field_path list" where
  "parse_key_fields node key =
     (if key = [] then Inl (invalid_params node ''`key` needs at least one field path'')
      else parse_key_list node key)"

fun write_canonical :: "texts \<Rightarrow> field_value \<Rightarrow> string" where
  "write_canonical tx FNull = ''null''"
| "write_canonical tx (FBool b) = (if b then ''true'' else ''false'')"
| "write_canonical tx (FNum (NInt i)) = show_int i"
| "write_canonical tx (FNum (NFloat f)) = tx_float_debug tx f"
| "write_canonical tx (FStr s) = tx_json_str tx s"
| "write_canonical tx (FJson v) = tx_json tx v"

text \<open>The loop of \<open>hash_key_fields\<close>: a comma before every field but the first.\<close>

definition canonical_key :: "texts \<Rightarrow> field_path list \<Rightarrow> rec_value \<Rightarrow> meta \<Rightarrow> string" where
  "canonical_key tx paths r m =
     ''['' @ concat (map (\<lambda>(i, path). (if 0 < i then '','' else []) @ write_canonical tx (path_read path r m))
       (enumerate 0 paths)) @ '']''"

definition hash_key_fields :: "texts \<Rightarrow> field_path list \<Rightarrow> rec_value \<Rightarrow> meta \<Rightarrow> u64" where
  "hash_key_fields tx paths r m = fnv1a64 (canonical_key tx paths r m)"

section \<open>The hash depends on the values of the key fields only\<close>

lemma hash_key_fields_cong:
  assumes "map (\<lambda>p. path_read p r m) paths = map (\<lambda>p. path_read p r' m') paths"
  shows "hash_key_fields tx paths r m = hash_key_fields tx paths r' m'"
proof -
  have read: "path_read (paths ! i) r m = path_read (paths ! i) r' m'" if "i < length paths" for i
    using assms that by (metis nth_map)
  have "map (\<lambda>(i, path). (if 0 < i then '','' else []) @ write_canonical tx (path_read path r m))
       (enumerate 0 paths) =
     map (\<lambda>(i, path). (if 0 < i then '','' else []) @ write_canonical tx (path_read path r' m'))
       (enumerate 0 paths)"
    by (rule nth_equalityI) (simp_all add: nth_enumerate_eq read)
  then show ?thesis unfolding hash_key_fields_def canonical_key_def by (rule arg_cong)
qed


lemma parse_key_fields_Inr:
  assumes "parse_key_fields node key = Inr paths"
  shows "length paths = length key \<and> paths \<noteq> [] \<and> (\<forall>i < length key. path_parse (key ! i) = Inr (paths ! i))"
proof -
  have "parse_key_list node key = Inr paths \<Longrightarrow>
      length paths = length key \<and> (\<forall>i < length key. path_parse (key ! i) = Inr (paths ! i))"
  proof (induction key arbitrary: paths)
    case (Cons k ks)
    from Cons.prems obtain p rest where "path_parse k = Inr p" "parse_key_list node ks = Inr rest"
      "paths = p # rest" by (auto simp: map_sum_Inr_iff split: sum.splits)
    with Cons.IH [of rest] show ?case by (auto simp: less_Suc_eq_0_disj)
  qed simp
  with assms show ?thesis by (auto simp: parse_key_fields_def split: if_splits)
qed

end
