(* ===== verification/Edit.thy ===== *)
theory Edit
  imports Stage Key_Hash Path_Laws
begin

text \<open>
  \<open>crates/stages/src/edit.rs\<close>: an ordered list of field edits run on one record. Deserializing the
  parameters of the node (\<open>edit_params\<close>) and of each op (\<open>edit_decode\<close>) and the SHA-256 digest are
  arguments; everything the stage checks and does with them is here.
\<close>

section \<open>Ops\<close>

datatype on_unapplied = UnappliedSkip | UnappliedDrop

record edit_params =
  ep_ops :: "(string \<times> json) list list"
  ep_on_unapplied :: on_unapplied

text \<open>\<open>serde_json::from_value\<close> at the four parameter types of an op; an error is its text.\<close>

record edit_decode =
  ed_set :: "json \<Rightarrow> string + (string \<times> json)"
  ed_move :: "json \<Rightarrow> string + (string \<times> string)"
  ed_hash :: "json \<Rightarrow> string + string"
  ed_delete :: "json \<Rightarrow> string + string list"

text \<open>A path an op reads with the label it counts under, rendered at load.\<close>

record 'p labelled =
  la_path :: 'p
  la_label :: string

definition labelled_read :: "field_path \<Rightarrow> field_path labelled" where
  "labelled_read p = \<lparr>la_path = p, la_label = path_display p\<rparr>"

definition labelled_write :: "write_path \<Rightarrow> write_path labelled" where
  "labelled_write p = \<lparr>la_path = p, la_label = path_display (write_path_path p)\<rparr>"

datatype step =
    StepSet write_path json
  | StepRename "write_path labelled" write_path
  | StepCopy "field_path labelled" write_path
  | StepHash "write_path labelled"
  | StepDelete "write_path list"

record unapplied =
  un_field :: string
  un_cause :: edit_cause

definition unapplied_on :: "'p labelled \<Rightarrow> edit_cause \<Rightarrow> unapplied" where
  "unapplied_on p cause = \<lparr>un_field = la_label p, un_cause = cause\<rparr>"

record edit =
  ed_steps :: "step list"
  ed_on_unapplied :: on_unapplied

section \<open>Loading\<close>

definition edit_error :: "node_config \<Rightarrow> nat \<Rightarrow> edit_op option \<Rightarrow> string \<Rightarrow> config_error" where
  "edit_error node index kind message =
     (case kind of
        Some k \<Rightarrow> invalid_params node
          (''op '' @ show_nat index @ '' (`'' @ edit_op_str k @ ''`): '' @ message)
      | None \<Rightarrow> invalid_params node (''op '' @ show_nat index @ '': '' @ message))"

definition edit_path :: "(string \<Rightarrow> config_error) \<Rightarrow> string \<Rightarrow> string \<Rightarrow> config_error + field_path" where
  "edit_path err key text =
     map_sum (\<lambda>e. err (tick key @ '': '' @ path_error_display e)) id (path_parse text)"

definition edit_target :: "(string \<Rightarrow> config_error) \<Rightarrow> string \<Rightarrow> string \<Rightarrow> config_error + write_path" where
  "edit_target err key text =
     (case edit_path err key text of
        Inl e \<Rightarrow> Inl e
      | Inr p \<Rightarrow> map_sum (\<lambda>e. err (tick key @ '': '' @ path_error_display e)) id (path_writable p))"

fun edit_targets :: "(string \<Rightarrow> config_error) \<Rightarrow> string list \<Rightarrow> config_error + write_path list" where
  "edit_targets err [] = Inr []"
| "edit_targets err (f # fs) =
     (case edit_target err ''fields'' f of
        Inl e \<Rightarrow> Inl e
      | Inr p \<Rightarrow> map_sum id (Cons p) (edit_targets err fs))"

definition is_composite :: "json \<Rightarrow> bool" where
  "is_composite v = (case v of JArr _ \<Rightarrow> True | JObj _ \<Rightarrow> True | _ \<Rightarrow> False)"

definition parse_set :: "(string \<Rightarrow> config_error) \<Rightarrow> string \<times> json \<Rightarrow> config_error + step" where
  "parse_set err p =
     (if is_composite (snd p) then Inl (err ''`value` must be a string, number, bool or null'')
      else map_sum id (\<lambda>field. StepSet field (snd p)) (edit_target err ''field'' (fst p)))"

definition parse_move :: "(string \<Rightarrow> config_error) \<Rightarrow> bool \<Rightarrow> string \<times> string \<Rightarrow> config_error + step" where
  "parse_move err renaming p =
     (case edit_target err ''to'' (snd p) of
        Inl e \<Rightarrow> Inl e
      | Inr to \<Rightarrow>
     (case edit_path err ''from'' (fst p) of
        Inl e \<Rightarrow> Inl e
      | Inr source \<Rightarrow>
          if source = write_path_path to then Inl (err ''`from` and `to` are the same field'')
          else if renaming then
            map_sum (\<lambda>e. err (''`from`: '' @ path_error_display e))
              (\<lambda>f. StepRename (labelled_write f) to) (path_writable source)
          else Inr (StepCopy (labelled_read source) to)))"

definition parse_delete :: "(string \<Rightarrow> config_error) \<Rightarrow> string list \<Rightarrow> config_error + step" where
  "parse_delete err fs =
     (if fs = [] then Inl (err ''`fields` needs at least one field path'')
      else map_sum id StepDelete (edit_targets err fs))"

definition decode_then :: "(string \<Rightarrow> config_error) \<Rightarrow> string + 'p \<Rightarrow> ('p \<Rightarrow> config_error + step) \<Rightarrow> config_error + step" where
  "decode_then err decoded build = (case decoded of Inl e \<Rightarrow> Inl (err e) | Inr p \<Rightarrow> build p)"

definition parse_op :: "edit_decode \<Rightarrow> node_config \<Rightarrow> nat \<Rightarrow> (string \<times> json) list \<Rightarrow> config_error + step" where
  "parse_op dec node index entry =
     (case entry of
        [(name, body)] \<Rightarrow>
          (case edit_op_parse name of
             None \<Rightarrow> Inl (edit_error node index None
               (''unknown op '' @ tick name @ ''; use '' @ one_of (map edit_op_str edit_op_ALL)))
           | Some kind \<Rightarrow>
               (let err = edit_error node index (Some kind) in
                case kind of
                  OpSet \<Rightarrow> decode_then err (ed_set dec body) (parse_set err)
                | OpRename \<Rightarrow> decode_then err (ed_move dec body) (parse_move err True)
                | OpCopy \<Rightarrow> decode_then err (ed_move dec body) (parse_move err False)
                | OpHash \<Rightarrow> decode_then err (ed_hash dec body)
                    (\<lambda>f. map_sum id (\<lambda>p. StepHash (labelled_write p)) (edit_target err ''field'' f))
                | OpDelete \<Rightarrow> decode_then err (ed_delete dec body) (parse_delete err)))
      | _ \<Rightarrow> Inl (edit_error node index None
          (''one op per entry, one of '' @ one_of (map edit_op_str edit_op_ALL))))"

fun parse_ops :: "edit_decode \<Rightarrow> node_config \<Rightarrow> nat \<Rightarrow> (string \<times> json) list list \<Rightarrow> config_error + step list" where
  "parse_ops dec node index [] = Inr []"
| "parse_ops dec node index (entry # rest) =
     (case parse_op dec node index entry of
        Inl e \<Rightarrow> Inl e
      | Inr op \<Rightarrow> map_sum id (Cons op) (parse_ops dec node (index + 1) rest))"

definition edit_from_node ::
  "edit_decode \<Rightarrow> (yaml \<Rightarrow> string + edit_params) \<Rightarrow> node_config \<Rightarrow> config_error + edit" where
  "edit_from_node dec from_value node =
     (case parse_params from_value node of
        Inl e \<Rightarrow> Inl e
      | Inr p \<Rightarrow>
          if ep_ops p = [] then Inl (invalid_params node ''`ops` needs at least one op'')
          else map_sum id (\<lambda>ops. \<lparr>ed_steps = ops, ed_on_unapplied = ep_on_unapplied p\<rparr>)
            (parse_ops dec node 0 (ep_ops p)))"

section \<open>Running\<close>

fun step_kind :: "step \<Rightarrow> edit_op" where
  "step_kind (StepSet field v) = OpSet"
| "step_kind (StepRename source to) = OpRename"
| "step_kind (StepCopy source to) = OpCopy"
| "step_kind (StepHash field) = OpHash"
| "step_kind (StepDelete fs) = OpDelete"

text \<open>A value that was read, as a JSON value of its own.\<close>

fun owned :: "field_value \<Rightarrow> json option" where
  "owned FNull = None"
| "owned (FBool b) = Some (JBool b)"
| "owned (FStr s) = Some (JStr s)"
| "owned (FNum (NInt i)) =
     (if - (2 ^ 63) \<le> i \<and> i < 2 ^ 63
      then Some (JNum (if 0 \<le> i then PosInt (of_int i) else NegInt (of_int i)))
      else if 0 \<le> i \<and> i < 2 ^ 64 then Some (JNum (PosInt (of_int i))) else None)"
| "owned (FNum (NFloat f)) = (if f64_finite f then Some (JNum (JFloat f)) else None)"
| "owned (FJson v) = Some v"

text \<open>The digest in lower-case hexadecimal, two digits a byte.\<close>

definition sha256_hex :: "(string \<Rightarrow> string) \<Rightarrow> string \<Rightarrow> string" where
  "sha256_hex sha s = concat (map (\<lambda>b. hex_digits 2 (byte b)) (sha s))"

definition hash_text :: "texts \<Rightarrow> field_value \<Rightarrow> edit_cause + string" where
  "hash_text tx v =
     (case v of
        FNull \<Rightarrow> Inl CauseAbsent
      | FStr s \<Rightarrow> Inr s
      | FBool b \<Rightarrow> Inr (write_canonical tx v)
      | FNum n \<Rightarrow> Inr (write_canonical tx v)
      | FJson j \<Rightarrow> Inl CauseType)"

text \<open>\<open>Op::apply\<close>: the record afterwards, and why the op could not apply if it could not.\<close>

fun step_apply :: "texts \<Rightarrow> (string \<Rightarrow> string) \<Rightarrow> step \<Rightarrow> rec_value \<Rightarrow> meta \<Rightarrow> unapplied option \<times> rec_value" where
  "step_apply tx sha (StepSet field v) r m = (None, wpath_write field r v)"
| "step_apply tx sha (StepRename source to) r m =
     (case owned (wpath_read (la_path source) r) of
        None \<Rightarrow> (Some (unapplied_on source CauseAbsent), r)
      | Some v \<Rightarrow> (None, wpath_write to (snd (wpath_remove (la_path source) r)) v))"
| "step_apply tx sha (StepCopy source to) r m =
     (case owned (path_read (la_path source) r m) of
        None \<Rightarrow> (Some (unapplied_on source CauseAbsent), r)
      | Some v \<Rightarrow> (None, wpath_write to r v))"
| "step_apply tx sha (StepHash field) r m =
     (case hash_text tx (wpath_read (la_path field) r) of
        Inl cause \<Rightarrow> (Some (unapplied_on field cause), r)
      | Inr text \<Rightarrow> (None, wpath_write (la_path field) r (JStr (sha256_hex sha text))))"
| "step_apply tx sha (StepDelete fs) r m = (None, fold (\<lambda>f r. snd (wpath_remove f r)) fs r)"

fun edit_loop ::
  "texts \<Rightarrow> (string \<Rightarrow> string) \<Rightarrow> on_unapplied \<Rightarrow> step list \<Rightarrow> rec_value \<Rightarrow> stage_context \<Rightarrow> 's port
     \<Rightarrow> stage_output \<times> 's port" where
  "edit_loop tx sha policy [] r ctx w = (Pass r, w)"
| "edit_loop tx sha policy (op # ops) r ctx w =
     (case step_apply tx sha op r (cx_meta ctx) of
        (None, r) \<Rightarrow> edit_loop tx sha policy ops r ctx w
      | (Some u, r) \<Rightarrow>
          (let w = stage_edit_unapplied ctx (step_kind op) (un_field u) (un_cause u) w in
           if policy = UnappliedDrop then (Drop drop_reason.EditUnapplied, w)
           else edit_loop tx sha policy ops r ctx w))"

definition edit_process ::
  "texts \<Rightarrow> (string \<Rightarrow> string) \<Rightarrow> edit \<Rightarrow> rec_value \<Rightarrow> stage_context \<Rightarrow> 's port \<Rightarrow> stage_output \<times> 's port" where
  "edit_process tx sha ed r ctx w = edit_loop tx sha (ed_on_unapplied ed) (ed_steps ed) r ctx w"

definition edit_stage :: "texts \<Rightarrow> (string \<Rightarrow> string) \<Rightarrow> edit \<Rightarrow> 's stage" where
  "edit_stage tx sha ed =
     \<lparr>st_process = (\<lambda>env r ctx w. case edit_process tx sha ed r ctx w of (out, w) \<Rightarrow> (Some out, w)),
      st_engine = None, st_uses_state = False, st_on_state_error = PolicyNak\<rparr>"

definition edit_build ::
  "texts \<Rightarrow> (string \<Rightarrow> string) \<Rightarrow> edit_decode \<Rightarrow> (yaml \<Rightarrow> string + edit_params) \<Rightarrow> node_config
     \<Rightarrow> config_error + 's stage" where
  "edit_build tx sha dec from_value node = map_sum id (edit_stage tx sha) (edit_from_node dec from_value node)"

section \<open>The contract\<close>

lemma edit_loop_owned: "edit_loop tx sha policy ops r ctx w = (out, w') \<Longrightarrow> appends_owned w w'"
proof (induction ops arbitrary: r w)
  case (Cons op ops)
  obtain u r1 where a: "step_apply tx sha op r (cx_meta ctx) = (u, r1)" by force
  show ?case
  proof (cases u)
    case None
    with Cons a show ?thesis by auto
  next
    case (Some x)
    let ?w = "stage_edit_unapplied ctx (step_kind op) (un_field x) (un_cause x) w"
    have "appends_owned w ?w" by (rule stage_metrics_owned)
    moreover have "appends_owned ?w w'"
      using Cons a Some by (auto simp: Let_def split: if_splits)
    ultimately show ?thesis by (rule appends_owned_trans)
  qed
qed simp

interpretation edit_contract: stage_contract "edit_stage tx sha ed"
  by unfold_locales (auto simp: edit_stage_def edit_process_def split: prod.splits intro: edit_loop_owned)

section \<open>Values that are moved\<close>

lemma uint_of_int_range: "0 \<le> i \<Longrightarrow> i < 2 ^ 64 \<Longrightarrow> uint (of_int i :: u64) = i"
  by (simp add: uint_word_of_int take_bit_int_eq_self)

lemma sint_of_int_range: "- (2 ^ 63) \<le> i \<Longrightarrow> i < 2 ^ 63 \<Longrightarrow> sint (of_int i :: u64) = i"
  by (simp add: signed_of_int signed_take_bit_int_eq_self)

text \<open>What a path reads as, or can be written back as, reads the same again.\<close>

definition readable :: "field_value \<Rightarrow> bool" where
  "readable x \<longleftrightarrow> (case x of FJson v \<Rightarrow> is_composite v | _ \<Rightarrow> True)"

lemma readable_field_of [simp]: "readable (field_of v)"
proof (cases v)
  case (Some w)
  then show ?thesis by (cases w) (simp_all add: field_of_def readable_def is_composite_def)
qed (simp add: field_of_def readable_def)

lemma readable_path_read [simp]: "readable (path_read p r m)"
  by (cases p) (auto simp: readable_def [of "FStr _"] readable_def [of "FNum _"] split: meta_value.split)

lemma owned_reads: "owned x = Some v \<Longrightarrow> readable x \<Longrightarrow> field_from_json v = x"
proof (induction x rule: owned.induct)
  case (4 i)
  then show ?case
    by (auto simp: uint_of_int_range sint_of_int_range simp del: of_int_power split: if_splits)
next
  case (6 v)
  then show ?case by (cases v) (auto simp: readable_def is_composite_def)
qed (auto split: if_splits)

lemma owned_NoneD: "owned FNull = None" "owned x = Some v \<Longrightarrow> x \<noteq> FNull"
  by auto

section \<open>What an op does\<close>

lemma step_apply_unapplied:
  assumes "step_apply tx sha op r m = (Some u, r')"
  shows "r' = r \<and> (un_cause u = CauseType \<longrightarrow> step_kind op = OpHash) \<and>
    step_kind op \<in> {OpRename, OpCopy, OpHash}"
  using assms by (cases op) (auto simp: unapplied_on_def split: option.splits sum.splits)

lemma step_rename_moves:
  assumes "step_apply tx sha (StepRename source to) r m = (None, r')"
  shows "wpath_read to r' = wpath_read (la_path source) r"
  using assms
  by (auto simp: wpath_read_def wpath_write_def read_at_write_at field_of_def [of "Some _"] owned_reads
      split: option.splits)

lemma step_copy_copies:
  assumes "step_apply tx sha (StepCopy source to) r m = (None, r')"
  shows "wpath_read to r' = path_read (la_path source) r m"
  using assms
  by (auto simp: wpath_read_def wpath_write_def read_at_write_at field_of_def [of "Some _"] owned_reads
      split: option.splits)

section \<open>Records stay well formed\<close>

lemma wf_read_at: "wf_json r \<Longrightarrow> read_at r p = Some v \<Longrightarrow> wf_json v"
  by (induction r p rule: read_at.induct) (auto split: option.splits intro: wf_json_child)

lemma wf_owned_num: "owned (FNum n) = Some v \<Longrightarrow> wf_json v"
  by (cases n) (auto split: if_splits)

lemma wf_owned: "owned (field_from_json x) = Some v \<Longrightarrow> wf_json x \<Longrightarrow> wf_json v"
  by (cases x) (auto simp del: owned.simps(4,5) intro: wf_owned_num)

lemma wf_owned_field: "wf_json r \<Longrightarrow> owned (field_of (read_at r p)) = Some v \<Longrightarrow> wf_json v"
  by (cases "read_at r p") (auto simp: field_of_def dest: wf_read_at intro: wf_owned)

lemma wf_owned_path: "wf_json r \<Longrightarrow> owned (path_read p r m) = Some v \<Longrightarrow> wf_json v"
  by (cases p) (auto simp del: owned.simps(4,5) split: meta_value.splits intro: wf_owned_field wf_owned_num)

text \<open>The literals of a loaded \<open>set\<close> are scalars.\<close>

definition step_loaded :: "step \<Rightarrow> bool" where
  "step_loaded op \<longleftrightarrow> (case op of StepSet field v \<Rightarrow> \<not> is_composite v | _ \<Rightarrow> True)"

lemma wf_remove_all: "wf_json r \<Longrightarrow> wf_json (fold (\<lambda>f r. snd (wpath_remove f r)) fs r)"
  by (induction fs arbitrary: r) (simp_all add: wpath_remove_def wf_remove_at)

lemma step_keeps_wf:
  assumes "wf_json r" "step_loaded op" "step_apply tx sha op r m = (u, r')"
  shows "wf_json r'"
proof (cases op)
  case (StepSet field v)
  then have "wf_json v" using assms(2) by (cases v) (auto simp: step_loaded_def is_composite_def)
  with StepSet assms show ?thesis by (auto simp: wpath_write_def wf_write_at)
next
  case (StepRename source to)
  with assms show ?thesis
    by (auto simp: wpath_write_def wpath_read_def wpath_remove_def split: option.splits
        intro!: wf_write_at wf_remove_at intro: wf_owned_field)
next
  case (StepCopy source to)
  with assms show ?thesis
    by (auto simp: wpath_write_def split: option.splits intro!: wf_write_at intro: wf_owned_path)
next
  case (StepHash field)
  with assms show ?thesis by (auto simp: wpath_write_def split: sum.splits intro!: wf_write_at)
qed (use assms in \<open>auto simp: wf_remove_all\<close>)

lemma edit_loop_wf:
  "wf_json r \<Longrightarrow> list_all step_loaded ops \<Longrightarrow> edit_loop tx sha policy ops r ctx w = (Pass r', w') \<Longrightarrow> wf_json r'"
proof (induction ops arbitrary: r w)
  case (Cons op ops)
  obtain u r1 where a: "step_apply tx sha op r (cx_meta ctx) = (u, r1)" by force
  from step_keeps_wf [OF Cons.prems(1) _ a] Cons.prems(2) have "wf_json r1" by simp
  with Cons a show ?case by (cases u) (auto simp: Let_def split: if_splits)
qed simp

lemma parse_op_loaded: "parse_op dec node index entry = Inr op \<Longrightarrow> step_loaded op"
  by (auto simp: parse_op_def decode_then_def parse_set_def parse_move_def parse_delete_def Let_def
      step_loaded_def map_sum_Inr_iff
      split: list.splits option.splits edit_op.splits sum.splits if_splits)

lemma parse_ops_loaded: "parse_ops dec node index items = Inr ops \<Longrightarrow> list_all step_loaded ops \<and> length ops = length items"
  by (induction items arbitrary: index ops)
    (auto simp: map_sum_Inr_iff split: sum.splits dest: parse_op_loaded)

lemma edit_from_node_loaded:
  assumes "edit_from_node dec fv node = Inr ed"
  shows "list_all step_loaded (ed_steps ed) \<and> ed_steps ed \<noteq> []"
  using assms parse_ops_loaded
  by (fastforce simp: edit_from_node_def map_sum_Inr_iff split: sum.splits if_splits)

section \<open>A run\<close>

text \<open>The record after the ops, each that cannot apply skipped, and what could not apply.\<close>

fun edit_result :: "texts \<Rightarrow> (string \<Rightarrow> string) \<Rightarrow> step list \<Rightarrow> rec_value \<Rightarrow> meta \<Rightarrow> (edit_op \<times> unapplied) list \<times> rec_value" where
  "edit_result tx sha [] r m = ([], r)"
| "edit_result tx sha (op # ops) r m =
     (case step_apply tx sha op r m of (u, r1) \<Rightarrow>
      (case edit_result tx sha ops r1 m of (us, r2) \<Rightarrow>
        ((case u of None \<Rightarrow> us | Some x \<Rightarrow> (step_kind op, x) # us), r2)))"

definition unapplied_measures :: "stage_context \<Rightarrow> (edit_op \<times> unapplied) list \<Rightarrow> measures" where
  "unapplied_measures ctx us =
     concat (map (\<lambda>(k, u). edit_unapplied_count (with_edit k (un_field u) (un_cause u) (cx_labels ctx))) us)"

lemma unapplied_measures_simps [simp]:
  "unapplied_measures ctx [] = []"
  "unapplied_measures ctx ((k, u) # us) =
     edit_unapplied_count (with_edit k (un_field u) (un_cause u) (cx_labels ctx)) @ unapplied_measures ctx us"
  by (simp_all add: unapplied_measures_def)

lemma measure_append: "measure ns (measure ms w) = measure (ms @ ns) w"
  by (simp add: measure_def)

lemma measure_Nil [simp]: "measure [] w = w"
  by (simp add: measure_def)

lemma edit_loop_result:
  "edit_loop tx sha policy ops r ctx w =
     (case edit_result tx sha ops r (cx_meta ctx) of (us, r') \<Rightarrow>
        if policy = UnappliedDrop \<and> us \<noteq> []
        then (Drop drop_reason.EditUnapplied, measure (unapplied_measures ctx [hd us]) w)
        else (Pass r', measure (unapplied_measures ctx us) w))"
proof (induction ops arbitrary: r w)
  case (Cons op ops)
  obtain u r1 where a: "step_apply tx sha op r (cx_meta ctx) = (u, r1)" by force
  obtain us r2 where b: "edit_result tx sha ops r1 (cx_meta ctx) = (us, r2)" by force
  show ?case
    by (cases u) (auto simp: a b Cons.IH Let_def stage_edit_unapplied_def measure_append)
qed simp

end
