(* ===== verification/Stage_Regex.thy ===== *)
theory Stage_Regex
  imports Stage Displays Regex_Laws Condition_Laws
begin

text \<open>
  \<open>crates/stages/src/regex_stage.rs\<close> and \<open>crates/stages/src/condition.rs\<close>: the parameters every regex
  stage takes, compiling a pattern for a node, a condition with its patterns compiled, and how a
  match error becomes a stage output. The load-time lines on stderr are left out.
\<close>

section \<open>Parameters\<close>

record limits_params =
  lp_match :: "u32 option"
  lp_depth :: "u32 option"
  lp_heap_kib :: "u32 option"
  lp_work :: "u32 option"
  lp_input_bytes :: "nat option"

definition or_default :: "'a option \<Rightarrow> 'a \<Rightarrow> 'a" where
  "or_default x d = (case x of Some v \<Rightarrow> v | None \<Rightarrow> d)"

text \<open>\<open>NonZeroU32::new\<close>: \<open>work: 0\<close> turns the count off.\<close>

definition nonzero :: "u32 \<Rightarrow> u32 option" where
  "nonzero n = (if n = 0 then None else Some n)"

definition to_limits :: "limits_params \<Rightarrow> limits" where
  "to_limits p =
     limits_default
       \<lparr>li_match := or_default (lp_match p) (li_match limits_default),
        li_depth := or_default (lp_depth p) (li_depth limits_default),
        li_heap_kib := or_default (lp_heap_kib p) (li_heap_kib limits_default),
        li_work := (case lp_work p of None \<Rightarrow> li_work limits_default | Some n \<Rightarrow> nonzero n),
        li_input_bytes := or_default (lp_input_bytes p) (li_input_bytes limits_default)\<rparr>"

datatype redos_risk_param = RiskReject | RiskWarn

fun risk_policy :: "redos_risk_param \<Rightarrow> redos_policy" where
  "risk_policy RiskReject = RedosReject" | "risk_policy RiskWarn = RedosWarn"

record regex_params =
  rp_limits :: limits_params
  rp_on_risk :: redos_risk_param

definition regex_options :: "regex_params \<Rightarrow> options" where
  "regex_options p =
     options_checked\<lparr>op_limits := to_limits (rp_limits p), op_on_risk := risk_policy (rp_on_risk p)\<rparr>"

definition compile_pattern ::
  "texts \<Rightarrow> loader \<Rightarrow> regex_params \<Rightarrow> node_config \<Rightarrow> string \<Rightarrow> string \<Rightarrow> config_error + regex" where
  "compile_pattern tx ld p node what pattern =
     map_sum (\<lambda>e. invalid_params node (what @ '' '' @ tick pattern @ '': '' @ compile_error_display tx e)) id
       (regex_with_options ld pattern (regex_options p))"

fun engine_label_of :: "engine \<Rightarrow> engine_label" where
  "engine_label_of EngLinear = Linear" | "engine_label_of EngBacktracking = Backtracking"

section \<open>Writing and failing\<close>

definition write_strings :: "(write_path \<times> string) list \<Rightarrow> rec_value \<Rightarrow> rec_value" where
  "write_strings writes r = fold (\<lambda>(path, text) r. wpath_write path r (JStr text)) writes r"

definition match_failure :: "string \<Rightarrow> match_error \<Rightarrow> stage_output" where
  "match_failure node e =
     (case e of
        MatchOutOfMemory \<Rightarrow> StageFailed \<lparr>se_message = ''node `'' @ node @ ''`: regex engine failed'',
                                      se_source = Some (match_error_display e)\<rparr>
      | EngineError code message \<Rightarrow> StageFailed \<lparr>se_message = ''node `'' @ node @ ''`: regex engine failed'',
                                      se_source = Some (match_error_display e)\<rparr>
      | _ \<Rightarrow> Drop RegexLimit)"

section \<open>Compiled conditions\<close>

text \<open>The loop over the patterns of the condition; a pattern that is already compiled is skipped.\<close>

fun compile_patterns ::
  "(string \<Rightarrow> config_error + regex) \<Rightarrow> string list \<Rightarrow> (string \<times> regex) list
     \<Rightarrow> config_error + (string \<times> regex) list" where
  "compile_patterns compile [] done = Inr done"
| "compile_patterns compile (p # ps) done =
     (if p \<in> fst ` set done then compile_patterns compile ps done
      else case compile p of
        Inl e \<Rightarrow> Inl e
      | Inr re \<Rightarrow> compile_patterns compile ps (done @ [(p, re)]))"

text \<open>The patterns as compiled, in the order the condition has them; a \<open>HashMap\<close> in the code, whose order
  no operation shows.\<close>

record compiled =
  co_condition :: condition
  co_patterns :: "(string \<times> regex) list"

definition compiled_condition ::
  "texts \<Rightarrow> loader \<Rightarrow> node_config \<Rightarrow> string \<Rightarrow> string \<Rightarrow> regex_params \<Rightarrow> config_error + compiled" where
  "compiled_condition tx ld node src what params =
     (case condition_parse src of
        None \<Rightarrow> Inl (invalid_params node [])
      | Some (Inl e) \<Rightarrow> Inl (invalid_params node (what @ '' '' @ tick src @ '': '' @ condition_error_display e))
      | Some (Inr c) \<Rightarrow>
          map_sum id (\<lambda>ps. \<lparr>co_condition = c, co_patterns = ps\<rparr>)
            (compile_patterns (compile_pattern tx ld params node what) (regex_patterns c) []))"

text \<open>\<open>matches\<close>: the closure looks the pattern up and runs it; a pattern that is not there does not match.\<close>

definition run_pattern :: "(string \<times> regex) list \<Rightarrow> (unit, match_error) matcher" where
  "run_pattern patterns pattern text st =
     ((case map_of patterns pattern of None \<Rightarrow> Inr False | Some re \<Rightarrow> is_match re text), st)"

definition compiled_matches :: "compiled \<Rightarrow> rec_value \<Rightarrow> meta \<Rightarrow> match_error + bool" where
  "compiled_matches co r m = fst (matches_with (run_pattern (co_patterns co)) r m (co_condition co) ())"

definition worst_engine :: "engine list \<Rightarrow> engine option" where
  "worst_engine es =
     (if es = [] then None else if EngBacktracking \<in> set es then Some EngBacktracking else Some EngLinear)"

definition compiled_engine :: "compiled \<Rightarrow> engine option" where
  "compiled_engine co = worst_engine (map (\<lambda>(p, re). regex_engine re) (co_patterns co))"

definition compiled_engine_label :: "compiled \<Rightarrow> engine_label option" where
  "compiled_engine_label co = map_option engine_label_of (compiled_engine co)"

section \<open>What a compiled condition promises\<close>

lemma compile_patterns_Inr:
  assumes "compile_patterns compile ps acc = Inr res"
  shows "set ps \<union> fst ` set acc \<subseteq> fst ` set res
    \<and> (\<forall>(p, re) \<in> set res. (p, re) \<in> set acc \<or> p \<in> set ps \<and> compile p = Inr re)
    \<and> (distinct (map fst acc) \<longrightarrow> distinct (map fst res))"
  using assms
proof (induction ps arbitrary: acc)
  case (Cons p ps)
  show ?case
  proof (cases "p \<in> fst ` set acc")
    case True
    with Cons.IH [of acc] Cons.prems show ?thesis by auto
  next
    case False
    then obtain re where re: "compile p = Inr re" "compile_patterns compile ps (acc @ [(p, re)]) = Inr res"
      using Cons.prems by (auto split: sum.splits)
    have "distinct (map fst acc) \<Longrightarrow> distinct (map fst (acc @ [(p, re)]))" using False by auto
    with Cons.IH [OF re(2)] re(1) show ?thesis by (auto dest!: bspec)
  qed
qed auto

lemma compiled_condition_Inr:
  assumes "compiled_condition tx ld node src what params = Inr co"
  shows "condition_parse src = Some (Inr (co_condition co))
    \<and> set (regex_patterns (co_condition co)) = fst ` set (co_patterns co)
    \<and> (\<forall>(p, re) \<in> set (co_patterns co). regex_with_options ld p (regex_options params) = Inr re)"
proof -
  obtain c ps where c: "condition_parse src = Some (Inr c)"
    and ps: "compile_patterns (compile_pattern tx ld params node what) (regex_patterns c) [] = Inr ps"
    and co: "co = \<lparr>co_condition = c, co_patterns = ps\<rparr>"
    using assms by (auto simp: compiled_condition_def map_sum_Inr_iff split: option.splits sum.splits)
  from compile_patterns_Inr [OF ps]
  have "set (regex_patterns c) \<subseteq> fst ` set ps"
    and *: "\<forall>(p, re) \<in> set ps. p \<in> set (regex_patterns c) \<and> compile_pattern tx ld params node what p = Inr re"
    by auto
  moreover from * have "fst ` set ps \<subseteq> set (regex_patterns c)" by auto
  moreover from * have "\<forall>(p, re) \<in> set ps. regex_with_options ld p (regex_options params) = Inr re"
    by (auto simp: compile_pattern_def map_sum_Inr_iff)
  ultimately show ?thesis using c co by auto
qed

text \<open>A loaded condition never meets a pattern it has not compiled.\<close>

lemma compiled_condition_found:
  assumes "compiled_condition tx ld node src what params = Inr co" "p \<in> set (regex_patterns (co_condition co))"
  shows "\<exists>re. map_of (co_patterns co) p = Some re \<and> regex_with_options ld p (regex_options params) = Inr re"
proof -
  have "p \<in> fst ` set (co_patterns co)" using compiled_condition_Inr [OF assms(1)] assms(2) by simp
  then obtain re where re: "map_of (co_patterns co) p = Some re"
    by (metis map_of_eq_None_iff option.exhaust)
  with compiled_condition_Inr [OF assms(1)] show ?thesis by (auto dest: map_of_SomeD)
qed

end
