(* ===== verification/Extract_Redact.thy ===== *)
theory Extract_Redact
  imports Stage_Regex
begin

text \<open>
  \<open>crates/stages/src/extract.rs\<close> and \<open>crates/stages/src/redact.rs\<close>: the two stages that write what a
  pattern matched. Both read every field before they write any. The lines they print at load are
  left out; a panic of the pattern facade is the result \<open>None\<close>.
\<close>

section \<open>extract\<close>

record extract_params =
  xp_field :: string
  xp_pattern :: string
  xp_into :: string
  xp_regex :: regex_params

definition default_into :: string where "default_into = ''attributes''"

record extractor =
  ex_field :: field_path
  ex_regex :: regex
  ex_targets :: "(string \<times> write_path) list"

text \<open>A named field parsed, and parsed as a path to write; \<open>what\<close> is how its error names it.\<close>

definition named_path :: "node_config \<Rightarrow> string \<Rightarrow> string \<Rightarrow> config_error + field_path" where
  "named_path node what text =
     map_sum (\<lambda>e. invalid_params node (what @ '' '' @ tick text @ '': '' @ path_error_display e)) id (path_parse text)"

definition named_target :: "node_config \<Rightarrow> string \<Rightarrow> string \<Rightarrow> config_error + write_path" where
  "named_target node what text =
     (case named_path node what text of
        Inl e \<Rightarrow> Inl e
      | Inr p \<Rightarrow>
          map_sum (\<lambda>e. invalid_params node (what @ '' '' @ tick text @ '': '' @ path_error_display e)) id
            (path_writable p))"

definition group_targets :: "regex \<Rightarrow> write_path \<Rightarrow> (string \<times> write_path) list" where
  "group_targets re into =
     map (\<lambda>name. (name, write_path_child into name)) (List.map_filter id (rx_names re))"

definition extract_from_node ::
  "texts \<Rightarrow> loader \<Rightarrow> (yaml \<Rightarrow> string + extract_params) \<Rightarrow> node_config \<Rightarrow> config_error + extractor" where
  "extract_from_node tx ld from_value node =
     (case parse_params from_value node of
        Inl e \<Rightarrow> Inl e
      | Inr p \<Rightarrow>
     (case named_path node ''field'' (xp_field p) of
        Inl e \<Rightarrow> Inl e
      | Inr field \<Rightarrow>
     (case named_target node ''`into`'' (xp_into p) of
        Inl e \<Rightarrow> Inl e
      | Inr into \<Rightarrow>
          map_sum id (\<lambda>re. \<lparr>ex_field = field, ex_regex = re, ex_targets = group_targets re into\<rparr>)
            (compile_pattern tx ld (xp_regex p) node ''pattern'' (xp_pattern p)))))"

text \<open>The groups that took part in the match, each with where it goes.\<close>

definition extracted :: "extractor \<Rightarrow> string \<Rightarrow> groups \<Rightarrow> (write_path \<times> string) list" where
  "extracted ex h g =
     List.map_filter (\<lambda>(name, path). map_option (Pair path) (group_name_text (ex_regex ex) h g name))
       (ex_targets ex)"

definition extract_process ::
  "extractor \<Rightarrow> rec_value \<Rightarrow> stage_context \<Rightarrow> 's port \<Rightarrow> stage_output \<times> 's port" where
  "extract_process ex r ctx w =
     (case path_read (ex_field ex) r (cx_meta ctx) of
        FStr h \<Rightarrow>
          (case captures (ex_regex ex) h of
             Inl e \<Rightarrow> (match_failure (cx_node ctx) e, w)
           | Inr None \<Rightarrow> (Pass r, stage_regex_nonmatch ctx w)
           | Inr (Some g) \<Rightarrow> (Pass (write_strings (extracted ex h g) r), w))
      | _ \<Rightarrow> (Pass r, stage_regex_nonmatch ctx w))"

definition extract_stage :: "extractor \<Rightarrow> 's stage" where
  "extract_stage ex =
     \<lparr>st_process = (\<lambda>env r ctx w. case extract_process ex r ctx w of (out, w) \<Rightarrow> (Some out, w)),
      st_engine = Some (engine_label_of (regex_engine (ex_regex ex))), st_uses_state = False,
      st_on_state_error = PolicyNak\<rparr>"

definition extract_build ::
  "texts \<Rightarrow> loader \<Rightarrow> (yaml \<Rightarrow> string + extract_params) \<Rightarrow> node_config \<Rightarrow> config_error + 's stage" where
  "extract_build tx ld from_value node = map_sum id extract_stage (extract_from_node tx ld from_value node)"

section \<open>redact\<close>

record redact_params =
  dp_fields :: "string list"
  dp_pattern :: string
  dp_replace :: string
  dp_regex :: regex_params

record redact =
  rd_fields :: "write_path list"
  rd_regex :: regex
  rd_replace :: string

fun redact_targets :: "node_config \<Rightarrow> string list \<Rightarrow> config_error + write_path list" where
  "redact_targets node [] = Inr []"
| "redact_targets node (f # fs) =
     (case named_target node ''field'' f of
        Inl e \<Rightarrow> Inl e
      | Inr p \<Rightarrow> map_sum id (Cons p) (redact_targets node fs))"

definition redact_from_node ::
  "texts \<Rightarrow> loader \<Rightarrow> (yaml \<Rightarrow> string + redact_params) \<Rightarrow> node_config \<Rightarrow> config_error + redact" where
  "redact_from_node tx ld from_value node =
     (case parse_params from_value node of
        Inl e \<Rightarrow> Inl e
      | Inr p \<Rightarrow>
          if dp_fields p = [] then Inl (invalid_params node ''`fields` needs at least one field path'')
          else
     (case redact_targets node (dp_fields p) of
        Inl e \<Rightarrow> Inl e
      | Inr paths \<Rightarrow>
          map_sum id (\<lambda>re. \<lparr>rd_fields = paths, rd_regex = re, rd_replace = dp_replace p\<rparr>)
            (compile_pattern tx ld (dp_regex p) node ''pattern'' (dp_pattern p))))"

text \<open>The loop over the fields: the rewrites so far, an error, or a panic.\<close>

fun redact_scan ::
  "redact \<Rightarrow> write_path list \<Rightarrow> rec_value \<Rightarrow> (write_path \<times> string) list
     \<Rightarrow> (match_error + (write_path \<times> string) list) option" where
  "redact_scan rd [] r rewrites = Some (Inr rewrites)"
| "redact_scan rd (p # ps) r rewrites =
     (case wpath_read p r of
        FStr text \<Rightarrow>
          (case replace_all (rd_regex rd) text (rd_replace rd) of
             None \<Rightarrow> None
           | Some (Inl e) \<Rightarrow> Some (Inl e)
           | Some (Inr None) \<Rightarrow> redact_scan rd ps r rewrites
           | Some (Inr (Some masked)) \<Rightarrow> redact_scan rd ps r (rewrites @ [(p, masked)]))
      | _ \<Rightarrow> redact_scan rd ps r rewrites)"

definition redact_process ::
  "redact \<Rightarrow> rec_value \<Rightarrow> stage_context \<Rightarrow> 's port \<Rightarrow> stage_output option \<times> 's port" where
  "redact_process rd r ctx w =
     (case redact_scan rd (rd_fields rd) r [] of
        None \<Rightarrow> (None, w)
      | Some (Inl e) \<Rightarrow> (Some (match_failure (cx_node ctx) e), w)
      | Some (Inr rewrites) \<Rightarrow>
          if rewrites = [] then (Some (Pass r), stage_regex_nonmatch ctx w)
          else (Some (Pass (write_strings rewrites r)), w))"

definition redact_stage :: "redact \<Rightarrow> 's stage" where
  "redact_stage rd =
     \<lparr>st_process = (\<lambda>env r ctx w. redact_process rd r ctx w),
      st_engine = Some (engine_label_of (regex_engine (rd_regex rd))), st_uses_state = False,
      st_on_state_error = PolicyNak\<rparr>"

definition redact_build ::
  "texts \<Rightarrow> loader \<Rightarrow> (yaml \<Rightarrow> string + redact_params) \<Rightarrow> node_config \<Rightarrow> config_error + 's stage" where
  "redact_build tx ld from_value node = map_sum id redact_stage (redact_from_node tx ld from_value node)"

section \<open>The contract\<close>

interpretation extract_contract: stage_contract "extract_stage ex"
  by unfold_locales (auto simp: extract_stage_def extract_process_def stage_metrics_owned
      split: prod.splits field_value.splits sum.splits option.splits)

interpretation redact_contract: stage_contract "redact_stage rd"
  by unfold_locales (auto simp: redact_stage_def redact_process_def stage_metrics_owned
      split: option.splits sum.splits if_splits)

section \<open>All or nothing\<close>

text \<open>The rewrites of a scan, field by field.\<close>

definition masked :: "redact \<Rightarrow> rec_value \<Rightarrow> write_path \<Rightarrow> (write_path \<times> string) option" where
  "masked rd r p =
     (case wpath_read p r of
        FStr text \<Rightarrow>
          (case replace_all (rd_regex rd) text (rd_replace rd) of
             Some (Inr (Some m)) \<Rightarrow> Some (p, m)
           | _ \<Rightarrow> None)
      | _ \<Rightarrow> None)"

lemma redact_scan_Inr:
  "redact_scan rd ps r acc = Some (Inr rewrites) \<Longrightarrow> rewrites = acc @ List.map_filter (masked rd r) ps"
proof (induction ps arbitrary: acc)
  case (Cons p ps)
  show ?case
  proof (cases "wpath_read p r")
    case (FStr h)
    with Cons.prems obtain res where res: "replace_all (rd_regex rd) h (rd_replace rd) = Some (Inr res)"
      by (auto split: option.splits sum.splits)
    then have m: "masked rd r p = map_option (Pair p) res" by (simp add: masked_def FStr split: option.split)
    from Cons.prems res FStr m show ?thesis
      by (cases res) (auto simp: List.map_filter_simps dest!: Cons.IH)
  qed (use Cons in \<open>auto simp: masked_def List.map_filter_simps\<close>)
qed (simp add: List.map_filter_simps)

lemma redact_scan_error:
  "redact_scan rd ps r acc = Some (Inl e) \<Longrightarrow>
     \<exists>p h. p \<in> set ps \<and> wpath_read p r = FStr h \<and>
       replace_all (rd_regex rd) h (rd_replace rd) = Some (Inl e)"
proof (induction ps arbitrary: acc)
  case (Cons p ps)
  show ?case
  proof (cases "wpath_read p r")
    case (FStr h)
    with Cons show ?thesis by (fastforce split: option.splits sum.splits)
  qed (use Cons in \<open>simp, blast\<close>)+
qed simp

lemma redact_scan_total:
  assumes "\<And>h. well_placed (rd_regex rd) h"
  shows "redact_scan rd ps r acc \<noteq> None"
proof (induction ps arbitrary: acc)
  case (Cons p ps)
  show ?case
  proof (cases "wpath_read p r")
    case (FStr h)
    from replace_all_splice [OF assms, of h "rd_replace rd"] obtain res where
      "replace_all (rd_regex rd) h (rd_replace rd) = Some res" by blast
    with Cons FStr show ?thesis by (auto split: sum.splits option.splits)
  qed (use Cons in auto)
qed simp

end
