(* ===== verification/Filter_Route.thy ===== *)
theory Filter_Route
  imports Stage_Regex
begin

text \<open>
  \<open>crates/stages/src/filter.rs\<close> and \<open>crates/stages/src/route.rs\<close>: the two stages that decide with
  conditions. A node's parameters arrive deserialized, through \<open>from_value\<close>.
\<close>

section \<open>filter\<close>

datatype action = Keep | DropMatching

record filter_params =
  fp_condition :: string
  fp_action :: action
  fp_regex :: regex_params

record filter_stage =
  fs_condition :: compiled
  fs_action :: action

definition filter_from_node ::
  "texts \<Rightarrow> loader \<Rightarrow> (yaml \<Rightarrow> string + filter_params) \<Rightarrow> node_config \<Rightarrow> config_error + filter_stage" where
  "filter_from_node tx ld from_value node =
     (case parse_params from_value node of
        Inl e \<Rightarrow> Inl e
      | Inr params \<Rightarrow>
          map_sum id (\<lambda>c. \<lparr>fs_condition = c, fs_action = fp_action params\<rparr>)
            (compiled_condition tx ld node (fp_condition params) ''condition'' (fp_regex params)))"

definition filter_process :: "filter_stage \<Rightarrow> rec_value \<Rightarrow> stage_context \<Rightarrow> stage_output" where
  "filter_process fs r ctx =
     (case compiled_matches (fs_condition fs) r (cx_meta ctx) of
        Inl e \<Rightarrow> match_failure (cx_node ctx) e
      | Inr matched \<Rightarrow>
          (let keep = (case fs_action fs of Keep \<Rightarrow> matched | DropMatching \<Rightarrow> \<not> matched)
           in if keep then Pass r else Drop DropFilter))"

text \<open>A stage that reaches neither store nor clock nor metrics; the trait's defaults for the rest.\<close>

definition pure_stage :: "(rec_value \<Rightarrow> stage_context \<Rightarrow> stage_output) \<Rightarrow> engine_label option \<Rightarrow> 's stage" where
  "pure_stage process engine =
     \<lparr>st_process = (\<lambda>env r ctx w. (Some (process r ctx), w)), st_engine = engine, st_uses_state = False,
      st_on_state_error = PolicyNak\<rparr>"

definition filter_build ::
  "texts \<Rightarrow> loader \<Rightarrow> (yaml \<Rightarrow> string + filter_params) \<Rightarrow> node_config \<Rightarrow> config_error + 's stage" where
  "filter_build tx ld from_value node =
     map_sum id (\<lambda>fs. pure_stage (filter_process fs) (compiled_engine_label (fs_condition fs)))
       (filter_from_node tx ld from_value node)"

section \<open>route\<close>

record rule =
  ru_label :: string
  ru_condition :: compiled

record route_stage =
  rt_routes :: "rule list"
  rt_fallback :: fallback
  rt_engine :: "engine_label option"

fun route_compile ::
  "texts \<Rightarrow> loader \<Rightarrow> node_config \<Rightarrow> regex_params \<Rightarrow> route_rule list \<Rightarrow> config_error + rule list" where
  "route_compile tx ld node regex [] = Inr []"
| "route_compile tx ld node regex (rule # rest) =
     (case compiled_condition tx ld node (rule_condition rule)
             (''route '' @ tick (rule_label rule)) regex of
        Inl e \<Rightarrow> Inl e
      | Inr c \<Rightarrow>
          map_sum id (Cons \<lparr>ru_label = rule_label rule, ru_condition = c\<rparr>)
            (route_compile tx ld node regex rest))"

definition route_from_node ::
  "texts \<Rightarrow> loader \<Rightarrow> (yaml \<Rightarrow> string + route_params) \<Rightarrow> (yaml \<Rightarrow> string + regex_params) \<Rightarrow> node_config
     \<Rightarrow> config_error + route_stage" where
  "route_from_node tx ld from_value regex_from_value node =
     (case route_spec_from_node from_value node of
        Inl e \<Rightarrow> Inl e
      | Inr spec \<Rightarrow>
     (case parse_params regex_from_value node of
        Inl e \<Rightarrow> Inl e
      | Inr regex \<Rightarrow>
          map_sum id
            (\<lambda>routes. \<lparr>rt_routes = routes, rt_fallback = spec_fallback spec,
               rt_engine = map_option engine_label_of
                 (worst_engine (List.map_filter (\<lambda>rule. compiled_engine (ru_condition rule)) routes))\<rparr>)
            (route_compile tx ld node regex (spec_routes spec))))"

fun route_loop :: "rule list \<Rightarrow> fallback \<Rightarrow> rec_value \<Rightarrow> stage_context \<Rightarrow> stage_output" where
  "route_loop [] fb r ctx =
     (case fb of FLabel label \<Rightarrow> Routed label r | FDrop \<Rightarrow> Drop RouteDefaultDrop)"
| "route_loop (rule # rest) fb r ctx =
     (case compiled_matches (ru_condition rule) r (cx_meta ctx) of
        Inl e \<Rightarrow> match_failure (cx_node ctx) e
      | Inr matched \<Rightarrow> if matched then Routed (ru_label rule) r else route_loop rest fb r ctx)"

definition route_process :: "route_stage \<Rightarrow> rec_value \<Rightarrow> stage_context \<Rightarrow> stage_output" where
  "route_process rs r ctx = route_loop (rt_routes rs) (rt_fallback rs) r ctx"

definition route_build ::
  "texts \<Rightarrow> loader \<Rightarrow> (yaml \<Rightarrow> string + route_params) \<Rightarrow> (yaml \<Rightarrow> string + regex_params) \<Rightarrow> node_config
     \<Rightarrow> config_error + 's stage" where
  "route_build tx ld from_value regex_from_value node =
     map_sum id (\<lambda>rs. pure_stage (route_process rs) (rt_engine rs))
       (route_from_node tx ld from_value regex_from_value node)"

section \<open>The contract\<close>

interpretation pure_stages: stage_contract "pure_stage process engine"
  by unfold_locales (simp add: pure_stage_def)

section \<open>What a filter does\<close>

lemma match_failure_cases:
  "match_failure node e = Drop RegexLimit \<or> (\<exists>err. match_failure node e = StageFailed err)"
  by (cases e) (simp_all add: match_failure_def)

lemma match_failure_not [simp]:
  "match_failure node e \<noteq> Pass r" "match_failure node e \<noteq> Routed label r" "match_failure node e \<noteq> Drop DropFilter"
  by (cases e; simp add: match_failure_def)+

lemma filter_process_iff:
  "filter_process fs r ctx =
     (case compiled_matches (fs_condition fs) r (cx_meta ctx) of
        Inl e \<Rightarrow> match_failure (cx_node ctx) e
      | Inr b \<Rightarrow> if b = (fs_action fs = Keep) then Pass r else Drop DropFilter)"
  by (auto simp: filter_process_def split: sum.splits action.splits)

section \<open>What a route does\<close>

lemma route_loop_Routed:
  assumes "route_loop rules fb r ctx = Routed label r'"
  shows "r' = r \<and> (label \<in> ru_label ` set rules \<or> fb = FLabel label)"
  using assms
  by (induction rules) (auto split: fallback.splits sum.splits if_splits)

lemma route_compile_labels:
  "route_compile tx ld node regex rules = Inr compiled \<Longrightarrow> map ru_label compiled = map rule_label rules"
  by (induction rules arbitrary: compiled) (auto simp: map_sum_Inr_iff split: sum.splits)

lemma route_from_node_labels:
  assumes "route_from_node tx ld fv rv node = Inr rs"
  obtains spec where "route_spec_from_node fv node = Inr spec"
    and "map ru_label (rt_routes rs) = map rule_label (spec_routes spec)"
    and "rt_fallback rs = spec_fallback spec"
  using assms route_compile_labels
  by (fastforce simp: route_from_node_def map_sum_Inr_iff split: sum.splits)

text \<open>A route hands out only labels its node declares, so the graph has a consumer for each.\<close>

lemma route_process_declared:
  assumes "route_from_node tx ld fv rv node = Inr rs" "route_process rs r ctx = Routed label r'"
  shows "\<exists>spec. route_spec_from_node fv node = Inr spec \<and> label \<in> set (route_labels spec)"
proof -
  from route_from_node_labels [OF assms(1)] obtain spec where
    s: "route_spec_from_node fv node = Inr spec" "map ru_label (rt_routes rs) = map rule_label (spec_routes spec)"
      "rt_fallback rs = spec_fallback spec" .
  have "ru_label ` set (rt_routes rs) = set (map ru_label (rt_routes rs))" by simp
  then have labels: "ru_label ` set (rt_routes rs) = rule_label ` set (spec_routes spec)"
    unfolding s(2) by simp
  from route_loop_Routed [OF assms(2) [unfolded route_process_def]]
  have "label \<in> set (route_labels spec)"
    using labels s(3) by (auto simp: route_labels_def split: fallback.splits)
  with s(1) show ?thesis by blast
qed

end
