(* ===== verification/Dedupe.thy ===== *)
theory Dedupe
  imports Stage Key_Hash
begin

text \<open>
  \<open>crates/stages/src/dedupe.rs\<close>: suppressing repeats of a record inside a window of ingestion time,
  with one state key per content. The parameters arrive deserialized.
\<close>

definition PURPOSE :: string where "PURPOSE = ''dedupe''"

definition TAKEOVER_ATTEMPTS :: nat where "TAKEOVER_ATTEMPTS = 2"

datatype window_text = WText string | WBare u64

fun window_as_text :: "window_text \<Rightarrow> string" where
  "window_as_text (WText t) = t" | "window_as_text (WBare n) = show_u64 n"

record dedupe_params =
  dp_key :: "string list"
  dp_window :: window_text
  dp_on_state_error :: state_policy

record dedupe =
  de_key :: "field_path list"
  de_window :: duration
  de_on_state_error :: state_policy

section \<open>The window\<close>

definition unit_millis :: "string \<Rightarrow> nat option" where
  "unit_millis u =
     (if u = ''ms'' then Some 1 else if u = ''s'' then Some 1000
      else if u = ''m'' then Some 60000 else if u = ''h'' then Some 3600000 else None)"

text \<open>\<open><integer><ms|s|m|h>\<close>, at least one millisecond; the duration in nanoseconds.\<close>

definition parse_window :: "string \<Rightarrow> string + duration" where
  "parse_window text =
     (let digits = takeWhile is_ascii_digit text; rest = drop (length digits) text in
      case parse_u64 digits of
        None \<Rightarrow> Inl ''write `<integer><ms|s|m|h>`, e.g. `10s`''
      | Some n \<Rightarrow>
          (case unit_millis rest of
             None \<Rightarrow>
               (if rest = [] then Inl ''needs a unit: `ms`, `s`, `m` or `h`''
                else Inl (''unknown unit '' @ tick rest @ ''; use `ms`, `s`, `m` or `h`''))
           | Some millis \<Rightarrow>
               (if 2 ^ 64 \<le> unat n * millis then Inl ''too large''
                else if unat n * millis < 1 then Inl ''must be at least 1ms''
                else Inr (unat n * millis * 1000000))))"

definition window_nanos :: "duration \<Rightarrow> u64" where
  "window_nanos w = of_nat (min w (2 ^ 64 - 1))"

definition dedupe_from_node ::
  "(yaml \<Rightarrow> string + dedupe_params) \<Rightarrow> node_config \<Rightarrow> config_error + dedupe" where
  "dedupe_from_node from_value node =
     (case parse_params from_value node of
        Inl e \<Rightarrow> Inl e
      | Inr params \<Rightarrow>
     (case parse_key_fields node (dp_key params) of
        Inl e \<Rightarrow> Inl e
      | Inr key \<Rightarrow>
          (let text = window_as_text (dp_window params) in
           map_sum (\<lambda>e. invalid_params node (''window '' @ tick text @ '': '' @ e))
             (\<lambda>window. \<lparr>de_key = key, de_window = window, de_on_state_error = dp_on_state_error params\<rparr>)
             (parse_window text))))"

section \<open>Holders and verdicts\<close>

record holder =
  ho_id :: record_id
  ho_time :: u64

datatype verdict = SameRecord | OlderThanHolder | Repeat | WindowOver | Unreadable

fun settle :: "verdict \<Rightarrow> rec_value \<Rightarrow> stage_output" where
  "settle Repeat r = Drop DropDedupe"
| "settle SameRecord r = Pass r"
| "settle OlderThanHolder r = Pass r"
| "settle Unreadable r = Pass r"
| "settle WindowOver r = Pass r"

definition holder_bytes :: "holder \<Rightarrow> string" where
  "holder_bytes h = show_u64 (ho_id h) @ '' '' @ show_u64 (ho_time h)"

text \<open>\<open>parse\<close>. A value that is not UTF-8 has no two halves that parse as integers either.\<close>

definition holder_parse :: "string \<Rightarrow> holder option" where
  "holder_parse v =
     (case split_once (CHR '' '') v of
        None \<Rightarrow> None
      | Some (a, b) \<Rightarrow>
          (case (parse_u64 a, parse_u64 b) of
             (Some i, Some t) \<Rightarrow> Some \<lparr>ho_id = i, ho_time = t\<rparr>
           | _ \<Rightarrow> None))"

definition against :: "holder \<Rightarrow> holder \<Rightarrow> duration \<Rightarrow> verdict" where
  "against incoming h window =
     (if ho_id incoming = ho_id h then SameRecord
      else if ho_time incoming < ho_time h then OlderThanHolder
      else if ho_time incoming - ho_time h < window_nanos window then Repeat
      else WindowOver)"

definition against_value :: "holder \<Rightarrow> string \<Rightarrow> duration \<Rightarrow> verdict" where
  "against_value incoming v window =
     (case holder_parse v of None \<Rightarrow> Unreadable | Some h \<Rightarrow> against incoming h window)"

section \<open>Processing\<close>

definition dedupe_state_key :: "texts \<Rightarrow> dedupe \<Rightarrow> rec_value \<Rightarrow> meta \<Rightarrow> string" where
  "dedupe_state_key tx de r m =
     PURPOSE @ '':'' @ hex_digits 16 (unat (hash_key_fields tx (de_key de) r m))"

fun takeover ::
  "nat \<Rightarrow> 's environment \<Rightarrow> state_handle \<Rightarrow> string \<Rightarrow> holder \<Rightarrow> duration \<Rightarrow> rec_value \<Rightarrow> string
     \<Rightarrow> 's port \<Rightarrow> stage_output \<times> 's port" where
  "takeover 0 env h key incoming window r current w = (settle WindowOver r, w)"
| "takeover (Suc n) env h key incoming window r current w =
     (let verdict = against_value incoming current window in
      if verdict \<noteq> WindowOver then (settle verdict r, w)
      else case state_compare_and_set env h key current (holder_bytes incoming) window w of
          (Inr None, w) \<Rightarrow> (Pass r, w)
        | (Inr (Some current), w) \<Rightarrow> takeover n env h key incoming window r current w
        | (Inl e, w) \<Rightarrow> (StoreFailed r e, w))"

definition incoming_of :: "meta \<Rightarrow> holder" where
  "incoming_of m = \<lparr>ho_id = record_id m, ho_time = unix_nanos (ingestion_time m)\<rparr>"

definition dedupe_process ::
  "texts \<Rightarrow> dedupe \<Rightarrow> 's environment \<Rightarrow> rec_value \<Rightarrow> stage_context \<Rightarrow> 's port \<Rightarrow> stage_output \<times> 's port" where
  "dedupe_process tx de env r ctx w =
     (let incoming = incoming_of (cx_meta ctx);
          key = dedupe_state_key tx de r (cx_meta ctx)
      in case state_set_nx env (cx_state ctx) key (holder_bytes incoming) (de_window de) w of
           (Inl e, w) \<Rightarrow> (StoreFailed r e, w)
         | (Inr None, w) \<Rightarrow> (Pass r, w)
         | (Inr (Some existing), w) \<Rightarrow>
             takeover TAKEOVER_ATTEMPTS env (cx_state ctx) key incoming (de_window de) r existing w)"

definition dedupe_stage :: "texts \<Rightarrow> dedupe \<Rightarrow> 's stage" where
  "dedupe_stage tx de =
     \<lparr>st_process = (\<lambda>env r ctx w. case dedupe_process tx de env r ctx w of (out, w) \<Rightarrow> (Some out, w)),
      st_engine = None, st_uses_state = True, st_on_state_error = de_on_state_error de\<rparr>"

definition dedupe_build ::
  "texts \<Rightarrow> (yaml \<Rightarrow> string + dedupe_params) \<Rightarrow> node_config \<Rightarrow> config_error + 's stage" where
  "dedupe_build tx from_value node = map_sum id (dedupe_stage tx) (dedupe_from_node from_value node)"

section \<open>The contract\<close>

lemma takeover_owned: "takeover n env h key incoming window r current w = (out, w') \<Longrightarrow> appends_owned w w'"
proof (induction n env h key incoming window r current w rule: takeover.induct)
  case (2 n env h key incoming window r current w)
  show ?case
  proof (cases "against_value incoming current window = WindowOver")
    case True
    obtain res w1 where c: "state_compare_and_set env h key current (holder_bytes incoming) window w = (res, w1)"
      by force
    have o: "appends_owned w w1" using c by (auto simp: state_compare_and_set_def intro: state_timed_owned)
    show ?thesis
    proof (cases res)
      case (Inl e)
      with 2(2) True c o show ?thesis by auto
    next
      case (Inr a)
      show ?thesis
      proof (cases a)
        case None
        with 2(2) True c o Inr show ?thesis by auto
      next
        case (Some v)
        have "takeover n env h key incoming window r v w1 = (out, w')" using 2(2) True c Inr Some by simp
        from 2(1) [OF refl _ c [symmetric] Inr Some this] True o show ?thesis
          by (auto intro: appends_owned_trans)
      qed
    qed
  qed (use 2(2) in simp)
qed simp

lemma dedupe_process_owned: "dedupe_process tx de env r ctx w = (out, w') \<Longrightarrow> appends_owned w w'"
  by (auto simp: dedupe_process_def state_set_nx_def Let_def
      split: prod.splits sum.splits option.splits
      dest!: state_timed_owned takeover_owned intro: appends_owned_trans)

interpretation dedupe_contract: stage_contract "dedupe_stage tx de"
  by unfold_locales (auto simp: dedupe_stage_def split: prod.splits intro: dedupe_process_owned)

section \<open>Windows and holders\<close>

lemma unit_millis_bounds: "unit_millis u = Some k \<Longrightarrow> 1 \<le> k \<and> k \<le> 3600000"
  by (auto simp: unit_millis_def split: if_splits)

lemma parse_window_Inr:
  assumes "parse_window text = Inr w"
  shows "\<exists>n k. parse_u64 (takeWhile is_ascii_digit text) = Some n \<and>
      unit_millis (dropWhile is_ascii_digit text) = Some k \<and> w = unat n * k * 1000000 \<and>
      1000000 \<le> w \<and> w < 2 ^ 64 * 1000000"
proof -
  have drop: "drop (length (takeWhile is_ascii_digit text)) text = dropWhile is_ascii_digit text"
    by (metis dropWhile_eq_drop)
  from assms obtain n k where nk: "parse_u64 (takeWhile is_ascii_digit text) = Some n"
    "unit_millis (dropWhile is_ascii_digit text) = Some k"
    and b: "\<not> 2 ^ 64 \<le> unat n * k" "\<not> unat n * k < 1" "w = unat n * k * 1000000"
    unfolding parse_window_def Let_def drop by (auto split: option.splits if_splits)
  have "unat n * k < 2 ^ 64" using b(1) by simp
  then have "w < 2 ^ 64 * 1000000" unfolding b(3) by (rule mult_less_mono1) simp
  moreover have "1000000 \<le> w" using b(2) unfolding b(3) by simp
  ultimately show ?thesis using nk b(3) by blast
qed

text \<open>A window as written: the digits of a number and one of the four units.\<close>

lemma not_digits:
  "\<not> is_ascii_digit (CHR ''m'')" "\<not> is_ascii_digit (CHR ''s'')" "\<not> is_ascii_digit (CHR ''h'')"
  "\<not> is_ascii_digit (CHR '' '')"
  by code_simp+

lemma parse_window_written:
  assumes "unit_millis u = Some k" "unat n * k < 2 ^ 64" "1 \<le> unat n"
  shows "parse_window (show_u64 n @ u) = Inr (unat n * k * 1000000)"
proof -
  have digits: "\<forall>c \<in> set (show_u64 n). is_ascii_digit c" by (meson not_in_show_u64)
  have u: "u = [] \<or> \<not> is_ascii_digit (hd u)"
    using assms(1) not_digits by (auto simp: unit_millis_def split: if_splits)
  then have "takeWhile is_ascii_digit u = []" by (cases u) auto
  with digits have "takeWhile is_ascii_digit (show_u64 n @ u) = show_u64 n"
    by (simp add: takeWhile_append2)
  moreover have "0 < k" using unit_millis_bounds [OF assms(1)] by simp
  then have "\<not> unat n * k < 1" using assms(3) by simp
  ultimately show ?thesis using assms(1,2) by (simp add: parse_window_def)
qed

lemma holder_parse_bytes [simp]: "holder_parse (holder_bytes h) = Some h"
proof -
  have "CHR '' '' \<notin> set (show_u64 (ho_id h))" by (rule not_in_show_u64) (rule not_digits)
  from split_once_append [OF this, of "show_u64 (ho_time h)"]
  show ?thesis by (simp add: holder_parse_def holder_bytes_def)
qed

text \<open>The window in ingestion time: a repeat is a different record at most \<open>window\<close> younger.\<close>

lemma against_Repeat:
  "against incoming h window = Repeat \<longleftrightarrow>
     ho_id incoming \<noteq> ho_id h \<and> ho_time h \<le> ho_time incoming \<and>
     unat (ho_time incoming) - unat (ho_time h) < min window (2 ^ 64 - 1)"
proof -
  have "unat (of_nat (min window (2 ^ 64 - 1)) :: u64) = min window (2 ^ 64 - 1)"
    by (simp add: unsigned_of_nat take_bit_nat_eq_self)
  then have "ho_time incoming - ho_time h < window_nanos window \<longleftrightarrow>
      unat (ho_time incoming) - unat (ho_time h) < min window (2 ^ 64 - 1)"
    if "ho_time h \<le> ho_time incoming"
    using that by (simp add: window_nanos_def word_less_nat_alt unat_sub)
  then show ?thesis by (auto simp: against_def linorder_not_less)
qed

section \<open>What dedupe does\<close>

text \<open>Whatever the store does, a record is dropped only against a holder the store answered with.\<close>

definition answered :: "'s store_ops \<Rightarrow> string \<Rightarrow> string \<Rightarrow> duration \<Rightarrow> string \<Rightarrow> bool" where
  "answered ops key bytes window v \<longleftrightarrow>
     (\<exists>s s'. so_set_nx ops key bytes window s = (Inr (Some v), s')) \<or>
     (\<exists>x s s'. so_compare_and_set ops key x bytes window s = (Inr (Some v), s'))"

lemma settle_Drop: "settle verdict r = Drop reason \<longleftrightarrow> verdict = Repeat \<and> reason = DropDedupe"
  by (cases verdict) auto

lemma takeover_Drop:
  "takeover n env h key incoming window r current w = (Drop reason, w') \<Longrightarrow>
     answered (en_ops env) (state_key h key) (holder_bytes incoming) window current \<Longrightarrow>
     reason = DropDedupe \<and>
     (\<exists>v. answered (en_ops env) (state_key h key) (holder_bytes incoming) window v \<and>
        against_value incoming v window = Repeat)"
proof (induction n env h key incoming window r current w rule: takeover.induct)
  case (2 n env h key incoming window r current w)
  show ?case
  proof (cases "against_value incoming current window = WindowOver")
    case True
    obtain res w1 where c: "state_compare_and_set env h key current (holder_bytes incoming) window w = (res, w1)"
      by force
    with 2(2) True obtain v where res: "res = Inr (Some v)"
      and rec: "takeover n env h key incoming window r v w1 = (Drop reason, w')"
      by (auto split: sum.splits option.splits)
    from state_timed_Inr [of env h "so_compare_and_set (en_ops env) (state_key h key) current
        (holder_bytes incoming) window" w] c [unfolded res state_compare_and_set_def]
    have "answered (en_ops env) (state_key h key) (holder_bytes incoming) window v"
      unfolding answered_def by blast
    from 2(1) [OF refl _ c [symmetric] res refl rec this] True show ?thesis by simp
  next
    case False
    with 2(2) have "settle (against_value incoming current window) r = Drop reason" by simp
    with 2(3) show ?thesis by (auto simp: settle_Drop)
  qed
qed simp

lemma dedupe_Drop:
  assumes "dedupe_process tx de env r ctx w = (Drop reason, w')"
  shows "reason = DropDedupe \<and>
    (\<exists>v. answered (en_ops env) (state_key (cx_state ctx) (dedupe_state_key tx de r (cx_meta ctx)))
        (holder_bytes (incoming_of (cx_meta ctx))) (de_window de) v \<and>
      against_value (incoming_of (cx_meta ctx)) v (de_window de) = Repeat)"
proof -
  obtain res w1 where c: "state_set_nx env (cx_state ctx) (dedupe_state_key tx de r (cx_meta ctx))
      (holder_bytes (incoming_of (cx_meta ctx))) (de_window de) w = (res, w1)" by force
  with assms obtain v where res: "res = Inr (Some v)"
    and rec: "takeover TAKEOVER_ATTEMPTS env (cx_state ctx) (dedupe_state_key tx de r (cx_meta ctx))
      (incoming_of (cx_meta ctx)) (de_window de) r v w1 = (Drop reason, w')"
    by (auto simp: dedupe_process_def Let_def split: sum.splits option.splits)
  from state_timed_Inr [of env "cx_state ctx" "so_set_nx (en_ops env) (state_key (cx_state ctx)
      (dedupe_state_key tx de r (cx_meta ctx))) (holder_bytes (incoming_of (cx_meta ctx))) (de_window de)" w]
    c [unfolded res state_set_nx_def]
  have "answered (en_ops env) (state_key (cx_state ctx) (dedupe_state_key tx de r (cx_meta ctx)))
      (holder_bytes (incoming_of (cx_meta ctx))) (de_window de) v"
    unfolding answered_def by blast
  from takeover_Drop [OF rec this] show ?thesis .
qed

text \<open>On a store that keeps its contract, with no other worker between two of its operations: what
  the stage answers and what the key holds afterwards.\<close>

context state_store
begin

lemma takeover_alone:
  assumes "en_ops env = ops" "up (w_store w)" "sh_declared h" "view (w_store w) (state_key h key) = Some x"
    and "takeover (Suc n) env h key incoming window r x w = (out, w')" "0 < window"
  shows "out = settle (against_value incoming x window) r \<and> up (w_store w') \<and>
    view (w_store w') =
      (if against_value incoming x window = WindowOver
       then written (state_key h key) (holder_bytes incoming) window (view (w_store w))
       else view (w_store w))"
proof (cases "against_value incoming x window = WindowOver")
  case True
  obtain res s where c: "so_compare_and_set ops (state_key h key) x (holder_bytes incoming) window (w_store w) = (res, s)"
    by force
  from compare_and_set_up [OF assms(2,6) c] assms(4)
  have cas: "up s" "res = Inr None" "view s = written (state_key h key) (holder_bytes incoming) window (view (w_store w))"
    by auto
  from state_timed_result [OF assms(3), where op =
      "so_compare_and_set ops (state_key h key) x (holder_bytes incoming) window", OF c] obtain w1 where
    w1: "state_compare_and_set env h key x (holder_bytes incoming) window w = (res, w1)" "w_store w1 = s"
    unfolding state_compare_and_set_def assms(1) by blast
  with assms(5) True cas show ?thesis by auto
qed (use assms in auto)

lemma dedupe_decides:
  assumes "en_ops env = ops" "up (w_store w)" "sh_declared (cx_state ctx)"
    and "dedupe_process tx de env r ctx w = (out, w')" "0 < de_window de"
  defines "key \<equiv> state_key (cx_state ctx) (dedupe_state_key tx de r (cx_meta ctx))"
    and "incoming \<equiv> incoming_of (cx_meta ctx)"
  shows "up (w_store w') \<and>
    (case view (w_store w) key of
       None \<Rightarrow> out = Pass r \<and>
         view (w_store w') = written key (holder_bytes incoming) (de_window de) (view (w_store w))
     | Some x \<Rightarrow> out = settle (against_value incoming x (de_window de)) r \<and>
         view (w_store w') =
           (if against_value incoming x (de_window de) = WindowOver
            then written key (holder_bytes incoming) (de_window de) (view (w_store w))
            else view (w_store w)))"
proof -
  obtain res s where c: "so_set_nx ops key (holder_bytes incoming) (de_window de) (w_store w) = (res, s)" by force
  from set_nx_up [OF assms(2,5) c] have nx: "res = Inr (view (w_store w) key)" "up s"
    "view s = (if view (w_store w) key = None
       then written key (holder_bytes incoming) (de_window de) (view (w_store w)) else view (w_store w))" by auto
  from state_timed_result [OF assms(3), where op =
      "so_set_nx ops key (holder_bytes incoming) (de_window de)", OF c] obtain w1 where
    w1: "state_set_nx env (cx_state ctx) (dedupe_state_key tx de r (cx_meta ctx)) (holder_bytes incoming)
      (de_window de) w = (res, w1)" "w_store w1 = s"
    unfolding state_set_nx_def assms(1) key_def by blast
  show ?thesis
  proof (cases "view (w_store w) key")
    case None
    with assms(4) w1 nx show ?thesis
      by (auto simp: dedupe_process_def Let_def incoming_def [symmetric])
  next
    case (Some x)
    have "takeover (Suc (Suc 0)) env (cx_state ctx) (dedupe_state_key tx de r (cx_meta ctx)) incoming
        (de_window de) r x w1 = (out, w')"
      using assms(4) w1 nx Some
      by (simp add: dedupe_process_def Let_def TAKEOVER_ATTEMPTS_def numeral_2_eq_2 flip: incoming_def)
    moreover have "view (w_store w1) (state_key (cx_state ctx) (dedupe_state_key tx de r (cx_meta ctx))) = Some x"
      using w1(2) nx(3) Some by (simp flip: key_def)
    ultimately show ?thesis
      using takeover_alone [OF assms(1) _ assms(3), of w1 "dedupe_state_key tx de r (cx_meta ctx)" x "Suc 0" incoming
          "de_window de" r out w'] w1(2) nx(2,3) Some assms(5)
      by (simp flip: key_def)
  qed
qed

end

end
