(* ===== verification/Sample.thy ===== *)
theory Sample
  imports Stage Key_Hash
begin

text \<open>
  \<open>crates/stages/src/sample.rs\<close>: keeping a share of the records: at random by record id, exactly one
  in \<open>n\<close> by a shared count, or consistently by key. The parameters arrive deserialized.
\<close>

record sample_params =
  sa_mode :: "string option"
  sa_percent :: "f64 option"
  sa_n :: "u64 option"
  sa_key :: "string list option"
  sa_on_state_error :: "state_policy option"

text \<open>\<open>Share\<close> is its threshold.\<close>

datatype mode =
    RandomMode u64 u64
  | EveryNth int state_policy
  | Consistent u64 "field_path list"

text \<open>The double \<open>100\<close>, and \<open>2 ^ 64\<close> as \<open>2f64.powi(64)\<close> gives it.\<close>

definition POW_64 :: f64 where "POW_64 = 0x43f0000000000000"

definition share_from_percent :: "f64 \<Rightarrow> u64" where
  "share_from_percent percent = f64_as_u64 (f64_div (f64_mul POW_64 percent) (f64_of_int 100))"

definition share_keeps :: "u64 \<Rightarrow> u64 \<Rightarrow> bool" where
  "share_keeps threshold hash \<longleftrightarrow> hash \<le> threshold"

definition MODE_FIELDS :: "(string \<times> string list) list" where
  "MODE_FIELDS =
     [(''random'', [''percent'']), (''every_nth'', [''n'', ''on_state_error'']),
      (''consistent'', [''percent'', ''key''])]"

definition COUNT_KEY :: string where "COUNT_KEY = ''sample:count''"

definition COUNT_TTL :: duration where "COUNT_TTL = 24 * 60 * 60 * 1000000000"

definition modes :: string where
  "modes =
     concat (map (\<lambda>(i, name, fs).
         if i = 0 then tick name
         else if i = length MODE_FIELDS - 1 then '' or '' @ tick name
         else '', '' @ tick name) (enumerate 0 MODE_FIELDS))"

definition parse_percent :: "texts \<Rightarrow> node_config \<Rightarrow> f64 option \<Rightarrow> config_error + u64" where
  "parse_percent tx node percent =
     (case percent of
        Some p \<Rightarrow>
          (if f64_partial_cmp p (f64_of_int 0) = Some Greater
              \<and> (f64_partial_cmp p (f64_of_int 100) = Some Less \<or> f64_partial_cmp p (f64_of_int 100) = Some Equal)
           then Inr (share_from_percent p)
           else Inl (invalid_params node
             (''`percent` must be above 0 and at most 100, not '' @ tx_float tx p)))
      | None \<Rightarrow> Inl (invalid_params node
          ''`percent` is required: the share kept, above 0 and at most 100''))"

text \<open>The first field that is given and that the mode does not take, with the modes that do.\<close>

definition present_fields :: "sample_params \<Rightarrow> (string \<times> bool) list" where
  "present_fields p =
     [(''percent'', sa_percent p \<noteq> None), (''n'', sa_n p \<noteq> None), (''key'', sa_key p \<noteq> None),
      (''on_state_error'', sa_on_state_error p \<noteq> None)]"

definition misplaced :: "string list \<Rightarrow> sample_params \<Rightarrow> string option" where
  "misplaced allowed p =
     map_option fst (List.find (\<lambda>(field, present). present \<and> field \<notin> set allowed) (present_fields p))"

definition owners :: "string \<Rightarrow> string" where
  "owners field =
     join '' or '' (map (\<lambda>(name, fs). ''`mode: '' @ name @ ''`'')
       (filter (\<lambda>(name, fs). field \<in> set fs) MODE_FIELDS))"

definition sample_mode :: "texts \<Rightarrow> node_config \<Rightarrow> sample_params \<Rightarrow> string \<Rightarrow> config_error + mode" where
  "sample_mode tx node p mode =
     (if mode = ''random'' then
        map_sum id (\<lambda>share. RandomMode share (fnv1a64 (node_id node))) (parse_percent tx node (sa_percent p))
      else if mode = ''every_nth'' then
        (case sa_n p of
           Some n \<Rightarrow>
             (if 1 \<le> n then
                (if unat n < 2 ^ 63 then
                   Inr (EveryNth (uint n) (case sa_on_state_error p of Some s \<Rightarrow> s | None \<Rightarrow> PolicyPass))
                 else Inl (invalid_params node ''`n` is too large''))
              else Inl (invalid_params node ''`n` must be at least 1''))
         | None \<Rightarrow> Inl (invalid_params node ''`n` is required: keep one record in n''))
      else if mode = ''consistent'' then
        (case parse_percent tx node (sa_percent p) of
           Inl e \<Rightarrow> Inl e
         | Inr share \<Rightarrow>
             (case sa_key p of
                None \<Rightarrow> Inl (invalid_params node
                  ''`key` is required: the field paths records are kept or dropped together by'')
              | Some key \<Rightarrow> map_sum id (Consistent share) (parse_key_fields node key)))
      else Inl (invalid_params node
        (''mode '' @ tick mode @ '' is listed but not built; this is a bug in the sample stage'')))"

definition sample_from_node ::
  "texts \<Rightarrow> (yaml \<Rightarrow> string + sample_params) \<Rightarrow> node_config \<Rightarrow> config_error + mode" where
  "sample_from_node tx from_value node =
     (case parse_params from_value node of
        Inl e \<Rightarrow> Inl e
      | Inr p \<Rightarrow>
     (case sa_mode p of
        None \<Rightarrow> Inl (invalid_params node (''`mode` is required: '' @ modes))
      | Some mode \<Rightarrow>
     (case map_of MODE_FIELDS mode of
        None \<Rightarrow> Inl (invalid_params node (''unknown mode '' @ tick mode @ '': use '' @ modes))
      | Some allowed \<Rightarrow>
     (case misplaced allowed p of
        Some field \<Rightarrow>
          Inl (invalid_params node
            (tick field @ '' belongs to '' @ owners field @ '', not `mode: '' @ mode @ ''`''))
      | None \<Rightarrow> sample_mode tx node p mode))))"

text \<open>\<open>i64::wrapping_sub(1)\<close>.\<close>

definition wrapping_dec :: "int \<Rightarrow> int" where
  "wrapping_dec i = (if i = - (2 ^ 63) then 2 ^ 63 - 1 else i - 1)"

definition sample_verdict :: "bool \<Rightarrow> rec_value \<Rightarrow> stage_output" where
  "sample_verdict keep r = (if keep then Pass r else Drop DropSample)"

definition sample_process ::
  "texts \<Rightarrow> mode \<Rightarrow> 's environment \<Rightarrow> rec_value \<Rightarrow> stage_context \<Rightarrow> 's port \<Rightarrow> stage_output \<times> 's port" where
  "sample_process tx mode env r ctx w =
     (case mode of
        RandomMode share salt \<Rightarrow>
          (sample_verdict (share_keeps share (mix (record_id (cx_meta ctx) XOR salt))) r, w)
      | EveryNth n policy \<Rightarrow>
          (case state_incr env (cx_state ctx) COUNT_KEY 1 COUNT_TTL w of
             (Inl e, w) \<Rightarrow> (StoreFailed r e, w)
           | (Inr i, w) \<Rightarrow> (sample_verdict (wrapping_dec i mod n = 0) r, w))
      | Consistent share key \<Rightarrow>
          (sample_verdict (share_keeps share (mix (hash_key_fields tx key r (cx_meta ctx)))) r, w))"

definition sample_uses_state :: "mode \<Rightarrow> bool" where
  "sample_uses_state mode = (case mode of EveryNth n policy \<Rightarrow> True | _ \<Rightarrow> False)"

definition sample_policy :: "mode \<Rightarrow> state_policy" where
  "sample_policy mode = (case mode of EveryNth n policy \<Rightarrow> policy | _ \<Rightarrow> PolicyPass)"

definition sample_stage :: "texts \<Rightarrow> mode \<Rightarrow> 's stage" where
  "sample_stage tx mode =
     \<lparr>st_process = (\<lambda>env r ctx w. case sample_process tx mode env r ctx w of (out, w) \<Rightarrow> (Some out, w)),
      st_engine = None, st_uses_state = sample_uses_state mode, st_on_state_error = sample_policy mode\<rparr>"

definition sample_build ::
  "texts \<Rightarrow> (yaml \<Rightarrow> string + sample_params) \<Rightarrow> node_config \<Rightarrow> config_error + 's stage" where
  "sample_build tx from_value node = map_sum id (sample_stage tx) (sample_from_node tx from_value node)"

section \<open>The contract\<close>

lemma sample_process_owned: "sample_process tx mode env r ctx w = (out, w') \<Longrightarrow> appends_owned w w'"
  by (auto simp: sample_process_def state_incr_def split: mode.splits prod.splits sum.splits
      dest!: state_timed_owned)

interpretation sample_contract: stage_contract "sample_stage tx mode"
  by unfold_locales (auto simp: sample_stage_def split: prod.splits intro: sample_process_owned)

section \<open>Loading\<close>

text \<open>The doubles of \<open>percent: 100\<close>, and \<open>2 ^ 64 * 100 / 100\<close> on them.\<close>

lemma f64_hundred: "f64_of_int 100 = 0x4059000000000000"
proof -
  have "round_bits 100 1 = 1028 * 2 ^ 52 + 100 * 2 ^ 46"
    using round_bits_exact [of 100 "100 * 2 ^ 46" 1028 1] by simp
  then show ?thesis by (simp add: f64_of_int_def f64_make_def)
qed
lemma f64_parts: "f64_exp 0x4059000000000000 = 1029" "f64_man 0x4059000000000000 = 9 * 2 ^ 48"
  "f64_exp 0x43f0000000000000 = 1087" "f64_man 0x43f0000000000000 = 0"
  "f64_exp 0x4459000000000000 = 1093" "f64_man 0x4459000000000000 = 9 * 2 ^ 48"
  by (simp_all add: f64_exp_def f64_man_def)

lemma f64_signs: "\<not> f64_neg 0x4059000000000000" "\<not> f64_neg 0x43f0000000000000" "\<not> f64_neg 0x4459000000000000"
  by (simp_all add: f64_neg_def)

lemma f64_mags: "f64_mag 0x4059000000000000 = 100 * 2 ^ 46 * 2 ^ 1028"
  "f64_mag 0x43f0000000000000 = 2 ^ 52 * 2 ^ 1086" "f64_mag 0x4459000000000000 = 100 * 2 ^ 46 * 2 ^ 1092"
  by (simp_all add: f64_mag_def f64_parts)

lemma f64_mul_hundred: "f64_mul 0x43f0000000000000 0x4059000000000000 = 0x4459000000000000"
proof -
  have "round_bits (2 ^ 52 * 2 ^ 1086 * (100 * 2 ^ 46 * 2 ^ 1028)) (2 ^ 1074 * 2 ^ 1074) = 1092 * 2 ^ 52 + 100 * 2 ^ 46"
    using round_bits_exact [of "2 ^ 52 * 2 ^ 1086 * (100 * 2 ^ 46 * 2 ^ 1028)" "100 * 2 ^ 46" 1092 "2 ^ 1074 * 2 ^ 1074"]
    by simp
  then show ?thesis
    by (simp only: f64_mul_def f64_mags f64_nan_def f64_inf_def f64_parts f64_signs Let_def) (simp add: f64_make_def)
qed

lemma f64_div_hundred: "f64_div 0x4459000000000000 0x4059000000000000 = 0x43f0000000000000"
proof -
  have "round_bits (100 * 2 ^ 46 * 2 ^ 1092) (100 * 2 ^ 46 * 2 ^ 1028) = 1086 * 2 ^ 52 + 2 ^ 52"
    using round_bits_exact [of "100 * 2 ^ 46 * 2 ^ 1092" "2 ^ 52" 1086 "100 * 2 ^ 46 * 2 ^ 1028"]
    by simp
  then show ?thesis
    by (simp only: f64_div_def f64_mags f64_nan_def f64_inf_def f64_parts f64_signs Let_def) (simp add: f64_make_def)
qed
lemma f64_as_all: "f64_as_u64 0x43f0000000000000 = - 1"
  by (simp only: f64_as_u64_def f64_mags f64_nan_def f64_parts f64_signs) simp
lemma share_of_all: "share_from_percent (f64_of_int 100) = - 1"
  by (simp only: share_from_percent_def f64_hundred POW_64_def f64_mul_hundred f64_div_hundred f64_as_all)

lemma parse_percent_Inr:
  "parse_percent tx node percent = Inr share \<Longrightarrow>
     \<exists>p. percent = Some p \<and> share = share_from_percent p \<and>
       f64_partial_cmp p (f64_of_int 0) = Some Greater \<and> f64_partial_cmp p (f64_of_int 100) \<noteq> Some Greater"
  by (auto simp: parse_percent_def simp del: cmp_simps split: option.splits if_splits)

lemma sample_mode_EveryNth:
  "sample_mode tx node p mode = Inr (EveryNth n policy) \<Longrightarrow>
     \<exists>w. sa_n p = Some w \<and> n = uint w \<and> 1 \<le> w \<and> unat w < 2 ^ 63"
  by (simp only: sample_mode_def map_sum_Inr_iff split: if_splits option.splits sum.splits) auto

lemma sample_from_node_EveryNth:
  assumes "sample_from_node tx fv node = Inr (EveryNth n policy)"
  shows "1 \<le> n \<and> n < 2 ^ 63"
proof -
  obtain p mode where "sample_mode tx node p mode = Inr (EveryNth n policy)"
    using assms by (auto simp only: sample_from_node_def split: sum.splits option.splits)
  from sample_mode_EveryNth [OF this] obtain w :: u64 where w: "n = uint w" "1 \<le> w" "unat w < 2 ^ 63" by blast
  have "1 \<le> uint w" using w(2) by (simp add: word_le_def)
  moreover have "uint w < 2 ^ 63" using w(3) by (metis of_nat_less_numeral_power_cancel_iff uint_nat)
  ultimately show ?thesis using w(1) by simp
qed

section \<open>Every nth\<close>

lemma COUNT_TTL_positive: "0 < COUNT_TTL"
  by (simp add: COUNT_TTL_def)

text \<open>What the store counts for a node and tenant: the records it has seen.\<close>

definition counts :: "('s \<Rightarrow> string \<Rightarrow> string option) \<Rightarrow> stage_context \<Rightarrow> 's port \<Rightarrow> int \<Rightarrow> bool" where
  "counts view ctx w c \<longleftrightarrow>
     (let held = view (w_store w) (state_key (cx_state ctx) COUNT_KEY) in
      held = Some (show_int c) \<or> held = None \<and> c = 0)"

fun sample_run ::
  "texts \<Rightarrow> mode \<Rightarrow> 's environment \<Rightarrow> stage_context \<Rightarrow> rec_value list \<Rightarrow> 's port \<Rightarrow> stage_output list \<times> 's port" where
  "sample_run tx mode env ctx [] w = ([], w)"
| "sample_run tx mode env ctx (r # rs) w =
     (case sample_process tx mode env r ctx w of
        (out, w) \<Rightarrow> (case sample_run tx mode env ctx rs w of (outs, w) \<Rightarrow> (out # outs, w)))"

context state_store
begin

lemma sample_counts:
  assumes "en_ops env = ops" "up (w_store w)" "sh_declared (cx_state ctx)"
    and "counts view ctx w c" "0 \<le> c" "c + 1 < 2 ^ 63"
    and "sample_process tx (EveryNth n policy) env r ctx w = (out, w')"
  shows "out = sample_verdict (c mod n = 0) r \<and> up (w_store w') \<and> counts view ctx w' (c + 1)"
proof -
  obtain res s where c: "so_incr ops (state_key (cx_state ctx) COUNT_KEY) 1 COUNT_TTL (w_store w) = (res, s)"
    by force
  have held: "view (w_store w) (state_key (cx_state ctx) COUNT_KEY) = Some (show_int c)
      \<or> view (w_store w) (state_key (cx_state ctx) COUNT_KEY) = None \<and> c = 0"
    using assms(4) by (simp add: counts_def Let_def)
  from incr_counts [OF assms(2) held assms(5,6) COUNT_TTL_positive c]
  have r: "res = Inr (c + 1)" "up s"
    "view s (state_key (cx_state ctx) COUNT_KEY) = Some (show_int (c + 1))" by auto
  from state_timed_result [OF assms(3), where op =
      "so_incr ops (state_key (cx_state ctx) COUNT_KEY) 1 COUNT_TTL", OF c] obtain w1 where
    "state_incr env (cx_state ctx) COUNT_KEY 1 COUNT_TTL w = (res, w1)" "w_store w1 = s"
    unfolding state_incr_def assms(1) by blast
  moreover have "wrapping_dec (c + 1) = c" using assms(5) by (simp add: wrapping_dec_def)
  ultimately show ?thesis using assms(7) r by (auto simp: sample_process_def counts_def)
qed

lemma sample_run_counts:
  assumes "en_ops env = ops" "up (w_store w)" "sh_declared (cx_state ctx)"
    and "counts view ctx w c" "0 \<le> c" "c + int (length rs) < 2 ^ 63"
    and "sample_run tx (EveryNth n policy) env ctx rs w = (outs, w')"
  shows "outs = map (\<lambda>(i, r). sample_verdict ((c + int i) mod n = 0) r) (enumerate 0 rs)"
  using assms
proof (induction rs arbitrary: c w outs)
  case (Cons r rs)
  obtain out w1 where p: "sample_process tx (EveryNth n policy) env r ctx w = (out, w1)" by force
  obtain outs1 w2 where q: "sample_run tx (EveryNth n policy) env ctx rs w1 = (outs1, w2)" by force
  from sample_counts [OF Cons.prems(1-5) _ p] Cons.prems(6)
  have s: "out = sample_verdict (c mod n = 0) r" "up (w_store w1)" "counts view ctx w1 (c + 1)" by auto
  have "outs1 = map (\<lambda>(i, r). sample_verdict ((c + 1 + int i) mod n = 0) r) (enumerate 0 rs)"
    by (rule Cons.IH [of w1 "c + 1"]) (use Cons.prems p s q in auto)
  moreover have "outs = out # outs1" using Cons.prems(7) p q by simp
  ultimately show ?case
    using s(1) by (simp add: enumerate_Suc_eq comp_def case_prod_unfold algebra_simps)
qed simp

end

end
