(* ===== verification/Builtin.thy ===== *)
theory Builtin
  imports Engine_Theorems Edit Extract_Redact Filter_Route Dedupe Sample
begin

text \<open>
  \<open>register_all\<close> of \<open>crates/stages/src/lib.rs\<close>, the memory sinks of \<open>crates/core/src/memory.rs\<close>, and
  the proof that the built-in stages keep what the engine needs of a stage: they count only on
  their own series, and only a route hands out labels, those its node declares.
\<close>

section \<open>The built-in stages\<close>

text \<open>What deserializing the parameters of each kind of node yields.\<close>

record deserializers =
  dz_filter :: "yaml \<Rightarrow> string + filter_params"
  dz_route :: "yaml \<Rightarrow> string + route_params"
  dz_route_regex :: "yaml \<Rightarrow> string + regex_params"
  dz_dedupe :: "yaml \<Rightarrow> string + dedupe_params"
  dz_edit :: "yaml \<Rightarrow> string + edit_params"
  dz_edit_op :: edit_decode
  dz_extract :: "yaml \<Rightarrow> string + extract_params"
  dz_redact :: "yaml \<Rightarrow> string + redact_params"
  dz_sample :: "yaml \<Rightarrow> string + sample_params"

definition register_all ::
  "texts \<Rightarrow> loader \<Rightarrow> (string \<Rightarrow> string) \<Rightarrow> deserializers \<Rightarrow> ('s, 'k) registry \<Rightarrow> ('s, 'k) registry" where
  "register_all tx ld sha dz g =
     register_stage ''sample'' (sample_build tx (dz_sample dz))
    (register_stage ''redact'' (redact_build tx ld (dz_redact dz))
    (register_stage ''extract'' (extract_build tx ld (dz_extract dz))
    (register_stage ''edit'' (edit_build tx sha (dz_edit_op dz) (dz_edit dz))
    (register_stage ''dedupe'' (dedupe_build tx (dz_dedupe dz))
    (register_stage ROUTE_KIND (route_build tx ld (dz_route dz) (dz_route_regex dz))
    (register_stage ''filter'' (filter_build tx ld (dz_filter dz)) g))))))"

section \<open>Memory sinks\<close>

record memory_sinks =
  ms_outgoing :: "string \<Rightarrow> (meta \<times> rec_value) list"
  ms_failing :: "string list"

definition memory_sinks_new :: memory_sinks where
  "memory_sinks_new = \<lparr>ms_outgoing = (\<lambda>_. []), ms_failing = []\<rparr>"

definition fail_writes_to :: "string \<Rightarrow> memory_sinks \<Rightarrow> memory_sinks" where
  "fail_writes_to node k = k\<lparr>ms_failing := List.insert node (ms_failing k)\<rparr>"

definition recover_writes_to :: "string \<Rightarrow> memory_sinks \<Rightarrow> memory_sinks" where
  "recover_writes_to node k = k\<lparr>ms_failing := removeAll node (ms_failing k)\<rparr>"

definition sink_records :: "string \<Rightarrow> memory_sinks \<Rightarrow> rec_value list" where
  "sink_records node k = map snd (ms_outgoing k node)"

text \<open>\<open>to_json\<close> is the serializer; a record it fails on counts no bytes. A sink error prints with the
  prefix of \<open>SinkError\<close>.\<close>

definition memory_sink_write ::
  "(rec_value \<Rightarrow> string option) \<Rightarrow> string \<Rightarrow> meta \<Rightarrow> rec_value \<Rightarrow> memory_sinks \<Rightarrow> (string + u64) option \<times> memory_sinks" where
  "memory_sink_write to_json node m r k =
     (if node \<in> set (ms_failing k)
      then (Some (Inl (''sink write failed: memory sink `'' @ node @ ''` is set to fail'')), k)
      else (Some (Inr (case to_json r of Some text \<Rightarrow> of_nat (length text) | None \<Rightarrow> 0)),
            k\<lparr>ms_outgoing := (ms_outgoing k)(node := ms_outgoing k node @ [(m, r)])\<rparr>))"

definition memory_sink_build ::
  "(rec_value \<Rightarrow> string option) \<Rightarrow> node_config \<Rightarrow> config_error + memory_sinks sink" where
  "memory_sink_build to_json node = Inr \<lparr>sk_write = memory_sink_write to_json (node_id node)\<rparr>"

section \<open>What the engine needs of them\<close>

definition never_routes :: "'s stage \<Rightarrow> bool" where
  "never_routes st \<longleftrightarrow> (\<forall>env r ctx w label r' w'. st_process st env r ctx w \<noteq> (Some (Routed label r'), w'))"

lemma never_routes_declared: "never_routes st \<Longrightarrow> routes_declared fv node st"
  by (auto simp: never_routes_def routes_declared_def)

lemma filter_never_routes: "never_routes (pure_stage (filter_process fs) engine)"
  by (auto simp: never_routes_def pure_stage_def filter_process_iff split: sum.splits if_splits)

lemma settle_not_Routed: "settle v r \<noteq> Routed label r'"
  by (cases v) auto

lemma takeover_not_Routed: "takeover n env h key incoming window r current w \<noteq> (Routed label r', w')"
proof (induction n env h key incoming window r current w rule: takeover.induct)
  case (2 n env h key incoming window r current w)
  then show ?case
    by (auto simp: Let_def settle_not_Routed split: prod.splits sum.splits option.splits)
qed (simp add: settle_not_Routed)

lemma dedupe_never_routes: "never_routes (dedupe_stage tx de)"
  by (auto simp: never_routes_def dedupe_stage_def dedupe_process_def Let_def takeover_not_Routed
      split: prod.splits sum.splits option.splits)

lemma edit_never_routes: "never_routes (edit_stage tx sha ed)"
  by (auto simp: never_routes_def edit_stage_def edit_process_def edit_loop_result
      split: prod.splits if_splits)

lemma extract_never_routes: "never_routes (extract_stage ex)"
  by (auto simp: never_routes_def extract_stage_def extract_process_def
      split: prod.splits sum.splits option.splits field_value.splits)

lemma redact_never_routes: "never_routes (redact_stage rd)"
  by (auto simp: never_routes_def redact_stage_def redact_process_def
      split: prod.splits sum.splits option.splits if_splits)

lemma sample_never_routes: "never_routes (sample_stage tx mode)"
  by (auto simp: never_routes_def sample_stage_def sample_process_def sample_verdict_def
      split: prod.splits sum.splits mode.splits if_splits)

lemma route_declares:
  assumes "node_kind node = ROUTE_KIND" "route_from_node tx ld fv rv node = Inr rs"
  shows "routes_declared fv node (pure_stage (route_process rs) engine)"
  using route_process_declared [OF assms(2)] assms(1)
  by (auto simp: routes_declared_def pure_stage_def)

text \<open>The stages a node can be built into.\<close>

lemma register_all_stages:
  assumes "build_stage (register_all tx ld sha dz registry_new) node = Inr st"
  shows "stage_contract st \<and> routes_declared (dz_route dz) node st"
proof -
  let ?k = "node_kind node"
  have st: "rg_stages (register_all tx ld sha dz registry_new) ?k =
      (if ?k = ''sample'' then Some (sample_build tx (dz_sample dz))
       else if ?k = ''redact'' then Some (redact_build tx ld (dz_redact dz))
       else if ?k = ''extract'' then Some (extract_build tx ld (dz_extract dz))
       else if ?k = ''edit'' then Some (edit_build tx sha (dz_edit_op dz) (dz_edit dz))
       else if ?k = ''dedupe'' then Some (dedupe_build tx (dz_dedupe dz))
       else if ?k = ROUTE_KIND then Some (route_build tx ld (dz_route dz) (dz_route_regex dz))
       else if ?k = ''filter'' then Some (filter_build tx ld (dz_filter dz)) else None)"
    by (simp add: register_all_def register_stage_def registry_new_def)
  consider mode where "st = sample_stage tx mode" | rd where "st = redact_stage rd"
    | ex where "st = extract_stage ex" | ed where "st = edit_stage tx sha ed" | de where "st = dedupe_stage tx de"
    | rs where "?k = ROUTE_KIND" "route_from_node tx ld (dz_route dz) (dz_route_regex dz) node = Inr rs"
        "st = pure_stage (route_process rs) (rt_engine rs)"
    | fs where "st = pure_stage (filter_process fs) (compiled_engine_label (fs_condition fs))"
    using assms unfolding build_stage_def st
    by (auto simp: sample_build_def redact_build_def extract_build_def edit_build_def dedupe_build_def
        route_build_def filter_build_def map_sum_Inr_iff split: if_splits)
  then show ?thesis
  proof cases
    case 1
    then show ?thesis using sample_contract.stage_contract_axioms sample_never_routes never_routes_declared by blast
  next
    case 2
    then show ?thesis using redact_contract.stage_contract_axioms redact_never_routes never_routes_declared by blast
  next
    case 3
    then show ?thesis using extract_contract.stage_contract_axioms extract_never_routes never_routes_declared by blast
  next
    case 4
    then show ?thesis using edit_contract.stage_contract_axioms edit_never_routes never_routes_declared by blast
  next
    case 5
    then show ?thesis using dedupe_contract.stage_contract_axioms dedupe_never_routes never_routes_declared by blast
  next
    case 6
    then show ?thesis using pure_stages.stage_contract_axioms route_declares [OF 6(1,2)] by blast
  next
    case 7
    then show ?thesis using pure_stages.stage_contract_axioms filter_never_routes never_routes_declared by blast
  qed
qed

lemma registry_ok_sink [simp]: "registry_ok fv (register_sink kind factory g) = registry_ok fv g"
  by (simp add: registry_ok_def build_stage_def register_sink_def)

lemma register_all_ok: "registry_ok (dz_route dz) (register_all tx ld sha dz registry_new)"
  unfolding registry_ok_def using register_all_stages by blast

end
