(* ===== verification/Examples.thy ===== *)
theory Examples
  imports Builtin
begin

text \<open>
  What the witnesses run on: a pipeline (a sampler, behind it a route with two labels, and two
  sinks), an engine whose only match is the empty one, and a worker on an empty in-memory store.
  The deserializer of a route's parameters is given by its answer.
\<close>

definition example_raw :: raw_config where
  "example_raw =
     \<lparr>raw_name = Some ''logs'', raw_workers = None, raw_source = None,
      raw_nodes =
        [\<lparr>raw_id = ''thin'', raw_kind = ''sample'', raw_from = None, raw_params = YNull\<rparr>,
         \<lparr>raw_id = ''split'', raw_kind = ''route'', raw_from = None, raw_params = YNull\<rparr>,
         \<lparr>raw_id = ''bad'', raw_kind = ''sink.memory'', raw_from = Some (One ''split.errors''), raw_params = YNull\<rparr>,
         \<lparr>raw_id = ''good'', raw_kind = ''sink.memory'', raw_from = Some (Many [''split.rest'']), raw_params = YNull\<rparr>]\<rparr>"

definition example_config :: config where
  "example_config =
     \<lparr>cfg_name = ''logs'', cfg_workers = None, cfg_source = None,
      cfg_nodes =
        [\<lparr>node_id = ''thin'', node_kind = ''sample'', node_from = [''source''], node_params = YMapping []\<rparr>,
         \<lparr>node_id = ''split'', node_kind = ''route'', node_from = [''thin''], node_params = YMapping []\<rparr>,
         \<lparr>node_id = ''bad'', node_kind = ''sink.memory'', node_from = [''split.errors''], node_params = YMapping []\<rparr>,
         \<lparr>node_id = ''good'', node_kind = ''sink.memory'', node_from = [''split.rest''], node_params = YMapping []\<rparr>]\<rparr>"

definition example_routes :: "yaml \<Rightarrow> string + route_params" where
  "example_routes params =
     Inr \<lparr>rp_routes = [(YString ''errors'', YString ''failed == true'')], rp_default = ''rest''\<rparr>"

definition example_dag :: dag where
  "example_dag = projr (dag_from_config example_routes example_config)"

lemma example_config_loads: "config_from_raw example_raw = Inr example_config"
  by (simp add: config_from_raw_def example_raw_def example_config_def SOURCE_ID_def)

lemma example_dag_loads: "dag_from_config example_routes example_config = Inr example_dag"
proof -
  have "\<not> isl (dag_from_config example_routes example_config)" by code_simp
  then show ?thesis by (simp add: example_dag_def)
qed

lemma example_dag_nodes: "map node_id (dag_nodes example_dag) = [''thin'', ''split'', ''good'', ''bad'']"
  by code_simp

lemma example_dag_size: "length (dag_nodes example_dag) = 4"
  using arg_cong [OF example_dag_nodes, of length] by simp

lemma example_dag_edges:
  "map (map (\<lambda>e. (edge_target e, edge_label e))) (dag_edges example_dag) =
     [[(1, None)], [(3, Some ''errors''), (2, Some ''rest'')], [], []] \<and> dag_sources example_dag = [0]"
  by code_simp

section \<open>Patterns\<close>

definition example_engine :: linear_regex where
  "example_engine =
     \<lparr>lr_is_match = \<lambda>_. True,
      lr_captures_at = \<lambda>h i. if is_char_boundary h i then Some [Some \<lparr>sp_start = i, sp_end = i\<rparr>] else None,
      lr_names = [None]\<rparr>"

definition example_regex :: regex where
  "example_regex =
     \<lparr>rx_pattern = [], rx_inner = InnerLinear example_engine, rx_names = [None], rx_input_bytes = 1024,
      rx_warnings = [], rx_canary = None\<rparr>"

definition example_loader :: loader where
  "example_loader =
     \<lparr>ld_linear = \<lambda>_. Inr example_engine, ld_pcre2 = \<lambda>_ _. Inl CompileOutOfMemory,
      ld_lint = \<lambda>_. Some [], ld_canary = \<lambda>_ _ _. Inr None\<rparr>"

lemma example_well_placed: "well_placed example_regex h"
  by (auto simp: well_placed_def captures_at_def example_regex_def example_engine_def group_span_def
      slice_ok_def split: if_splits)

lemma example_loader_loads: "\<exists>re. regex_with_options example_loader ''a'' options_checked = Inr re"
proof -
  have "\<not> isl (regex_with_options example_loader ''a'' options_checked)"
    by (simp add: regex_with_options_def check_guards_def guard_loop.simps class_step_def class_none_def
        options_checked_def options_unchecked_def limits_default_def choose_inner_def lint_check_def
        canary_check_def example_loader_def)
  then show ?thesis by (metis sum.collapse(2))
qed

definition example_regex_params :: regex_params where
  "example_regex_params =
     \<lparr>rp_limits = \<lparr>lp_match = None, lp_depth = None, lp_heap_kib = None, lp_work = None, lp_input_bytes = None\<rparr>,
      rp_on_risk = RiskReject\<rparr>"

lemma example_pattern_compiles: "\<exists>re. compile_pattern tx example_loader example_regex_params node what ''b'' = Inr re"
proof -
  have "\<not> isl (regex_with_options example_loader ''b'' (regex_options example_regex_params))"
    by (simp add: regex_with_options_def check_guards_def guard_loop.simps class_step_def class_none_def
        options_checked_def options_unchecked_def limits_default_def choose_inner_def lint_check_def
        canary_check_def example_loader_def regex_options_def to_limits_def or_default_def example_regex_params_def)
  then show ?thesis unfolding compile_pattern_def by (auto simp: isl_def map_sum_Inr_iff) (metis sum.exhaust)
qed

section \<open>A worker\<close>

definition example_texts :: texts where
  "example_texts =
     \<lparr>tx_char_debug = (\<lambda>c. c), tx_float_debug = (\<lambda>_. ''0.0''), tx_float = (\<lambda>_. ''0''),
      tx_json_str = (\<lambda>s. [DQ] @ s @ [DQ]), tx_json = (\<lambda>_. ''{}'')\<rparr>"

definition example_env :: "state_data environment" where
  "example_env =
     \<lparr>en_pipeline = ''logs'', en_ops = memory_ops, en_signals = signals_new,
      en_instant = (\<lambda>n. n), en_wall = (\<lambda>n. n)\<rparr>"

definition example_port :: "state_data port" where
  "example_port = \<lparr>w_store = state_data_new, w_measures = [], w_ticks = 0\<rparr>"

definition example_meta :: "u64 \<Rightarrow> u64 \<Rightarrow> meta" where
  "example_meta i t = \<lparr>record_id = i, tenant = ''acme'', ingestion_time = Reported t, delivery_count = 1\<rparr>"

definition example_handle :: state_handle where
  "example_handle = state_handle_new ''logs'' ''acme'' ''thin'' None True"

definition example_ctx :: "u64 \<Rightarrow> u64 \<Rightarrow> stage_context" where
  "example_ctx i t =
     \<lparr>cx_node = ''thin'', cx_meta = example_meta i t,
      cx_state = example_handle, cx_labels = labels_new ''acme'' ''thin''\<rparr>"

definition example_dedupe :: dedupe where
  "example_dedupe =
     \<lparr>de_key = [RecordPath [''host'']], de_window = 1000, de_on_state_error = PolicyPass\<rparr>"

lemma example_worker_simps [simp]:
  "en_ops example_env = memory_ops" "w_store example_port = state_data_new" "\<not> failing state_data_new"
  "mem_view state_data_new k = None" "cx_meta (example_ctx i t) = example_meta i t"
  "sh_declared example_handle" "0 < de_window example_dedupe"
  "cx_state (example_ctx i t) = example_handle"
  by (simp_all add: example_env_def example_port_def state_data_new_def mem_view_def example_ctx_def
      example_handle_def state_handle_new_def example_dedupe_def)

text \<open>The key of \<open>example_dedupe\<close> is of the record alone.\<close>

definition example_key :: "rec_value \<Rightarrow> string" where
  "example_key r = dedupe_state_key example_texts example_dedupe r (example_meta 0 0)"

lemma example_key_same [simp]:
  "dedupe_state_key example_texts example_dedupe r (example_meta i t) = example_key r"
  by (simp add: example_key_def dedupe_state_key_def example_dedupe_def hash_key_fields_def canonical_key_def)

text \<open>A second record of one key, ten nanoseconds later, is a repeat.\<close>

lemma example_repeat:
  "\<exists>w w'. dedupe_process example_texts example_dedupe example_env r (example_ctx 2 20) w = (Drop DropDedupe, w')"
proof -
  obtain out w1 where first: "dedupe_process example_texts example_dedupe example_env r (example_ctx 1 10)
      example_port = (out, w1)" by force
  from mem.dedupe_decides [OF _ _ _ first]
  have "\<not> failing (w_store w1) \<and> mem_view (w_store w1) (state_key example_handle (example_key r)) = Some (holder_bytes (incoming_of (example_meta 1 10)))"
    by (simp add: written_def)
  moreover obtain out' w2 where second: "dedupe_process example_texts example_dedupe example_env r (example_ctx 2 20)
      w1 = (out', w2)" by force
  moreover have "against (incoming_of (example_meta 2 20)) (incoming_of (example_meta 1 10)) (de_window example_dedupe) = Repeat"
    by (simp add: against_Repeat incoming_of_def example_meta_def example_dedupe_def)
  ultimately have "out' = Drop DropDedupe"
    using mem.dedupe_decides [OF _ _ _ second] by (simp add: against_value_def)
  with second show ?thesis by blast
qed

text \<open>The route of the pipeline sends a record that did not fail to its default.\<close>

lemma example_route_runs:
  "\<exists>rs. route_from_node example_texts example_loader example_routes (\<lambda>_. Inr example_regex_params)
      (cfg_nodes example_config ! 1) = Inr rs \<and> route_process rs JNull ctx = Routed ''rest'' JNull"
proof -
  have "condition_parse ''failed == true'' = Some (Inr (Compare (RecordPath [''failed'']) CEq (LBool True)))" by code_simp
  then show ?thesis
    by (simp add: route_from_node_def route_spec_from_node_def route_spec_from_params_def parse_params_def
        example_routes_def DROP_def compiled_condition_def route_process_def compiled_matches_def
        child_at_def field_of_def)
qed

section \<open>The pipeline, compiled\<close>

definition example_decode :: edit_decode where
  "example_decode =
     \<lparr>ed_set = (\<lambda>_. Inl []), ed_move = (\<lambda>_. Inr (''from'', ''to'')), ed_hash = (\<lambda>_. Inl []), ed_delete = (\<lambda>_. Inl [])\<rparr>"

definition example_deserializers :: deserializers where
  "example_deserializers =
     \<lparr>dz_filter = (\<lambda>_. Inl []), dz_route = example_routes, dz_route_regex = (\<lambda>_. Inr example_regex_params),
      dz_dedupe = (\<lambda>_. Inl []), dz_edit = (\<lambda>_. Inr \<lparr>ep_ops = [[(''copy'', JNull)]], ep_on_unapplied = UnappliedDrop\<rparr>),
      dz_edit_op = example_decode, dz_extract = (\<lambda>_. Inl []), dz_redact = (\<lambda>_. Inl []),
      dz_sample = (\<lambda>_. Inr \<lparr>sa_mode = Some ''every_nth'', sa_percent = None, sa_n = Some 2, sa_key = None,
        sa_on_state_error = None\<rparr>)\<rparr>"

definition example_registry :: "(state_data, memory_sinks) registry" where
  "example_registry =
     fold (\<lambda>(kind, factory). register_sink kind factory) [(''sink.memory'', memory_sink_build (\<lambda>_. Some ''{}''))]
       (register_all example_texts example_loader (\<lambda>s. s) example_deserializers registry_new)"

definition example_pipeline :: "(state_data, memory_sinks) pipeline" where
  "example_pipeline = projr (pipeline_compile example_routes example_config example_registry)"

definition example_world :: "(state_data, memory_sinks) world" where
  "example_world =
     \<lparr>w_store = state_data_new, w_measures = [], w_ticks = 0, w_sinks = memory_sinks_new, w_events = [], w_traces = []\<rparr>"

definition example_envelope :: envelope where
  "example_envelope = \<lparr>en_record = JNull, en_arrival = arrival_default\<lparr>arr_record_id := Some 7\<rparr>\<rparr>"

lemma example_nodes:
  "dag_nodes example_dag =
     [cfg_nodes example_config ! 0, cfg_nodes example_config ! 1, cfg_nodes example_config ! 3, cfg_nodes example_config ! 2]"
  by code_simp

lemma example_sampler: "sample_from_node example_texts (dz_sample example_deserializers) node = Inr (EveryNth 2 PolicyPass)"
  by (simp add: sample_from_node_def parse_params_def example_deserializers_def MODE_FIELDS_def misplaced_def
      present_fields_def sample_mode_def)

lemma example_pipeline_compiles: "pipeline_compile example_routes example_config example_registry = Inr example_pipeline"
proof -
  obtain rs where "route_from_node example_texts example_loader example_routes (\<lambda>_. Inr example_regex_params)
      (cfg_nodes example_config ! 1) = Inr rs" using example_route_runs by blast
  then have "route_build example_texts example_loader example_routes (\<lambda>_. Inr example_regex_params)
      (cfg_nodes example_config ! 1) = Inr (pure_stage (route_process rs) (rt_engine rs) :: state_data stage)"
    by (simp add: route_build_def)
  moreover have "map node_kind (cfg_nodes example_config) = [''sample'', ROUTE_KIND, ''sink.memory'', ''sink.memory'']"
    by (simp add: example_config_def ROUTE_KIND_def)
  ultimately have "\<not> isl (pipeline_compile example_routes example_config example_registry)"
    unfolding pipeline_compile_def example_dag_loads sum.case example_nodes
    using example_sampler
    by (simp add: build_node_def build_stage_def build_sink_def
        is_sink_def starts_with_def example_registry_def register_all_def register_stage_def register_sink_def
        example_deserializers_def sample_build_def memory_sink_build_def ROUTE_KIND_def example_config_def)
  then show ?thesis by (simp add: example_pipeline_def)
qed

lemma example_registry_ok: "registry_ok example_routes example_registry"
  using register_all_ok [of example_deserializers]
  by (simp add: example_registry_def example_deserializers_def)

lemma example_pipeline_ok: "pipeline_ok example_pipeline"
  by (rule pipeline_compile_ok [OF example_registry_ok example_pipeline_compiles])

lemma example_pipeline_size: "length (pl_nodes example_pipeline) = 4"
proof -
  obtain nodes where "build_nodes example_registry (dag_nodes example_dag) = Inr nodes"
    "pl_nodes example_pipeline = nodes"
    using example_pipeline_compiles
    by (auto simp: pipeline_compile_def example_dag_loads map_sum_Inr_iff) (metis pipeline.select_convs(3))
  with build_nodes_Inr show ?thesis by (metis example_dag_size)
qed

lemma example_handled:
  "\<exists>outcome spans' w'. handle 4 example_env example_pipeline example_envelope (trace_buffer_new False 0 0) example_world =
     Some (outcome, spans', w')"
  using handle_total [OF example_pipeline_ok, of 4 example_env example_envelope "trace_buffer_new False 0 0" example_world]
  by (simp add: example_pipeline_size)

lemma example_accepted: "accepted (en_arrival example_envelope)"
  by (simp add: accepted_def example_envelope_def arrival_default_def is_log_def)

section \<open>An edit\<close>

definition example_edit :: edit where
  "example_edit =
     \<lparr>ed_steps = [StepCopy (labelled_read (RecordPath [''from''])) (WritePath [''to''])], ed_on_unapplied = UnappliedDrop\<rparr>"

lemma example_edit_loads:
  "edit_from_node example_decode (dz_edit example_deserializers) (hd (cfg_nodes example_config)) = Inr example_edit"
proof -
  have "path_parse ''from'' = Inr (RecordPath [''from''])" "path_parse ''to'' = Inr (RecordPath [''to''])" by code_simp+
  moreover have "edit_op_parse ''copy'' = Some OpCopy" by code_simp
  ultimately show ?thesis
    by (simp add: edit_from_node_def parse_params_def example_deserializers_def parse_op_def decode_then_def
        example_decode_def parse_move_def edit_target_def edit_path_def write_path_path_def example_edit_def)
qed

lemma example_edit_runs:
  "\<exists>r' w'. edit_process example_texts (\<lambda>s. s) example_edit (JObj [(''from'', JBool True)]) (example_ctx 1 1) example_port
     = (Pass r', w')"
  by (simp add: edit_process_def example_edit_def labelled_read_def field_of_def child_at_def)

end
