(* ===== verification/Nats_Subject.thy ===== *)
theory Nats_Subject
  imports Prelude
begin

text \<open>
  \<open>crates/nats/src/subject.rs\<close>: the tenant of a subject, dead-letter subjects and the matching of
  NATS subject patterns. What a stream captures (\<open>stream_captures\<close>) is the list of its subjects.
\<close>

definition tenant_from_subject :: "string \<Rightarrow> string \<Rightarrow> string option" where
  "tenant_from_subject subject prefix =
     (case split_on DOT subject of
        first # tenant # _ # _ \<Rightarrow> if first = prefix \<and> tenant \<noteq> [] then Some tenant else None
      | _ \<Rightarrow> None)"

text \<open>\<open>%XX\<close>, two uppercase hexadecimal digits.\<close>

definition percent_byte :: "char \<Rightarrow> string" where
  "percent_byte c = [CHR ''%'', hex_upper (byte c div 16), hex_upper (byte c mod 16)]"

definition token_plain :: "char \<Rightarrow> bool" where
  "token_plain c \<longleftrightarrow>
     is_ascii_graphic c \<and> c \<noteq> DOT \<and> c \<noteq> CHR ''*'' \<and> c \<noteq> CHR ''>'' \<and> c \<noteq> CHR ''%''"

definition dead_letter :: "string \<Rightarrow> string \<Rightarrow> string" where
  "dead_letter prefix tenant =
     prefix @ [DOT] @ concat (map (\<lambda>c. if token_plain c then [c] else percent_byte c) tenant)"

fun captures_loop :: "string list \<Rightarrow> string list \<Rightarrow> bool" where
  "captures_loop [] tokens \<longleftrightarrow> tokens = []"
| "captures_loop (want # pattern) tokens \<longleftrightarrow>
     (if want = ''>'' \<and> pattern = [] then tokens \<noteq> []
      else case tokens of
          have # tokens \<Rightarrow> (want = ''*'' \<or> want = have) \<and> captures_loop pattern tokens
        | [] \<Rightarrow> False)"

definition captures_subject :: "string \<Rightarrow> string \<Rightarrow> bool" where
  "captures_subject pattern subject = captures_loop (split_on DOT pattern) (split_on DOT subject)"

definition covers_every_tenant :: "string \<Rightarrow> string \<Rightarrow> bool" where
  "covers_every_tenant pattern prefix = captures_subject pattern (prefix @ ''.*'')"

definition stream_covers_every_tenant :: "string list \<Rightarrow> string \<Rightarrow> bool" where
  "stream_covers_every_tenant subjects prefix =
     list_ex (\<lambda>pattern. covers_every_tenant pattern prefix) subjects"

definition stream_captures :: "string list \<Rightarrow> string \<Rightarrow> bool" where
  "stream_captures subjects subject = list_ex (\<lambda>pattern. captures_subject pattern subject) subjects"

section \<open>Matching is that of the documentation\<close>

text \<open>\<open>*\<close> stands for one token, a \<open>>\<close> at the end for one or more.\<close>

inductive subject_match :: "string list \<Rightarrow> string list \<Rightarrow> bool" where
  match_end: "subject_match [] []"
| match_same: "subject_match ps ts \<Longrightarrow> t \<noteq> ''>'' \<or> ps \<noteq> [] \<Longrightarrow> subject_match (t # ps) (t # ts)"
| match_one: "subject_match ps ts \<Longrightarrow> subject_match (''*'' # ps) (t # ts)"
| match_rest: "subject_match [''>''] (t # ts)"

inductive_cases subject_match_NilE: "subject_match [] ts"
inductive_cases subject_match_ConsE: "subject_match (p # ps) ts"

lemma captures_loop_sound: "captures_loop ps ts \<Longrightarrow> subject_match ps ts"
proof (induction ps ts rule: captures_loop.induct)
  case (2 want pattern tokens)
  show ?case
  proof (cases "want = ''>'' \<and> pattern = []")
    case True
    with 2(2) show ?thesis by (cases tokens) (auto intro: match_rest)
  next
    case False
    with 2 show ?thesis by (cases tokens) (auto intro: match_same match_one)
  qed
qed (simp add: match_end)

lemma captures_loop_complete: "subject_match ps ts \<Longrightarrow> captures_loop ps ts"
  by (induction rule: subject_match.induct) auto

lemma captures_loop_iff: "captures_loop ps ts \<longleftrightarrow> subject_match ps ts"
  using captures_loop_sound captures_loop_complete by blast

section \<open>Dead-letter subjects\<close>

lemma split_on_snoc_sep: "d \<notin> set t \<Longrightarrow> split_on d (s @ d # t) = split_on d s @ [t]"
proof (induction s)
  case (Cons c s)
  then show ?case
    using split_on_nonempty [of d s] by (auto simp: neq_Nil_conv split: list.splits)
qed (simp add: split_on_no_sep)

definition tenant_token :: "string \<Rightarrow> string" where
  "tenant_token tenant = concat (map (\<lambda>c. if token_plain c then [c] else percent_byte c) tenant)"

lemma dead_letter_token: "dead_letter prefix tenant = prefix @ [DOT] @ tenant_token tenant"
  by (simp add: dead_letter_def tenant_token_def)

lemma byte_hex_upper: "k < 16 \<Longrightarrow> byte (hex_upper k) = (if k < 10 then 48 + k else 55 + k)"
  by (simp add: hex_upper_def byte_char_of)

lemma hex_upper_inject:
  assumes "m < 16" "n < 16" "hex_upper m = hex_upper n"
  shows "m = n"
proof -
  from assms(3) have "byte (hex_upper m) = byte (hex_upper n)" by simp
  with assms(1,2) show ?thesis by (simp add: byte_hex_upper split: if_splits)
qed

lemma hex_upper_graphic:
  assumes "k < 16"
  shows "is_ascii_graphic (hex_upper k)" "hex_upper k \<noteq> DOT" "hex_upper k \<noteq> CHR ''*''"
    "hex_upper k \<noteq> CHR ''>''"
proof -
  have b: "byte (hex_upper k) = (if k < 10 then 48 + k else 55 + k)" using assms by (rule byte_hex_upper)
  show "is_ascii_graphic (hex_upper k)" using assms b by (auto simp: is_ascii_graphic_def)
  have "byte DOT = 46" "byte (CHR ''*'') = 42" "byte (CHR ''>'') = 62" by (simp_all add: byte_def)
  with assms b show "hex_upper k \<noteq> DOT" "hex_upper k \<noteq> CHR ''*''" "hex_upper k \<noteq> CHR ''>''"
    by (auto split: if_splits)
qed

lemma percent_byte_inject: "percent_byte c = percent_byte d \<Longrightarrow> c = d"
proof -
  assume eq: "percent_byte c = percent_byte d"
  have less: "byte c div 16 < 16" "byte d div 16 < 16"
    using byte_less_256 [of c] byte_less_256 [of d] by (simp_all add: less_mult_imp_div_less)
  from eq have "byte c div 16 = byte d div 16" "byte c mod 16 = byte d mod 16"
    using less by (auto simp: percent_byte_def intro: hex_upper_inject)
  then have "byte c = byte d" by (metis div_mult_mod_eq)
  then show "c = d" by simp
qed

lemma percent_byte_append:
  "percent_byte c @ s = percent_byte d @ t \<Longrightarrow> c = d \<and> s = t"
  using percent_byte_inject [of c d] by (simp add: percent_byte_def)

lemma token_plain_not_percent: "token_plain c \<Longrightarrow> c # s \<noteq> percent_byte d @ t \<and> percent_byte d @ t \<noteq> c # s"
  by (auto simp: token_plain_def percent_byte_def)

lemma tenant_token_Cons [simp]:
  "tenant_token (c # s) = (if token_plain c then [c] else percent_byte c) @ tenant_token s"
  and tenant_token_Nil [simp]: "tenant_token [] = []"
  by (simp_all add: tenant_token_def)

lemma tenant_token_chars:
  "x \<in> set (tenant_token s) \<Longrightarrow> is_ascii_graphic x \<and> x \<noteq> DOT \<and> x \<noteq> CHR ''*'' \<and> x \<noteq> CHR ''>''"
proof (induction s)
  case (Cons c s)
  have "byte c div 16 < 16" using byte_less_256 [of c] by (simp add: less_mult_imp_div_less)
  moreover have "byte c mod 16 < 16" by simp
  moreover have "is_ascii_graphic (CHR ''%'')" by (simp add: is_ascii_graphic_def byte_def)
  ultimately show ?case
    using Cons by (auto simp: percent_byte_def token_plain_def hex_upper_graphic split: if_splits)
qed simp

lemma tenant_token_inject: "tenant_token s = tenant_token t \<Longrightarrow> s = t"
proof (induction s arbitrary: t)
  case Nil
  then show ?case by (cases t) (auto simp: percent_byte_def split: if_splits)
next
  case (Cons c s)
  then obtain d u where t: "t = d # u"
    by (cases t) (auto simp: percent_byte_def split: if_splits)
  have "c = d \<and> tenant_token s = tenant_token u"
    using Cons.prems unfolding t
    by (cases "token_plain c"; cases "token_plain d")
      (auto dest: percent_byte_append token_plain_not_percent)
  with Cons.IH t show ?case by blast
qed

lemma tenant_token_no_dot: "DOT \<notin> set (tenant_token s)"
  using tenant_token_chars by blast

lemma tenant_token_Nil_iff [simp]: "tenant_token s = [] \<longleftrightarrow> s = []"
  by (cases s) (auto simp: percent_byte_def)

lemma dead_letter_tokens: "split_on DOT (dead_letter prefix tenant) = split_on DOT prefix @ [tenant_token tenant]"
  using split_on_snoc_sep [OF tenant_token_no_dot] by (simp add: dead_letter_token)

text \<open>A pattern tells two last tokens apart only by naming one of them.\<close>

lemma captures_loop_any_last:
  "captures_loop ps (ts @ [''*'']) \<Longrightarrow> captures_loop ps (ts @ [x])"
proof (induction ps arbitrary: ts)
  case (Cons p ps)
  then show ?case by (cases ts) (auto split: if_splits elim: captures_loop.elims)
qed simp

lemma captures_loop_two_last:
  assumes "captures_loop ps (ts @ [x])" "captures_loop ps (ts @ [y])" "x \<noteq> y"
  shows "captures_loop ps (ts @ [''*''])"
  using assms
proof (induction ps arbitrary: ts)
  case (Cons p ps)
  then show ?case by (cases ts) (auto split: if_splits)
qed simp

lemma covers_every_tenant_iff:
  "covers_every_tenant pattern prefix \<longleftrightarrow> (\<forall>tenant. captures_subject pattern (dead_letter prefix tenant))"
proof -
  have star: "split_on DOT (prefix @ ''.*'') = split_on DOT prefix @ [''*'']"
    using split_on_snoc_sep [of DOT "''*''" prefix] by simp
  have "captures_loop ps (split_on DOT prefix @ [''*''])" if "\<forall>tenant. captures_loop ps (split_on DOT prefix @ [tenant_token tenant])" for ps
  proof (rule captures_loop_two_last)
    show "captures_loop ps (split_on DOT prefix @ [''a''])" "captures_loop ps (split_on DOT prefix @ [''b''])"
      using that [THEN spec, of "''a''"] that [THEN spec, of "''b''"]
      by (simp_all add: token_plain_def is_ascii_graphic_def byte_def)
  qed simp
  then show ?thesis
    by (auto simp: covers_every_tenant_def captures_subject_def star dead_letter_tokens intro: captures_loop_any_last)
qed

end
