(* ===== verification/Utf8.thy ===== *)
theory Utf8
  imports Prelude
begin

text \<open>Which byte strings are UTF-8, as \<open>std::str::from_utf8\<close> decides it.\<close>

text \<open>Every code point is well formed (no overlong form, no surrogate, at most
  U+10FFFF).\<close>

definition cont_byte :: "nat \<Rightarrow> bool" where "cont_byte b \<longleftrightarrow> 128 \<le> b \<and> b < 192"

definition well_formed_char :: "string \<Rightarrow> bool" where
  "well_formed_char p \<longleftrightarrow>
     (case map byte p of
        [a] \<Rightarrow> a < 128
      | [a, b] \<Rightarrow> 194 \<le> a \<and> a < 224 \<and> cont_byte b
      | [a, b, c] \<Rightarrow>
          224 \<le> a \<and> a < 240 \<and> cont_byte b \<and> cont_byte c
          \<and> (a = 224 \<longrightarrow> 160 \<le> b) \<and> (a = 237 \<longrightarrow> b < 160)
      | [a, b, c, d] \<Rightarrow>
          240 \<le> a \<and> a < 245 \<and> cont_byte b \<and> cont_byte c \<and> cont_byte d
          \<and> (a = 240 \<longrightarrow> 144 \<le> b) \<and> (a = 244 \<longrightarrow> b < 144)
      | _ \<Rightarrow> False)"

definition is_utf8 :: "string \<Rightarrow> bool" where
  "is_utf8 s \<longleftrightarrow> list_all well_formed_char (utf8_chars s)"

end
