(* ===== verification/Nats_Headers.thy ===== *)
theory Nats_Headers
  imports Nats_Subject Events Utf8
begin

text \<open>
  \<open>crates/nats/src/headers.rs\<close> and \<open>codec.rs\<close>: a record's metadata as message headers and back, the
  headers of a dead letter, and payloads. The header map is a type of the client library: its
  operations are the argument \<open>header_ops\<close> and what the code relies on is the locale \<open>header_map\<close>.
\<close>

section \<open>Text and payloads\<close>

text \<open>Reading and printing JSON, and the text of a UTF-8 error, are the library's.\<close>

record codec_texts =
  ct_from_json :: "string \<Rightarrow> string + json"
  ct_to_json :: "json \<Rightarrow> string + string"
  ct_utf8_error :: "string \<Rightarrow> string"

datatype decode_error = NotJson string | NotUtf8 string

fun decode_error_display :: "decode_error \<Rightarrow> string" where
  "decode_error_display (NotJson e) = ''payload is not JSON: '' @ e"
| "decode_error_display (NotUtf8 e) = ''payload is not UTF-8: '' @ e"

datatype codec = CodecJson | CodecText

fun codec_decode :: "codec_texts \<Rightarrow> codec \<Rightarrow> string \<Rightarrow> decode_error + json" where
  "codec_decode ct CodecJson payload = map_sum NotJson id (ct_from_json ct payload)"
| "codec_decode ct CodecText payload =
     (if is_utf8 payload then Inr (JStr payload) else Inl (NotUtf8 (ct_utf8_error ct payload)))"

datatype encoding = EncodeJson | EncodeText

definition encoding_encode :: "codec_texts \<Rightarrow> encoding \<Rightarrow> json \<Rightarrow> string + string" where
  "encoding_encode ct e r =
     (case (e, r) of
        (EncodeText, JStr s) \<Rightarrow> Inr s
      | _ \<Rightarrow> ct_to_json ct r)"

section \<open>The header map\<close>

record 'h header_ops =
  hm_new :: 'h
  hm_insert :: "string \<Rightarrow> string \<Rightarrow> 'h \<Rightarrow> 'h"
  hm_append :: "string \<Rightarrow> string \<Rightarrow> 'h \<Rightarrow> 'h"
  hm_get_all :: "string \<Rightarrow> 'h \<Rightarrow> string list"
  hm_iter :: "'h \<Rightarrow> (string \<times> string list) list"
  hm_value_ok :: "string \<Rightarrow> bool"

definition RECORD_ID :: string where "RECORD_ID = ''Fusion-Record-Id''"
definition RECORD_KIND :: string where "RECORD_KIND = ''Fusion-Record-Kind''"
definition TENANT :: string where "TENANT = ''Fusion-Tenant''"
definition INGESTION_TIME :: string where "INGESTION_TIME = ''Fusion-Ingestion-Time''"
definition INGESTION_TIME_KIND :: string where "INGESTION_TIME_KIND = ''Fusion-Ingestion-Time-Kind''"
definition DLQ_REASON :: string where "DLQ_REASON = ''Fusion-Dlq-Reason''"
definition DLQ_SUBJECT :: string where "DLQ_SUBJECT = ''Fusion-Dlq-Subject''"
definition MSG_ID :: string where "MSG_ID = ''Nats-Msg-Id''"
definition REASON_CAP :: nat where "REASON_CAP = 1024"
definition PIPELINE_PREFIX :: string where "PIPELINE_PREFIX = ''fusion-''"
definition NATS_PREFIX :: string where "NATS_PREFIX = ''nats-''"

lemmas header_names = RECORD_ID_def RECORD_KIND_def TENANT_def INGESTION_TIME_def
  INGESTION_TIME_KIND_def DLQ_REASON_def DLQ_SUBJECT_def MSG_ID_def

definition insert_header :: "'h header_ops \<Rightarrow> string \<Rightarrow> string \<Rightarrow> 'h \<Rightarrow> 'h" where
  "insert_header H name v h = (if hm_value_ok H v then hm_insert H name v h else h)"

definition write_meta ::
  "'h header_ops \<Rightarrow> record_id option \<Rightarrow> string \<Rightarrow> ingestion_time option \<Rightarrow> 'h \<Rightarrow> 'h" where
  "write_meta H rid t time h =
     (let h = (case rid of Some i \<Rightarrow> insert_header H RECORD_ID (show_u64 i) h | None \<Rightarrow> h);
          h = insert_header H TENANT t h
      in case time of
           Some time \<Rightarrow>
             insert_header H INGESTION_TIME_KIND (time_kind_str (time_kind_of time))
               (insert_header H INGESTION_TIME (show_u64 (unix_nanos time)) h)
         | None \<Rightarrow> h)"

definition for_meta :: "'h header_ops \<Rightarrow> meta \<Rightarrow> 'h" where
  "for_meta H m = write_meta H (Some (record_id m)) (tenant m) (Some (ingestion_time m)) (hm_new H)"

fun header_line_loop :: "string list \<Rightarrow> string \<Rightarrow> string" where
  "header_line_loop [] line = line"
| "header_line_loop (c # cs) line =
     (let c = (if is_control c then '' '' else c) in
      if REASON_CAP < length line + length c then line else header_line_loop cs (line @ c))"

definition header_line :: "string \<Rightarrow> string" where
  "header_line text = header_line_loop (utf8_chars text) []"

record 'h letter =
  dl_stream :: string
  dl_sequence :: u64
  dl_subject :: string
  dl_headers :: "'h option"
  dl_arrival :: arrival
  dl_failure :: failure

definition reserved_header :: "string \<Rightarrow> bool" where
  "reserved_header name \<longleftrightarrow>
     (let lower = map to_ascii_lower name in
      starts_with lower PIPELINE_PREFIX \<or> starts_with lower NATS_PREFIX)"

definition copy_headers :: "'h header_ops \<Rightarrow> (string \<times> string list) list \<Rightarrow> 'h \<Rightarrow> 'h" where
  "copy_headers H entries h =
     fold (\<lambda>(name, vs) h. if reserved_header name then h else fold (hm_append H name) vs h) entries h"

definition for_dead_letter :: "'h header_ops \<Rightarrow> 'h letter \<Rightarrow> 'h" where
  "for_dead_letter H l =
     (let a = dl_arrival l; f = dl_failure l;
          h = copy_headers H (case dl_headers l of Some hs \<Rightarrow> hm_iter H hs | None \<Rightarrow> []) (hm_new H);
          h = write_meta H (arr_record_id a) (tenant_of a) (arr_time a) h;
          h = (case arr_kind a of Named k \<Rightarrow> insert_header H RECORD_KIND (kind_str k) h | _ \<Rightarrow> h);
          h = insert_header H DLQ_REASON (header_line (fl_node f @ '': '' @ fl_error f)) h;
          h = insert_header H DLQ_SUBJECT (dl_subject l) h
      in insert_header H MSG_ID (dl_stream l @ '':'' @ show_u64 (dl_sequence l)) h)"

section \<open>Reading the headers\<close>

datatype invalid_header =
    InvRecordId string | InvRecordKind string | InvTenant | InvRepeated string
  | InvTime string | InvKind string | InvUnpaired string

primrec invalid_header_display :: "invalid_header \<Rightarrow> string" where
  "invalid_header_display (InvRecordId t) = ''`'' @ RECORD_ID @ ''` is `'' @ t @ ''`, not a decimal integer''"
| "invalid_header_display (InvRecordKind t) =
     ''`'' @ RECORD_KIND @ ''` is `'' @ t @ ''`, not `log`, `metric` or `span`''"
| "invalid_header_display InvTenant = ''`'' @ TENANT @ ''` is empty or holds a control character''"
| "invalid_header_display (InvRepeated n) = ''`'' @ n @ ''` is present more than once''"
| "invalid_header_display (InvTime t) =
     ''`'' @ INGESTION_TIME @ ''` is `'' @ t @ ''`, not nanoseconds as a decimal integer''"
| "invalid_header_display (InvKind t) =
     ''`'' @ INGESTION_TIME_KIND @ ''` is `'' @ t @ ''`, not `reported` or `clock`''"
| "invalid_header_display (InvUnpaired n) =
     ''`'' @ INGESTION_TIME @ ''` and `'' @ INGESTION_TIME_KIND @ ''` come together; only `'' @ n @ ''` is present''"

fun refuses_message :: "invalid_header \<Rightarrow> bool" where
  "refuses_message (InvRecordKind t) \<longleftrightarrow> True"
| "refuses_message (InvRepeated name) \<longleftrightarrow> name = RECORD_KIND"
| "refuses_message _ \<longleftrightarrow> False"

record 'h received =
  rv_subject :: string
  rv_headers :: "'h option"
  rv_published :: "u64 option"
  rv_delivered :: u64
  rv_bytes :: u64

definition is_decimal :: "string \<Rightarrow> bool" where
  "is_decimal text \<longleftrightarrow> text \<noteq> [] \<and> list_all is_ascii_digit text"

definition parse_decimal :: "string \<Rightarrow> u64 option" where
  "parse_decimal text =
     (case parse_u64 text of Some n \<Rightarrow> if is_decimal text then Some n else None | None \<Rightarrow> None)"

definition header_one :: "'h header_ops \<Rightarrow> 'h option \<Rightarrow> string \<Rightarrow> invalid_header + string option" where
  "header_one H headers name =
     (case headers of
        None \<Rightarrow> Inr None
      | Some h \<Rightarrow>
          (case hm_get_all H name h of
             [] \<Rightarrow> Inr None
           | [v] \<Rightarrow> Inr (Some v)
           | _ \<Rightarrow> Inl (InvRepeated name)))"

definition parse_header ::
  "invalid_header + string option \<Rightarrow> (string \<Rightarrow> invalid_header + 'a) \<Rightarrow> invalid_header + 'a option" where
  "parse_header read parse =
     (case read of
        Inl e \<Rightarrow> Inl e
      | Inr None \<Rightarrow> Inr None
      | Inr (Some text) \<Rightarrow> map_sum id Some (parse text))"

definition parse_or_report ::
  "invalid_header + string option \<Rightarrow> invalid_header list \<Rightarrow> (string \<Rightarrow> invalid_header + 'a)
     \<Rightarrow> 'a option \<times> invalid_header list" where
  "parse_or_report read invalid parse =
     (case parse_header read parse of
        Inl problem \<Rightarrow> (None, invalid @ [problem])
      | Inr v \<Rightarrow> (v, invalid))"

definition or_invalid :: "'a option \<Rightarrow> invalid_header \<Rightarrow> invalid_header + 'a" where
  "or_invalid v e = (case v of Some v \<Rightarrow> Inr v | None \<Rightarrow> Inl e)"

definition header_tenant ::
  "'h header_ops \<Rightarrow> 'h option \<Rightarrow> invalid_header list \<Rightarrow> string option \<times> invalid_header list" where
  "header_tenant H headers invalid =
     parse_or_report (header_one H headers TENANT) invalid
       (\<lambda>t. if is_valid_tenant t then Inr t else Inl InvTenant)"

definition errs_of :: "invalid_header + 'a \<Rightarrow> invalid_header list" where
  "errs_of r = (case r of Inl e \<Rightarrow> [e] | Inr _ \<Rightarrow> [])"

definition header_time ::
  "invalid_header + string option \<Rightarrow> invalid_header + string option \<Rightarrow> invalid_header list
     \<Rightarrow> ingestion_time option \<times> invalid_header list" where
  "header_time time kind invalid =
     (let time = parse_header time (\<lambda>t. or_invalid (parse_decimal t) (InvTime t));
          kind = parse_header kind (\<lambda>t. or_invalid (time_kind_parse t) (InvKind t))
      in case (time, kind) of
           (Inr (Some nanos), Inr (Some kind)) \<Rightarrow> (Some (ingestion_time_new kind nanos), invalid)
         | (Inr None, Inr None) \<Rightarrow> (None, invalid)
         | (Inr (Some _), Inr None) \<Rightarrow> (None, invalid @ [InvUnpaired INGESTION_TIME])
         | (Inr None, Inr (Some _)) \<Rightarrow> (None, invalid @ [InvUnpaired INGESTION_TIME_KIND])
         | (time, kind) \<Rightarrow> (None, invalid @ errs_of time @ errs_of kind))"

definition arrival_read ::
  "'h header_ops \<Rightarrow> string \<Rightarrow> 'h received \<Rightarrow> arrival \<times> invalid_header list" where
  "arrival_read H tenant_prefix rv =
     (let headers = rv_headers rv;
          (rid, invalid) = parse_or_report (header_one H headers RECORD_ID) []
                             (\<lambda>t. or_invalid (parse_decimal t) (InvRecordId t));
          (kind, invalid) =
            (case parse_header (header_one H headers RECORD_KIND)
                    (\<lambda>t. or_invalid (kind_parse t) (InvRecordKind t)) of
               Inr None \<Rightarrow> (Unnamed, invalid)
             | Inr (Some k) \<Rightarrow> (Named k, invalid)
             | Inl problem \<Rightarrow> (Unreadable, invalid @ [problem]));
          named = (case tenant_from_subject (rv_subject rv) tenant_prefix of
                     Some t \<Rightarrow> if is_valid_tenant t then Some t else None
                   | None \<Rightarrow> None);
          (t, invalid) =
            (case named of Some t \<Rightarrow> (Some t, invalid) | None \<Rightarrow> header_tenant H headers invalid);
          (time, invalid) =
            header_time (header_one H headers INGESTION_TIME) (header_one H headers INGESTION_TIME_KIND)
              invalid
      in (\<lparr>arr_record_id = rid, arr_kind = kind, arr_tenant = t,
           arr_time = (case time of Some x \<Rightarrow> Some x | None \<Rightarrow> map_option Reported (rv_published rv)),
           arr_delivery = rv_delivered rv, arr_bytes = Some (rv_bytes rv)\<rparr>, invalid))"

end
