(* ===== verification/Nats_Source.thy ===== *)
theory Nats_Source
  imports Nats_Headers Engine
begin

text \<open>
  \<open>crates/nats/src/source.rs\<close>, \<open>sink.rs\<close>, \<open>config.rs\<close> and the load checks of \<open>lib.rs\<close>: receiving a
  message, settling it, dead-lettering what the pipeline gives up on, and publishing records. The
  client library is the argument: sending a publish and waiting for its \<open>PubAck\<close> are functions of
  the connection's state, and the server's answers at load are functions of what is asked. A
  message's settlement is sent once; what a lost one does is the server's.
\<close>

section \<open>Delays and limits\<close>

definition SECOND :: nat where "SECOND = 1000000000"
definition MAX_NAK_DELAY :: nat where "MAX_NAK_DELAY = 30 * SECOND"

definition DEAD_LETTER_RETRIES :: "nat list" where
  "DEAD_LETTER_RETRIES = [250000000, 500000000, 1000000000]"

definition nak_delay :: "u64 \<Rightarrow> nat" where
  "nak_delay delivered =
     (let before = unat delivered - 1;
          exponent = min (if before < 2 ^ 32 then before else 2 ^ 32 - 1) 5
      in min (2 ^ exponent * SECOND) MAX_NAK_DELAY)"

definition delivery_limit :: "int \<Rightarrow> u64 option" where
  "delivery_limit max_deliver = (if 0 < max_deliver then Some (of_int max_deliver) else None)"

definition is_final_delivery :: "u64 \<Rightarrow> u64 \<Rightarrow> bool" where
  "is_final_delivery delivered limit \<longleftrightarrow> limit \<le> delivered"

section \<open>The connection\<close>

text \<open>\<open>publish_with_headers\<close> and the future of its \<open>PubAck\<close>; an error is its text.\<close>

record ('j, 'a, 'h) jetstream_ops =
  jo_send :: "string \<Rightarrow> 'h \<Rightarrow> string \<Rightarrow> 'j \<Rightarrow> (string + 'a) \<times> 'j"
  jo_await :: "'a \<Rightarrow> 'j \<Rightarrow> (string + unit) \<times> 'j"

datatype ack_kind = AckYes | AckNak "duration option" | AckTerm

text \<open>A settlement as it is sent: the client's own, or the terminate written by hand.\<close>

datatype sent = SentAck ack_kind | SentTerm string string

record 'j link =
  lk_jetstream :: 'j
  lk_sent :: "sent list"
  lk_pauses :: "duration list"

type_synonym ('s, 'j) nats_world = "('s, 'j link) world"

record 'h message =
  ms_subject :: string
  ms_headers :: "'h option"
  ms_payload :: string

record stream_position =
  po_stream :: string
  po_sequence :: u64
  po_delivered :: u64

record 'h delivery =
  dv_message :: "'h message"
  dv_arrival :: arrival
  dv_tenant :: string
  dv_reply :: "string option"
  dv_position :: "stream_position option"

record ('j, 'a, 'h) dead_letters =
  dz_ops :: "('j, 'a, 'h) jetstream_ops"
  dz_headers :: "'h header_ops"
  dz_prefix :: string
  dz_limit :: u64

section \<open>Settling\<close>

definition send_settlement :: "sent \<Rightarrow> ('s, 'j) nats_world \<Rightarrow> ('s, 'j) nats_world" where
  "send_settlement x w = w\<lparr>w_sinks := (w_sinks w)\<lparr>lk_sent := lk_sent (w_sinks w) @ [x]\<rparr>\<rparr>"

definition settle_ack :: "ack_kind \<Rightarrow> ('s, 'j) nats_world \<Rightarrow> ('s, 'j) nats_world" where
  "settle_ack kind w = send_settlement (SentAck kind) w"

definition log_dead_letter ::
  "'s environment \<Rightarrow> event_kind \<Rightarrow> 'h delivery \<Rightarrow> stream_position \<Rightarrow> failure \<Rightarrow> string
     \<Rightarrow> ('s, 'j) nats_world \<Rightarrow> ('s, 'j) nats_world" where
  "log_dead_letter env kind dv po f message =
     emit ((event_of_failure kind (dv_tenant dv) f (po_delivered po))
       \<lparr>ev_sequence := Some (po_sequence po), ev_message := message,
        ev_trace :=
          (case fl_record f of
             Some i \<Rightarrow>
               if sg_tracing (en_signals env)
               then Some (delivery_context (trace_key_new i (dv_tenant dv)) (po_delivered po)) else None
           | None \<Rightarrow> None)\<rparr>)"

definition publish_attempt ::
  "('j, 'a, 'h) jetstream_ops \<Rightarrow> string \<Rightarrow> 'h \<Rightarrow> string \<Rightarrow> 'j link \<Rightarrow> (string + unit) \<times> 'j link" where
  "publish_attempt ops subject headers payload lk =
     (case jo_send ops subject headers payload (lk_jetstream lk) of
        (Inl e, j) \<Rightarrow> (Inl e, lk\<lparr>lk_jetstream := j\<rparr>)
      | (Inr ack, j) \<Rightarrow> (case jo_await ops ack j of (r, j) \<Rightarrow> (r, lk\<lparr>lk_jetstream := j\<rparr>)))"

fun publish_loop ::
  "('j, 'a, 'h) jetstream_ops \<Rightarrow> string \<Rightarrow> 'h \<Rightarrow> string \<Rightarrow> duration list \<Rightarrow> 'j link \<Rightarrow> (string + unit) \<times> 'j link"
where
  "publish_loop ops subject headers payload [] lk = publish_attempt ops subject headers payload lk"
| "publish_loop ops subject headers payload (pause # pauses) lk =
     (case publish_attempt ops subject headers payload lk of
        (Inr _, lk) \<Rightarrow> (Inr (), lk)
      | (Inl _, lk) \<Rightarrow>
          publish_loop ops subject headers payload pauses (lk\<lparr>lk_pauses := lk_pauses lk @ [pause]\<rparr>))"

definition letter_of :: "'h delivery \<Rightarrow> stream_position \<Rightarrow> failure \<Rightarrow> 'h letter" where
  "letter_of dv po f =
     \<lparr>dl_stream = po_stream po, dl_sequence = po_sequence po, dl_subject = ms_subject (dv_message dv),
      dl_headers = ms_headers (dv_message dv), dl_arrival = dv_arrival dv, dl_failure = f\<rparr>"

definition publish_dead_letter ::
  "('j, 'a, 'h) dead_letters \<Rightarrow> 'h delivery \<Rightarrow> stream_position \<Rightarrow> failure \<Rightarrow> 'j link \<Rightarrow> (string + unit) \<times> 'j link" where
  "publish_dead_letter dz dv po f =
     publish_loop (dz_ops dz) (dead_letter (dz_prefix dz) (dv_tenant dv))
       (for_dead_letter (dz_headers dz) (letter_of dv po f)) (ms_payload (dv_message dv)) DEAD_LETTER_RETRIES"

definition terminate :: "'h delivery \<Rightarrow> failure \<Rightarrow> ('s, 'j) nats_world \<Rightarrow> ('s, 'j) nats_world" where
  "terminate dv f w =
     (case dv_reply dv of
        None \<Rightarrow> settle_ack AckTerm w
      | Some reply \<Rightarrow>
          send_settlement (SentTerm reply (''+TERM dlq '' @ fl_node f @ '': '' @ failure_kind_str (fl_kind f))) w)"

definition not_dead_lettered :: "'h delivery \<Rightarrow> stream_position \<Rightarrow> failure \<Rightarrow> string \<Rightarrow> string" where
  "not_dead_lettered dv po f err =
     ''could not dead-letter message '' @ show_u64 (po_sequence po) @ '' of stream `'' @ po_stream po
     @ ''` (`'' @ ms_subject (dv_message dv) @ ''`), left in the stream: '' @ err @ ''; it failed with: ''
     @ fl_error f"

definition settle_failure ::
  "'s environment \<Rightarrow> ('j, 'a, 'h) dead_letters \<Rightarrow> 'h delivery \<Rightarrow> duration option \<Rightarrow> failure
     \<Rightarrow> ('s, 'j) nats_world \<Rightarrow> ('s, 'j) nats_world" where
  "settle_failure env dz dv delay f w =
     (case (case dv_position dv of
              Some po \<Rightarrow> if is_final_delivery (po_delivered po) (dz_limit dz) then Some po else None
            | None \<Rightarrow> None) of
        None \<Rightarrow>
          (let delivered = (case dv_position dv of Some po \<Rightarrow> po_delivered po | None \<Rightarrow> 1)
           in settle_ack (AckNak (Some (case delay of Some d \<Rightarrow> d | None \<Rightarrow> nak_delay delivered))) w)
      | Some po \<Rightarrow>
          (let (started, w) = read_instant env w;
               (published, lk) = publish_dead_letter dz dv po f (w_sinks w);
               w = w\<lparr>w_sinks := lk\<rparr>;
               (ended, w) = read_instant env w;
               w = measure (dlq_publish_duration (dv_tenant dv) (ended - started)) w
           in case published of
                Inr _ \<Rightarrow>
                  terminate dv f
                    (log_dead_letter env EvDeadLetter dv po f (fl_error f)
                      (measure (dead_lettered (dv_tenant dv) (fl_node f) (fl_kind f)) w))
              | Inl err \<Rightarrow>
                  settle_ack (AckNak None)
                    (measure (dlq_publish_error (dv_tenant dv))
                      (log_dead_letter env EvDeadLetterFailed dv po f (not_dead_lettered dv po f err) w))))"

text \<open>The ack handle of an envelope.\<close>

definition nats_settle ::
  "'s environment \<Rightarrow> ('j, 'a, 'h) dead_letters \<Rightarrow> 'h delivery \<Rightarrow> ack_outcome \<Rightarrow> ('s, 'j) nats_world
     \<Rightarrow> ('s, 'j) nats_world" where
  "nats_settle env dz dv outcome w =
     (case outcome of
        Acked \<Rightarrow> settle_ack AckYes w
      | Nakked delay f \<Rightarrow> settle_failure env dz dv delay f w)"

section \<open>Receiving\<close>

text \<open>What \<open>message.info()\<close> reads, when it can be read.\<close>

record info =
  in_stream :: string
  in_sequence :: u64
  in_delivered :: int
  in_published :: int

record 'h wire =
  wr_message :: "'h message"
  wr_reply :: "string option"
  wr_info :: "info option"

record ('j, 'a, 'h) nats_source =
  ns_dead :: "('j, 'a, 'h) dead_letters"
  ns_prefix :: string
  ns_codec :: codec
  ns_texts :: codec_texts

definition wire_stream_position :: "info \<Rightarrow> stream_position option" where
  "wire_stream_position i =
     (if 0 \<le> in_delivered i \<and> in_delivered i < 2 ^ 64
      then Some \<lparr>po_stream = in_stream i, po_sequence = in_sequence i, po_delivered = of_int (in_delivered i)\<rparr>
      else None)"

definition published_of :: "info \<Rightarrow> u64 option" where
  "published_of i = (if 0 \<le> in_published i \<and> in_published i < 2 ^ 64 then Some (of_int (in_published i)) else None)"

definition report_invalid_headers ::
  "invalid_header list \<Rightarrow> string \<Rightarrow> ('s, 'j) nats_world \<Rightarrow> ('s, 'j) nats_world" where
  "report_invalid_headers invalid t w = fold (\<lambda>_. measure (source_invalid_header t)) invalid w"

text \<open>One message: settled here when it does not decode, else handed on with what settles it.\<close>

definition receive ::
  "'s environment \<Rightarrow> ('j, 'a, 'h) nats_source \<Rightarrow> 'h wire \<Rightarrow> ('s, 'j) nats_world
     \<Rightarrow> (envelope \<times> 'h delivery) option \<times> ('s, 'j) nats_world" where
  "receive env src wire w =
     (let position = (case wr_info wire of Some i \<Rightarrow> wire_stream_position i | None \<Rightarrow> None);
          delivered = (case position of Some po \<Rightarrow> po_delivered po | None \<Rightarrow> 1);
          published = (case wr_info wire of Some i \<Rightarrow> published_of i | None \<Rightarrow> None);
          m = wr_message wire;
          (a, invalid) =
            arrival_read (dz_headers (ns_dead src)) (ns_prefix src)
              \<lparr>rv_subject = ms_subject m, rv_headers = ms_headers m, rv_published = published,
               rv_delivered = delivered, rv_bytes = of_nat (length (ms_payload m))\<rparr>;
          t = tenant_of a;
          w = report_invalid_headers invalid t w;
          decoded = (if is_log a then codec_decode (ns_texts src) (ns_codec src) (ms_payload m) else Inr JNull);
          dv = \<lparr>dv_message = m, dv_arrival = a, dv_tenant = t, dv_reply = wr_reply wire, dv_position = position\<rparr>
      in case decoded of
           Inr r \<Rightarrow> (Some (\<lparr>en_record = r, en_arrival = a\<rparr>, dv), w)
         | Inl err \<Rightarrow>
             (let w = (case arr_bytes a of Some bytes \<Rightarrow> measure (bytes_in t bytes) w | None \<Rightarrow> w);
                  w = (if 1 < delivered then measure (source_redelivery t) w else w);
                  w = measure (source_nak t) w
              in (None, settle_failure env (ns_dead src) dv None
                          (failure_at_source UndecodableKind (decode_error_display err)) w)))"

text \<open>A message from the stream to its settlement, the engine between.\<close>

definition nats_serve ::
  "nat \<Rightarrow> 's environment \<Rightarrow> ('s, 'j link) pipeline \<Rightarrow> ('j, 'a, 'h) nats_source \<Rightarrow> 'h wire \<Rightarrow> trace_buffer
     \<Rightarrow> ('s, 'j) nats_world \<Rightarrow> (trace_buffer \<times> ('s, 'j) nats_world) option" where
  "nats_serve fuel env pl src wire spans w =
     (case receive env src wire w of
        (None, w) \<Rightarrow> Some (spans, w)
      | (Some (e, dv), w) \<Rightarrow>
          (case handle fuel env pl e spans w of
             None \<Rightarrow> None
           | Some (outcome, spans, w) \<Rightarrow> Some (spans, nats_settle env (ns_dead src) dv outcome w)))"

section \<open>The sink\<close>

record ('j, 'a, 'h) nats_sink =
  nk_ops :: "('j, 'a, 'h) jetstream_ops"
  nk_headers :: "'h header_ops"
  nk_texts :: codec_texts
  nk_stream :: string
  nk_subject :: string
  nk_encoding :: encoding

datatype write_error = SerializeError string | PublishError string string string

fun write_error_display :: "write_error \<Rightarrow> string" where
  "write_error_display (SerializeError e) = ''record could not be serialized: '' @ e"
| "write_error_display (PublishError subject stream e) =
     ''publish to `'' @ subject @ ''` (stream `'' @ stream @ ''`) was not acknowledged: '' @ e"

definition publish_error :: "('j, 'a, 'h) nats_sink \<Rightarrow> string \<Rightarrow> write_error" where
  "publish_error nk e = PublishError (nk_subject nk) (nk_stream nk) e"

fun send_all ::
  "('j, 'a, 'h) nats_sink \<Rightarrow> (json \<times> meta) list \<Rightarrow> 'a list \<Rightarrow> u64 \<Rightarrow> 'j \<Rightarrow> (write_error + 'a list \<times> u64) \<times> 'j"
where
  "send_all nk [] acks bytes j = (Inr (acks, bytes), j)"
| "send_all nk ((r, m) # batch) acks bytes j =
     (case encoding_encode (nk_texts nk) (nk_encoding nk) r of
        Inl e \<Rightarrow> (Inl (SerializeError e), j)
      | Inr payload \<Rightarrow>
          (case jo_send (nk_ops nk) (nk_subject nk) (for_meta (nk_headers nk) m) payload j of
             (Inl e, j) \<Rightarrow> (Inl (publish_error nk e), j)
           | (Inr ack, j) \<Rightarrow> send_all nk batch (acks @ [ack]) (bytes + of_nat (length payload)) j))"

fun await_all :: "('j, 'a, 'h) nats_sink \<Rightarrow> 'a list \<Rightarrow> 'j \<Rightarrow> (write_error + unit) \<times> 'j" where
  "await_all nk [] j = (Inr (), j)"
| "await_all nk (ack # acks) j =
     (case jo_await (nk_ops nk) ack j of
        (Inl e, j) \<Rightarrow> (Inl (publish_error nk e), j)
      | (Inr _, j) \<Rightarrow> await_all nk acks j)"

definition publish_all ::
  "('j, 'a, 'h) nats_sink \<Rightarrow> (json \<times> meta) list \<Rightarrow> 'j \<Rightarrow> (write_error + u64) \<times> 'j" where
  "publish_all nk batch j =
     (case send_all nk batch [] 0 j of
        (Inl e, j) \<Rightarrow> (Inl e, j)
      | (Inr (acks, bytes), j) \<Rightarrow>
          (case await_all nk acks j of
             (Inl e, j) \<Rightarrow> (Inl e, j)
           | (Inr _, j) \<Rightarrow> (Inr bytes, j)))"

text \<open>The sink as the engine calls it, with a batch of one; \<open>SinkError\<close> prints with its prefix.\<close>

definition nats_sink_write ::
  "('j, 'a, 'h) nats_sink \<Rightarrow> meta \<Rightarrow> rec_value \<Rightarrow> 'j link \<Rightarrow> (string + u64) option \<times> 'j link" where
  "nats_sink_write nk m r lk =
     (case publish_all nk [(r, m)] (lk_jetstream lk) of
        (res, j) \<Rightarrow>
          (Some (map_sum (\<lambda>e. ''sink write failed: '' @ write_error_display e) id res), lk\<lparr>lk_jetstream := j\<rparr>))"

end
