(* ===== verification/Nats_Setup.thy ===== *)
theory Nats_Setup
  imports Nats_Source
begin

text \<open>
  \<open>crates/nats/src/config.rs\<close> and the building of sources and sinks in \<open>lib.rs\<close>: which server, stream,
  consumer and dead-letter stream a pipeline may run on. What the server answers is a function of
  what is asked (\<open>server\<close>); the connection cache and the runtime are left out.
\<close>

section \<open>Parameters\<close>

definition DEFAULT_URL :: string where "DEFAULT_URL = ''nats://127.0.0.1:4222''"
definition DEFAULT_TENANT_PREFIX :: string where "DEFAULT_TENANT_PREFIX = ''logs''"
definition DEFAULT_DLQ_PREFIX :: string where "DEFAULT_DLQ_PREFIX = ''dlq''"

definition resolve_url :: "string option \<Rightarrow> string option \<Rightarrow> string" where
  "resolve_url yaml env =
     (case (case env of Some url \<Rightarrow> if url \<noteq> [] then Some url else None | None \<Rightarrow> None) of
        Some url \<Rightarrow> url
      | None \<Rightarrow> (case yaml of Some url \<Rightarrow> url | None \<Rightarrow> DEFAULT_URL))"

record source_params =
  sp_url :: "string option"
  sp_stream :: string
  sp_consumer :: string
  sp_tenant_prefix :: string
  sp_dlq_prefix :: string
  sp_codec :: codec

record sink_params =
  kp_url :: "string option"
  kp_stream :: string
  kp_subject :: string
  kp_encoding :: encoding

section \<open>Errors\<close>

datatype nats_error =
    RuntimeFailed string
  | ConnectFailed string string
  | StreamMissing string string
  | ConsumerNotExplicitAck string string string string
  | UnboundedDelivery string string string
  | ConsumerBackoff string string string
  | DeadLetterStreamMissing string string
  | DeadLetterNotCovered string string "string list" string
  | ConsumerMissing string string string
  | SubjectNotCaptured string string "string list" string
  | RequestFailed string string

text \<open>\<open>debug\<close> is what \<open>{:?}\<close> prints of a list of subjects.\<close>

primrec nats_error_display :: "(string list \<Rightarrow> string) \<Rightarrow> nats_error \<Rightarrow> string" where
  "nats_error_display debug (RuntimeFailed e) = ''could not start the NATS I/O runtime: '' @ e"
| "nats_error_display debug (ConnectFailed url e) = ''could not connect to NATS at '' @ url @ '': '' @ e"
| "nats_error_display debug (StreamMissing stream url) =
     ''stream `'' @ stream @ ''` does not exist at '' @ url @ ''; create it before starting the pipeline''"
| "nats_error_display debug (ConsumerNotExplicitAck stream consumer policy url) =
     ''consumer `'' @ consumer @ ''` on stream `'' @ stream @ ''` at '' @ url @ '' has ack policy `'' @ policy
     @ ''`; the pipeline needs `explicit`''"
| "nats_error_display debug (UnboundedDelivery stream consumer url) =
     ''consumer `'' @ consumer @ ''` on stream `'' @ stream @ ''` at '' @ url
     @ '' has no `max_deliver`; the pipeline needs a positive limit to dead-letter a message''"
| "nats_error_display debug (ConsumerBackoff stream consumer url) =
     ''consumer `'' @ consumer @ ''` on stream `'' @ stream @ ''` at '' @ url
     @ '' sets `backoff`; the pipeline sets each redelivery delay on its nak, so the consumer must not''"
| "nats_error_display debug (DeadLetterStreamMissing prefix url) =
     ''no stream at '' @ url @ '' captures the dead-letter subjects `'' @ prefix
     @ ''.<tenant>`; create one (e.g. subjects `'' @ prefix @ ''.>`) before starting the pipeline''"
| "nats_error_display debug (DeadLetterNotCovered stream prefix subjects url) =
     ''stream `'' @ stream @ ''` at '' @ url @ '' captures some `'' @ prefix
     @ ''.<tenant>` subjects but not every tenant'' @ [SQ] @ ''s (its subjects are '' @ debug subjects
     @ ''); use `'' @ prefix @ ''.>` or `'' @ prefix @ ''.*`''"
| "nats_error_display debug (ConsumerMissing stream consumer url) =
     ''consumer `'' @ consumer @ ''` does not exist on stream `'' @ stream @ ''` at '' @ url
     @ ''; create it (pull, explicit ack) before starting the pipeline''"
| "nats_error_display debug (SubjectNotCaptured stream subject subjects url) =
     ''stream `'' @ stream @ ''` at '' @ url @ '' does not capture subject `'' @ subject
     @ ''` (its subjects are '' @ debug subjects @ '')''"
| "nats_error_display debug (RequestFailed url message) = ''JetStream request failed at '' @ url @ '': '' @ message"

section \<open>What the server answers\<close>

datatype 'a answer = Found 'a | NotFound | Failed string

record consumer_info =
  ci_ack_policy :: string
  ci_max_deliver :: int
  ci_backoff :: "nat list"

text \<open>A stream is known by its subjects. The third query is \<open>stream_by_subject\<close>, the fourth the
  \<open>get_consumer\<close> that opens the consumer.\<close>

record server =
  sv_connect :: "string + unit"
  sv_stream :: "string \<Rightarrow> string list answer"
  sv_consumer_info :: "string \<Rightarrow> string \<Rightarrow> consumer_info answer"
  sv_stream_by_subject :: "string \<Rightarrow> string answer"
  sv_consumer :: "string \<Rightarrow> string \<Rightarrow> string + unit"

definition connect :: "server \<Rightarrow> string \<Rightarrow> nats_error + unit" where
  "connect sv url = map_sum (ConnectFailed url) id (sv_connect sv)"

definition get_stream :: "server \<Rightarrow> string \<Rightarrow> string \<Rightarrow> nats_error + string list" where
  "get_stream sv stream url =
     (case sv_stream sv stream of
        Found subjects \<Rightarrow> Inr subjects
      | NotFound \<Rightarrow> Inl (StreamMissing stream url)
      | Failed e \<Rightarrow> Inl (RequestFailed url e))"

definition check_dead_letter_stream :: "server \<Rightarrow> string \<Rightarrow> string \<Rightarrow> nats_error + unit" where
  "check_dead_letter_stream sv prefix url =
     (case sv_stream_by_subject sv (prefix @ ''.*'') of
        NotFound \<Rightarrow> Inl (DeadLetterStreamMissing prefix url)
      | Failed e \<Rightarrow> Inl (RequestFailed url e)
      | Found name \<Rightarrow>
          (case get_stream sv name url of
             Inl e \<Rightarrow> Inl e
           | Inr subjects \<Rightarrow>
               if stream_covers_every_tenant subjects prefix then Inr ()
               else Inl (DeadLetterNotCovered name prefix subjects url)))"

section \<open>Building\<close>

text \<open>\<open>Nats::source\<close>, up to the source it returns: the consumer's delivery limit.\<close>

definition check_source :: "server \<Rightarrow> string \<Rightarrow> source_params \<Rightarrow> nats_error + u64" where
  "check_source sv url p =
     (let stream = sp_stream p; consumer = sp_consumer p in
      case connect sv url of Inl e \<Rightarrow> Inl e | Inr _ \<Rightarrow>
      case get_stream sv stream url of Inl e \<Rightarrow> Inl e | Inr _ \<Rightarrow>
      case sv_consumer_info sv stream consumer of
        NotFound \<Rightarrow> Inl (ConsumerMissing stream consumer url)
      | Failed e \<Rightarrow> Inl (RequestFailed url e)
      | Found i \<Rightarrow>
          if ci_ack_policy i \<noteq> ''explicit'' then Inl (ConsumerNotExplicitAck stream consumer (ci_ack_policy i) url)
          else case delivery_limit (ci_max_deliver i) of
              None \<Rightarrow> Inl (UnboundedDelivery stream consumer url)
            | Some limit \<Rightarrow>
                if ci_backoff i \<noteq> [] then Inl (ConsumerBackoff stream consumer url)
                else case check_dead_letter_stream sv (sp_dlq_prefix p) url of
                    Inl e \<Rightarrow> Inl e
                  | Inr _ \<Rightarrow>
                      (case sv_consumer sv stream consumer of
                         Inl e \<Rightarrow> Inl (RequestFailed url e)
                       | Inr _ \<Rightarrow> Inr limit))"

definition source_build ::
  "server \<Rightarrow> string option \<Rightarrow> ('j, 'a, 'h) jetstream_ops \<Rightarrow> 'h header_ops \<Rightarrow> codec_texts \<Rightarrow> source_params
     \<Rightarrow> nats_error + ('j, 'a, 'h) nats_source" where
  "source_build sv env ops H ct p =
     map_sum id
       (\<lambda>limit. \<lparr>ns_dead = \<lparr>dz_ops = ops, dz_headers = H, dz_prefix = sp_dlq_prefix p, dz_limit = limit\<rparr>,
                  ns_prefix = sp_tenant_prefix p, ns_codec = sp_codec p, ns_texts = ct\<rparr>)
       (check_source sv (resolve_url (sp_url p) env) p)"

definition sink_build ::
  "server \<Rightarrow> string option \<Rightarrow> ('j, 'a, 'h) jetstream_ops \<Rightarrow> 'h header_ops \<Rightarrow> codec_texts \<Rightarrow> sink_params
     \<Rightarrow> nats_error + ('j, 'a, 'h) nats_sink" where
  "sink_build sv env ops H ct p =
     (let url = resolve_url (kp_url p) env in
      case connect sv url of Inl e \<Rightarrow> Inl e | Inr _ \<Rightarrow>
      case get_stream sv (kp_stream p) url of
        Inl e \<Rightarrow> Inl e
      | Inr subjects \<Rightarrow>
          if \<not> stream_captures subjects (kp_subject p)
          then Inl (SubjectNotCaptured (kp_stream p) (kp_subject p) subjects url)
          else Inr \<lparr>nk_ops = ops, nk_headers = H, nk_texts = ct, nk_stream = kp_stream p,
                    nk_subject = kp_subject p, nk_encoding = kp_encoding p\<rparr>)"

text \<open>What \<open>register\<close> puts under \<open>sink.nats\<close>: parameters, then the sink.\<close>

definition SINK_TYPE :: string where "SINK_TYPE = ''sink.nats''"

definition nats_sink_factory ::
  "server \<Rightarrow> string option \<Rightarrow> (string list \<Rightarrow> string) \<Rightarrow> ('j, 'a, 'h) jetstream_ops \<Rightarrow> 'h header_ops
     \<Rightarrow> codec_texts \<Rightarrow> (yaml \<Rightarrow> string + sink_params) \<Rightarrow> node_config \<Rightarrow> config_error + 'j link sink" where
  "nats_sink_factory sv env debug ops H ct from_value node =
     (case parse_params from_value node of
        Inl e \<Rightarrow> Inl e
      | Inr p \<Rightarrow>
          map_sum (\<lambda>e. invalid_params node (nats_error_display debug e))
            (\<lambda>nk. \<lparr>sk_write = nats_sink_write nk\<rparr>) (sink_build sv env ops H ct p))"

definition register_nats_sink ::
  "server \<Rightarrow> string option \<Rightarrow> (string list \<Rightarrow> string) \<Rightarrow> ('j, 'a, 'h) jetstream_ops \<Rightarrow> 'h header_ops
     \<Rightarrow> codec_texts \<Rightarrow> (yaml \<Rightarrow> string + sink_params) \<Rightarrow> ('s, 'j link) registry \<Rightarrow> ('s, 'j link) registry" where
  "register_nats_sink sv env debug ops H ct from_value g =
     register_sink SINK_TYPE (nats_sink_factory sv env debug ops H ct from_value) g"

end
