(* ===== verification/Nats_Header_Laws.thy ===== *)
theory Nats_Header_Laws
  imports Nats_Headers
begin

text \<open>
  What holds of \<open>crates/nats/src/headers.rs\<close> over any header map that keeps its contract: a record's
  metadata survives its headers and the headers of its dead letter, a dead letter keeps the
  producer's headers, and no header is reported twice. The contract is the locale \<open>header_map\<close>,
  interpreted on the list of the header lines in order.
\<close>

definition header_name_list :: "string list" where
  "header_name_list =
     [RECORD_ID, RECORD_KIND, TENANT, INGESTION_TIME, INGESTION_TIME_KIND, DLQ_REASON, DLQ_SUBJECT, MSG_ID]"

lemma header_names_distinct: "distinct header_name_list \<and> distinct (rev header_name_list)"
  by code_simp

lemmas header_names_neq [simp] = header_names_distinct [unfolded header_name_list_def, simplified]

section \<open>Line breaks\<close>

text \<open>A header value is refused only for a line break.\<close>

definition one_line :: "string \<Rightarrow> bool" where
  "one_line s \<longleftrightarrow> CHR 0x0A \<notin> set s \<and> CHR 0x0D \<notin> set s"

lemma one_line_append [simp]: "one_line (s @ t) \<longleftrightarrow> one_line s \<and> one_line t"
  by (auto simp: one_line_def)

lemma one_line_Cons [simp]: "one_line (c # t) \<longleftrightarrow> c \<noteq> CHR 0x0A \<and> c \<noteq> CHR 0x0D \<and> one_line t"
  and one_line_Nil [simp]: "one_line []"
  by (auto simp: one_line_def)

lemma one_line_show_u64 [simp]: "one_line (show_u64 w)"
  by (simp add: one_line_def not_in_show_u64 is_ascii_digit_def byte_def)

lemma one_line_kinds [simp]: "one_line (kind_str k)" "one_line (time_kind_str t)"
  by (cases k; simp) (cases t; simp)

lemma well_formed_ascii:
  assumes "well_formed_char p" "x \<in> set p" "byte x < 128"
  shows "p = [x]"
proof -
  consider a where "p = [a]" | a b q where "p = a # b # q"
    using assms(2) by (cases p; cases "tl p") auto
  then show ?thesis
    using assms by cases (auto simp: well_formed_char_def cont_byte_def split: list.splits)
qed

lemma utf8_chars_set: "x \<in> set s \<Longrightarrow> \<exists>p \<in> set (utf8_chars s). x \<in> set p"
  using concat_utf8_chars [of s] by (metis UN_E set_concat)

lemma valid_tenant_one_line:
  assumes "is_valid_tenant t" "is_utf8 t"
  shows "one_line t"
proof -
  have "x \<notin> set t" if x: "byte x < 32" for x
  proof
    assume "x \<in> set t"
    then obtain p where p: "p \<in> set (utf8_chars t)" "x \<in> set p" using utf8_chars_set by blast
    have "p = [x]" using well_formed_ascii [OF _ p(2)] assms(2) p(1) x by (auto simp: is_utf8_def list_all_iff)
    then have "is_control p" using x by simp
    with p(1) assms(1) show False by (auto simp: is_valid_tenant_def list_ex_iff)
  qed
  then show ?thesis by (simp add: one_line_def byte_def)
qed

lemma UNKNOWN_TENANT_one_line: "one_line UNKNOWN_TENANT"
  by (simp add: UNKNOWN_TENANT_def)

section \<open>The line of a failure\<close>

lemma header_line_loop_length:
  "length line \<le> REASON_CAP \<Longrightarrow> length (header_line_loop cs line) \<le> REASON_CAP"
  by (induction cs line rule: header_line_loop.induct) (auto simp: Let_def)

lemma header_line_length: "length (header_line text) \<le> REASON_CAP"
  unfolding header_line_def by (rule header_line_loop_length) simp

lemma header_line_loop_one_line:
  "one_line line \<Longrightarrow> list_all well_formed_char cs \<Longrightarrow> one_line (header_line_loop cs line)"
proof (induction cs line rule: header_line_loop.induct)
  case (2 c cs line)
  have "one_line c" if "\<not> is_control c"
  proof -
    have "x \<notin> set c" if x: "byte x < 32" for x
      using well_formed_ascii [of c x] 2(3) \<open>\<not> is_control c\<close> x by (auto simp: list_all_iff)
    then show ?thesis by (simp add: one_line_def byte_def)
  qed
  with 2 show ?case by (auto simp: Let_def)
qed simp

lemma header_line_one_line: "is_utf8 text \<Longrightarrow> one_line (header_line text)"
  unfolding header_line_def is_utf8_def by (rule header_line_loop_one_line) simp_all

section \<open>The contract of a header map\<close>

locale header_map =
  fixes H :: "'h header_ops"
  assumes get_new: "hm_get_all H n (hm_new H) = []"
    and get_insert: "hm_get_all H n (hm_insert H k v h) = (if n = k then [v] else hm_get_all H n h)"
    and get_append: "hm_get_all H n (hm_append H k v h) = hm_get_all H n h @ (if n = k then [v] else [])"
    and iter_distinct: "distinct (map fst (hm_iter H h))"
    and iter_iff: "(n, vs) \<in> set (hm_iter H h) \<longleftrightarrow> vs \<noteq> [] \<and> vs = hm_get_all H n h"
    and value_ok: "one_line v \<Longrightarrow> hm_value_ok H v"
begin

lemma get_insert_header:
  "one_line v \<Longrightarrow>
   hm_get_all H n (insert_header H k v h) = (if n = k then [v] else hm_get_all H n h)"
  by (simp add: insert_header_def value_ok get_insert)

lemma get_append_all: "hm_get_all H n (fold (hm_append H k) vs h) = hm_get_all H n h @ (if n = k then vs else [])"
  by (induction vs arbitrary: h) (auto simp: get_append)

lemma get_copied:
  "distinct (map fst es) \<Longrightarrow>
   hm_get_all H n (copy_headers H es h) =
     hm_get_all H n h @ (if reserved_header n then [] else case map_of es n of Some vs \<Rightarrow> vs | None \<Rightarrow> [])"
proof (induction es arbitrary: h)
  case (Cons e es)
  obtain k vs where e: "e = (k, vs)" by force
  have "map_of es k = None" using Cons.prems e by (simp add: map_of_eq_None_iff)
  with Cons show ?case by (auto simp: copy_headers_def e get_append_all)
qed (simp add: copy_headers_def)

lemma map_of_iter: "(case map_of (hm_iter H h) n of Some vs \<Rightarrow> vs | None \<Rightarrow> []) = hm_get_all H n h"
proof (cases "hm_get_all H n h = []")
  case True
  then have "map_of (hm_iter H h) n = None"
    using iter_iff [of n _ h] by (auto simp: map_of_eq_None_iff)
  with True show ?thesis by simp
next
  case False
  then have "(n, hm_get_all H n h) \<in> set (hm_iter H h)" by (simp add: iter_iff)
  then show ?thesis using iter_distinct by (simp add: map_of_is_SomeI)
qed

lemma get_write_meta:
  assumes "one_line t"
  shows "hm_get_all H n (write_meta H rid t time h) =
    (case (n = RECORD_ID, rid) of (True, Some i) \<Rightarrow> [show_u64 i] | _ \<Rightarrow>
     if n = TENANT then [t] else
     case (n = INGESTION_TIME, n = INGESTION_TIME_KIND, time) of
       (True, _, Some x) \<Rightarrow> [show_u64 (unix_nanos x)]
     | (_, True, Some x) \<Rightarrow> [time_kind_str (time_kind_of x)]
     | _ \<Rightarrow> hm_get_all H n h)"
  using assms
  by (auto simp: write_meta_def Let_def get_insert_header split: option.splits bool.splits)

end

text \<open>The header lines of a message in order are a header map.\<close>

definition line_headers :: "(string \<times> string) list header_ops" where
  "line_headers =
     \<lparr>hm_new = [],
      hm_insert = (\<lambda>k v h. filter (\<lambda>e. fst e \<noteq> k) h @ [(k, v)]),
      hm_append = (\<lambda>k v h. h @ [(k, v)]),
      hm_get_all = (\<lambda>n h. map snd (filter (\<lambda>e. fst e = n) h)),
      hm_iter = (\<lambda>h. map (\<lambda>n. (n, map snd (filter (\<lambda>e. fst e = n) h))) (remdups (map fst h))),
      hm_value_ok = (\<lambda>v. CHR 0x0A \<notin> set v \<and> CHR 0x0D \<notin> set v)\<rparr>"

interpretation lines: header_map line_headers
proof
  fix n k v :: string and h :: "(string \<times> string) list" and vs
  show "hm_get_all line_headers n (hm_new line_headers) = []"
    and "hm_get_all line_headers n (hm_append line_headers k v h) =
      hm_get_all line_headers n h @ (if n = k then [v] else [])"
    by (auto simp: line_headers_def)
  show "hm_get_all line_headers n (hm_insert line_headers k v h) =
      (if n = k then [v] else hm_get_all line_headers n h)"
  proof -
    have "filter (\<lambda>e. fst e = n \<and> fst e \<noteq> k) h = (if n = k then [] else filter (\<lambda>e. fst e = n) h)"
      by (auto simp: filter_empty_conv intro: filter_cong)
    then show ?thesis by (simp add: line_headers_def conj_commute)
  qed
  show "distinct (map fst (hm_iter line_headers h))"
    by (simp add: line_headers_def o_def)
  show "(n, vs) \<in> set (hm_iter line_headers h) \<longleftrightarrow> vs \<noteq> [] \<and> vs = hm_get_all line_headers n h"
    by (fastforce simp: line_headers_def filter_empty_conv image_iff)
  show "one_line v \<Longrightarrow> hm_value_ok line_headers v"
    by (simp add: line_headers_def one_line_def)
qed

section \<open>Headers read back\<close>

text \<open>What a source reads of a map whose pipeline headers are those of \<open>write_meta\<close>.\<close>

lemma parse_decimal_show [simp]: "parse_decimal (show_u64 w) = Some w"
  using show_nat_digits [of "unat w"] by (simp add: parse_decimal_def is_decimal_def show_u64_def [symmetric])
    (simp add: show_u64_def)

lemma kind_parse_str [simp]: "kind_parse (kind_str k) = Some k"
  unfolding kind_parse_def by (rule kinds.parse_as_str)

lemma time_kind_parse_str [simp]: "time_kind_parse (time_kind_str k) = Some k"
  unfolding time_kind_parse_def by (rule time_kinds.parse_as_str)

definition header_list :: "'a option \<Rightarrow> ('a \<Rightarrow> string) \<Rightarrow> string list" where
  "header_list v show = (case v of Some x \<Rightarrow> [show x] | None \<Rightarrow> [])"

lemma header_list_simps [simp]: "header_list (Some x) f = [f x]" "header_list None f = []"
  by (simp_all add: header_list_def)

definition carries :: "'h header_ops \<Rightarrow> 'h \<Rightarrow> record_id option \<Rightarrow> kind option \<Rightarrow> string \<Rightarrow> ingestion_time option \<Rightarrow> bool"
where
  "carries H h rid kind t time \<longleftrightarrow>
     hm_get_all H RECORD_ID h = header_list rid show_u64
   \<and> hm_get_all H RECORD_KIND h = header_list kind kind_str
   \<and> hm_get_all H TENANT h = [t]
   \<and> hm_get_all H INGESTION_TIME h = header_list time (\<lambda>x. show_u64 (unix_nanos x))
   \<and> hm_get_all H INGESTION_TIME_KIND h = header_list time (\<lambda>x. time_kind_str (time_kind_of x))"

lemma header_one_list [simp]:
  "header_one H (Some h) n = (case hm_get_all H n h of [] \<Rightarrow> Inr None | [v] \<Rightarrow> Inr (Some v) | _ \<Rightarrow> Inl (InvRepeated n))"
  by (simp add: header_one_def)

lemma arrival_of_carried:
  assumes "carries H h rid kind t time" "is_valid_tenant t" "rv_headers rv = Some h"
    and "\<And>s. tenant_from_subject (rv_subject rv) prefix = Some s \<Longrightarrow> \<not> is_valid_tenant s"
  shows "arrival_read H prefix rv =
    (\<lparr>arr_record_id = rid, arr_kind = (case kind of Some k \<Rightarrow> Named k | None \<Rightarrow> Unnamed), arr_tenant = Some t,
      arr_time = (case time of Some x \<Rightarrow> Some x | None \<Rightarrow> map_option Reported (rv_published rv)),
      arr_delivery = rv_delivered rv, arr_bytes = Some (rv_bytes rv)\<rparr>, [])"
proof -
  have named: "(case tenant_from_subject (rv_subject rv) prefix of
      Some t \<Rightarrow> if is_valid_tenant t then Some t else None | None \<Rightarrow> None) = None"
    using assms(4) by (auto split: option.splits)
  have c: "hm_get_all H RECORD_ID h = header_list rid show_u64"
    "hm_get_all H RECORD_KIND h = header_list kind kind_str" "hm_get_all H TENANT h = [t]"
    "hm_get_all H INGESTION_TIME h = header_list time (\<lambda>x. show_u64 (unix_nanos x))"
    "hm_get_all H INGESTION_TIME_KIND h = header_list time (\<lambda>x. time_kind_str (time_kind_of x))"
    using assms(1) by (simp_all add: carries_def)
  have rid: "parse_or_report (header_one H (Some h) RECORD_ID) [] (\<lambda>t. or_invalid (parse_decimal t) (InvRecordId t)) = (rid, [])"
    by (cases rid) (simp_all add: c parse_or_report_def parse_header_def or_invalid_def)
  have kind: "parse_header (header_one H (Some h) RECORD_KIND) (\<lambda>t. or_invalid (kind_parse t) (InvRecordKind t)) = Inr kind"
    by (cases kind) (simp_all add: c parse_header_def or_invalid_def)
  have ten: "header_tenant H (Some h) [] = (Some t, [])"
    using assms(2) by (simp add: c header_tenant_def parse_or_report_def parse_header_def)
  have tm: "header_time (header_one H (Some h) INGESTION_TIME) (header_one H (Some h) INGESTION_TIME_KIND) [] = (time, [])"
    by (cases time) (simp_all add: c header_time_def Let_def parse_header_def or_invalid_def)
  show ?thesis
    unfolding arrival_read_def assms(3) Let_def named rid kind tm split_def
    by (simp add: ten tm del: header_one_list split: option.split)
qed

lemma reserved_names [simp]:
  "reserved_header RECORD_ID" "reserved_header RECORD_KIND" "reserved_header TENANT"
  "reserved_header INGESTION_TIME" "reserved_header INGESTION_TIME_KIND" "reserved_header DLQ_REASON"
  "reserved_header DLQ_SUBJECT" "reserved_header MSG_ID"
  by code_simp+

text \<open>The five texts of a dead letter that are not numbers, without a line break.\<close>

definition letter_one_line :: "'h letter \<Rightarrow> bool" where
  "letter_one_line l \<longleftrightarrow>
     one_line (tenant_of (dl_arrival l)) \<and> is_utf8 (fl_node (dl_failure l) @ '': '' @ fl_error (dl_failure l))
   \<and> one_line (dl_subject l) \<and> one_line (dl_stream l)"

context header_map
begin

lemma for_meta_carries:
  assumes "is_valid_tenant (tenant m)" "is_utf8 (tenant m)"
  shows "carries H (for_meta H m) (Some (record_id m)) None (tenant m) (Some (ingestion_time m))"
  using valid_tenant_one_line [OF assms]
  by (simp add: carries_def for_meta_def get_write_meta get_new)

lemma get_dead_letter:
  assumes "letter_one_line l"
  shows "hm_get_all H n (for_dead_letter H l) =
    (let a = dl_arrival l; f = dl_failure l in
     if n = MSG_ID then [dl_stream l @ '':'' @ show_u64 (dl_sequence l)]
     else if n = DLQ_SUBJECT then [dl_subject l]
     else if n = DLQ_REASON then [header_line (fl_node f @ '': '' @ fl_error f)]
     else if n = RECORD_KIND then (case arr_kind a of Named k \<Rightarrow> [kind_str k] | _ \<Rightarrow> [])
     else if n = RECORD_ID then header_list (arr_record_id a) show_u64
     else if n = TENANT then [tenant_of a]
     else if n = INGESTION_TIME then header_list (arr_time a) (\<lambda>x. show_u64 (unix_nanos x))
     else if n = INGESTION_TIME_KIND then header_list (arr_time a) (\<lambda>x. time_kind_str (time_kind_of x))
     else if reserved_header n then []
     else case dl_headers l of Some h \<Rightarrow> hm_get_all H n h | None \<Rightarrow> [])"
proof -
  have "distinct (map fst (case dl_headers l of Some hs \<Rightarrow> hm_iter H hs | None \<Rightarrow> []))"
    using iter_distinct by (simp split: option.split)
  note copied = get_copied [OF this, of _ "hm_new H"]
  have "(case map_of (case dl_headers l of Some hs \<Rightarrow> hm_iter H hs | None \<Rightarrow> []) k of Some vs \<Rightarrow> vs | None \<Rightarrow> [])
      = (case dl_headers l of Some h \<Rightarrow> hm_get_all H k h | None \<Rightarrow> [])" for k
    by (simp add: map_of_iter split: option.split)
  note copied = copied [unfolded this get_new append_Nil]
  define reason where "reason = fl_node (dl_failure l) @ '': '' @ fl_error (dl_failure l)"
  have lines: "one_line (tenant_of (dl_arrival l))" "one_line (dl_subject l)" "one_line (dl_stream l)"
    "one_line (header_line reason)"
    using assms header_line_one_line [of reason] by (simp_all add: letter_one_line_def reason_def)
  show ?thesis
    unfolding for_dead_letter_def Let_def reason_def [symmetric]
    by (cases "arr_kind (dl_arrival l)"; cases "arr_record_id (dl_arrival l)"; cases "arr_time (dl_arrival l)")
      (auto simp: lines get_insert_header get_write_meta copied)
qed

lemma dead_letter_carries:
  assumes "letter_one_line l"
  shows "carries H (for_dead_letter H l) (arr_record_id (dl_arrival l))
    (case arr_kind (dl_arrival l) of Named k \<Rightarrow> Some k | _ \<Rightarrow> None) (tenant_of (dl_arrival l)) (arr_time (dl_arrival l))"
  by (simp add: carries_def get_dead_letter [OF assms] Let_def split: arrival_kind.split)

end

section \<open>No header is reported twice\<close>

text \<open>The header a report is about.\<close>

fun about_header :: "invalid_header \<Rightarrow> string" where
  "about_header (InvRecordId t) = RECORD_ID"
| "about_header (InvRecordKind t) = RECORD_KIND"
| "about_header InvTenant = TENANT"
| "about_header (InvRepeated n) = n"
| "about_header (InvTime t) = INGESTION_TIME"
| "about_header (InvKind t) = INGESTION_TIME_KIND"
| "about_header (InvUnpaired n) = n"

definition reports :: "string set \<Rightarrow> invalid_header list \<Rightarrow> bool" where
  "reports names r \<longleftrightarrow> distinct (map about_header r) \<and> about_header ` set r \<subseteq> names"

lemma reports_append: "reports A r \<Longrightarrow> reports B q \<Longrightarrow> A \<inter> B = {} \<Longrightarrow> reports (A \<union> B) (r @ q)"
  by (fastforce simp: reports_def)

lemma header_one_about: "header_one H hs n = Inl e \<Longrightarrow> about_header e = n"
  by (auto simp: header_one_def split: option.splits list.splits)

lemma parse_header_about:
  assumes "parse_header (header_one H hs n) parse = Inl e" "\<And>t e. parse t = Inl e \<Longrightarrow> about_header e = n"
  shows "about_header e = n"
  using assms header_one_about by (auto simp: parse_header_def split: sum.splits option.splits)

lemma or_invalid_about: "or_invalid v f = Inl e \<Longrightarrow> about_header e = about_header f"
  by (auto simp: or_invalid_def split: option.splits)

lemma parse_or_report_about:
  assumes "parse_or_report (header_one H hs n) invalid parse = (v, out)"
    and "\<And>t e. parse t = Inl e \<Longrightarrow> about_header e = n"
  shows "\<exists>r. out = invalid @ r \<and> reports {n} r"
proof (cases "parse_header (header_one H hs n) parse")
  case (Inl e)
  then have "about_header e = n" using assms(2) by (rule parse_header_about)
  with assms(1) Inl show ?thesis by (auto simp: parse_or_report_def reports_def)
qed (use assms(1) in \<open>auto simp: parse_or_report_def reports_def\<close>)

lemma header_time_about:
  assumes "header_time (header_one H hs INGESTION_TIME) (header_one H hs INGESTION_TIME_KIND) invalid = (v, out)"
  shows "\<exists>r. out = invalid @ r \<and> reports {INGESTION_TIME, INGESTION_TIME_KIND} r"
proof -
  let ?t = "parse_header (header_one H hs INGESTION_TIME) (\<lambda>t. or_invalid (parse_decimal t) (InvTime t))"
  let ?k = "parse_header (header_one H hs INGESTION_TIME_KIND) (\<lambda>t. or_invalid (time_kind_parse t) (InvKind t))"
  have t: "?t = Inl e \<Longrightarrow> about_header e = INGESTION_TIME" for e
    by (erule parse_header_about) (auto dest: or_invalid_about)
  have k: "?k = Inl e \<Longrightarrow> about_header e = INGESTION_TIME_KIND" for e
    by (erule parse_header_about) (auto dest: or_invalid_about)
  show ?thesis
    using assms t k
    by (cases ?t; cases ?k) (auto simp: header_time_def errs_of_def Let_def reports_def split: option.splits)
qed

lemma arrival_read_reports:
  assumes "arrival_read H prefix rv = (a, invalid)"
  shows "reports ({RECORD_ID} \<union> {RECORD_KIND} \<union> {TENANT} \<union> {INGESTION_TIME, INGESTION_TIME_KIND}) invalid"
proof -
  let ?hs = "rv_headers rv"
  let ?k = "parse_header (header_one H ?hs RECORD_KIND) (\<lambda>t. or_invalid (kind_parse t) (InvRecordKind t))"
  define named where "named = (case tenant_from_subject (rv_subject rv) prefix of
                     Some t \<Rightarrow> if is_valid_tenant t then Some t else None
                   | None \<Rightarrow> None)"
  obtain rid i1 where p1: "parse_or_report (header_one H ?hs RECORD_ID) [] (\<lambda>t. or_invalid (parse_decimal t) (InvRecordId t)) = (rid, i1)"
    by force
  obtain kind i2 where p2: "(case ?k of Inr None \<Rightarrow> (Unnamed, i1) | Inr (Some k) \<Rightarrow> (Named k, i1)
      | Inl problem \<Rightarrow> (Unreadable, i1 @ [problem])) = (kind, i2)" by force
  obtain t i3 where p3: "(case named of Some t \<Rightarrow> (Some t, i2) | None \<Rightarrow> header_tenant H ?hs i2) = (t, i3)" by force
  obtain time i4 where p4: "header_time (header_one H ?hs INGESTION_TIME) (header_one H ?hs INGESTION_TIME_KIND) i3 = (time, i4)"
    by force
  have i: "invalid = i4"
    using assms p1 p2 p3 p4 by (simp add: arrival_read_def named_def)
  have "\<exists>r. i1 = [] @ r \<and> reports {RECORD_ID} r"
    using p1 by (rule parse_or_report_about) (auto dest: or_invalid_about)
  then obtain r1 where r1: "i1 = r1" "reports {RECORD_ID} r1" by auto
  have "?k = Inl e \<Longrightarrow> about_header e = RECORD_KIND" for e
    by (erule parse_header_about) (auto dest: or_invalid_about)
  then have "\<exists>r. i2 = i1 @ r \<and> reports {RECORD_KIND} r"
    using p2 by (cases ?k) (auto simp: reports_def split: option.splits)
  then obtain r2 where r2: "i2 = i1 @ r2" "reports {RECORD_KIND} r2" by blast
  have "\<exists>r. i3 = i2 @ r \<and> reports {TENANT} r"
  proof (cases named)
    case None
    with p3 have "header_tenant H ?hs i2 = (t, i3)" by simp
    then show ?thesis unfolding header_tenant_def
      by (rule parse_or_report_about) (auto split: if_splits)
  qed (use p3 in \<open>auto simp: reports_def\<close>)
  then obtain r3 where r3: "i3 = i2 @ r3" "reports {TENANT} r3" by blast
  obtain r4 where r4: "i4 = i3 @ r4" "reports {INGESTION_TIME, INGESTION_TIME_KIND} r4"
    using header_time_about [OF p4] by blast
  have "reports ({RECORD_ID} \<union> {RECORD_KIND}) (r1 @ r2)"
    by (rule reports_append [OF r1(2) r2(2)]) simp
  then have "reports ({RECORD_ID} \<union> {RECORD_KIND} \<union> {TENANT}) ((r1 @ r2) @ r3)"
    by (rule reports_append [OF _ r3(2)]) simp
  then have "reports ({RECORD_ID} \<union> {RECORD_KIND} \<union> {TENANT} \<union> {INGESTION_TIME, INGESTION_TIME_KIND})
      (((r1 @ r2) @ r3) @ r4)"
    by (rule reports_append [OF _ r4(2)]) simp
  then show ?thesis by (simp add: i r1(1) r2(1) r3(1) r4(1))
qed

lemma arrival_read_reports_once: "distinct (map about_header (snd (arrival_read H prefix rv)))"
proof -
  obtain a invalid where p: "arrival_read H prefix rv = (a, invalid)" by force
  from arrival_read_reports [OF this] show ?thesis by (simp add: p reports_def)
qed

end
