(* ===== verification/Engine_Sinks.thy ===== *)
theory Engine_Sinks
  imports Engine_Theorems
begin

text \<open>
  Only a sink's own \<open>write\<close> changes what the sinks write to: whatever every write keeps, a message
  handled by the engine keeps.
\<close>

definition writes_keep :: "('k \<Rightarrow> 'k \<Rightarrow> bool) \<Rightarrow> ('s, 'k) pipeline \<Rightarrow> bool" where
  "writes_keep P pl \<longleftrightarrow>
     reflp P \<and> transp P \<and> (\<forall>sink m r k. CSink sink \<in> set (pl_nodes pl) \<longrightarrow> P k (snd (sk_write sink m r k)))"

lemma writes_keepD:
  assumes "writes_keep P pl"
  shows "P k k" "P k l \<Longrightarrow> P l n \<Longrightarrow> P k n" "CSink sink \<in> set (pl_nodes pl) \<Longrightarrow> P k (snd (sk_write sink m r k))"
  using assms by (auto simp: writes_keep_def reflpD dest: transpD)

abbreviation sinks_of :: "('s, 'k) walking \<Rightarrow> 'k" where "sinks_of s \<equiv> w_sinks (snd s)"

lemma sinks_simps [simp]:
  "sinks_of (close_span span ended result s) = sinks_of s" "sinks_of (measured ms s) = sinks_of s"
  "sinks_of (leave s) = sinks_of s" "sinks_of (walk_fail env m key at ended kind error s) = sinks_of s"
  "w_sinks (snd (read_instant env w)) = w_sinks w" "w_sinks (measure ms w) = w_sinks w"
  "w_sinks (put_port p w) = w_sinks w"
  by (simp_all add: close_span_def measured_def leave_def walk_fail_def read_instant_def measure_def put_port_def
      emit_def Let_def split: prod.split option.split)

lemma settle_output_sinks: "sinks_of (snd (settle_output env d m key index st at span ended out s)) = sinks_of s"
  by (simp add: settle_output_def Let_def split: stage_output.split state_policy.split)

definition run_walking :: "(nat \<times> handover \<times> ('s, 'k) walking) run \<Rightarrow> ('s, 'k) walking option" where
  "run_walking x = (case x of Finished y \<Rightarrow> Some (snd (snd y)) | Panicked y \<Rightarrow> Some (snd (snd y)) | NoFuel \<Rightarrow> None)"

lemma run_walking_simps [simp]:
  "run_walking (Finished y) = Some (snd (snd y))" "run_walking (Panicked y) = Some (snd (snd y))"
  "run_walking NoFuel = None"
  by (simp_all add: run_walking_def)

lemma visit_node_sinks:
  assumes "writes_keep P pl" "i < length (pl_nodes pl)"
    and "run_walking (visit_node env pl m key i r parent s) = Some s'"
  shows "P (sinks_of s) (sinks_of s')"
proof -
  obtain wk w where s: "s = (wk, w)" by (cases s)
  show ?thesis
  proof (cases "pl_nodes pl ! i")
    case (CSink sink)
    have "CSink sink \<in> set (pl_nodes pl)" using assms(2) CSink by (metis nth_mem)
    note step = writes_keepD(3) [OF assms(1) this]
    have "sinks_of s' = snd (sk_write sink m r (w_sinks w))"
      using assms(3) CSink
      by (auto simp: visit_node_def s Let_def split_def read_instant_def measure_def
          close_span_def measured_def walk_fail_def emit_def split: option.splits sum.splits)
    with step s show ?thesis by simp
  next
    case (CStage st)
    have "sinks_of s' = w_sinks w"
      using assms(3) CStage
      by (auto simp: visit_node_def s Let_def split_def settle_output_sinks read_instant_def measure_def put_port_def
          split: option.splits)
    with writes_keepD(1) [OF assms(1)] s show ?thesis by simp
  qed
qed

definition run_end :: "('s, 'k) walking run \<Rightarrow> ('s, 'k) walking option" where
  "run_end x = (case x of Finished s \<Rightarrow> Some s | Panicked s \<Rightarrow> Some s | NoFuel \<Rightarrow> None)"

lemma run_end_simps [simp]:
  "run_end (Finished s) = Some s" "run_end (Panicked s) = Some s" "run_end NoFuel = None"
  by (simp_all add: run_end_def)

lemma walk_sinks:
  "pipeline_ok pl \<Longrightarrow> writes_keep P pl \<Longrightarrow> index \<in> indices pl \<Longrightarrow>
     run_end (run_node n env pl m key index r parent s) = Some s' \<Longrightarrow> P (sinks_of s) (sinks_of s')"
  "pipeline_ok pl \<Longrightarrow> writes_keep P pl \<Longrightarrow> set ts \<subseteq> indices pl \<Longrightarrow>
     run_end (fan_out n env pl m key ts r parent s) = Some s' \<Longrightarrow> P (sinks_of s) (sinks_of s')"
  "pipeline_ok pl \<Longrightarrow> writes_keep P pl \<Longrightarrow> set ts \<subseteq> indices pl \<Longrightarrow>
     run_end (fan_all n env pl m key ts rs parent s) = Some s' \<Longrightarrow> P (sinks_of s) (sinks_of s')"
proof (induction n env pl m key index r parent s and n env pl m key ts r parent s
    and n env pl m key ts rs parent s arbitrary: s' and s' and s' rule: run_node_fan_out_fan_all.induct)
  case (2 n env pl m key index r parent s)
  have i: "index < length (pl_nodes pl)" using 2(4) by (simp add: indices_def)
  note visit = visit_node_sinks [OF 2(3) i, of env m key r parent s]
  show ?case
  proof (cases "visit_node env pl m key index r parent s")
    case (Finished x)
    obtain span h t where x: "x = (span, h, t)" by (cases x)
    note v = Finished [unfolded x]
    have "run_end (fan_all n env pl m key (ho_targets h) (ho_records h) (Some span) t) = Some s'"
      using 2(5) by (simp add: v)
    from 2(1) [OF v refl refl 2(2,3) visit_node_indices [OF 2(2,4) v] this]
    have "P (sinks_of t) (sinks_of s')" .
    moreover have "P (sinks_of s) (sinks_of t)" by (rule visit) (simp add: v)
    ultimately show ?thesis using writes_keepD(2) [OF 2(3)] by blast
  next
    case (Panicked x)
    with 2(5) show ?thesis by (intro visit) (cases x, simp)
  next
    case NoFuel
    with 2(5) show ?thesis by simp
  qed
next
  case (3 n env pl m key r parent s)
  with writes_keepD(1) [OF 3(2)] show ?case by simp
next
  case (4 n env pl m key t ts r parent s)
  have in_pl: "t \<in> indices pl" "set ts \<subseteq> indices pl" using 4(5) by simp_all
  note first = 4(1) [OF 4(3,4) in_pl(1)]
  show ?case
  proof (cases "run_node n env pl m key t r parent s")
    case (Finished u)
    have "P (sinks_of s) (sinks_of u)" using first Finished by simp
    moreover have "P (sinks_of (leave u)) (sinks_of s')"
      using 4(2) [OF Finished 4(3,4) in_pl(2)] 4(6) Finished by simp
    ultimately show ?thesis using writes_keepD(2) [OF 4(4)] by simp
  qed (use first 4(6) in simp_all)
next
  case (5 n env pl m key ts parent s)
  with writes_keepD(1) [OF 5(2)] show ?case by simp
next
  case (6 n env pl m key ts r rs parent s)
  note first = 6(1) [OF 6(3,4,5)]
  show ?case
  proof (cases "fan_out n env pl m key ts r parent s")
    case (Finished u)
    have "P (sinks_of s) (sinks_of u)" using first Finished by simp
    moreover have "P (sinks_of u) (sinks_of s')" using 6(2) [OF Finished 6(3,4,5)] 6(6) Finished by simp
    ultimately show ?thesis using writes_keepD(2) [OF 6(4)] by blast
  qed (use first 6(6) in simp_all)
qed simp

lemma walk_record_sinks:
  assumes "pipeline_ok pl" "writes_keep P pl" "walk_record fuel env pl m r spans w = Some (wk, w')"
  shows "P (w_sinks w) (w_sinks w')"
proof -
  let ?s = "(\<lparr>wk_at = None, wk_failure = None, wk_spans = spans\<rparr>, w)"
  let ?run = "fan_out fuel env pl m (trace_key_of m) (dag_sources (pl_dag pl)) r None ?s"
  note walk = walk_sinks(2) [OF assms(1,2) sources_indices [OF assms(1)], of fuel env m "trace_key_of m" r None ?s]
  show ?thesis
  proof (cases ?run)
    case (Panicked t)
    then have "sinks_of t = w_sinks w'"
      using assms(3)
      by (auto simp: walk_record_def Let_def split_def read_instant_def walk_fail_def measure_def emit_def
          split: option.splits)
    with walk Panicked show ?thesis by simp
  qed (use walk assms(3) in \<open>simp_all add: walk_record_def\<close>)
qed

lemma settle_walk_sinks: "settle_walk env m s = (outcome, spans, w') \<Longrightarrow> w_sinks w' = sinks_of s"
  by (auto simp: settle_walk_def keep_trace_def Let_def split_def read_instant_def read_wall_def unix_nanos_now_def
      measure_def emit_def log_nak_def export_trace_def split: option.splits ingestion_time.splits if_splits)

lemma intake_sinks: "w_sinks (intake env a resolved w) = w_sinks w"
  by (simp add: intake_def Let_def measure_def emit_def split: option.split)

lemma reject_sinks: "reject rejected a w = (outcome, w') \<Longrightarrow> w_sinks w' = w_sinks w"
  by (auto simp: reject_def Let_def measure_def emit_def log_nak_def split: rejection.splits)

lemma handle_sinks:
  assumes "pipeline_ok pl" "writes_keep P pl" "handle fuel env pl e spans w = Some (outcome, spans', w')"
  shows "P (w_sinks w) (w_sinks w')"
proof -
  obtain spans1 w1 where b: "walk_begin env spans w = (spans1, w1)" by force
  obtain resolved w2 where r: "resolve_now env (en_arrival e) w1 = (resolved, w2)" by force
  have w2: "w_sinks w2 = w_sinks w" using walk_begin_adds [OF b] resolve_now_adds [OF r] by simp
  show ?thesis
  proof (cases resolved)
    case (Inl rejected)
    with assms(3) b r have "w_sinks w' = w_sinks w"
      by (auto simp: handle_def Let_def w2 intake_sinks dest!: reject_sinks split: prod.splits)
    with writes_keepD(1) [OF assms(2)] show ?thesis by simp
  next
    case (Inr m)
    with assms(3) b r obtain wk w3 where
      "walk_record fuel env pl m (en_record e) spans1
         (measure (records_out (labels_new (tenant m) SOURCE_ID) 1) (intake env (en_arrival e) (Inr m) w2)) = Some (wk, w3)"
      and "settle_walk env m (wk, w3) = (outcome, spans', w')"
      by (auto simp: handle_def Let_def)
    with walk_record_sinks [OF assms(1,2)] settle_walk_sinks w2 show ?thesis
      by (metis intake_sinks sinks_simps(6) snd_conv)
  qed
qed

end
