(* ===== verification/Nats_Laws.thy ===== *)
theory Nats_Laws
  imports Nats_Setup Nats_Header_Laws Engine_Sinks
begin

text \<open>
  What holds of \<open>crates/nats/src\<close> around the engine: every message taken from the stream is settled by
  exactly one settlement; it is acknowledged only when its walk had no failure, and terminated only
  after its dead letter was stored. A source loads only on a consumer whose messages all have a final
  delivery and a stream that stores every tenant's dead letter.
\<close>

section \<open>Delays\<close>

lemma nak_delay_value:
  "nak_delay delivered = (let n = unat delivered - 1 in if n < 5 then 2 ^ n * SECOND else MAX_NAK_DELAY)"
proof -
  define n where "n = unat delivered - 1"
  have m: "min (if n < 2 ^ 32 then n else 2 ^ 32 - 1) 5 = min n 5" by simp
  have "min (2 ^ min n 5 * SECOND) MAX_NAK_DELAY = (if n < 5 then 2 ^ n * SECOND else MAX_NAK_DELAY)"
  proof (cases "n < 5")
    case True
    then have "n \<in> {0, 1, 2, 3, 4}" by auto
    then show ?thesis by (auto simp: SECOND_def MAX_NAK_DELAY_def)
  qed (simp add: SECOND_def MAX_NAK_DELAY_def min_def)
  then show ?thesis unfolding nak_delay_def Let_def n_def [symmetric] m .
qed

section \<open>Publishing a dead letter\<close>

lemma publish_attempt_link:
  assumes "publish_attempt ops s h p lk = (r, lk')"
  shows "lk_sent lk' = lk_sent lk" "lk_pauses lk' = lk_pauses lk"
    and "r = Inr () \<Longrightarrow> \<exists>j j1 ack. jo_send ops s h p j = (Inr ack, j1) \<and> jo_await ops ack j1 = (Inr (), lk_jetstream lk')"
  using assms unfolding publish_attempt_def
  by (auto split: prod.splits sum.splits) blast

lemma publish_loop_Cons:
  assumes "publish_attempt ops s h p lk = (r1, lk1)"
  shows "publish_loop ops s h p (pause # pauses) lk =
    (case r1 of
       Inr _ \<Rightarrow> (Inr (), lk1)
     | Inl _ \<Rightarrow> publish_loop ops s h p pauses (lk1\<lparr>lk_pauses := lk_pauses lk1 @ [pause]\<rparr>))"
  using assms by (simp split: sum.split)

lemma publish_loop_sent: "publish_loop ops s h p pauses lk = (r, lk') \<Longrightarrow> lk_sent lk' = lk_sent lk"
proof (induction pauses arbitrary: lk)
  case (Cons pause pauses)
  obtain r1 lk1 where a: "publish_attempt ops s h p lk = (r1, lk1)" by force
  show ?case
    using Cons.prems Cons.IH publish_attempt_link(1) [OF a]
    by (cases r1) (force simp del: publish_loop.simps simp: publish_loop_Cons [OF a])+
qed (use publish_attempt_link(1) in simp)

lemma publish_loop_stored:
  "publish_loop ops s h p pauses lk = (Inr (), lk') \<Longrightarrow>
     \<exists>j j1 ack. jo_send ops s h p j = (Inr ack, j1) \<and> jo_await ops ack j1 = (Inr (), lk_jetstream lk')"
proof (induction pauses arbitrary: lk)
  case (Cons pause pauses)
  obtain r1 lk1 where a: "publish_attempt ops s h p lk = (r1, lk1)" by force
  show ?case
  proof (cases r1)
    case (Inl e)
    with Cons.prems have "publish_loop ops s h p pauses (lk1\<lparr>lk_pauses := lk_pauses lk1 @ [pause]\<rparr>) = (Inr (), lk')"
      by (simp del: publish_loop.simps add: publish_loop_Cons [OF a])
    then show ?thesis by (rule Cons.IH)
  next
    case (Inr u)
    with Cons.prems have "lk' = lk1" by (simp del: publish_loop.simps add: publish_loop_Cons [OF a])
    with publish_attempt_link(3) [OF a] Inr show ?thesis by simp
  qed
qed (simp add: publish_attempt_link(3) [OF _ refl])

text \<open>A failed publish has waited every pause.\<close>

lemma publish_loop_pauses:
  "publish_loop ops s h p pauses lk = (Inl e, lk') \<Longrightarrow> lk_pauses lk' = lk_pauses lk @ pauses"
proof (induction pauses arbitrary: lk)
  case (Cons pause pauses)
  obtain r1 lk1 where a: "publish_attempt ops s h p lk = (r1, lk1)" by force
  with Cons.prems obtain e1 where "r1 = Inl e1"
    by (cases r1) (simp_all del: publish_loop.simps add: publish_loop_Cons [OF a])
  with Cons.prems have "publish_loop ops s h p pauses (lk1\<lparr>lk_pauses := lk_pauses lk1 @ [pause]\<rparr>) = (Inl e, lk')"
    by (simp del: publish_loop.simps add: publish_loop_Cons [OF a])
  from Cons.IH [OF this] publish_attempt_link(2) [OF a] show ?case by simp
qed (use publish_attempt_link(2) in simp)

section \<open>Settling a failure\<close>

text \<open>The position of a delivery that is the message's last.\<close>

definition final_position :: "('j, 'a, 'h) dead_letters \<Rightarrow> 'h delivery \<Rightarrow> stream_position option" where
  "final_position dz dv =
     (case dv_position dv of
        Some po \<Rightarrow> if is_final_delivery (po_delivered po) (dz_limit dz) then Some po else None
      | None \<Rightarrow> None)"

definition terminated :: "'h delivery \<Rightarrow> failure \<Rightarrow> sent" where
  "terminated dv f =
     (case dv_reply dv of
        None \<Rightarrow> SentAck AckTerm
      | Some reply \<Rightarrow> SentTerm reply (''+TERM dlq '' @ fl_node f @ '': '' @ failure_kind_str (fl_kind f)))"

text \<open>A dead letter of the message for this failure got its \<open>PubAck\<close>, which left the connection so.\<close>

definition letter_stored :: "('j, 'a, 'h) dead_letters \<Rightarrow> 'h delivery \<Rightarrow> stream_position \<Rightarrow> failure \<Rightarrow> 'j \<Rightarrow> bool" where
  "letter_stored dz dv po f j \<longleftrightarrow>
     (\<exists>j0 j1 ack. jo_send (dz_ops dz) (dead_letter (dz_prefix dz) (dv_tenant dv))
          (for_dead_letter (dz_headers dz) (letter_of dv po f)) (ms_payload (dv_message dv)) j0 = (Inr ack, j1)
        \<and> jo_await (dz_ops dz) ack j1 = (Inr (), j))"

lemma publish_dead_letter_link:
  assumes "publish_dead_letter dz dv po f lk = (r, lk')"
  shows "lk_sent lk' = lk_sent lk" "r = Inr () \<Longrightarrow> letter_stored dz dv po f (lk_jetstream lk')"
    and "r = Inl e \<Longrightarrow> lk_pauses lk' = lk_pauses lk @ DEAD_LETTER_RETRIES"
proof -
  note eq = assms [unfolded publish_dead_letter_def]
  show "lk_sent lk' = lk_sent lk" using eq by (rule publish_loop_sent)
  show "r = Inr () \<Longrightarrow> letter_stored dz dv po f (lk_jetstream lk')"
    unfolding letter_stored_def by (rule publish_loop_stored [where pauses = DEAD_LETTER_RETRIES and lk = lk]) (simp add: eq)
  show "r = Inl e \<Longrightarrow> lk_pauses lk' = lk_pauses lk @ DEAD_LETTER_RETRIES"
    by (rule publish_loop_pauses [OF eq [THEN trans]]) simp
qed

lemma sent_settlement [simp]:
  "lk_sent (w_sinks (send_settlement x w)) = lk_sent (w_sinks w) @ [x]"
  "lk_jetstream (w_sinks (send_settlement x w)) = lk_jetstream (w_sinks w)"
  "w_measures (send_settlement x w) = w_measures w" "w_events (send_settlement x w) = w_events w"
  by (simp_all add: send_settlement_def)

lemma terminate_sends: "terminate dv f w = send_settlement (terminated dv f) w"
  by (simp add: terminate_def terminated_def settle_ack_def split: option.split)

text \<open>The three ways a failed delivery is settled.\<close>

lemma settle_failure_again:
  assumes "final_position dz dv = None"
  shows "settle_failure env dz dv delay f w =
    send_settlement (SentAck (AckNak (Some (case delay of Some d \<Rightarrow> d
      | None \<Rightarrow> nak_delay (case dv_position dv of Some po \<Rightarrow> po_delivered po | None \<Rightarrow> 1))))) w"
  using assms unfolding settle_failure_def final_position_def [symmetric] by (simp add: settle_ack_def)

lemma settle_failure_final:
  assumes "final_position dz dv = Some po" "publish_dead_letter dz dv po f (w_sinks w) = (r, lk)"
    and "settle_failure env dz dv delay f w = w'"
  shows "lk_sent (w_sinks w') = lk_sent (w_sinks w) @
      [case r of Inr _ \<Rightarrow> terminated dv f | Inl _ \<Rightarrow> SentAck (AckNak None)]"
    and "lk_jetstream (w_sinks w') = lk_jetstream lk"
    and "\<exists>ms ev. w_measures w' = w_measures w @ ms \<and> w_events w' = w_events w @ [ev]
      \<and> count_calls Dlq ms = (case r of Inr _ \<Rightarrow> 1 | Inl _ \<Rightarrow> 0)
      \<and> count_calls DlqPublishErrors ms = (case r of Inr _ \<Rightarrow> 0 | Inl _ \<Rightarrow> 1)
      \<and> ev_kind ev = (case r of Inr _ \<Rightarrow> EvDeadLetter | Inl _ \<Rightarrow> EvDeadLetterFailed)
      \<and> ev_sequence ev = Some (po_sequence po) \<and> ev_record ev = fl_record f \<and> ev_failure ev = Some (fl_kind f)"
proof -
  note eq = assms(3) [unfolded settle_failure_def final_position_def [symmetric] assms(1), symmetric]
  note s = publish_dead_letter_link(1) [OF assms(2)]
  show "lk_sent (w_sinks w') = lk_sent (w_sinks w) @
      [case r of Inr _ \<Rightarrow> terminated dv f | Inl _ \<Rightarrow> SentAck (AckNak None)]"
    and "lk_jetstream (w_sinks w') = lk_jetstream lk"
    using assms(2) s
    by (auto simp: eq Let_def read_instant_def measure_def log_dead_letter_def emit_def terminate_sends settle_ack_def
        split: sum.split)
  show "\<exists>ms ev. w_measures w' = w_measures w @ ms \<and> w_events w' = w_events w @ [ev]
      \<and> count_calls Dlq ms = (case r of Inr _ \<Rightarrow> 1 | Inl _ \<Rightarrow> 0)
      \<and> count_calls DlqPublishErrors ms = (case r of Inr _ \<Rightarrow> 0 | Inl _ \<Rightarrow> 1)
      \<and> ev_kind ev = (case r of Inr _ \<Rightarrow> EvDeadLetter | Inl _ \<Rightarrow> EvDeadLetterFailed)
      \<and> ev_sequence ev = Some (po_sequence po) \<and> ev_record ev = fl_record f \<and> ev_failure ev = Some (fl_kind f)"
    using assms(2)
    by (auto simp: eq Let_def read_instant_def measure_def log_dead_letter_def emit_def terminate_sends settle_ack_def
        dlq_publish_duration_def dead_lettered_def dlq_publish_error_def event_of_failure_def event_new_def
        split: sum.split)
qed

section \<open>A message from the stream to its settlement\<close>

definition keeps_sent :: "'j link \<Rightarrow> 'j link \<Rightarrow> bool" where
  "keeps_sent k l \<longleftrightarrow> lk_sent l = lk_sent k"

lemma nats_sink_keeps_sent: "keeps_sent lk (snd (nats_sink_write nk m r lk))"
  by (simp add: keeps_sent_def nats_sink_write_def split: prod.split)

definition settles_nothing :: "('s, 'j link) pipeline \<Rightarrow> bool" where
  "settles_nothing pl \<longleftrightarrow>
     (\<forall>sink m r lk. CSink sink \<in> set (pl_nodes pl) \<longrightarrow> keeps_sent lk (snd (sk_write sink m r lk)))"

lemma settles_nothing_writes: "settles_nothing pl \<Longrightarrow> writes_keep keeps_sent pl"
  by (auto simp: settles_nothing_def writes_keep_def keeps_sent_def reflp_def transp_def)

lemma nats_sinks_settle_nothing:
  assumes "\<And>sink. CSink sink \<in> set (pl_nodes pl) \<Longrightarrow> \<exists>nk. sk_write sink = nats_sink_write nk"
  shows "settles_nothing pl"
  unfolding settles_nothing_def by (metis assms nats_sink_keeps_sent)

text \<open>What the source makes of a message before it decodes it.\<close>

definition wire_position :: "'h wire \<Rightarrow> stream_position option" where
  "wire_position wire = (case wr_info wire of Some i \<Rightarrow> wire_stream_position i | None \<Rightarrow> None)"

definition wire_arrival :: "('j, 'a, 'h) nats_source \<Rightarrow> 'h wire \<Rightarrow> arrival \<times> invalid_header list" where
  "wire_arrival src wire =
     arrival_read (dz_headers (ns_dead src)) (ns_prefix src)
       \<lparr>rv_subject = ms_subject (wr_message wire), rv_headers = ms_headers (wr_message wire),
        rv_published = (case wr_info wire of Some i \<Rightarrow> published_of i | None \<Rightarrow> None),
        rv_delivered = (case wire_position wire of Some po \<Rightarrow> po_delivered po | None \<Rightarrow> 1),
        rv_bytes = of_nat (length (ms_payload (wr_message wire)))\<rparr>"

definition wire_decoded :: "('j, 'a, 'h) nats_source \<Rightarrow> 'h wire \<Rightarrow> decode_error + json" where
  "wire_decoded src wire =
     (if is_log (fst (wire_arrival src wire))
      then codec_decode (ns_texts src) (ns_codec src) (ms_payload (wr_message wire)) else Inr JNull)"

definition wire_delivery :: "('j, 'a, 'h) nats_source \<Rightarrow> 'h wire \<Rightarrow> 'h delivery" where
  "wire_delivery src wire =
     \<lparr>dv_message = wr_message wire, dv_arrival = fst (wire_arrival src wire),
      dv_tenant = tenant_of (fst (wire_arrival src wire)), dv_reply = wr_reply wire,
      dv_position = wire_position wire\<rparr>"

definition link_same :: "('s, 'j) nats_world \<Rightarrow> ('s, 'j) nats_world \<Rightarrow> bool" where
  "link_same w w' \<longleftrightarrow> w_sinks w' = w_sinks w \<and> w_events w' = w_events w"

lemma report_invalid_headers_same: "link_same w (report_invalid_headers invalid t w)"
proof -
  have "link_same w (fold (\<lambda>_. measure (source_invalid_header t)) invalid w)"
    by (induction invalid arbitrary: w) (simp_all add: link_same_def measure_def)
  then show ?thesis by (simp add: report_invalid_headers_def)
qed

lemma receive_cases:
  obtains (decoded) r w' where "wire_decoded src wire = Inr r" "link_same w w'"
    "receive env src wire w = (Some (\<lparr>en_record = r, en_arrival = fst (wire_arrival src wire)\<rparr>, wire_delivery src wire), w')"
  | (undecodable) err w' where "wire_decoded src wire = Inl err" "link_same w w'"
    "receive env src wire w = (None, settle_failure env (ns_dead src) (wire_delivery src wire) None
       (failure_at_source UndecodableKind (decode_error_display err)) w')"
proof -
  let ?a = "fst (wire_arrival src wire)" and ?i = "snd (wire_arrival src wire)"
  let ?w = "report_invalid_headers ?i (tenant_of ?a) w"
  have same: "link_same w ?w" by (rule report_invalid_headers_same)
  note unf = receive_def [unfolded wire_position_def [symmetric] Let_def wire_arrival_def [symmetric] split_def,
      of env src wire w, folded wire_decoded_def wire_delivery_def]
  show thesis
  proof (cases "wire_decoded src wire")
    case (Inr r)
    with unf have "receive env src wire w = (Some (\<lparr>en_record = r, en_arrival = ?a\<rparr>, wire_delivery src wire), ?w)"
      by (simp add: wire_delivery_def)
    with decoded Inr same show thesis by blast
  next
    case (Inl err)
    define w' where "w' = measure (source_nak (tenant_of ?a))
      (if 1 < (case wire_position wire of Some po \<Rightarrow> po_delivered po | None \<Rightarrow> 1)
       then measure (source_redelivery (tenant_of ?a))
              (case arr_bytes ?a of Some bytes \<Rightarrow> measure (bytes_in (tenant_of ?a) bytes) ?w | None \<Rightarrow> ?w)
       else (case arr_bytes ?a of Some bytes \<Rightarrow> measure (bytes_in (tenant_of ?a) bytes) ?w | None \<Rightarrow> ?w))"
    have "link_same w w'" using same by (simp add: w'_def link_same_def measure_def split: option.split)
    moreover from unf Inl have "receive env src wire w = (None, settle_failure env (ns_dead src) (wire_delivery src wire) None
        (failure_at_source UndecodableKind (decode_error_display err)) w')"
      by (simp add: wire_delivery_def w'_def cong: if_cong)
    ultimately show thesis using undecodable Inl by blast
  qed
qed

text \<open>A settled failure: one settlement, never an acknowledgement; a terminate only for a stored letter.\<close>

definition failure_settled ::
  "('j, 'a, 'h) dead_letters \<Rightarrow> 'h delivery \<Rightarrow> failure \<Rightarrow> sent \<Rightarrow> 'j \<Rightarrow> bool" where
  "failure_settled dz dv f x j \<longleftrightarrow>
     (case final_position dz dv of
        None \<Rightarrow> (\<exists>d. x = SentAck (AckNak (Some d)))
      | Some po \<Rightarrow> x = SentAck (AckNak None) \<or> x = terminated dv f \<and> letter_stored dz dv po f j)"

lemma settle_failure_settled:
  "\<exists>x. lk_sent (w_sinks (settle_failure env dz dv delay f w)) = lk_sent (w_sinks w) @ [x]
     \<and> failure_settled dz dv f x (lk_jetstream (w_sinks (settle_failure env dz dv delay f w)))"
proof (cases "final_position dz dv")
  case None
  then show ?thesis by (simp add: settle_failure_again failure_settled_def)
next
  case (Some po)
  obtain r lk where p: "publish_dead_letter dz dv po f (w_sinks w) = (r, lk)" by force
  note final = settle_failure_final(1,2) [OF Some p refl, of env delay]
  show ?thesis
  proof (cases r)
    case (Inr u)
    with p publish_dead_letter_link(2) have "letter_stored dz dv po f (lk_jetstream lk)" by simp
    with final Inr Some show ?thesis by (simp add: failure_settled_def)
  qed (use final Some in \<open>simp add: failure_settled_def\<close>)
qed

lemma failure_settled_not_acked: "failure_settled dz dv f x j \<Longrightarrow> x \<noteq> SentAck AckYes"
  by (auto simp: failure_settled_def terminated_def split: option.splits)

lemma failure_settled_cases:
  "failure_settled dz (wire_delivery src wire) f x j \<longleftrightarrow>
     (if \<exists>po. wire_position wire = Some po \<and> is_final_delivery (po_delivered po) (dz_limit dz)
      then x = SentAck (AckNak None) \<or>
        (\<exists>po. wire_position wire = Some po \<and> is_final_delivery (po_delivered po) (dz_limit dz)
          \<and> x = terminated (wire_delivery src wire) f \<and> letter_stored dz (wire_delivery src wire) po f j)
      else \<exists>d. x = SentAck (AckNak (Some d)))"
  by (auto simp: failure_settled_def final_position_def wire_delivery_def split: option.split)

lemma terminated_not_acked [simp]: "terminated dv f \<noteq> SentAck AckYes" "terminated dv f \<noteq> SentAck (AckNak d)"
  by (simp_all add: terminated_def split: option.split)

lemma handle_outcome:
  assumes "pipeline_ok pl" "handle fuel env pl e spans w = Some (outcome, spans', w')"
  obtains evs where "w_events w' = w_events w @ evs"
    "outcome = Acked \<longleftrightarrow> \<not> is_log (en_arrival e) \<or> (arr_record_id (en_arrival e) \<noteq> None \<and> stage_errors evs = [])"
proof (cases "accepted (en_arrival e)")
  case True
  from handle_accepted [OF assms True] obtain m now ms evs ts where a: "adds ms evs ts w w'"
    and o: "outcome = outcome_of (map_option failure_of (hd_opt (stage_errors evs)))" by blast
  from True have "is_log (en_arrival e)" "arr_record_id (en_arrival e) \<noteq> None" by (simp_all add: accepted_def)
  with that [of evs] a o show thesis
    by (cases "stage_errors evs") (simp_all add: adds_def outcome_of_def hd_opt_def)
next
  case False
  from handle_rejected [OF assms(2) False] obtain ms evs where "adds ms evs [] w w'" "stage_errors evs = []"
    "outcome = (if is_log (en_arrival e)
        then Nakked None (failure_at_source MissingIdKind ''the message has no record id'') else Acked)"
    by blast
  with that [of evs] False show thesis by (auto simp: adds_def accepted_def)
qed

lemma settle_failure_events:
  "\<exists>evs. w_events (settle_failure env dz dv delay f w) = w_events w @ evs \<and> stage_errors evs = []"
proof (cases "final_position dz dv")
  case (Some po)
  obtain r lk where p: "publish_dead_letter dz dv po f (w_sinks w) = (r, lk)" by force
  obtain ev where "w_events (settle_failure env dz dv delay f w) = w_events w @ [ev]"
    "ev_kind ev = (case r of Inr _ \<Rightarrow> EvDeadLetter | Inl _ \<Rightarrow> EvDeadLetterFailed)"
    using settle_failure_final(3) [OF Some p refl, of env delay] by blast
  then show ?thesis by (cases r) (auto simp: stage_errors_def)
qed (simp add: settle_failure_again stage_errors_def)

text \<open>What a settlement says about the message: acknowledged exactly when it is done with, else settled
  for a failure.\<close>

definition message_done :: "('j, 'a, 'h) nats_source \<Rightarrow> 'h wire \<Rightarrow> event list \<Rightarrow> bool" where
  "message_done src wire evs \<longleftrightarrow>
     (let a = fst (wire_arrival src wire) in
      \<not> is_log a \<or> (\<not> isl (wire_decoded src wire) \<and> arr_record_id a \<noteq> None \<and> stage_errors evs = []))"

lemma nats_serve_settled:
  assumes "pipeline_ok pl" "settles_nothing pl" "nats_serve fuel env pl src wire spans w = Some (spans', w')"
  shows "\<exists>x evs. lk_sent (w_sinks w') = lk_sent (w_sinks w) @ [x] \<and> w_events w' = w_events w @ evs \<and>
    (if message_done src wire evs then x = SentAck AckYes
     else \<exists>f. failure_settled (ns_dead src) (wire_delivery src wire) f x (lk_jetstream (w_sinks w')))"
proof (cases rule: receive_cases [of src wire w env])
  case (decoded r w1)
  let ?e = "\<lparr>en_record = r, en_arrival = fst (wire_arrival src wire)\<rparr>"
  obtain outcome w2 where h: "handle fuel env pl ?e spans w1 = Some (outcome, spans', w2)"
    and w': "w' = nats_settle env (ns_dead src) (wire_delivery src wire) outcome w2"
    using assms(3) decoded(3) by (auto simp: nats_serve_def split: option.splits)
  have sent: "lk_sent (w_sinks w2) = lk_sent (w_sinks w)"
    using handle_sinks [OF assms(1) settles_nothing_writes [OF assms(2)] h] decoded(2)
    by (simp add: keeps_sent_def link_same_def)
  obtain evs where evs: "w_events w2 = w_events w1 @ evs" and
    o: "outcome = Acked \<longleftrightarrow> \<not> is_log (fst (wire_arrival src wire)) \<or>
      (arr_record_id (fst (wire_arrival src wire)) \<noteq> None \<and> stage_errors evs = [])"
    using handle_outcome [OF assms(1) h] by (metis envelope.select_convs(2))
  have ev0: "w_events w1 = w_events w" using decoded(2) by (simp add: link_same_def)
  show ?thesis
  proof (cases outcome)
    case Acked
    then have "message_done src wire evs" using o decoded(1) by (auto simp: message_done_def Let_def)
    with Acked w' sent evs ev0 show ?thesis by (auto simp: nats_settle_def settle_ack_def)
  next
    case (Nakked delay f)
    have nak: "w' = settle_failure env (ns_dead src) (wire_delivery src wire) delay f w2"
      using Nakked w' by (simp add: nats_settle_def)
    obtain evs2 where e2: "w_events w' = w_events w2 @ evs2" "stage_errors evs2 = []"
      unfolding nak using settle_failure_events by blast
    have n: "\<not> message_done src wire (evs @ evs2)"
      using o Nakked e2(2) by (auto simp: message_done_def Let_def stage_errors_def)
    obtain x where "lk_sent (w_sinks w') = lk_sent (w_sinks w2) @ [x]"
      "failure_settled (ns_dead src) (wire_delivery src wire) f x (lk_jetstream (w_sinks w'))"
      unfolding nak using settle_failure_settled by blast
    with n sent evs ev0 e2(1) show ?thesis by (intro exI [of _ x] exI [of _ "evs @ evs2"]) auto
  qed
next
  case (undecodable err w1)
  let ?f = "failure_at_source UndecodableKind (decode_error_display err)"
  have w': "w' = settle_failure env (ns_dead src) (wire_delivery src wire) None ?f w1"
    using assms(3) undecodable(3) by (simp add: nats_serve_def)
  obtain evs where evs: "w_events w' = w_events w1 @ evs" unfolding w' using settle_failure_events by blast
  have "is_log (fst (wire_arrival src wire))"
    using undecodable(1) by (auto simp: wire_decoded_def split: if_splits)
  then have "\<not> message_done src wire evs" using undecodable(1) by (simp add: message_done_def Let_def)
  moreover obtain x where "lk_sent (w_sinks w') = lk_sent (w_sinks w1) @ [x]"
    "failure_settled (ns_dead src) (wire_delivery src wire) ?f x (lk_jetstream (w_sinks w'))"
    unfolding w' using settle_failure_settled by blast
  ultimately show ?thesis
    using undecodable(2) evs by (intro exI [of _ x] exI [of _ evs]) (auto simp: link_same_def)
qed

lemma nats_serve_total:
  assumes "pipeline_ok pl" "length (pl_nodes pl) \<le> fuel"
  shows "nats_serve fuel env pl src wire spans w \<noteq> None"
  using handle_total [OF assms] by (auto simp: nats_serve_def split: prod.split option.split) (metis option.distinct(1))

section \<open>What a source may be built on\<close>

lemma check_source_Inr:
  assumes "check_source sv url p = Inr limit"
  shows "\<exists>i subjects name. sv_consumer_info sv (sp_stream p) (sp_consumer p) = Found i
    \<and> ci_ack_policy i = ''explicit'' \<and> 0 < ci_max_deliver i \<and> limit = of_int (ci_max_deliver i) \<and> ci_backoff i = []
    \<and> sv_stream sv name = Found subjects \<and> stream_covers_every_tenant subjects (sp_dlq_prefix p)"
  using assms
  by (auto simp: check_source_def Let_def check_dead_letter_stream_def get_stream_def delivery_limit_def
      split: sum.splits answer.splits if_splits option.splits)

lemma stream_covers_captures:
  "stream_covers_every_tenant subjects prefix \<Longrightarrow> stream_captures subjects (dead_letter prefix t)"
  using covers_every_tenant_iff
  by (auto simp: stream_covers_every_tenant_def stream_captures_def list_ex_iff)

end
