(* ===== verification/Nats_Examples.thy ===== *)
theory Nats_Examples
  imports Nats_Laws Examples
begin

text \<open>
  What the witnesses on the NATS source and sink run on: a connection that stores what it is sent, a
  pipeline of one sink that publishes to it, and a source on a consumer with five deliveries.
\<close>

type_synonym header_lines = "(string \<times> string) list"

text \<open>The stored publishes: subject, headers and payload. Every publish gets its \<open>PubAck\<close>.\<close>

type_synonym stored = "(string \<times> header_lines \<times> string) list"

definition example_ops :: "(stored, unit, header_lines) jetstream_ops" where
  "example_ops =
     \<lparr>jo_send = (\<lambda>s h p j. (Inr (), j @ [(s, h, p)])), jo_await = (\<lambda>_ j. (Inr (), j))\<rparr>"

definition example_codecs :: codec_texts where
  "example_codecs =
     \<lparr>ct_from_json = (\<lambda>s. if s = ''{}'' then Inr (JObj []) else Inl ''expected value at line 1 column 1''),
      ct_to_json = (\<lambda>_. Inr ''{}''), ct_utf8_error = (\<lambda>_. ''invalid utf-8 sequence'')\<rparr>"

definition example_nats_sink :: "(stored, unit, header_lines) nats_sink" where
  "example_nats_sink =
     \<lparr>nk_ops = example_ops, nk_headers = line_headers, nk_texts = example_codecs, nk_stream = ''PROCESSED'',
      nk_subject = ''processed.logs'', nk_encoding = EncodeJson\<rparr>"

definition example_nats_pipeline :: "(state_data, stored link) pipeline" where
  "example_nats_pipeline =
     \<lparr>pl_name = ''logs'',
      pl_dag =
        \<lparr>dag_nodes = [\<lparr>node_id = ''out'', node_kind = ''sink.nats'', node_from = [''source''], node_params = YMapping []\<rparr>],
         dag_edges = [[]], dag_sources = [0], dag_successor_ids = [SOURCE_ID \<mapsto> [''out'']]\<rparr>,
      pl_nodes = [CSink \<lparr>sk_write = nats_sink_write example_nats_sink\<rparr>], pl_workers = None\<rparr>"

lemma example_nats_pipeline_ok: "pipeline_ok example_nats_pipeline"
  by (simp add: pipeline_ok_def example_nats_pipeline_def dag_ordered_def targets_def node_ok_def)

lemma example_nats_settles_nothing: "settles_nothing example_nats_pipeline"
  by (rule nats_sinks_settle_nothing) (auto simp: example_nats_pipeline_def)

definition example_source :: "(stored, unit, header_lines) nats_source" where
  "example_source =
     \<lparr>ns_dead = \<lparr>dz_ops = example_ops, dz_headers = line_headers, dz_prefix = ''dlq'', dz_limit = 5\<rparr>,
      ns_prefix = ''logs'', ns_codec = CodecJson, ns_texts = example_codecs\<rparr>"

definition example_wire :: "header_lines wire" where
  "example_wire =
     \<lparr>wr_message = \<lparr>ms_subject = ''logs.acme.web'', ms_headers = Some [(RECORD_ID, ''7'')], ms_payload = ''{}''\<rparr>,
      wr_reply = Some ''$JS.ACK'',
      wr_info = Some \<lparr>in_stream = ''LOGS'', in_sequence = 12, in_delivered = 5, in_published = 1700000000\<rparr>\<rparr>"

definition example_nats_world :: "(state_data, stored) nats_world" where
  "example_nats_world =
     \<lparr>w_store = state_data_new, w_measures = [], w_ticks = 0,
      w_sinks = \<lparr>lk_jetstream = [], lk_sent = [], lk_pauses = []\<rparr>, w_events = [], w_traces = []\<rparr>"

lemma example_serves:
  "\<exists>spans' w'. nats_serve 1 example_env example_nats_pipeline example_source example_wire
     (trace_buffer_new False 0 0) example_nats_world = Some (spans', w')"
  using nats_serve_total [OF example_nats_pipeline_ok, of 1 example_env example_source example_wire
      "trace_buffer_new False 0 0" example_nats_world]
  by (simp add: example_nats_pipeline_def)

text \<open>A server whose consumer and streams are as the source wants them.\<close>

definition example_server :: server where
  "example_server =
     \<lparr>sv_connect = Inr (), sv_stream = (\<lambda>s. Found (if s = ''DLQ'' then [''dlq.>''] else [''logs.>''])),
      sv_consumer_info = (\<lambda>_ _. Found \<lparr>ci_ack_policy = ''explicit'', ci_max_deliver = 5, ci_backoff = []\<rparr>),
      sv_stream_by_subject = (\<lambda>_. Found ''DLQ''), sv_consumer = (\<lambda>_ _. Inr ())\<rparr>"

definition example_source_params :: source_params where
  "example_source_params =
     \<lparr>sp_url = None, sp_stream = ''LOGS'', sp_consumer = ''pipeline'', sp_tenant_prefix = DEFAULT_TENANT_PREFIX,
      sp_dlq_prefix = DEFAULT_DLQ_PREFIX, sp_codec = CodecJson\<rparr>"

lemma example_source_checks: "check_source example_server DEFAULT_URL example_source_params = Inr 5"
proof -
  have "stream_covers_every_tenant [''dlq.>''] DEFAULT_DLQ_PREFIX" by code_simp
  then show ?thesis
    by (simp add: check_source_def example_server_def example_source_params_def connect_def get_stream_def
        delivery_limit_def check_dead_letter_stream_def)
qed

definition example_letter :: "header_lines letter" where
  "example_letter =
     \<lparr>dl_stream = ''LOGS'', dl_sequence = 12, dl_subject = ''logs.acme.web'', dl_headers = Some [(RECORD_ID, ''7'')],
      dl_arrival = arrival_default\<lparr>arr_record_id := Some 7, arr_tenant := Some ''acme''\<rparr>,
      dl_failure = failure_at_source PanicKind ''boom''\<rparr>"

lemma example_letter_one_line: "letter_one_line example_letter"
proof -
  have "is_valid_tenant ''acme''" "is_utf8 ''source: boom''" by code_simp+
  then show ?thesis
    by (simp add: letter_one_line_def example_letter_def tenant_of_def arrival_default_def failure_at_source_def
        SOURCE_ID_def)
qed

end
