(* ===== verification/Dragonfly.thy ===== *)
theory Dragonfly
  imports State_Store
begin

text \<open>
  \<open>crates/state/src/lib.rs\<close>: the state store over the Redis protocol. The client library and the
  server are outside the repository: a command is sent with \<open>rc_query\<close>, and what the server does with
  it is the locale \<open>redis_server\<close>, which states the documented behaviour of the five commands and of
  \<open>EVAL\<close>; the two scripts it runs are the code's and translated here. On such a server the store keeps
  the contract every stateful stage relies on.
\<close>

section \<open>The client\<close>

text \<open>\<open>redis::Value\<close>, and \<open>RedisError\<close> with the answers of the queries the code asks of it.\<close>

datatype redis_value = RNil | RInt int | RBulk string | ROkay | RStatus string | RArray "redis_value list"

record redis_error =
  re_server :: bool
  re_io :: bool
  re_timeout :: bool
  re_dropped :: bool
  re_text :: string

record 'r redis_client =
  rc_connect :: "'r \<Rightarrow> (redis_error + unit) \<times> 'r"
  rc_timeouts :: "'r \<Rightarrow> (redis_error + unit) \<times> 'r"
  rc_query :: "string list \<Rightarrow> 'r \<Rightarrow> (redis_error + redis_value) \<times> 'r"
  rc_atomic :: "string list list \<Rightarrow> 'r \<Rightarrow> (redis_error + redis_value) \<times> 'r"
  rc_to_bytes :: "redis_value \<Rightarrow> redis_error + string option"
  rc_to_string :: "redis_value \<Rightarrow> redis_error + string"
  rc_to_int :: "redis_value \<Rightarrow> redis_error + int"
  rc_to_ints :: "redis_value \<Rightarrow> redis_error + int \<times> int"

definition DEFAULT_STATE_URL :: string where "DEFAULT_STATE_URL = ''redis://127.0.0.1:6379''"

definition CLAIM_SCRIPT :: string where
  "CLAIM_SCRIPT =
     ''local v = redis.call('GET', KEYS[1]) if v then return v end '' @
     ''redis.call('SET', KEYS[1], ARGV[1], 'PX', ARGV[2]) return false''"

definition COMPARE_AND_SET_SCRIPT :: string where
  "COMPARE_AND_SET_SCRIPT =
     ''local v = redis.call('GET', KEYS[1]) if v == false or v == ARGV[1] then '' @
     ''redis.call('SET', KEYS[1], ARGV[2], 'PX', ARGV[3]) return false end return v''"

definition resolve_state_url :: "string option \<Rightarrow> string" where
  "resolve_state_url env =
     (case env of Some url \<Rightarrow> if url \<noteq> [] then url else DEFAULT_STATE_URL | None \<Rightarrow> DEFAULT_STATE_URL)"

text \<open>\<open>Dragonfly::new\<close>: the client's own check of the URL, an error its text.\<close>

definition dragonfly_new :: "(string \<Rightarrow> string + unit) \<Rightarrow> string \<Rightarrow> state_error + string" where
  "dragonfly_new open_url url =
     map_sum (\<lambda>e. StateErr (''invalid state store url `'' @ url @ ''`: '' @ e)) (\<lambda>_. url) (open_url url)"

definition unreachable_at :: "string \<Rightarrow> redis_error \<Rightarrow> state_error" where
  "unreachable_at url e = StateErr (''could not connect to the state store at '' @ url @ '': '' @ re_text e)"

definition store_connect :: "'r redis_client \<Rightarrow> string \<Rightarrow> 'r \<Rightarrow> (state_error + unit) \<times> 'r" where
  "store_connect R url r =
     (case rc_connect R r of
        (Inl e, r) \<Rightarrow> (Inl (unreachable_at url e), r)
      | (Inr _, r) \<Rightarrow>
          (case rc_timeouts R r of
             (Inl e, r) \<Rightarrow> (Inl (unreachable_at url e), r)
           | (Inr _, r) \<Rightarrow>
               (case rc_query R [''PING''] r of
                  (Inl e, r) \<Rightarrow> (Inl (unreachable_at url e), r)
                | (Inr v, r) \<Rightarrow> (map_sum (unreachable_at url) (\<lambda>_. ()) (rc_to_string R v), r))))"

section \<open>One worker's store\<close>

record 'r dragonfly_store =
  dg_open :: bool
  dg_set_get :: bool
  dg_redis :: 'r

definition store_open ::
  "'r redis_client \<Rightarrow> string \<Rightarrow> bool \<Rightarrow> 'r \<Rightarrow> (state_error + 'r dragonfly_store) \<times> 'r" where
  "store_open R url eval_claim r =
     (case store_connect R url r of
        (Inl e, r) \<Rightarrow> (Inl e, r)
      | (Inr _, r) \<Rightarrow> (Inr \<lparr>dg_open = True, dg_set_get = \<not> eval_claim, dg_redis = r\<rparr>, r))"

definition is_connection_fault :: "redis_error \<Rightarrow> bool" where
  "is_connection_fault e \<longleftrightarrow> re_io e \<or> re_timeout e \<or> re_dropped e"

fun contains_text :: "string \<Rightarrow> string \<Rightarrow> bool" where
  "contains_text p [] = starts_with [] p"
| "contains_text p (c # cs) = (starts_with (c # cs) p \<or> contains_text p cs)"

definition refused_syntax :: "redis_error \<Rightarrow> bool" where
  "refused_syntax e \<longleftrightarrow> re_server e \<and> contains_text ''syntax'' (map to_ascii_lower (re_text e))"

definition ttl_millis :: "duration \<Rightarrow> nat" where
  "ttl_millis ttl = max (min (ttl div 1000000) (2 ^ 63 - 1)) 1"

text \<open>The connection, opened first when the last call dropped it; the connection is dropped after a fault.\<close>

definition reopened ::
  "'r redis_client \<Rightarrow> string \<Rightarrow> 'r dragonfly_store \<Rightarrow> (state_error + unit) \<times> 'r dragonfly_store" where
  "reopened R url d =
     (if dg_open d then (Inr (), d)
      else case store_connect R url (dg_redis d) of
          (Inl e, r) \<Rightarrow> (Inl e, d\<lparr>dg_redis := r\<rparr>)
        | (Inr _, r) \<Rightarrow> (Inr (), d\<lparr>dg_open := True, dg_redis := r\<rparr>))"

definition with_connection ::
  "'r redis_client \<Rightarrow> string \<Rightarrow> ('r dragonfly_store \<Rightarrow> (redis_error + 'a) \<times> 'r dragonfly_store)
     \<Rightarrow> 'r dragonfly_store \<Rightarrow> (state_error + 'a) \<times> 'r dragonfly_store" where
  "with_connection R url op d =
     (case reopened R url d of
        (Inl e, d) \<Rightarrow> (Inl e, d)
      | (Inr _, d) \<Rightarrow>
          (case op d of
             (Inr v, d) \<Rightarrow> (Inr v, d)
           | (Inl err, d) \<Rightarrow>
               (Inl (StateErr (''state store at '' @ url @ '': '' @ re_text err)),
                if is_connection_fault err then d\<lparr>dg_open := False\<rparr> else d)))"

definition query ::
  "'r redis_client \<Rightarrow> string list \<Rightarrow> (redis_value \<Rightarrow> redis_error + 'a) \<Rightarrow> 'r dragonfly_store
     \<Rightarrow> (redis_error + 'a) \<times> 'r dragonfly_store" where
  "query R args conv d =
     (case rc_query R args (dg_redis d) of
        (Inl e, r) \<Rightarrow> (Inl e, d\<lparr>dg_redis := r\<rparr>)
      | (Inr v, r) \<Rightarrow> (conv v, d\<lparr>dg_redis := r\<rparr>))"

definition existing_from :: "'r redis_client \<Rightarrow> redis_value \<Rightarrow> redis_error + string option" where
  "existing_from R v = (case v of RNil \<Rightarrow> Inr None | other \<Rightarrow> rc_to_bytes R other)"

definition eval_claim :: "'r redis_client \<Rightarrow> string \<Rightarrow> string \<Rightarrow> nat \<Rightarrow> 'r dragonfly_store
    \<Rightarrow> (redis_error + string option) \<times> 'r dragonfly_store" where
  "eval_claim R k v millis =
     query R [''EVAL'', CLAIM_SCRIPT, show_nat 1, k, v, show_nat millis] (existing_from R)"

definition claim :: "'r redis_client \<Rightarrow> string \<Rightarrow> string \<Rightarrow> nat \<Rightarrow> 'r dragonfly_store
    \<Rightarrow> (redis_error + string option) \<times> 'r dragonfly_store" where
  "claim R k v millis d =
     (if dg_set_get d then
        (case query R [''SET'', k, v, ''NX'', ''PX'', show_nat millis, ''GET''] Inr d of
           (Inr reply, d) \<Rightarrow> (existing_from R reply, d)
         | (Inl err, d) \<Rightarrow>
             if refused_syntax err then eval_claim R k v millis (d\<lparr>dg_set_get := False\<rparr>) else (Inl err, d))
      else eval_claim R k v millis d)"

definition dragon_set_nx ::
  "'r redis_client \<Rightarrow> string \<Rightarrow> string \<Rightarrow> string \<Rightarrow> duration \<Rightarrow> 'r dragonfly_store
     \<Rightarrow> (state_error + string option) \<times> 'r dragonfly_store" where
  "dragon_set_nx R url k v ttl = with_connection R url (claim R k v (ttl_millis ttl))"

definition dragon_set ::
  "'r redis_client \<Rightarrow> string \<Rightarrow> string \<Rightarrow> string \<Rightarrow> duration \<Rightarrow> 'r dragonfly_store
     \<Rightarrow> (state_error + unit) \<times> 'r dragonfly_store" where
  "dragon_set R url k v ttl =
     with_connection R url
       (query R [''SET'', k, v, ''PX'', show_nat (ttl_millis ttl)] (\<lambda>r. map_sum id (\<lambda>_. ()) (rc_to_string R r)))"

definition dragon_compare_and_set ::
  "'r redis_client \<Rightarrow> string \<Rightarrow> string \<Rightarrow> string \<Rightarrow> string \<Rightarrow> duration \<Rightarrow> 'r dragonfly_store
     \<Rightarrow> (state_error + string option) \<times> 'r dragonfly_store" where
  "dragon_compare_and_set R url k expected v ttl =
     with_connection R url
       (query R [''EVAL'', COMPARE_AND_SET_SCRIPT, show_nat 1, k, expected, v, show_nat (ttl_millis ttl)]
          (existing_from R))"

definition dragon_get ::
  "'r redis_client \<Rightarrow> string \<Rightarrow> string \<Rightarrow> 'r dragonfly_store \<Rightarrow> (state_error + string option) \<times> 'r dragonfly_store"
where
  "dragon_get R url k = with_connection R url (query R [''GET'', k] (rc_to_bytes R))"

definition dragon_incr ::
  "'r redis_client \<Rightarrow> string \<Rightarrow> string \<Rightarrow> int \<Rightarrow> duration \<Rightarrow> 'r dragonfly_store
     \<Rightarrow> (state_error + int) \<times> 'r dragonfly_store" where
  "dragon_incr R url k by ttl =
     with_connection R url
       (\<lambda>d. case rc_atomic R [[''INCRBY'', k, show_int by], [''PEXPIRE'', k, show_nat (ttl_millis ttl)]] (dg_redis d) of
          (Inl e, r) \<Rightarrow> (Inl e, d\<lparr>dg_redis := r\<rparr>)
        | (Inr v, r) \<Rightarrow> (map_sum id fst (rc_to_ints R v), d\<lparr>dg_redis := r\<rparr>))"

definition dragon_del ::
  "'r redis_client \<Rightarrow> string \<Rightarrow> string \<Rightarrow> 'r dragonfly_store \<Rightarrow> (state_error + unit) \<times> 'r dragonfly_store" where
  "dragon_del R url k =
     with_connection R url (query R [''DEL'', k] (\<lambda>r. map_sum id (\<lambda>_. ()) (rc_to_int R r)))"

definition dragonfly_ops :: "'r redis_client \<Rightarrow> string \<Rightarrow> 'r dragonfly_store store_ops" where
  "dragonfly_ops R url =
     \<lparr>so_set_nx = dragon_set_nx R url, so_set = dragon_set R url,
      so_compare_and_set = dragon_compare_and_set R url, so_get = dragon_get R url,
      so_incr = dragon_incr R url, so_del = dragon_del R url\<rparr>"

section \<open>The scripts\<close>

text \<open>What a script does to the keys, and what it returns; Lua's \<open>false\<close> is sent as nil.\<close>

type_synonym keyspace = "string \<Rightarrow> string option"

definition claim_script :: "string \<Rightarrow> string \<Rightarrow> keyspace \<Rightarrow> redis_value \<times> keyspace" where
  "claim_script k v m = (case m k of Some w \<Rightarrow> (RBulk w, m) | None \<Rightarrow> (RNil, m(k \<mapsto> v)))"

definition compare_and_set_script :: "string \<Rightarrow> string \<Rightarrow> string \<Rightarrow> keyspace \<Rightarrow> redis_value \<times> keyspace" where
  "compare_and_set_script k expected v m =
     (case m k of
        Some w \<Rightarrow> if w = expected then (RNil, m(k \<mapsto> v)) else (RBulk w, m)
      | None \<Rightarrow> (RNil, m(k \<mapsto> v)))"

section \<open>The server\<close>

text \<open>What the server documents: \<open>rview\<close> is what it holds, expired keys left out, and \<open>healthy\<close> that it
  answers. Older servers refuse \<open>NX\<close> with \<open>GET\<close> as a syntax error.\<close>

locale redis_server =
  fixes R :: "'r redis_client" and rview :: "'r \<Rightarrow> keyspace" and healthy :: "'r \<Rightarrow> bool" and takes_set_get :: bool
  assumes connects: "healthy r \<Longrightarrow> rc_connect R r = (x, r') \<Longrightarrow> x = Inr () \<and> healthy r' \<and> rview r' = rview r"
    and times_out: "healthy r \<Longrightarrow> rc_timeouts R r = (x, r') \<Longrightarrow> x = Inr () \<and> healthy r' \<and> rview r' = rview r"
    and pings: "healthy r \<Longrightarrow> rc_query R [''PING''] r = (y, r') \<Longrightarrow>
      y = Inr (RStatus ''PONG'') \<and> healthy r' \<and> rview r' = rview r"
    and sets: "healthy r \<Longrightarrow> 0 < ms \<Longrightarrow> rc_query R [''SET'', k, v, ''PX'', show_nat ms] r = (y, r') \<Longrightarrow>
      y = Inr ROkay \<and> healthy r' \<and> rview r' = (rview r)(k \<mapsto> v)"
    and claims: "healthy r \<Longrightarrow> 0 < ms \<Longrightarrow>
      rc_query R [''SET'', k, v, ''NX'', ''PX'', show_nat ms, ''GET''] r = (y, r') \<Longrightarrow>
      healthy r' \<and>
      (if takes_set_get then (y, rview r') = apfst Inr (claim_script k v (rview r))
       else (\<exists>e. y = Inl e \<and> refused_syntax e) \<and> rview r' = rview r)"
    and evals_claim: "healthy r \<Longrightarrow> 0 < ms \<Longrightarrow>
      rc_query R [''EVAL'', CLAIM_SCRIPT, show_nat 1, k, v, show_nat ms] r = (y, r') \<Longrightarrow>
      healthy r' \<and> (y, rview r') = apfst Inr (claim_script k v (rview r))"
    and evals_compare: "healthy r \<Longrightarrow> 0 < ms \<Longrightarrow>
      rc_query R [''EVAL'', COMPARE_AND_SET_SCRIPT, show_nat 1, k, w, v, show_nat ms] r = (y, r') \<Longrightarrow>
      healthy r' \<and> (y, rview r') = apfst Inr (compare_and_set_script k w v (rview r))"
    and gets: "healthy r \<Longrightarrow> rc_query R [''GET'', k] r = (y, r') \<Longrightarrow>
      healthy r' \<and> rview r' = rview r \<and> y = Inr (case rview r k of Some w \<Rightarrow> RBulk w | None \<Rightarrow> RNil)"
    and deletes: "healthy r \<Longrightarrow> rc_query R [''DEL'', k] r = (y, r') \<Longrightarrow>
      healthy r' \<and> rview r' = (rview r)(k := None) \<and> (\<exists>n. y = Inr (RInt n))"
    and increments: "healthy r \<Longrightarrow> 0 < ms \<Longrightarrow>
      rc_atomic R [[''INCRBY'', k, show_int by], [''PEXPIRE'', k, show_nat ms]] r = (y, r') \<Longrightarrow>
      healthy r' \<and> (isl y \<longrightarrow> rview r' = rview r) \<and> (\<not> isl y \<longrightarrow> (\<exists>n m. y = Inr (RArray [RInt n, RInt m]))) \<and>
      (\<forall>c. holds_count c (rview r k) \<longrightarrow>
        (if - (2 ^ 63) \<le> c + by \<and> c + by < 2 ^ 63
         then (\<exists>m. y = Inr (RArray [RInt (c + by), RInt m])) \<and> rview r' = (rview r)(k \<mapsto> show_int (c + by))
         else isl y))"
    and unreachable: "\<not> healthy r \<Longrightarrow> rc_query R args r = (y, r') \<Longrightarrow> isl y \<and> \<not> healthy r'"
      "\<not> healthy r \<Longrightarrow> rc_atomic R cmds r = (y, r') \<Longrightarrow> isl y \<and> \<not> healthy r'"
      "\<not> healthy r \<Longrightarrow> rc_connect R r = (x, r') \<Longrightarrow> \<not> healthy r'"
      "\<not> healthy r \<Longrightarrow> rc_timeouts R r = (x, r') \<Longrightarrow> \<not> healthy r'"
    and conversions: "rc_to_bytes R (RBulk w) = Inr (Some w)" "rc_to_bytes R RNil = Inr None"
      "rc_to_string R ROkay = Inr ''OK''" "rc_to_string R (RStatus w) = Inr w" "rc_to_int R (RInt n) = Inr n"
      "rc_to_ints R (RArray [RInt n, RInt m]) = Inr (n, m)"
begin

abbreviation up :: "'r dragonfly_store \<Rightarrow> bool" where "up d \<equiv> healthy (dg_redis d)"
abbreviation held :: "'r dragonfly_store \<Rightarrow> keyspace" where "held d \<equiv> rview (dg_redis d)"

lemma store_connect_up:
  assumes "healthy r" "store_connect R url r = (x, r')"
  shows "x = Inr () \<and> healthy r' \<and> rview r' = rview r"
proof -
  obtain x1 r1 where c: "rc_connect R r = (x1, r1)" by force
  note c1 = connects [OF assms(1) c]
  obtain x2 r2 where t: "rc_timeouts R r1 = (x2, r2)" by force
  note t1 = times_out [OF _ t]
  obtain y r3 where p: "rc_query R [''PING''] r2 = (y, r3)" by force
  note p1 = pings [OF _ p]
  from assms(2) c c1 t t1 p p1 conversions show ?thesis by (auto simp: store_connect_def)
qed

lemma store_connect_down:
  assumes "\<not> healthy r" "store_connect R url r = (x, r')"
  shows "isl x \<and> \<not> healthy r'"
proof -
  obtain x1 r1 where c: "rc_connect R r = (x1, r1)" by force
  note c1 = unreachable(3) [OF assms(1) c]
  obtain x2 r2 where t: "rc_timeouts R r1 = (x2, r2)" by force
  note t1 = unreachable(4) [OF c1 t]
  obtain y r3 where p: "rc_query R [''PING''] r2 = (y, r3)" by force
  note p1 = unreachable(1) [OF t1 p]
  from assms(2) c c1 t t1 p p1 show ?thesis
    by (auto simp: store_connect_def split: sum.splits)
qed

lemma reopened_up:
  assumes "up d" "reopened R url d = (x, d')"
  shows "x = Inr () \<and> up d' \<and> held d' = held d"
proof (cases "dg_open d")
  case False
  obtain y r where c: "store_connect R url (dg_redis d) = (y, r)" by force
  from store_connect_up [OF assms(1) c] assms(2) False c show ?thesis by (auto simp: reopened_def)
qed (use assms in \<open>simp add: reopened_def\<close>)

lemma reopened_down:
  assumes "\<not> up d" "reopened R url d = (x, d')"
  shows "\<not> up d'"
proof (cases "dg_open d")
  case False
  obtain y r where c: "store_connect R url (dg_redis d) = (y, r)" by force
  from store_connect_down [OF assms(1) c] assms(2) False c show ?thesis by (auto simp: reopened_def isl_def)
qed (use assms in \<open>simp add: reopened_def\<close>)

text \<open>An operation that answers on a healthy server answers through the connection.\<close>

lemma with_connection_up:
  assumes "up d" "with_connection R url op d = (y, d')"
    and "\<And>d1 z d2. up d1 \<Longrightarrow> held d1 = held d \<Longrightarrow> op d1 = (z, d2) \<Longrightarrow> up d2 \<and> Q (map_sum (\<lambda>_. ()) id z) (held d2)"
  shows "up d' \<and> Q (map_sum (\<lambda>_. ()) id y) (held d')"
proof -
  obtain x d1 where o: "reopened R url d = (x, d1)" by force
  note r = reopened_up [OF assms(1) o]
  obtain z d2 where p: "op d1 = (z, d2)" by force
  from assms(3) [OF _ _ p] r have q: "up d2" "Q (map_sum (\<lambda>_. ()) id z) (held d2)" by auto
  with assms(2) o r p show ?thesis by (cases z) (auto simp: with_connection_def)
qed

lemma with_connection_down:
  assumes "\<not> up d" "\<And>d1. \<not> up d1 \<Longrightarrow> isl (fst (op d1))"
  shows "\<exists>e d'. with_connection R url op d = (Inl e, d')"
proof -
  obtain x d1 where o: "reopened R url d = (x, d1)" by force
  from assms(2) [OF reopened_down [OF assms(1) o]] obtain e d2 where "op d1 = (Inl e, d2)"
    by (cases "op d1") (auto simp: isl_def)
  with o show ?thesis by (cases x) (auto simp: with_connection_def)
qed

lemma query_down: "\<not> up d \<Longrightarrow> isl (fst (query R args conv d)) \<and> \<not> up (snd (query R args conv d))"
  using unreachable(1) [of "dg_redis d" args] by (auto simp: query_def split: prod.split sum.split)

lemma ttl_millis_positive: "0 < ttl_millis ttl"
  by (simp add: ttl_millis_def)

lemma existing_from_reply [simp]:
  "existing_from R RNil = Inr None" "existing_from R (RBulk w) = Inr (Some w)"
  by (simp_all add: existing_from_def conversions)

lemma eval_claim_up:
  assumes "up d" "0 < ms" "eval_claim R k v ms d = (z, d')"
  shows "up d' \<and> z = Inr (held d k) \<and> held d' = (if held d k = None then (held d)(k \<mapsto> v) else held d)"
proof -
  obtain y r' where q: "rc_query R [''EVAL'', CLAIM_SCRIPT, show_nat 1, k, v, show_nat ms] (dg_redis d) = (y, r')" by force
  from evals_claim [OF assms(1,2) q] assms(3) q show ?thesis
    by (cases "held d k") (auto simp: eval_claim_def query_def claim_script_def)
qed

lemma claim_up:
  assumes "up d" "0 < ms" "claim R k v ms d = (z, d')"
  shows "up d' \<and> z = Inr (held d k) \<and> held d' = (if held d k = None then (held d)(k \<mapsto> v) else held d)"
proof (cases "dg_set_get d")
  case True
  obtain y r' where q: "rc_query R [''SET'', k, v, ''NX'', ''PX'', show_nat ms, ''GET''] (dg_redis d) = (y, r')" by force
  note c = claims [OF assms(1,2) q]
  show ?thesis
  proof (cases takes_set_get)
    case yes: True
    with c assms(3) True q show ?thesis
      by (cases "held d k") (auto simp: claim_def query_def claim_script_def)
  next
    case False
    with c obtain e where "y = Inl e" "refused_syntax e" and same: "rview r' = held d" "healthy r'" by auto
    with assms(3) True q have "eval_claim R k v ms (d\<lparr>dg_redis := r', dg_set_get := False\<rparr>) = (z, d')"
      by (simp add: claim_def query_def)
    from eval_claim_up [OF _ assms(2) this] same show ?thesis by simp
  qed
next
  case False
  with eval_claim_up [OF assms(1,2)] assms(3) show ?thesis by (simp add: claim_def)
qed

lemma claim_down: "\<not> up d \<Longrightarrow> isl (fst (claim R k v ms d))"
proof -
  assume d: "\<not> up d"
  let ?q = "query R [''SET'', k, v, ''NX'', ''PX'', show_nat ms, ''GET''] Inr d"
  obtain z d1 where q: "?q = (z, d1)" by force
  from query_down [OF d, of "[''SET'', k, v, ''NX'', ''PX'', show_nat ms, ''GET'']" Inr] q
  obtain e where "z = Inl e" "\<not> up d1" by (auto simp: isl_def)
  with q query_down d show ?thesis by (auto simp: claim_def eval_claim_def)
qed

end

sublocale redis_server \<subseteq> dragon: state_store "dragonfly_ops R url" held up
proof
  fix s s' k v and ttl :: duration and r :: "state_error + string option"
  assume u: "up s" and p: "so_set_nx (dragonfly_ops R url) k v ttl s = (r, s')" "0 < ttl"
  have "up s' \<and> (map_sum (\<lambda>_. ()) id r = Inr (held s k) \<and> held s' = (if held s k = None then (held s)(k \<mapsto> v) else held s))"
  proof (rule with_connection_up [OF u, where op = "claim R k v (ttl_millis ttl)" and
        Q = "\<lambda>y m. y = Inr (held s k) \<and> m = (if held s k = None then (held s)(k \<mapsto> v) else held s)"])
    show "with_connection R url (claim R k v (ttl_millis ttl)) s = (r, s')"
      using p(1) by (simp add: dragonfly_ops_def dragon_set_nx_def)
    fix d1 z d2
    assume d1: "up d1" "held d1 = held s" "claim R k v (ttl_millis ttl) d1 = (z, d2)"
    from claim_up [OF d1(1) ttl_millis_positive d1(3)] d1(2)
    show "up d2 \<and> map_sum (\<lambda>_. ()) id z = Inr (held s k)
        \<and> held d2 = (if held s k = None then (held s)(k \<mapsto> v) else held s)" by simp
  qed
  with p(2) show "r = Inr (held s k) \<and> up s' \<and> held s' = (if held s k = None then written k v ttl (held s) else held s)"
    by (cases r) (simp_all add: written_def)
next
  fix s s' k v u and ttl :: duration
  assume u: "up s" and p: "so_set (dragonfly_ops R url) k v ttl s = (u, s')" "0 < ttl"
  have "up s' \<and> (map_sum (\<lambda>_. ()) id u = Inr () \<and> held s' = (held s)(k \<mapsto> v))"
  proof (rule with_connection_up [OF u, where
        op = "query R [''SET'', k, v, ''PX'', show_nat (ttl_millis ttl)] (\<lambda>r. map_sum id (\<lambda>_. ()) (rc_to_string R r))"
        and Q = "\<lambda>y m. y = Inr () \<and> m = (held s)(k \<mapsto> v)"])
    fix d1 z d2
    assume d1: "up d1" "held d1 = held s"
      "query R [''SET'', k, v, ''PX'', show_nat (ttl_millis ttl)] (\<lambda>r. map_sum id (\<lambda>_. ()) (rc_to_string R r)) d1 = (z, d2)"
    obtain y r' where q: "rc_query R [''SET'', k, v, ''PX'', show_nat (ttl_millis ttl)] (dg_redis d1) = (y, r')" by force
    from sets [OF d1(1) ttl_millis_positive q] d1 q
    show "up d2 \<and> map_sum (\<lambda>_. ()) id z = Inr () \<and> held d2 = (held s)(k \<mapsto> v)"
      by (auto simp: query_def conversions)
  qed (use p in \<open>simp add: dragonfly_ops_def dragon_set_def\<close>)
  with p(2) show "u = Inr () \<and> up s' \<and> held s' = written k v ttl (held s)"
    by (cases u) (simp_all add: written_def)
next
  fix s s' k x v and ttl :: duration and r :: "state_error + string option"
  assume u: "up s" and p: "so_compare_and_set (dragonfly_ops R url) k x v ttl s = (r, s')" "0 < ttl"
  let ?op = "query R [''EVAL'', COMPARE_AND_SET_SCRIPT, show_nat 1, k, x, v, show_nat (ttl_millis ttl)] (existing_from R)"
  have "up s' \<and> (if held s k = None \<or> held s k = Some x
      then map_sum (\<lambda>_. ()) id r = Inr None \<and> held s' = (held s)(k \<mapsto> v)
      else map_sum (\<lambda>_. ()) id r = Inr (held s k) \<and> held s' = held s)"
  proof (rule with_connection_up [OF u, where op = ?op and
        Q = "\<lambda>y m. if held s k = None \<or> held s k = Some x
          then y = Inr None \<and> m = (held s)(k \<mapsto> v) else y = Inr (held s k) \<and> m = held s"])
    show "with_connection R url ?op s = (r, s')" using p(1) by (simp add: dragonfly_ops_def dragon_compare_and_set_def)
    fix d1 z d2
    assume d1: "up d1" "held d1 = held s" "?op d1 = (z, d2)"
    obtain y r' where q: "rc_query R [''EVAL'', COMPARE_AND_SET_SCRIPT, show_nat 1, k, x, v, show_nat (ttl_millis ttl)]
        (dg_redis d1) = (y, r')" by force
    from evals_compare [OF d1(1) ttl_millis_positive q] q d1(2,3)
    show "up d2 \<and> (if held s k = None \<or> held s k = Some x
        then map_sum (\<lambda>_. ()) id z = Inr None \<and> held d2 = (held s)(k \<mapsto> v)
        else map_sum (\<lambda>_. ()) id z = Inr (held s k) \<and> held d2 = held s)"
      by (cases "held s k") (auto simp: query_def compare_and_set_script_def split: if_splits)
  qed
  with p(2) show "up s' \<and> (if held s k = None \<or> held s k = Some x
      then r = Inr None \<and> held s' = written k v ttl (held s) else r = Inr (held s k) \<and> held s' = held s)"
    by (cases r) (auto simp: written_def split: if_splits)
next
  fix s s' k and r :: "state_error + string option"
  assume u: "up s" and p: "so_get (dragonfly_ops R url) k s = (r, s')"
  have "up s' \<and> (map_sum (\<lambda>_. ()) id r = Inr (held s k) \<and> held s' = held s)"
  proof (rule with_connection_up [OF u, where op = "query R [''GET'', k] (rc_to_bytes R)"
        and Q = "\<lambda>y m. y = Inr (held s k) \<and> m = held s"])
    fix d1 z d2
    assume d1: "up d1" "held d1 = held s" "query R [''GET'', k] (rc_to_bytes R) d1 = (z, d2)"
    obtain y r' where q: "rc_query R [''GET'', k] (dg_redis d1) = (y, r')" by force
    from gets [OF d1(1) q] d1 q show "up d2 \<and> map_sum (\<lambda>_. ()) id z = Inr (held s k) \<and> held d2 = held s"
      by (auto simp: query_def conversions split: option.splits)
  qed (use p in \<open>simp add: dragonfly_ops_def dragon_get_def\<close>)
  then show "r = Inr (held s k) \<and> up s' \<and> held s' = held s" by (cases r) simp_all
next
  fix s s' k "by" n and ttl :: duration
  assume u: "up s" and p: "so_incr (dragonfly_ops R url) k by ttl s = (n, s')" "0 < ttl"
  let ?Q = "\<lambda>y m. (isl y \<longrightarrow> m = held s) \<and> (\<forall>c. holds_count c (held s k) \<longrightarrow>
      (if - (2 ^ 63) \<le> c + by \<and> c + by < 2 ^ 63 then y = Inr (c + by) \<and> m = (held s)(k \<mapsto> show_int (c + by)) else isl y))"
  let ?op = "\<lambda>d. case rc_atomic R [[''INCRBY'', k, show_int by], [''PEXPIRE'', k, show_nat (ttl_millis ttl)]] (dg_redis d) of
          (Inl e, r) \<Rightarrow> (Inl e, d\<lparr>dg_redis := r\<rparr>)
        | (Inr v, r) \<Rightarrow> (map_sum id fst (rc_to_ints R v), d\<lparr>dg_redis := r\<rparr>)"
  have "up s' \<and> ?Q (map_sum (\<lambda>_. ()) id n) (held s')"
  proof (rule with_connection_up [OF u, where op = ?op and Q = ?Q])
    show "with_connection R url ?op s = (n, s')" using p(1) by (simp add: dragonfly_ops_def dragon_incr_def)
    fix d1 z d2
    assume d1: "up d1" "held d1 = held s" "?op d1 = (z, d2)"
    obtain y r' where q: "rc_atomic R [[''INCRBY'', k, show_int by], [''PEXPIRE'', k, show_nat (ttl_millis ttl)]]
        (dg_redis d1) = (y, r')" by force
    note i = increments [OF d1(1) ttl_millis_positive q]
    show "up d2 \<and> ?Q (map_sum (\<lambda>_. ()) id z) (held d2)"
    proof (cases y)
      case (Inl e)
      with i q d1(2,3) show ?thesis by (auto simp: isl_def split: if_splits)
    next
      case (Inr v)
      with i obtain a b where v: "v = RArray [RInt a, RInt b]" by (auto simp: isl_def)
      with i q d1(2,3) Inr show ?thesis by (auto simp: conversions isl_def)
    qed
  qed
  with p(2) show "up s' \<and> (isl n \<longrightarrow> held s' = held s) \<and> (\<forall>c. holds_count c (held s k) \<longrightarrow>
      (if - (2 ^ 63) \<le> c + by \<and> c + by < 2 ^ 63
       then n = Inr (c + by) \<and> held s' = written k (show_int (c + by)) ttl (held s) else isl n))"
    by (cases n) (auto simp: written_def)
next
  fix s s' k u
  assume u: "up s" and p: "so_del (dragonfly_ops R url) k s = (u, s')"
  have "up s' \<and> (map_sum (\<lambda>_. ()) id u = Inr () \<and> held s' = (held s)(k := None))"
  proof (rule with_connection_up [OF u, where op = "query R [''DEL'', k] (\<lambda>r. map_sum id (\<lambda>_. ()) (rc_to_int R r))"
        and Q = "\<lambda>y m. y = Inr () \<and> m = (held s)(k := None)"])
    fix d1 z d2
    assume d1: "up d1" "held d1 = held s" "query R [''DEL'', k] (\<lambda>r. map_sum id (\<lambda>_. ()) (rc_to_int R r)) d1 = (z, d2)"
    obtain y r' where q: "rc_query R [''DEL'', k] (dg_redis d1) = (y, r')" by force
    from deletes [OF d1(1) q] d1 q show "up d2 \<and> map_sum (\<lambda>_. ()) id z = Inr () \<and> held d2 = (held s)(k := None)"
      by (auto simp: query_def conversions)
  qed (use p in \<open>simp add: dragonfly_ops_def dragon_del_def\<close>)
  then show "u = Inr () \<and> up s' \<and> held s' = (held s)(k := None)" by (cases u) simp_all
next
  fix s k v and ttl :: duration
  assume "\<not> up s"
  then show "\<exists>e s'. so_set_nx (dragonfly_ops R url) k v ttl s = (Inl e, s')"
    unfolding dragonfly_ops_def dragon_set_nx_def by simp (rule with_connection_down [OF _ claim_down])
next
  fix s k "by" and ttl :: duration
  assume "\<not> up s"
  then show "\<exists>e s'. so_incr (dragonfly_ops R url) k by ttl s = (Inl e, s')"
    unfolding dragonfly_ops_def dragon_incr_def
    by simp (rule with_connection_down, assumption, auto dest: unreachable(2) split: prod.split sum.split)
next
  fix s k x v and ttl :: duration
  assume "\<not> up s"
  then show "\<exists>e s'. so_compare_and_set (dragonfly_ops R url) k x v ttl s = (Inl e, s')"
    unfolding dragonfly_ops_def dragon_compare_and_set_def
    by simp (rule with_connection_down, assumption, simp add: query_down)
qed

context redis_server begin

lemma keeps_contract: "state_store (dragonfly_ops R url) held up"
  by unfold_locales

end

end
