(* ===== verification/Redis_Server.thy ===== *)
theory Redis_Server
  imports Dragonfly
begin

text \<open>
  A server that keeps the documentation stated in \<open>redis_server\<close>: the commands the client of
  \<open>crates/state/src/lib.rs\<close> sends, over keys with a deadline in milliseconds, for servers that take
  \<open>SET\<close> with \<open>NX\<close> and \<open>GET\<close> and for those that refuse it. It shows that the hypotheses hold together
  and lets the properties of the store be run on concrete commands.
\<close>

record redis_state =
  rs_keys :: "string \<Rightarrow> (string \<times> nat) option"
  rs_now :: nat
  rs_up :: bool

definition rs_view :: "redis_state \<Rightarrow> keyspace" where
  "rs_view s k =
     (case rs_keys s k of Some (v, deadline) \<Rightarrow> if deadline \<le> rs_now s then None else Some v | None \<Rightarrow> None)"

definition rs_write :: "string \<Rightarrow> string \<Rightarrow> string \<Rightarrow> redis_state \<Rightarrow> redis_state" where
  "rs_write k v ms s = s\<lparr>rs_keys := (rs_keys s)(k \<mapsto> (v, rs_now s + digits_value ms))\<rparr>"

definition redis_says :: "string \<Rightarrow> redis_error" where
  "redis_says text = \<lparr>re_server = True, re_io = False, re_timeout = False, re_dropped = False, re_text = text\<rparr>"

definition redis_gone :: redis_error where
  "redis_gone = \<lparr>re_server = False, re_io = True, re_timeout = False, re_dropped = True, re_text = ''broken pipe''\<rparr>"

definition rs_reply :: "string option \<Rightarrow> redis_value" where
  "rs_reply held = (case held of Some w \<Rightarrow> RBulk w | None \<Rightarrow> RNil)"

definition rs_claim :: "string \<Rightarrow> string \<Rightarrow> string \<Rightarrow> redis_state \<Rightarrow> redis_value \<times> redis_state" where
  "rs_claim k v ms s = (rs_reply (rs_view s k), if rs_view s k = None then rs_write k v ms s else s)"

definition rs_compare :: "string \<Rightarrow> string \<Rightarrow> string \<Rightarrow> string \<Rightarrow> redis_state \<Rightarrow> redis_value \<times> redis_state" where
  "rs_compare k x v ms s =
     (if rs_view s k = None \<or> rs_view s k = Some x then (RNil, rs_write k v ms s) else (rs_reply (rs_view s k), s))"

definition serve :: "bool \<Rightarrow> string list \<Rightarrow> redis_state \<Rightarrow> (redis_error + redis_value) \<times> redis_state" where
  "serve takes args s =
     (if \<not> rs_up s then (Inl redis_gone, s)
      else if args = [''PING''] then (Inr (RStatus ''PONG''), s)
      else case args of
        [c, k] \<Rightarrow>
          if c = ''GET'' then (Inr (rs_reply (rs_view s k)), s)
          else if c = ''DEL'' then (Inr (RInt (of_bool (rs_view s k \<noteq> None))), s\<lparr>rs_keys := (rs_keys s)(k := None)\<rparr>)
          else (Inl (redis_says ''ERR unknown command''), s)
      | [c, k, v, px, ms] \<Rightarrow>
          if c = ''SET'' \<and> px = ''PX'' then (Inr ROkay, rs_write k v ms s)
          else (Inl (redis_says ''ERR syntax error''), s)
      | [c, script, n, k, v, ms] \<Rightarrow>
          if c = ''EVAL'' \<and> script = CLAIM_SCRIPT then apfst Inr (rs_claim k v ms s)
          else (Inl (redis_says ''ERR syntax error''), s)
      | [c, a, b, d, e, ms, g] \<Rightarrow>
          if c = ''EVAL'' \<and> a = COMPARE_AND_SET_SCRIPT then apfst Inr (rs_compare d e ms g s)
          else if c = ''SET'' \<and> d = ''NX'' \<and> e = ''PX'' \<and> g = ''GET'' \<and> takes then apfst Inr (rs_claim a b ms s)
          else (Inl (redis_says ''ERR syntax error''), s)
      | _ \<Rightarrow> (Inl (redis_says ''ERR unknown command''), s))"

text \<open>\<open>MULTI\<close>, \<open>INCRBY\<close>, \<open>PEXPIRE\<close>, \<open>EXEC\<close>: the deadline moves also when the count failed.\<close>

definition signed_value :: "string \<Rightarrow> int" where
  "signed_value t = (case t of c # cs \<Rightarrow> if c = CHR ''-'' then - int (digits_value cs) else int (digits_value t) | [] \<Rightarrow> 0)"

definition rs_touch :: "string \<Rightarrow> string \<Rightarrow> redis_state \<Rightarrow> redis_state" where
  "rs_touch k ms s = (case rs_view s k of Some w \<Rightarrow> rs_write k w ms s | None \<Rightarrow> s)"

definition serve_atomic :: "string list list \<Rightarrow> redis_state \<Rightarrow> (redis_error + redis_value) \<times> redis_state" where
  "serve_atomic cmds s =
     (if \<not> rs_up s then (Inl redis_gone, s)
      else case cmds of
        [[c, k, n], [d, k2, ms]] \<Rightarrow>
          (case incremented k (rs_view s k) (signed_value n) of
             Inr i \<Rightarrow> (Inr (RArray [RInt i, RInt 1]), rs_write k (show_int i) ms s)
           | Inl e \<Rightarrow> (Inl (redis_says (state_message e)), rs_touch k ms s))
      | _ \<Rightarrow> (Inl (redis_says ''ERR unknown command''), s))"

definition reference_client :: "bool \<Rightarrow> redis_state redis_client" where
  "reference_client takes =
     \<lparr>rc_connect = (\<lambda>s. (if rs_up s then Inr () else Inl redis_gone, s)), rc_timeouts = (\<lambda>s. (Inr (), s)),
      rc_query = serve takes, rc_atomic = serve_atomic,
      rc_to_bytes = (\<lambda>v. case v of RBulk w \<Rightarrow> Inr (Some w) | RNil \<Rightarrow> Inr None | _ \<Rightarrow> Inl (redis_says ''type'')),
      rc_to_string = (\<lambda>v. case v of ROkay \<Rightarrow> Inr ''OK'' | RStatus w \<Rightarrow> Inr w | _ \<Rightarrow> Inl (redis_says ''type'')),
      rc_to_int = (\<lambda>v. case v of RInt n \<Rightarrow> Inr n | _ \<Rightarrow> Inl (redis_says ''type'')),
      rc_to_ints = (\<lambda>v. case v of RArray [RInt n, RInt m] \<Rightarrow> Inr (n, m) | _ \<Rightarrow> Inl (redis_says ''type''))\<rparr>"

lemma rs_view_write [simp]: "0 < ms \<Longrightarrow> rs_view (rs_write k v (show_nat ms) s) = (rs_view s)(k \<mapsto> v)"
  by (auto simp: rs_view_def rs_write_def digits_value_show_nat fun_eq_iff split: option.split)

lemma rs_view_empty: "rs_view \<lparr>rs_keys = \<lambda>_. None, rs_now = n, rs_up = b\<rparr> = (\<lambda>_. None)"
  by (simp add: rs_view_def fun_eq_iff)

lemma rs_view_touch [simp]: "0 < ms \<Longrightarrow> rs_view (rs_touch k (show_nat ms) s) = rs_view s"
  by (auto simp: rs_touch_def fun_upd_idem split: option.split)

lemma rs_up_same [simp]: "rs_up (rs_write k v ms s) = rs_up s" "rs_up (rs_touch k ms s) = rs_up s"
  by (simp_all add: rs_write_def rs_touch_def split: option.split)

lemma rs_view_del [simp]: "rs_view (s\<lparr>rs_keys := (rs_keys s)(k := None)\<rparr>) = (rs_view s)(k := None)"
  by (auto simp: rs_view_def fun_eq_iff split: option.split)

lemma signed_value_show_int [simp]: "signed_value (show_int i) = i"
proof (cases "i < 0")
  case True
  then show ?thesis by (simp add: signed_value_def show_int_def digits_value_show_nat)
next
  case False
  obtain c cs where s: "show_nat (nat i) = c # cs" "is_ascii_digit c" by (rule show_nat_no_sign)
  then have "c \<noteq> CHR ''-''" by (auto simp: is_ascii_digit_def byte_def)
  with False s(1) digits_value_show_nat [of "nat i"] show ?thesis by (simp add: signed_value_def show_int_def)
qed

lemma serve_claims:
  "rs_up s \<Longrightarrow> serve takes [''SET'', k, v, ''NX'', ''PX'', ms, ''GET''] s =
    (if takes then apfst Inr (rs_claim k v ms s) else (Inl (redis_says ''ERR syntax error''), s))"
  "rs_up s \<Longrightarrow> serve takes [''EVAL'', CLAIM_SCRIPT, n, k, v, ms] s = apfst Inr (rs_claim k v ms s)"
  "rs_up s \<Longrightarrow> serve takes [''EVAL'', COMPARE_AND_SET_SCRIPT, n, k, x, v, ms] s = apfst Inr (rs_compare k x v ms s)"
  by (auto simp: serve_def)

lemma rs_claim_script:
  "0 < ms \<Longrightarrow> apsnd rs_view (rs_claim k v (show_nat ms) s) = claim_script k v (rs_view s)"
  "0 < ms \<Longrightarrow> apsnd rs_view (rs_compare k x v (show_nat ms) s) = compare_and_set_script k x v (rs_view s)"
  by (auto simp: rs_claim_def rs_compare_def claim_script_def compare_and_set_script_def rs_reply_def split: option.split)

lemma rs_claim_up: "rs_up (snd (rs_claim k v ms s)) = rs_up s" "rs_up (snd (rs_compare k x v ms s)) = rs_up s"
  by (simp_all add: rs_claim_def rs_compare_def)

lemma refused: "refused_syntax (redis_says ''ERR syntax error'')"
  by (code_simp)

interpretation reference: redis_server "reference_client takes" rs_view rs_up takes for takes
proof
  fix s s' k v y and ms :: nat
  assume "rs_up s" "0 < ms"
    and "rc_query (reference_client takes) [''SET'', k, v, ''NX'', ''PX'', show_nat ms, ''GET''] s = (y, s')"
  then show "rs_up s' \<and> (if takes then (y, rs_view s') = apfst Inr (claim_script k v (rs_view s))
       else (\<exists>e. y = Inl e \<and> refused_syntax e) \<and> rs_view s' = rs_view s)"
    using rs_claim_up(1) [of k v "show_nat ms" s] refused rs_claim_script(1) [of ms k v s, symmetric]
    by (cases "rs_claim k v (show_nat ms) s") (auto simp: reference_client_def serve_claims split: if_splits)
next
  fix s s' k v y and ms :: nat
  assume "rs_up s" "0 < ms"
    and "rc_query (reference_client takes) [''EVAL'', CLAIM_SCRIPT, show_nat 1, k, v, show_nat ms] s = (y, s')"
  then show "rs_up s' \<and> (y, rs_view s') = apfst Inr (claim_script k v (rs_view s))"
    using rs_claim_up(1) [of k v "show_nat ms" s] rs_claim_script(1) [of ms k v s, symmetric]
    by (cases "rs_claim k v (show_nat ms) s") (auto simp: reference_client_def serve_claims)
next
  fix s s' k w v y and ms :: nat
  assume "rs_up s" "0 < ms"
    and "rc_query (reference_client takes) [''EVAL'', COMPARE_AND_SET_SCRIPT, show_nat 1, k, w, v, show_nat ms] s = (y, s')"
  then show "rs_up s' \<and> (y, rs_view s') = apfst Inr (compare_and_set_script k w v (rs_view s))"
    using rs_claim_up(2) [of k w v "show_nat ms" s] rs_claim_script(2) [of ms k w v s, symmetric]
    by (cases "rs_compare k w v (show_nat ms) s") (auto simp: reference_client_def serve_claims)
next
  fix s s' k "by" y and ms :: nat
  assume "rs_up s" "0 < ms"
    and "rc_atomic (reference_client takes) [[''INCRBY'', k, show_int by], [''PEXPIRE'', k, show_nat ms]] s = (y, s')"
  then show "rs_up s' \<and> (isl y \<longrightarrow> rs_view s' = rs_view s) \<and> (\<not> isl y \<longrightarrow> (\<exists>n m. y = Inr (RArray [RInt n, RInt m]))) \<and>
      (\<forall>c. holds_count c (rs_view s k) \<longrightarrow>
        (if - (2 ^ 63) \<le> c + by \<and> c + by < 2 ^ 63
         then (\<exists>m. y = Inr (RArray [RInt (c + by), RInt m])) \<and> rs_view s' = (rs_view s)(k \<mapsto> show_int (c + by))
         else isl y))"
    by (cases "incremented k (rs_view s k) by") (auto simp: reference_client_def serve_atomic_def incremented_count split: if_splits)
qed (auto simp: reference_client_def serve_def serve_atomic_def redis_gone_def rs_reply_def split: option.splits list.splits if_splits)

end
