(* ===== verification/Lua_Values.thy ===== *)
theory Lua_Values
  imports Utf8 Json Closed_Sets State_Store "HOL-Library.AList" "HOL-Library.Multiset"
begin

text \<open>
  What \<open>crates/lua/src\<close> sees of the interpreter: Lua values, the tables behind them with the
  metatables the stage gives out, and the errors it inspects. Tables are shared by reference: a value
  names one by its position in the heap. The interpreter itself is a third-party library; what it
  decides for the stage is in \<open>lua_lib\<close>, and what the stage relies on is the locale \<open>lua_tables\<close>.
\<close>

datatype shape = ShapeObject | ShapeList

text \<open>\<open>LLight\<close> is light userdata by its pointer: \<open>json.null\<close> is the null pointer. Integers are 64-bit words
  read with \<open>sint\<close>; strings are bytes, UTF-8 or not.\<close>

datatype lua_value =
    LNil
  | LBool bool
  | LInt u64
  | LNum f64
  | LStr string
  | LTable nat
  | LFunction nat
  | LThread nat
  | LUserData nat
  | LLight nat
  | LUnknown nat

definition lua_null :: lua_value where "lua_null = LLight 0"

text \<open>The shared metatables: the list mark, the two record marks, and any other.\<close>

datatype metatable = ListMt | RecordMt shape | OtherMt nat

record lua_table =
  tb_pairs :: "(lua_value \<times> lua_value) list"
  tb_meta :: "metatable option"

type_synonym lua_heap = "lua_table list"

definition plain_table :: lua_table where "plain_table = \<lparr>tb_pairs = [], tb_meta = None\<rparr>"

definition table_at :: "lua_heap \<Rightarrow> nat \<Rightarrow> lua_table" where
  "table_at h a = (if a < length h then h ! a else plain_table)"

definition raw_get :: "lua_table \<Rightarrow> lua_value \<Rightarrow> lua_value" where
  "raw_get t k = (case map_of (tb_pairs t) k of Some v \<Rightarrow> v | None \<Rightarrow> LNil)"

definition raw_put :: "lua_value \<Rightarrow> lua_value \<Rightarrow> lua_table \<Rightarrow> lua_table" where
  "raw_put k v t =
     t\<lparr>tb_pairs := if v = LNil then AList.delete k (tb_pairs t) else AList.update k v (tb_pairs t)\<rparr>"

definition set_metatable :: "nat \<Rightarrow> metatable \<Rightarrow> lua_heap \<Rightarrow> lua_heap" where
  "set_metatable a mt h = h[a := (table_at h a)\<lparr>tb_meta := Some mt\<rparr>]"

section \<open>Errors\<close>

text \<open>The errors of the interpreter's library that the code tells apart.\<close>

datatype external = BudgetExceeded | StateFailure state_error | OtherExternal string

datatype mlua_error =
    MemoryError string
  | RuntimeError string
  | ExternalError external
  | CallbackError string mlua_error
  | WithContext string mlua_error
  | OtherError string

section \<open>The library\<close>

text \<open>What the library decides: whether a heap, or a new string, stays under the memory cap; the order of
  \<open>pairs\<close>, one result per step; \<open>raw_len\<close>; a key's and an error's text; and what \<open>downcast_ref\<close> finds.\<close>

record lua_lib =
  lb_fits :: "lua_heap \<Rightarrow> bool"
  lb_string_fits :: "string \<Rightarrow> lua_heap \<Rightarrow> bool"
  lb_pairs :: "lua_table \<Rightarrow> (mlua_error + lua_value \<times> lua_value) list"
  lb_border :: "lua_table \<Rightarrow> nat"
  lb_key_text :: "lua_value \<Rightarrow> string option"
  lb_error_text :: "mlua_error \<Rightarrow> string"
  lb_downcast :: "mlua_error \<Rightarrow> external option"

definition over_cap :: mlua_error where "over_cap = MemoryError ''not enough memory''"

definition create_table :: "lua_lib \<Rightarrow> lua_heap \<Rightarrow> mlua_error + nat \<times> lua_heap" where
  "create_table L h = (if lb_fits L (h @ [plain_table]) then Inr (length h, h @ [plain_table]) else Inl over_cap)"

definition create_string :: "lua_lib \<Rightarrow> string \<Rightarrow> lua_heap \<Rightarrow> mlua_error + lua_value" where
  "create_string L s h = (if lb_string_fits L s h then Inr (LStr s) else Inl over_cap)"

definition raw_set :: "lua_lib \<Rightarrow> nat \<Rightarrow> lua_value \<Rightarrow> lua_value \<Rightarrow> lua_heap \<Rightarrow> mlua_error + lua_heap" where
  "raw_set L a k v h =
     (let h' = h[a := raw_put k v (table_at h a)] in if lb_fits L h' then Inr h' else Inl over_cap)"

text \<open>\<open>pairs\<close> gives each entry once, in any order; \<open>raw_len\<close> is a border: the table holds it, unless it is
  zero, and not the position after it.\<close>

locale lua_tables =
  fixes L :: lua_lib
  assumes pairs_once: "\<exists>ps. lb_pairs L t = map Inr ps \<and> mset ps = mset (tb_pairs t)"
    and border_held: "0 < lb_border L t \<Longrightarrow> raw_get t (LInt (of_nat (lb_border L t))) \<noteq> LNil"
    and border_last: "length (tb_pairs t) < 2 ^ 63 \<Longrightarrow> raw_get t (LInt (of_nat (Suc (lb_border L t)))) = LNil"
begin

lemma border_zero:
  assumes "\<And>k v. (k, v) \<in> set (tb_pairs t) \<Longrightarrow> \<exists>s. k = LStr s"
  shows "lb_border L t = 0"
proof (rule ccontr)
  assume "lb_border L t \<noteq> 0"
  with border_held [of t] have "raw_get t (LInt (of_nat (lb_border L t))) \<noteq> LNil" by simp
  then obtain v where "(LInt (of_nat (lb_border L t)), v) \<in> set (tb_pairs t)"
    by (auto simp: raw_get_def split: option.splits dest: map_of_SomeD)
  with assms show False by blast
qed

end

section \<open>A library that does so\<close>

definition list_border :: "lua_table \<Rightarrow> nat" where
  "list_border t =
     length (takeWhile (\<lambda>i. raw_get t (LInt (of_nat (Suc i))) \<noteq> LNil) [0..<length (tb_pairs t)])"

lemma raw_get_key: "raw_get t k \<noteq> LNil \<Longrightarrow> k \<in> fst ` set (tb_pairs t)"
  by (force simp: raw_get_def split: option.splits dest: map_of_SomeD)

lemma of_nat_u64_inject: "i < 2 ^ 64 \<Longrightarrow> j < 2 ^ 64 \<Longrightarrow> (of_nat i :: u64) = of_nat j \<longleftrightarrow> i = j"
  by (auto simp: word_of_nat_eq_iff take_bit_nat_eq_self)

lemma list_border_held:
  assumes "i < list_border t"
  shows "raw_get t (LInt (of_nat (Suc i))) \<noteq> LNil"
proof -
  let ?P = "\<lambda>i. raw_get t (LInt (of_nat (Suc i))) \<noteq> LNil"
  have "takeWhile ?P [0..<length (tb_pairs t)] ! i = i"
    using assms takeWhile_nth [of i ?P "[0..<length (tb_pairs t)]"]
      length_takeWhile_le [of ?P "[0..<length (tb_pairs t)]"] by (simp add: list_border_def)
  then show ?thesis
    using assms set_takeWhileD nth_mem unfolding list_border_def by fastforce
qed

lemma list_border_last:
  assumes "length (tb_pairs t) < 2 ^ 63"
  shows "raw_get t (LInt (of_nat (Suc (list_border t)))) = LNil"
proof (cases "list_border t < length (tb_pairs t)")
  case True
  then show ?thesis
    using nth_length_takeWhile [of "\<lambda>i. raw_get t (LInt (of_nat (Suc i))) \<noteq> LNil" "[0..<length (tb_pairs t)]"]
    by (simp add: list_border_def)
next
  case False
  let ?n = "length (tb_pairs t)" and ?key = "\<lambda>i. LInt (of_nat (Suc i))"
  have n: "list_border t = ?n"
    using False length_takeWhile_le [of _ "[0..<?n]"] by (metis list_border_def length_upt diff_zero le_neq_implies_less)
  show ?thesis
  proof (rule ccontr)
    assume "raw_get t (LInt (of_nat (Suc (list_border t)))) \<noteq> LNil"
    with list_border_held [of _ t] n have "?key ` {..?n} \<subseteq> fst ` set (tb_pairs t)"
      by (auto simp: le_less intro!: raw_get_key)
    then have "card (?key ` {..?n}) \<le> card (fst ` set (tb_pairs t))" by (rule card_mono [rotated]) simp
    also have "\<dots> \<le> ?n" by (metis card_length length_map set_map)
    moreover have "inj_on ?key {..?n}" using assms by (auto simp: inj_on_def of_nat_u64_inject simp del: of_nat_Suc)
    ultimately show False by (simp add: card_image)
  qed
qed

definition reference_lib :: lua_lib where
  "reference_lib =
     \<lparr>lb_fits = (\<lambda>h. True), lb_string_fits = (\<lambda>s h. True), lb_pairs = (\<lambda>t. map Inr (tb_pairs t)),
      lb_border = list_border, lb_key_text = (\<lambda>k. case k of LStr s \<Rightarrow> Some s | _ \<Rightarrow> None),
      lb_error_text = (\<lambda>e. ''error''), lb_downcast = (\<lambda>e. case e of ExternalError x \<Rightarrow> Some x | _ \<Rightarrow> None)\<rparr>"

interpretation reference_tables: lua_tables reference_lib
proof
  fix t
  show "\<exists>ps. lb_pairs reference_lib t = map Inr ps \<and> mset ps = mset (tb_pairs t)"
    by (auto simp: reference_lib_def)
  show "raw_get t (LInt (of_nat (lb_border reference_lib t))) \<noteq> LNil" if "0 < lb_border reference_lib t"
    using list_border_held [of "lb_border reference_lib t - 1" t] that by (simp add: reference_lib_def)
  show "raw_get t (LInt (of_nat (Suc (lb_border reference_lib t)))) = LNil" if "length (tb_pairs t) < 2 ^ 63"
    using list_border_last [OF that] by (simp add: reference_lib_def)
qed

end
