(* ===== verification/Lua_Convert.thy ===== *)
theory Lua_Convert
  imports Lua_Values Meta
begin

text \<open>
  \<open>crates/lua/src/convert.rs\<close>: a record as a Lua value and back. The way back reads tables by the
  marks they carry, counts string bytes against the output cap, and goes at most \<open>MAX_DEPTH\<close> tables
  deep, so a table that contains itself is refused. A value that represents a record reads as it.
\<close>

datatype output_error = OutputErr (output_message: string)

abbreviation (input) refuse :: "string \<Rightarrow> output_error + 'a" where "refuse message \<equiv> Inl (OutputErr message)"

section \<open>A record as a Lua value\<close>

definition unsigned_to_lua :: "u64 \<Rightarrow> lua_value" where
  "unsigned_to_lua w = (if uint w < 2 ^ 63 then LInt w else LNum (f64_of_int (uint w)))"

fun number_to_lua :: "jnum \<Rightarrow> lua_value" where
  "number_to_lua (PosInt w) = unsigned_to_lua w"
| "number_to_lua (NegInt w) = LInt w"
| "number_to_lua (JFloat f) = LNum f"

definition id_to_lua :: "lua_lib \<Rightarrow> record_id \<Rightarrow> lua_heap \<Rightarrow> mlua_error + lua_value" where
  "id_to_lua L i h = (if uint i < 2 ^ 63 then Inr (LInt i) else create_string L (show_u64 i) h)"

definition meta_to_lua :: "lua_lib \<Rightarrow> meta \<Rightarrow> meta_field \<Rightarrow> lua_heap \<Rightarrow> mlua_error + lua_value" where
  "meta_to_lua L m field h =
     (if field = FieldId then id_to_lua L (record_id m) h
      else case meta_get m field of
          MStr text \<Rightarrow> create_string L text h
        | MU64 n \<Rightarrow> Inr (unsigned_to_lua n))"

fun json_to_lua :: "lua_lib \<Rightarrow> json \<Rightarrow> lua_heap \<Rightarrow> mlua_error + lua_value \<times> lua_heap"
  and items_to_lua :: "lua_lib \<Rightarrow> nat \<Rightarrow> nat \<Rightarrow> json list \<Rightarrow> lua_heap \<Rightarrow> mlua_error + lua_heap"
  and fields_to_lua :: "lua_lib \<Rightarrow> nat \<Rightarrow> (string \<times> json) list \<Rightarrow> lua_heap \<Rightarrow> mlua_error + lua_heap" where
  "json_to_lua L JNull h = Inr (lua_null, h)"
| "json_to_lua L (JBool b) h = Inr (LBool b, h)"
| "json_to_lua L (JNum n) h = Inr (number_to_lua n, h)"
| "json_to_lua L (JStr s) h = map_sum id (\<lambda>v. (v, h)) (create_string L s h)"
| "json_to_lua L (JArr xs) h =
     (case create_table L h of
        Inl e \<Rightarrow> Inl e
      | Inr (a, h) \<Rightarrow> map_sum id (\<lambda>h. (LTable a, set_metatable a ListMt h)) (items_to_lua L a 0 xs h))"
| "json_to_lua L (JObj m) h =
     (case create_table L h of
        Inl e \<Rightarrow> Inl e
      | Inr (a, h) \<Rightarrow> map_sum id (\<lambda>h. (LTable a, h)) (fields_to_lua L a m h))"
| "items_to_lua L a i [] h = Inr h"
| "items_to_lua L a i (x # xs) h =
     (case json_to_lua L x h of
        Inl e \<Rightarrow> Inl e
      | Inr (v, h) \<Rightarrow>
          (case raw_set L a (LInt (of_nat (Suc i))) v h of
             Inl e \<Rightarrow> Inl e
           | Inr h \<Rightarrow> items_to_lua L a (Suc i) xs h))"
| "fields_to_lua L a [] h = Inr h"
| "fields_to_lua L a ((k, x) # m) h =
     (case json_to_lua L x h of
        Inl e \<Rightarrow> Inl e
      | Inr (v, h) \<Rightarrow>
          (case raw_set L a (LStr k) v h of
             Inl e \<Rightarrow> Inl e
           | Inr h \<Rightarrow> fields_to_lua L a m h))"

section \<open>Shapes\<close>

fun shape_of_json :: "json \<Rightarrow> shape" where
  "shape_of_json (JArr xs) = ShapeList"
| "shape_of_json _ = ShapeObject"

definition is_list_table :: "lua_table \<Rightarrow> bool" where
  "is_list_table t \<longleftrightarrow> tb_meta t = Some ListMt"

definition accepts_list_mark :: "lua_table \<Rightarrow> bool" where
  "accepts_list_mark t \<longleftrightarrow> tb_meta t = None \<or> is_list_table t"

definition record_shape :: "lua_table \<Rightarrow> shape option" where
  "record_shape t = (case tb_meta t of Some (RecordMt s) \<Rightarrow> Some s | _ \<Rightarrow> None)"

definition shape_of_table :: "lua_lib \<Rightarrow> lua_table \<Rightarrow> shape" where
  "shape_of_table L t = (if is_list_table t \<or> 0 < lb_border L t then ShapeList else ShapeObject)"

definition mark_record :: "nat \<Rightarrow> shape \<Rightarrow> lua_heap \<Rightarrow> lua_heap" where
  "mark_record a s = set_metatable a (RecordMt s)"

text \<open>What \<open>run\<close> hands to the script: the value of the record, marked when it is a table.\<close>

definition hand_over :: "lua_lib \<Rightarrow> rec_value \<Rightarrow> lua_heap \<Rightarrow> mlua_error + lua_value \<times> lua_heap" where
  "hand_over L r h =
     (case json_to_lua L r h of
        Inl e \<Rightarrow> Inl e
      | Inr (LTable a, h) \<Rightarrow> Inr (LTable a, mark_record a (shape_of_json r) h)
      | Inr (v, h) \<Rightarrow> Inr (v, h))"

section \<open>A Lua value as a record\<close>

fun type_name :: "lua_value \<Rightarrow> string" where
  "type_name LNil = ''nil''"
| "type_name (LBool _) = ''a boolean''"
| "type_name (LInt _) = ''an integer''"
| "type_name (LNum _) = ''a number''"
| "type_name (LStr _) = ''a string''"
| "type_name (LTable _) = ''a table''"
| "type_name (LFunction _) = ''a function''"
| "type_name (LThread _) = ''a coroutine''"
| "type_name (LUserData _) = ''userdata''"
| "type_name (LLight _) = ''userdata''"
| "type_name (LUnknown _) = ''an unknown value''"

definition cannot_read :: "lua_lib \<Rightarrow> string \<Rightarrow> mlua_error \<Rightarrow> output_error" where
  "cannot_read L field e = OutputErr (''cannot read `'' @ field @ ''`: '' @ lb_error_text L e)"

fun list_position :: "lua_value \<Rightarrow> nat option" where
  "list_position (LInt i) = (if 0 < sint i then Some (nat (sint i)) else None)"
| "list_position _ = None"

fun list_len_loop ::
  "lua_lib \<Rightarrow> string \<Rightarrow> (mlua_error + lua_value \<times> lua_value) list \<Rightarrow> nat \<Rightarrow> nat \<Rightarrow> output_error + nat \<times> nat"
where
  "list_len_loop L field [] found final = Inr (found, final)"
| "list_len_loop L field (Inl e # ps) found final = Inl (cannot_read L field e)"
| "list_len_loop L field (Inr (key, v) # ps) found final =
     (case list_position key of
        None \<Rightarrow>
          refuse (''`'' @ field @ ''` is a list, and its key '' @
            (case lb_key_text L key of Some text \<Rightarrow> text | None \<Rightarrow> type_name key) @ '' is not a position in it'')
      | Some position \<Rightarrow> list_len_loop L field ps (Suc found) (max final position))"

definition list_len :: "lua_lib \<Rightarrow> lua_table \<Rightarrow> string \<Rightarrow> output_error + nat" where
  "list_len L t field =
     (case list_len_loop L field (lb_pairs L t) 0 0 of
        Inl e \<Rightarrow> Inl e
      | Inr (found, final) \<Rightarrow>
          if found \<noteq> final then
            refuse (''`'' @ field @ ''` is a list with a `nil` below position '' @ show_nat final @
              ''; write `json.null` for a null'')
          else Inr final)"

definition MAX_DEPTH :: nat where "MAX_DEPTH = 128"

definition take_bytes :: "nat \<Rightarrow> nat \<Rightarrow> string \<Rightarrow> nat \<Rightarrow> output_error + nat" where
  "take_bytes cap bytes field used =
     (if cap < used + bytes then
        refuse (''`'' @ field @ ''`: the returned record exceeds `limits.output_kib` ('' @ show_nat cap @ '' bytes)'')
      else Inr (used + bytes))"

definition number_from_int :: "u64 \<Rightarrow> jnum" where
  "number_from_int i = (if sint i < 0 then NegInt i else PosInt i)"

text \<open>A value that is not a table, with the bytes used so far.\<close>

definition read_scalar :: "nat \<Rightarrow> lua_value \<Rightarrow> string \<Rightarrow> nat \<Rightarrow> output_error + json \<times> nat" where
  "read_scalar cap v field used =
     (case v of
        LNil \<Rightarrow> Inr (JNull, used)
      | LBool b \<Rightarrow> Inr (JBool b, used)
      | LInt i \<Rightarrow> Inr (JNum (number_from_int i), used)
      | LNum f \<Rightarrow>
          if f64_finite f then Inr (JNum (JFloat f), used) else refuse (''`'' @ field @ ''` is not a finite number'')
      | LStr s \<Rightarrow>
          (case take_bytes cap (length s) field used of
             Inl e \<Rightarrow> Inl e
           | Inr used \<Rightarrow>
               if is_utf8 s then Inr (JStr s, used) else refuse (''`'' @ field @ ''` is not valid UTF-8''))
      | other \<Rightarrow>
          if other = lua_null then Inr (JNull, used)
          else refuse (''`'' @ field @ ''` is '' @ type_name other @ '', which has no JSON form''))"

fun read_entries ::
  "lua_lib \<Rightarrow> (lua_value \<Rightarrow> string \<Rightarrow> nat \<Rightarrow> output_error + json \<times> nat) \<Rightarrow> string
     \<Rightarrow> (mlua_error + lua_value \<times> lua_value) list \<Rightarrow> (string \<times> json) list \<Rightarrow> nat
     \<Rightarrow> output_error + (string \<times> json) list \<times> nat" where
  "read_entries L rd field [] m used = Inr (m, used)"
| "read_entries L rd field (Inl e # ps) m used = Inl (cannot_read L field e)"
| "read_entries L rd field (Inr (key, v) # ps) m used =
     (case key of
        LStr k \<Rightarrow>
          if \<not> is_utf8 k then refuse (''a `'' @ field @ ''` key is not valid UTF-8'')
          else (case rd v (field @ ''.'' @ k) used of
                  Inl e \<Rightarrow> Inl e
                | Inr (j, used) \<Rightarrow> read_entries L rd field ps (obj_insert k j m) used)
      | other \<Rightarrow> refuse (''`'' @ field @ ''` key '' @ type_name other @ '' is not a string''))"

fun read_items ::
  "(lua_value \<Rightarrow> string \<Rightarrow> nat \<Rightarrow> output_error + json \<times> nat) \<Rightarrow> string \<Rightarrow> lua_table \<Rightarrow> nat list \<Rightarrow> nat
     \<Rightarrow> output_error + json list \<times> nat" where
  "read_items rd field t [] used = Inr ([], used)"
| "read_items rd field t (i # ns) used =
     (case rd (raw_get t (LInt (of_nat i))) (field @ ''['' @ show_nat i @ '']'') used of
        Inl e \<Rightarrow> Inl e
      | Inr (j, used) \<Rightarrow>
          (case read_items rd field t ns used of
             Inl e \<Rightarrow> Inl e
           | Inr (js, used) \<Rightarrow> Inr (j # js, used)))"

text \<open>\<open>Reader::json\<close>: the first number is how many tables deep the value may still go.\<close>

primrec read_json ::
  "nat \<Rightarrow> lua_lib \<Rightarrow> nat \<Rightarrow> lua_heap \<Rightarrow> lua_value \<Rightarrow> string \<Rightarrow> nat \<Rightarrow> output_error + json \<times> nat" where
  "read_json 0 L cap h v field used =
     (case v of
        LTable a \<Rightarrow>
          refuse (''`'' @ field @ ''` nests deeper than '' @ show_nat MAX_DEPTH @ '' tables, or contains itself'')
      | _ \<Rightarrow> read_scalar cap v field used)"
| "read_json (Suc d) L cap h v field used =
     (case v of
        LTable a \<Rightarrow>
          (let t = table_at h a;
               shape = (case record_shape t of Some s \<Rightarrow> s | None \<Rightarrow> shape_of_table L t)
           in case shape of
                ShapeList \<Rightarrow>
                  (case list_len L t field of
                     Inl e \<Rightarrow> Inl e
                   | Inr n \<Rightarrow> map_sum id (apfst JArr) (read_items (read_json d L cap h) field t [1..<Suc n] used))
              | ShapeObject \<Rightarrow>
                  map_sum id (apfst JObj) (read_entries L (read_json d L cap h) field (lb_pairs L t) [] used))
      | _ \<Rightarrow> read_scalar cap v field used)"

definition from_lua :: "lua_lib \<Rightarrow> nat \<Rightarrow> lua_heap \<Rightarrow> lua_value \<Rightarrow> output_error + rec_value" where
  "from_lua L cap h v = map_sum id fst (read_json MAX_DEPTH L cap h v ''the returned record'' 0)"

end
