(* ===== verification/Lua_Laws.thy ===== *)
theory Lua_Laws
  imports Lua_Convert
begin

text \<open>
  A Lua value represents a JSON value in a heap when the tables it reaches hold it. What the stage
  hands to a script represents the record, heaps that keep those tables keep the record, and what
  represents a record is read back as it, under the depth limit and the output cap.
\<close>

section \<open>Representation\<close>

text \<open>Every table is at \<open>n\<close> or above, and those in \<open>M\<close> may carry a record mark.\<close>

definition list_table :: "bool \<Rightarrow> lua_table \<Rightarrow> lua_value list \<Rightarrow> bool" where
  "list_table r t vs \<longleftrightarrow>
     (tb_meta t = Some ListMt \<or> r \<and> tb_meta t = Some (RecordMt ShapeList)) \<and> distinct (map fst (tb_pairs t)) \<and>
     set (tb_pairs t) = set (zip (map (\<lambda>i. LInt (of_nat (Suc i))) [0..<length vs]) vs)"

definition object_table :: "bool \<Rightarrow> lua_table \<Rightarrow> string list \<Rightarrow> lua_value list \<Rightarrow> bool" where
  "object_table r t ks vs \<longleftrightarrow>
     (tb_meta t = None \<or> r \<and> tb_meta t = Some (RecordMt ShapeObject)) \<and> distinct (map fst (tb_pairs t)) \<and>
     length ks = length vs \<and> set (tb_pairs t) = set (zip (map LStr ks) vs)"

inductive rep :: "lua_heap \<Rightarrow> nat \<Rightarrow> nat set \<Rightarrow> lua_value \<Rightarrow> json \<Rightarrow> bool" for h n M where
  rep_null: "rep h n M lua_null JNull"
| rep_bool: "rep h n M (LBool b) (JBool b)"
| rep_num: "rep h n M (number_to_lua x) (JNum x)"
| rep_str: "rep h n M (LStr s) (JStr s)"
| rep_list: "n \<le> a \<Longrightarrow> a < length h \<Longrightarrow> list_table (a \<in> M) (h ! a) vs \<Longrightarrow> list_all2 (rep h n M) vs xs \<Longrightarrow>
    rep h n M (LTable a) (JArr xs)"
| rep_object: "n \<le> a \<Longrightarrow> a < length h \<Longrightarrow> object_table (a \<in> M) (h ! a) (map fst m) vs \<Longrightarrow>
    list_all2 (rep h n M) vs (map snd m) \<Longrightarrow> rep h n M (LTable a) (JObj m)"
monos list_all2_mono

inductive_cases rep_NullE: "rep h n M v JNull"
inductive_cases rep_BoolE: "rep h n M v (JBool b)"
inductive_cases rep_NumE: "rep h n M v (JNum x)"
inductive_cases rep_StrE: "rep h n M v (JStr s)"
inductive_cases rep_TableE: "rep h n M (LTable a) j"
inductive_cases rep_ArrE: "rep h n M v (JArr xs)"
inductive_cases rep_ObjE: "rep h n M v (JObj m)"

text \<open>What crosses unchanged: numbers that fit an \<open>i64\<close> or are finite doubles, UTF-8 text, objects with
  their keys in order. A list is shorter than \<open>2 ^ 63\<close>, as any in memory is.\<close>

fun crosses :: "json \<Rightarrow> bool" where
  "crosses (JNum (PosInt w)) \<longleftrightarrow> uint w < 2 ^ 63"
| "crosses (JNum (NegInt w)) \<longleftrightarrow> sint w < 0"
| "crosses (JNum (JFloat f)) \<longleftrightarrow> f64_finite f"
| "crosses (JStr s) \<longleftrightarrow> is_utf8 s"
| "crosses (JArr xs) \<longleftrightarrow> length xs < 2 ^ 63 \<and> list_all crosses xs"
| "crosses (JObj m) \<longleftrightarrow> wf_obj m \<and> list_all (\<lambda>kv. is_utf8 (fst kv) \<and> crosses (snd kv)) m"
| "crosses _ \<longleftrightarrow> True"

text \<open>A heap that keeps the tables from \<open>n\<close> on keeps what they represent.\<close>

definition keeps :: "nat \<Rightarrow> lua_heap \<Rightarrow> lua_heap \<Rightarrow> bool" where
  "keeps n h h' \<longleftrightarrow> length h \<le> length h' \<and> (\<forall>a. n \<le> a \<longrightarrow> a < length h \<longrightarrow> h' ! a = h ! a)"

lemma rep_keeps:
  assumes "rep h n M v j" "keeps n h h'" "m \<le> n"
  shows "rep h' m M v j"
  using assms(1)
proof induction
  case (rep_list a vs xs)
  moreover from this have "list_all2 (rep h' m M) vs xs" by (auto elim: list_all2_mono)
  ultimately show ?case using assms(2,3) by (intro rep.rep_list) (auto simp: keeps_def)
next
  case (rep_object a m' vs)
  moreover from this have "list_all2 (rep h' m M) vs (map snd m')" by (auto elim: list_all2_mono)
  ultimately show ?case using assms(2,3) by (intro rep.rep_object) (auto simp: keeps_def)
qed (auto intro: rep.intros)

lemma keeps_refl [simp]: "keeps n h h"
  by (simp add: keeps_def)

lemma keeps_trans: "keeps n h h' \<Longrightarrow> keeps n h' h'' \<Longrightarrow> keeps n h h''"
  by (auto simp: keeps_def)

lemma keeps_above: "keeps n h h' \<Longrightarrow> n \<le> n' \<Longrightarrow> keeps n' h h'"
  by (auto simp: keeps_def)

section \<open>What the stage hands over\<close>

text \<open>A loop that fills the table \<open>a\<close> changes no other, and appends its entries.\<close>

definition filled :: "nat \<Rightarrow> (lua_value \<times> lua_value) list \<Rightarrow> lua_heap \<Rightarrow> lua_heap \<Rightarrow> bool" where
  "filled a ps h h' \<longleftrightarrow>
     length h \<le> length h' \<and> (\<forall>b. b < length h \<longrightarrow> b \<noteq> a \<longrightarrow> h' ! b = h ! b) \<and>
     h' ! a = (h ! a)\<lparr>tb_pairs := tb_pairs (h ! a) @ ps\<rparr>"

text \<open>A fresh table has the mark its shape calls for.\<close>

definition shapes_as :: "lua_table \<Rightarrow> shape \<Rightarrow> bool" where
  "shapes_as t s \<longleftrightarrow> (case s of ShapeList \<Rightarrow> tb_meta t = Some ListMt | ShapeObject \<Rightarrow> tb_meta t = None)"

lemma number_not_table: "number_to_lua x \<noteq> LTable a"
  by (cases x) (simp_all add: unsigned_to_lua_def)

lemma rep_table: "rep h n M (LTable a) j \<Longrightarrow> n \<le> a \<and> a < length h"
  by (erule rep_TableE) (auto simp: lua_null_def number_not_table dest: sym)

lemma rep_not_nil: "rep h n M v j \<Longrightarrow> v \<noteq> LNil"
proof (induction rule: rep.induct)
  case (rep_num x)
  then show ?case by (cases x) (simp_all add: unsigned_to_lua_def)
qed (simp_all add: lua_null_def)

lemma raw_put_new: "v \<noteq> LNil \<Longrightarrow> k \<notin> fst ` set (tb_pairs t) \<Longrightarrow> raw_put k v t = t\<lparr>tb_pairs := tb_pairs t @ [(k, v)]\<rparr>"
proof -
  assume v: "v \<noteq> LNil" and k: "k \<notin> fst ` set (tb_pairs t)"
  have "AList.update k v ps = ps @ [(k, v)]" if "k \<notin> fst ` set ps" for ps :: "(lua_value \<times> lua_value) list"
    using that by (induction ps) auto
  with v k show ?thesis by (simp add: raw_put_def)
qed

lemma raw_set_filled:
  assumes "raw_set L a k v h = Inr h'" "a < length h" "v \<noteq> LNil" "k \<notin> fst ` set (tb_pairs (h ! a))"
  shows "filled a [(k, v)] h h'"
  using assms by (auto simp: raw_set_def raw_put_new table_at_def filled_def Let_def split: if_splits)

lemma filled_step:
  assumes "keeps 0 h h1" "filled a [p] h1 h2" "filled a ps h2 h'" "a < length h"
  shows "filled a (p # ps) h h'"
  using assms by (auto simp: filled_def keeps_def)

lemma create_table_new:
  assumes "create_table L h = Inr (a, h')"
  shows "a = length h \<and> h' = h @ [plain_table]"
  using assms by (auto simp: create_table_def split: if_splits)

lemma filled_keeps: "filled a ps h h' \<Longrightarrow> a < n \<Longrightarrow> keeps n h h'"
  by (auto simp: filled_def keeps_def)

lemma filled_Nil [simp]: "filled a [] h h"
  by (simp add: filled_def)

lemma filled_length: "filled a ps h h' \<Longrightarrow> length h \<le> length h'"
  by (simp add: filled_def)

lemma filled_pairs: "filled a ps h h' \<Longrightarrow> tb_pairs (h' ! a) = tb_pairs (h ! a) @ ps"
  by (simp add: filled_def)

text \<open>One entry and the rest of the loop.\<close>

lemma entry_step:
  assumes "keeps 0 h h1" "rep h1 (length h) {} v x" "raw_set L a k v h1 = Inr h2" "a < length h"
    "k \<notin> fst ` set (tb_pairs (h ! a))" "list_all2 (rep h' (length h2) {}) vs xs" "filled a ps h2 h'"
  shows "list_all2 (rep h' (length h) {}) (v # vs) (x # xs) \<and> filled a ((k, v) # ps) h h'"
proof -
  have same: "h1 ! a = h ! a" "a < length h1" "length h \<le> length h1" using assms(1,4) by (auto simp: keeps_def)
  have set: "filled a [(k, v)] h1 h2"
    by (rule raw_set_filled [OF assms(3) same(2) rep_not_nil [OF assms(2)]]) (simp add: same assms(5))
  have "keeps (length h) h1 h'"
    using filled_keeps [OF set assms(4)] filled_keeps [OF assms(7,4)] by (rule keeps_trans)
  then have "rep h' (length h) {} v x" by (rule rep_keeps [OF assms(2)]) simp
  moreover have "list_all2 (rep h' (length h) {}) vs xs"
    using assms(6) by (rule list_all2_mono) (auto intro: rep_keeps [OF _ keeps_refl] simp: same filled_length [OF set, THEN le_trans [OF same(3)]])
  ultimately show ?thesis using filled_step [OF assms(1) set assms(7,4)] by simp
qed

lemma filled_other_key:
  assumes "keeps 0 h h1" "raw_set L a k v h1 = Inr h2" "a < length h" "v \<noteq> LNil" "k \<notin> fst ` set (tb_pairs (h ! a))"
  shows "fst ` set (tb_pairs (h2 ! a)) = insert k (fst ` set (tb_pairs (h ! a)))"
proof -
  have "h1 ! a = h ! a" "a < length h1" using assms(1,3) by (auto simp: keeps_def)
  then have "filled a [(k, v)] h1 h2" using assms by (intro raw_set_filled) auto
  with \<open>h1 ! a = h ! a\<close> show ?thesis by (auto simp: filled_def)
qed

lemma json_to_lua_rep:
  "json_to_lua L j h = Inr (v, h') \<Longrightarrow> crosses j \<Longrightarrow> keeps 0 h h' \<and> rep h' (length h) {} v j \<and>
     (\<forall>a. v = LTable a \<longrightarrow> shapes_as (h' ! a) (shape_of_json j))"
  "items_to_lua L a i xs h = Inr h' \<Longrightarrow> list_all crosses xs \<Longrightarrow> a < length h \<Longrightarrow> i + length xs < 2 ^ 63 \<Longrightarrow>
     (\<And>k. i \<le> k \<Longrightarrow> k < i + length xs \<Longrightarrow> LInt (of_nat (Suc k)) \<notin> fst ` set (tb_pairs (h ! a))) \<Longrightarrow>
     \<exists>vs. list_all2 (rep h' (length h) {}) vs xs \<and>
       filled a (zip (map (\<lambda>k. LInt (of_nat (Suc k))) [i..<i + length xs]) vs) h h'"
  "fields_to_lua L a m h = Inr h' \<Longrightarrow> list_all (\<lambda>kv. crosses (snd kv)) m \<Longrightarrow> a < length h \<Longrightarrow> distinct (map fst m) \<Longrightarrow>
     (\<And>k. k \<in> fst ` set m \<Longrightarrow> LStr k \<notin> fst ` set (tb_pairs (h ! a))) \<Longrightarrow>
     \<exists>vs. list_all2 (rep h' (length h) {}) vs (map snd m) \<and> filled a (zip (map (LStr \<circ> fst) m) vs) h h'"
proof (induction L j h and L a i xs h and L a m h arbitrary: v h' and h' and h'
    rule: json_to_lua_items_to_lua_fields_to_lua.induct)
  case (5 L xs h)
  from "5.prems"(1) obtain a h1 h2 where c: "create_table L h = Inr (a, h1)"
    and items: "items_to_lua L a 0 xs h1 = Inr h2" and v: "v = LTable a" "h' = set_metatable a ListMt h2"
    by (auto split: sum.splits)
  note new = create_table_new [OF c]
  with "5.IH" [OF c refl items] "5.prems"(2) obtain vs where vs: "list_all2 (rep h2 (length h1) {}) vs xs"
    "filled a (zip (map (\<lambda>k. LInt (of_nat (Suc k))) [0..<length xs]) vs) h1 h2"
    by (auto simp: plain_table_def)
  have len: "length vs = length xs" and a: "a < length h2"
    using list_all2_lengthD [OF vs(1)] new filled_length [OF vs(2)] by auto
  have keep: "keeps (length h1) h2 h'" using new a by (auto simp: v keeps_def set_metatable_def)
  have "list_all2 (rep h' (length h) {}) vs xs"
    using vs(1) by (rule list_all2_mono) (use new in \<open>auto intro: rep_keeps [OF _ keep]\<close>)
  moreover have "list_table (a \<in> {}) (h' ! a) vs"
    using vs(2) new a len "5.prems"(2)
    by (auto simp: list_table_def v set_metatable_def table_at_def filled_def plain_table_def distinct_zipI1
        distinct_map inj_on_def of_nat_u64_inject simp del: of_nat_Suc)
  moreover have "keeps 0 h h'" using vs(2) new by (auto simp: keeps_def filled_def v set_metatable_def nth_append)
  ultimately show ?case using new a by (auto simp: v set_metatable_def shapes_as_def intro!: rep_list)
next
  case (6 L m h)
  from "6.prems"(1) obtain a h1 where c: "create_table L h = Inr (a, h1)"
    and items: "fields_to_lua L a m h1 = Inr h'" and v: "v = LTable a"
    by (auto split: sum.splits)
  note new = create_table_new [OF c]
  have d: "distinct (map fst m)" using "6.prems"(2) by (simp add: wf_obj_def strict_sorted_iff)
  with "6.IH" [OF c refl items] "6.prems"(2) new obtain vs where vs: "list_all2 (rep h' (length h1) {}) vs (map snd m)"
    "filled a (zip (map (LStr \<circ> fst) m) vs) h1 h'"
    by (auto simp: plain_table_def list_all_iff o_def)
  have len: "length vs = length m" and a: "a < length h'"
    using list_all2_lengthD [OF vs(1)] new filled_length [OF vs(2)] by auto
  have "list_all2 (rep h' (length h) {}) vs (map snd m)"
    using vs(1) by (rule list_all2_mono) (use new in \<open>auto intro: rep_keeps [OF _ keeps_refl]\<close>)
  moreover have "object_table (a \<in> {}) (h' ! a) (map fst m) vs"
    using vs(2) new len d
    by (auto simp: object_table_def filled_def plain_table_def distinct_map inj_on_def)
  moreover have "keeps 0 h h'" using vs(2) new by (auto simp: keeps_def filled_def nth_append)
  moreover have "tb_meta (h' ! a) = None" using vs(2) new by (simp add: filled_def plain_table_def)
  ultimately show ?case using new a by (auto simp: v shapes_as_def intro!: rep_object)
next
  case (8 L a i x xs h)
  from "8.prems"(1) obtain v h1 where v: "json_to_lua L x h = Inr (v, h1)" by (auto split: sum.splits)
  with "8.prems"(1) obtain h2 where h2: "raw_set L a (LInt (of_nat (Suc i))) v h1 = Inr h2"
    and rest: "items_to_lua L a (Suc i) xs h2 = Inr h'" by (auto split: sum.splits)
  from "8.IH"(1) [OF v] "8.prems"(2) have r: "keeps 0 h h1" "rep h1 (length h) {} v x" by auto
  have new: "LInt (of_nat (Suc i)) \<notin> fst ` set (tb_pairs (h ! a))" using "8.prems"(5) [of i] by simp
  note keys = filled_other_key [OF r(1) h2 "8.prems"(3) rep_not_nil [OF r(2)] new]
  have a: "a < length h2" using r(1) h2 "8.prems"(3) by (auto simp: raw_set_def keeps_def Let_def split: if_splits)
  have "\<exists>vs. list_all2 (rep h' (length h2) {}) vs xs \<and>
      filled a (zip (map (\<lambda>k. LInt (of_nat (Suc k))) [Suc i..<Suc i + length xs]) vs) h2 h'"
  proof (rule "8.IH"(2) [OF v refl h2 rest _ a])
    fix k assume k: "Suc i \<le> k" "k < Suc i + length xs"
    then have "LInt (of_nat (Suc k)) \<noteq> LInt (of_nat (Suc i))"
      using "8.prems"(4) by (simp add: of_nat_u64_inject del: of_nat_Suc)
    with "8.prems"(5) [of k] k show "LInt (of_nat (Suc k)) \<notin> fst ` set (tb_pairs (h2 ! a))"
      by (simp add: keys del: of_nat_Suc)
  qed (use "8.prems" in auto)
  then obtain vs where vs: "list_all2 (rep h' (length h2) {}) vs xs"
    "filled a (zip (map (\<lambda>k. LInt (of_nat (Suc k))) [Suc i..<Suc i + length xs]) vs) h2 h'" by blast
  have "[i..<i + length (x # xs)] = i # [Suc i..<Suc i + length xs]" by (subst upt_rec) simp
  with entry_step [OF r h2 "8.prems"(3) new vs]
  show ?case by (intro exI [of _ "v # vs"]) simp
next
  case (10 L a k x m h)
  from "10.prems"(1) obtain v h1 where v: "json_to_lua L x h = Inr (v, h1)" by (auto split: sum.splits)
  with "10.prems"(1) obtain h2 where h2: "raw_set L a (LStr k) v h1 = Inr h2"
    and rest: "fields_to_lua L a m h2 = Inr h'" by (auto split: sum.splits)
  from "10.IH"(1) [OF v] "10.prems"(2) have r: "keeps 0 h h1" "rep h1 (length h) {} v x" by auto
  have new: "LStr k \<notin> fst ` set (tb_pairs (h ! a))" using "10.prems"(5) [of k] by simp
  note keys = filled_other_key [OF r(1) h2 "10.prems"(3) rep_not_nil [OF r(2)] new]
  have a: "a < length h2" using r(1) h2 "10.prems"(3) by (auto simp: raw_set_def keeps_def Let_def split: if_splits)
  have "\<exists>vs. list_all2 (rep h' (length h2) {}) vs (map snd m) \<and> filled a (zip (map (LStr \<circ> fst) m) vs) h2 h'"
    by (rule "10.IH"(2) [OF v refl h2 rest _ a]) (use "10.prems" in \<open>auto simp: keys\<close>)
  then obtain vs where vs: "list_all2 (rep h' (length h2) {}) vs (map snd m)"
    "filled a (zip (map (LStr \<circ> fst) m) vs) h2 h'" by blast
  from entry_step [OF r h2 "10.prems"(3) new vs]
  show ?case by (intro exI [of _ "v # vs"]) (simp add: o_def)
qed (auto intro: rep.intros simp: create_string_def number_not_table lua_null_def [symmetric] split: if_splits, auto simp: lua_null_def)

section \<open>What is read back\<close>

fun text_bytes :: "json \<Rightarrow> nat" where
  "text_bytes (JStr s) = length s"
| "text_bytes (JArr xs) = sum_list (map text_bytes xs)"
| "text_bytes (JObj m) = sum_list (map (\<lambda>kv. text_bytes (snd kv)) m)"
| "text_bytes _ = 0"

fun nests_within :: "nat \<Rightarrow> json \<Rightarrow> bool" where
  "nests_within d (JArr xs) \<longleftrightarrow> 0 < d \<and> list_all (nests_within (d - 1)) xs"
| "nests_within d (JObj m) \<longleftrightarrow> 0 < d \<and> list_all (\<lambda>kv. nests_within (d - 1) (snd kv)) m"
| "nests_within d _ \<longleftrightarrow> True"

text \<open>A reader that reads \<open>v\<close> as \<open>x\<close> wherever the cap leaves room.\<close>

definition reads ::
  "nat \<Rightarrow> (lua_value \<Rightarrow> string \<Rightarrow> nat \<Rightarrow> output_error + json \<times> nat) \<Rightarrow> lua_value \<Rightarrow> json \<Rightarrow> bool" where
  "reads cap rd v x \<longleftrightarrow> (\<forall>field used. used + text_bytes x \<le> cap \<longrightarrow> rd v field used = Inr (x, used + text_bytes x))"

lemma sint_of_nat_u64: "i < 2 ^ 63 \<Longrightarrow> sint (of_nat i :: u64) = int i"
  by (simp add: signed_of_nat signed_take_bit_int_eq_self)

lemma list_len_loop_positions:
  assumes "\<And>k v. (k, v) \<in> set ps \<Longrightarrow> \<exists>i. k = LInt (of_nat (Suc i)) \<and> Suc i < 2 ^ 63"
  shows "list_len_loop L field (map Inr ps) found final =
    Inr (found + length ps, fold max (map (\<lambda>kv. the (list_position (fst kv))) ps) final)"
  using assms
proof (induction ps arbitrary: found final)
  case (Cons kv ps)
  obtain k v where kv: "kv = (k, v)" by force
  with Cons.prems obtain i where "k = LInt (of_nat (Suc i))" "Suc i < 2 ^ 63" by auto
  then have "list_position k = Some (Suc i)" by (simp add: sint_of_nat_u64 del: of_nat_Suc)
  moreover have "list_len_loop L field (map Inr ps) (Suc found) (max final (Suc i)) =
      Inr (Suc found + length ps, fold max (map (\<lambda>kv. the (list_position (fst kv))) ps) (max final (Suc i)))"
    by (rule Cons.IH) (use Cons.prems in auto)
  ultimately show ?case using kv by (simp add: max.commute)
qed simp

lemma list_table_len:
  assumes "list_table r t vs" "length vs < 2 ^ 63" "lb_pairs L t = map Inr ps" "mset ps = mset (tb_pairs t)"
  shows "list_len L t field = Inr (length vs)"
proof -
  let ?key = "\<lambda>i. LInt (of_nat (Suc i))" and ?n = "length vs"
  have ps: "set ps = set (zip (map ?key [0..<?n]) vs)"
    using assms(1,4) by (metis list_table_def mset_eq_setD)
  have d: "distinct (map fst ps)"
    using assms(1,4) by (metis list_table_def mset_map mset_eq_imp_distinct_iff)
  have keys: "map fst (zip (map ?key [0..<?n]) vs) = map ?key [0..<?n]" by (simp add: map_fst_zip)
  then have keyset: "fst ` set ps = ?key ` {0..<?n}" using ps by (metis list.set_map set_upt)
  have inj: "inj_on ?key {0..<?n}" using assms(2) by (auto simp: inj_on_def of_nat_u64_inject simp del: of_nat_Suc)
  have len: "length ps = ?n"
    using d keyset inj by (metis card_image distinct_card length_map list.set_map card_atLeastLessThan diff_zero)
  have shape: "\<exists>i. k = ?key i \<and> Suc i < 2 ^ 63" if "(k, v) \<in> set ps" for k v
  proof -
    have "k \<in> fst ` set ps" using that by (force simp: image_iff)
    then obtain i where "k = ?key i" "i < ?n" unfolding keyset by auto
    with assms(2) show ?thesis by (intro exI [of _ i]) simp
  qed
  have "(\<lambda>kv. the (list_position (fst kv))) ` set ps = (\<lambda>k. the (list_position k)) ` (fst ` set ps)" by auto
  also have "\<dots> = Suc ` {0..<?n}"
    unfolding keyset image_image by (rule image_cong) (use assms(2) in \<open>auto simp: sint_of_nat_u64 simp del: of_nat_Suc\<close>)
  finally have "fold max (map (\<lambda>kv. the (list_position (fst kv))) ps) 0 = Max (insert 0 (Suc ` {0..<?n}))"
    by (simp flip: Max.set_eq_fold)
  also have "\<dots> = ?n"
    by (cases "vs = []") (auto simp: image_iff Suc_le_eq intro!: Max_eqI bexI [of _ "?n - 1"])
  finally show ?thesis
    using list_len_loop_positions [of ps L field 0 0, OF shape] by (simp add: list_len_def assms(3) len)
qed

lemma list_table_get:
  assumes "list_table r t vs" "length vs < 2 ^ 63" "i < length vs"
  shows "raw_get t (LInt (of_nat (Suc i))) = vs ! i"
proof -
  have "(LInt (of_nat (Suc i)), vs ! i) \<in> set (tb_pairs t)"
    using assms(1,3) by (auto simp: list_table_def in_set_zip simp del: of_nat_Suc intro!: exI [of _ i])
  with assms(1) show ?thesis by (simp add: list_table_def raw_get_def)
qed

lemma read_items_all:
  assumes "list_all2 (\<lambda>i x. reads cap rd (raw_get t (LInt (of_nat i))) x) ns xs" "used + sum_list (map text_bytes xs) \<le> cap"
  shows "read_items rd field t ns used = Inr (xs, used + sum_list (map text_bytes xs))"
  using assms
proof (induction ns xs arbitrary: used rule: list_all2_induct)
  case (Cons i ns x xs)
  then have "rd (raw_get t (LInt (of_nat i))) (field @ ''['' @ show_nat i @ '']'') used = Inr (x, used + text_bytes x)"
    by (auto simp: reads_def)
  with Cons.IH [of "used + text_bytes x"] Cons.prems show ?case by (simp add: add.assoc)
qed simp

lemma read_entries_all:
  assumes "list_all2 (\<lambda>kv kx. fst kv = LStr (fst kx) \<and> is_utf8 (fst kx) \<and> reads cap rd (snd kv) (snd kx)) ps qs"
    and "used + sum_list (map (text_bytes \<circ> snd) qs) \<le> cap"
  shows "read_entries L rd field (map Inr ps) m used =
    Inr (fold (\<lambda>(k, x). obj_insert k x) qs m, used + sum_list (map (text_bytes \<circ> snd) qs))"
  using assms
proof (induction ps qs arbitrary: m used rule: list_all2_induct)
  case (Cons kv ps kx qs)
  obtain k v key x where p: "kv = (k, v)" "kx = (key, x)" by force
  with Cons have "k = LStr key" "is_utf8 key" "rd v (field @ ''.'' @ key) used = Inr (x, used + text_bytes x)"
    by (auto simp: reads_def)
  with Cons.IH [of "used + text_bytes x"] Cons.prems p show ?case by (simp add: add.assoc)
qed simp

text \<open>A map filled in any order is the map.\<close>

lemma set_fold_insert:
  "distinct (map fst qs) \<Longrightarrow> fst ` set qs \<inter> fst ` set m = {} \<Longrightarrow>
     set (fold (\<lambda>(k, x). obj_insert k x) qs m) = set qs \<union> set m"
proof (induction qs arbitrary: m)
  case (Cons kx qs)
  obtain k x where p: "kx = (k, x)" by force
  have "set (obj_insert k x m) = insert (k, x) (set m)" if "k \<notin> fst ` set m"
    using that by (induction k x m rule: obj_insert.induct) auto
  then show ?case using Cons by (auto simp: p fst_set_obj_insert)
qed simp

lemma wf_fold_insert: "wf_obj m \<Longrightarrow> wf_obj (fold (\<lambda>(k, x). obj_insert k x) qs m)"
  by (induction qs arbitrary: m) auto

lemma wf_obj_unique:
  assumes "wf_obj a" "wf_obj b" "set a = set b"
  shows "a = b"
proof (rule map_sorted_distinct_set_unique [where f = fst])
  show "inj_on fst (set a \<union> set b)"
    using assms by (auto simp: wf_obj_def strict_sorted_iff distinct_map)
qed (use assms in \<open>auto simp: wf_obj_def strict_sorted_iff\<close>)

lemma fold_insert_all:
  assumes "wf_obj m" "mset qs = mset m"
  shows "fold (\<lambda>(k, x). obj_insert k x) qs [] = m"
proof (rule wf_obj_unique)
  have "distinct (map fst m)" using assms(1) by (simp add: wf_obj_def strict_sorted_iff)
  then have "distinct (map fst qs)" using assms(2) by (metis mset_eq_imp_distinct_iff mset_map)
  from set_fold_insert [OF this, of "[]"] mset_eq_setD [OF assms(2)]
  show "set (fold (\<lambda>(k, x). obj_insert k x) qs []) = set m" by simp
qed (simp_all add: assms(1) wf_fold_insert)

text \<open>The entries of a table for an object, in any order, and the entries they are.\<close>

lemma object_entries:
  assumes "object_table r t (map fst m) vs" "mset ps = mset (tb_pairs t)" "list_all2 P vs m" "distinct (map fst m)"
  obtains qs where "mset qs = mset m" "list_all2 (\<lambda>kv kx. fst kv = LStr (fst kx) \<and> kx \<in> set m \<and> P (snd kv) kx) ps qs"
proof -
  have len: "length vs = length m" using assms(3) by (rule list_all2_lengthD)
  have ex: "\<exists>kx. fst kv = LStr (fst kx) \<and> kx \<in> set m \<and> P (snd kv) kx" if kv: "kv \<in> set ps" for kv
  proof -
    have "kv \<in> set (zip (map LStr (map fst m)) vs)" using kv assms(1,2) by (metis object_table_def mset_eq_setD)
    then obtain i where "i < length m" "kv = (LStr (fst (m ! i)), vs ! i)" using len by (auto simp: set_zip)
    with assms(3) show ?thesis by (intro exI [of _ "m ! i"]) (auto simp: list_all2_conv_all_nth)
  qed
  then obtain f where f: "\<forall>kv \<in> set ps. fst kv = LStr (fst (f kv)) \<and> f kv \<in> set m \<and> P (snd kv) (f kv)" by metis
  define qs where "qs = map f ps"
  have rel: "list_all2 (\<lambda>kv kx. fst kv = LStr (fst kx) \<and> kx \<in> set m \<and> P (snd kv) kx) ps qs"
    unfolding qs_def list_all2_map2 list_all2_same using f by blast
  have fstps: "map fst ps = map (LStr \<circ> fst) qs"
    using rel by (induction rule: list_all2_induct) auto
  have sub: "set qs \<subseteq> set m"
    using rel by (induction rule: list_all2_induct) auto
  have "distinct (map fst ps)" using assms(1,2) by (metis object_table_def mset_map mset_eq_imp_distinct_iff)
  then have dq: "distinct (map fst qs)" unfolding fstps by (metis distinct_map map_map)
  have "length ps = length m"
  proof -
    have "fst ` set ps = fst ` set (zip (map LStr (map fst m)) vs)" using assms(1,2) by (metis object_table_def mset_eq_setD)
    also have "\<dots> = set (map (LStr \<circ> fst) m)" using len by (metis list.set_map map_fst_zip length_map map_map)
    finally have "card (set (map fst ps)) = card (set (map (LStr \<circ> fst) m))" by simp
    moreover have "distinct (map (LStr \<circ> fst) m)" using assms(4) by (simp add: distinct_map inj_on_def)
    ultimately show ?thesis using \<open>distinct (map fst ps)\<close> by (metis distinct_card length_map)
  qed
  then have "length qs = length m" using list_all2_lengthD [OF rel] by simp
  moreover have "distinct qs" "distinct m" using dq assms(4) by (auto simp: distinct_map)
  ultimately have "set qs = set m" using sub by (metis card_subset_eq distinct_card List.finite_set)
  then have "mset qs = mset m" using \<open>distinct qs\<close> \<open>distinct m\<close> by (simp add: set_eq_iff_mset_eq_distinct)
  then show thesis using rel by (rule that)
qed

lemma read_json_scalar: "(\<And>a. v \<noteq> LTable a) \<Longrightarrow> read_json d L cap h v field used = read_scalar cap v field used"
  by (cases d; cases v) auto

lemma read_number:
  assumes "crosses (JNum x)"
  shows "read_scalar cap (number_to_lua x) field used = Inr (JNum x, used)"
proof (cases x)
  case (PosInt w)
  with assms have w: "uint w < 2 ^ 63" by simp
  moreover have "- (2 ^ 63) \<le> uint w" by (rule order_trans [of _ 0]) simp_all
  ultimately have "sint w = uint w" unfolding sint_uint by (intro signed_take_bit_int_eq_self) simp_all
  with w PosInt show ?thesis by (simp add: unsigned_to_lua_def read_scalar_def number_from_int_def)
qed (use assms in \<open>simp_all add: read_scalar_def number_from_int_def\<close>)

context lua_tables begin

text \<open>Only the marks and the entries decide the shape.\<close>

lemma shape_rep:
  "list_table r t vs \<Longrightarrow> (case record_shape t of Some s \<Rightarrow> s | None \<Rightarrow> shape_of_table L t) = ShapeList"
  "object_table r t ks vs \<Longrightarrow> (case record_shape t of Some s \<Rightarrow> s | None \<Rightarrow> shape_of_table L t) = ShapeObject"
proof -
  assume t: "object_table r t ks vs"
  have "\<exists>s. k = LStr s" if "(k, v) \<in> set (tb_pairs t)" for k v
    using that t by (auto simp: object_table_def set_zip)
  then have "lb_border L t = 0" by (rule border_zero)
  with t show "(case record_shape t of Some s \<Rightarrow> s | None \<Rightarrow> shape_of_table L t) = ShapeObject"
    by (auto simp: object_table_def record_shape_def shape_of_table_def is_list_table_def)
qed (auto simp: list_table_def record_shape_def shape_of_table_def is_list_table_def)

lemma read_rep:
  "rep h n M v j \<Longrightarrow> crosses j \<Longrightarrow> nests_within d j \<Longrightarrow> reads cap (read_json d L cap h) v j"
proof (induction j arbitrary: v d)
  case (JArr xs)
  from JArr.prems(1) obtain a vs where v: "v = LTable a" "a < length h" "list_table (a \<in> M) (h ! a) vs"
    "list_all2 (rep h n M) vs xs" by (rule rep_ArrE)
  from JArr.prems(3) obtain d' where d: "d = Suc d'" "list_all (nests_within d') xs" by (cases d) auto
  have len: "length vs = length xs" "length vs < 2 ^ 63" using list_all2_lengthD [OF v(4)] JArr.prems(2) by simp_all
  obtain ps where ps: "lb_pairs L (h ! a) = map Inr ps" "mset ps = mset (tb_pairs (h ! a))" using pairs_once by blast
  note n = list_table_len [OF v(3) len(2) ps]
  have each: "reads cap (read_json d' L cap h) (vs ! i) (xs ! i)" if "i < length xs" for i
    using that v(4) JArr.prems(2) d(2) by (intro JArr.IH) (auto simp: list_all2_conv_all_nth list_all_length)
  have "list_all2 (\<lambda>i x. reads cap (read_json d' L cap h) (raw_get (h ! a) (LInt (of_nat i))) x) [1..<Suc (length vs)] xs"
    unfolding list_all2_conv_all_nth
    using each list_table_get [OF v(3) len(2)] len(1) by (auto simp del: of_nat_Suc upt_Suc)
  from read_items_all [OF this] n show ?case
    by (auto simp: reads_def d(1) v(1,2) table_at_def shape_rep(1) [OF v(3)] Let_def simp del: upt_Suc)
next
  case (JObj m)
  from JObj.prems(1) obtain a vs where v: "v = LTable a" "a < length h" "object_table (a \<in> M) (h ! a) (map fst m) vs"
    "list_all2 (rep h n M) vs (map snd m)" by (rule rep_ObjE)
  from JObj.prems(3) obtain d' where d: "d = Suc d'" "list_all (\<lambda>kv. nests_within d' (snd kv)) m" by (cases d) auto
  have m: "wf_obj m" "list_all (\<lambda>kv. is_utf8 (fst kv) \<and> crosses (snd kv)) m" using JObj.prems(2) by auto
  obtain ps where ps: "lb_pairs L (h ! a) = map Inr ps" "mset ps = mset (tb_pairs (h ! a))" using pairs_once by blast
  have "list_all2 (\<lambda>v kx. rep h n M v (snd kx)) vs m" using v(4) by (simp add: list_all2_map2)
  with m(1) obtain qs where qs: "mset qs = mset m"
    "list_all2 (\<lambda>kv kx. fst kv = LStr (fst kx) \<and> kx \<in> set m \<and> rep h n M (snd kv) (snd kx)) ps qs"
    using object_entries [OF v(3) ps(2)] by (auto simp: wf_obj_def strict_sorted_iff)
  have "list_all2 (\<lambda>kv kx. fst kv = LStr (fst kx) \<and> is_utf8 (fst kx) \<and> reads cap (read_json d' L cap h) (snd kv) (snd kx)) ps qs"
    using qs(2) by (rule list_all2_mono) (use m(2) d(2) JObj.IH in \<open>auto simp: list_all_iff snds.simps\<close>)
  note entries = read_entries_all [OF this]
  have "sum_list (map (text_bytes \<circ> snd) qs) = text_bytes (JObj m)"
  proof -
    have "sum_mset (mset (map (text_bytes \<circ> snd) qs)) = sum_mset (mset (map (text_bytes \<circ> snd) m))"
      unfolding mset_map qs(1) ..
    then show ?thesis unfolding sum_mset_sum_list by (simp add: o_def)
  qed
  note entries = entries [unfolded this]
  have "read_json d L cap h v field used = Inr (JObj m, used + text_bytes (JObj m))"
    if "used + text_bytes (JObj m) \<le> cap" for field used
    using entries [OF that, of L field "[]"] shape_rep(2) [OF v(3)]
    by (simp only: d(1) v(1) read_json.simps lua_value.case table_at_def v(2) Let_def if_True shape.case ps(1)
        fold_insert_all [OF m(1) qs(1)] map_sum.simps apfst_conv id_apply)
  then show ?case by (simp add: reads_def)
next
  case (JNum x)
  then show ?case by (auto simp: reads_def read_json_scalar read_number number_not_table elim!: rep_NumE)
qed (auto simp: reads_def read_json_scalar read_scalar_def lua_null_def take_bytes_def
    elim!: rep_NullE rep_BoolE rep_StrE)

end

section \<open>The record mark\<close>

lemma rep_mark:
  assumes "rep h n M v j" "a < length h" "shapes_as (h ! a) s"
  shows "rep (mark_record a s h) n (insert a M) v j"
  using assms(1)
proof induction
  case (rep_list b vs xs)
  then have "list_table (b \<in> insert a M) (mark_record a s h ! b) vs"
    using assms(2,3) by (auto simp: list_table_def shapes_as_def mark_record_def set_metatable_def table_at_def
        nth_list_update split: shape.splits)
  moreover have "list_all2 (rep (mark_record a s h) n (insert a M)) vs xs"
    using rep_list(4) by (rule list_all2_mono) auto
  ultimately show ?case using rep_list(1,2) by (auto simp: mark_record_def set_metatable_def intro!: rep.rep_list)
next
  case (rep_object b m vs)
  then have "object_table (b \<in> insert a M) (mark_record a s h ! b) (map fst m) vs"
    using assms(2,3) by (auto simp: object_table_def shapes_as_def mark_record_def set_metatable_def table_at_def
        nth_list_update split: shape.splits)
  moreover have "list_all2 (rep (mark_record a s h) n (insert a M)) vs (map snd m)"
    using rep_object(4) by (rule list_all2_mono) auto
  ultimately show ?case using rep_object(1,2) by (auto simp: mark_record_def set_metatable_def intro!: rep.rep_object)
qed (auto intro: rep.intros)

lemma hand_over_rep:
  assumes "hand_over L r h = Inr (v, h')" "crosses r"
  shows "keeps 0 h h' \<and> rep h' (length h) {a. v = LTable a} v r"
proof -
  from assms(1) obtain w h1 where j: "json_to_lua L r h = Inr (w, h1)"
    and v: "v = w" "h' = (case w of LTable a \<Rightarrow> mark_record a (shape_of_json r) h1 | _ \<Rightarrow> h1)"
    by (auto simp: hand_over_def split: sum.splits lua_value.splits)
  note r = json_to_lua_rep(1) [OF j assms(2)]
  show ?thesis
  proof (cases "\<exists>a. w = LTable a")
    case True
    then obtain a where w: "w = LTable a" ..
    with r rep_table have "length h \<le> a \<and> a < length h1" by blast
    with r w show ?thesis by (auto simp: v keeps_def mark_record_def set_metatable_def intro: rep_mark [unfolded mark_record_def set_metatable_def])
  next
    case False
    with r show ?thesis by (cases w) (auto simp: v)
  qed
qed

context lua_tables begin

text \<open>A record the script leaves alone comes back, whatever else the script does to the heap.\<close>

theorem untouched_record:
  assumes "hand_over L r h = Inr (v, h1)" "keeps (length h) h1 h2" "crosses r" "nests_within MAX_DEPTH r" "text_bytes r \<le> cap"
  shows "from_lua L cap h2 v = Inr r"
proof -
  have "rep h1 (length h) {a. v = LTable a} v r" using hand_over_rep [OF assms(1,3)] ..
  then have "rep h2 (length h) {a. v = LTable a} v r" using assms(2) by (rule rep_keeps) simp
  from read_rep [OF this assms(3,4), of cap] assms(5) show ?thesis by (simp add: reads_def from_lua_def)
qed

end

end
