(* ===== verification/Lua_Copy.thy ===== *)
theory Lua_Copy
  imports Lua_Laws
begin

text \<open>
  \<open>record:copy()\<close> of \<open>crates/lua/src/convert.rs\<close>: the Lua chunk \<open>COPY\<close> with the two functions it
  calls. \<open>seen\<close> maps the tables met so far to their copies; a table is entered before its entries are
  copied, so cycles end. The recursion takes fuel, one unit per table it is inside of, and as many
  units as the heap has tables are enough. The copy is isomorphic to what it was made of: shared
  tables stay shared, cycles stay cycles, lists stay marked, and nothing that was there changes.
\<close>

section \<open>The chunk\<close>

type_synonym copies = "nat \<Rightarrow> nat option"

text \<open>\<open>mark(value, out)\<close> and \<open>finish(record, copy)\<close>.\<close>

definition mark_copy :: "nat \<Rightarrow> nat \<Rightarrow> lua_heap \<Rightarrow> lua_heap" where
  "mark_copy a b h = (if is_list_table (table_at h a) then set_metatable b ListMt h else h)"

definition finish_copy :: "nat \<Rightarrow> nat \<Rightarrow> lua_heap \<Rightarrow> lua_heap" where
  "finish_copy a b h = (case record_shape (table_at h a) of Some s \<Rightarrow> mark_record b s h | None \<Rightarrow> h)"

fun copy_entries ::
  "(lua_value \<Rightarrow> copies \<Rightarrow> lua_heap \<Rightarrow> (mlua_error + lua_value \<times> copies \<times> lua_heap) option) \<Rightarrow> lua_lib \<Rightarrow> nat
     \<Rightarrow> (mlua_error + lua_value \<times> lua_value) list \<Rightarrow> copies \<Rightarrow> lua_heap
     \<Rightarrow> (mlua_error + copies \<times> lua_heap) option" where
  "copy_entries deep L b [] seen h = Some (Inr (seen, h))"
| "copy_entries deep L b (Inl e # ps) seen h = Some (Inl e)"
| "copy_entries deep L b (Inr (k, v) # ps) seen h =
     (case deep k seen h of
        None \<Rightarrow> None
      | Some (Inl e) \<Rightarrow> Some (Inl e)
      | Some (Inr (k, seen, h)) \<Rightarrow>
          (case deep v seen h of
             None \<Rightarrow> None
           | Some (Inl e) \<Rightarrow> Some (Inl e)
           | Some (Inr (v, seen, h)) \<Rightarrow>
               (case raw_set L b k v h of
                  Inl e \<Rightarrow> Some (Inl e)
                | Inr h \<Rightarrow> copy_entries deep L b ps seen h)))"

primrec deep_copy ::
  "nat \<Rightarrow> lua_lib \<Rightarrow> lua_value \<Rightarrow> copies \<Rightarrow> lua_heap \<Rightarrow> (mlua_error + lua_value \<times> copies \<times> lua_heap) option"
where
  "deep_copy 0 L v seen h = None"
| "deep_copy (Suc n) L v seen h =
     (case v of
        LTable a \<Rightarrow>
          (case seen a of
             Some b \<Rightarrow> Some (Inr (LTable b, seen, h))
           | None \<Rightarrow>
               (case create_table L h of
                  Inl e \<Rightarrow> Some (Inl e)
                | Inr (b, h) \<Rightarrow>
                    map_option (map_sum id (\<lambda>(seen, h). (LTable b, seen, h)))
                      (copy_entries (deep_copy n L) L b (lb_pairs L (table_at h a)) (seen(a \<mapsto> b)) (mark_copy a b h))))
      | _ \<Rightarrow> Some (Inr (v, seen, h)))"

definition record_copy :: "lua_lib \<Rightarrow> nat \<Rightarrow> lua_heap \<Rightarrow> (mlua_error + lua_value \<times> lua_heap) option" where
  "record_copy L a h =
     map_option (map_sum id (\<lambda>(v, seen, h). (v, case v of LTable b \<Rightarrow> finish_copy a b h | _ \<Rightarrow> h)))
       (deep_copy (Suc (length h)) L (LTable a) Map.empty h)"

section \<open>What a copy is\<close>

definition image_of :: "copies \<Rightarrow> lua_value \<Rightarrow> lua_value" where
  "image_of c v = (case v of LTable a \<Rightarrow> (case c a of Some b \<Rightarrow> LTable b | None \<Rightarrow> v) | _ \<Rightarrow> v)"

definition covers :: "copies \<Rightarrow> lua_value \<Rightarrow> bool" where
  "covers c v \<longleftrightarrow> (\<forall>a. v = LTable a \<longrightarrow> a \<in> dom c)"

definition mark_of_copy :: "lua_table \<Rightarrow> metatable option" where
  "mark_of_copy t = (if is_list_table t then Some ListMt else None)"

text \<open>The table at \<open>b\<close> holds the images of the entries of the table \<open>t\<close>.\<close>

definition copied :: "copies \<Rightarrow> lua_table \<Rightarrow> lua_table \<Rightarrow> bool" where
  "copied c t t' \<longleftrightarrow>
     tb_meta t' = mark_of_copy t \<and> (\<forall>kv \<in> set (tb_pairs t). covers c (fst kv) \<and> covers c (snd kv)) \<and>
     mset (tb_pairs t') = mset (map (map_prod (image_of c) (image_of c)) (tb_pairs t))"

text \<open>Heaps as the interpreter keeps them: keys are distinct, values are not nil, and tables exist.\<close>

definition in_heap :: "nat \<Rightarrow> lua_value \<Rightarrow> bool" where
  "in_heap n v \<longleftrightarrow> v \<noteq> LNil \<and> (\<forall>a. v = LTable a \<longrightarrow> a < n)"

definition heap_ok :: "lua_heap \<Rightarrow> bool" where
  "heap_ok h \<longleftrightarrow>
     list_all (\<lambda>t. distinct (map fst (tb_pairs t)) \<and>
       list_all (\<lambda>kv. in_heap (length h) (fst kv) \<and> in_heap (length h) (snd kv)) (tb_pairs t)) h"

text \<open>The copies made so far of the tables of the heap \<open>g\<close>: each in its own new table.\<close>

definition fair :: "lua_heap \<Rightarrow> copies \<Rightarrow> lua_heap \<Rightarrow> bool" where
  "fair g c h \<longleftrightarrow> keeps 0 g h \<and> dom c \<subseteq> {..<length g} \<and> ran c \<subseteq> {length g..<length h} \<and> inj_on c (dom c)"

text \<open>What a piece of the copy adds: new copies, each complete.\<close>

definition extends :: "lua_heap \<Rightarrow> copies \<Rightarrow> lua_heap \<Rightarrow> copies \<Rightarrow> lua_heap \<Rightarrow> bool" where
  "extends g c h c' h' \<longleftrightarrow>
     c \<subseteq>\<^sub>m c' \<and> length h \<le> length h' \<and>
     (\<forall>a b. c' a = Some b \<longrightarrow> c a = None \<longrightarrow> length h \<le> b \<and> copied c' (g ! a) (h' ! b))"

lemma image_of_mono: "covers c v \<Longrightarrow> c \<subseteq>\<^sub>m c' \<Longrightarrow> image_of c' v = image_of c v \<and> covers c' v"
  by (cases v) (auto simp: image_of_def covers_def map_le_def dom_def)

lemma images_mono:
  assumes "\<forall>kv \<in> set ps. covers c (fst kv) \<and> covers c (snd kv)" "c \<subseteq>\<^sub>m c'"
  shows "map (map_prod (image_of c') (image_of c')) ps = map (map_prod (image_of c) (image_of c)) ps \<and>
    (\<forall>kv \<in> set ps. covers c' (fst kv) \<and> covers c' (snd kv))"
  using assms(1)
proof (induction ps)
  case (Cons kv ps)
  then show ?case using image_of_mono [OF _ assms(2)] by (cases kv) simp
qed simp

lemma copied_mono: "copied c t t' \<Longrightarrow> c \<subseteq>\<^sub>m c' \<Longrightarrow> copied c' t t'"
  unfolding copied_def using images_mono [of "tb_pairs t" c c'] by metis

lemma extends_trans:
  assumes "extends g c h c1 h1" "extends g c1 h1 c2 h2" "keeps (length h) h1 h2" "ran c1 \<subseteq> {..<length h1}"
  shows "extends g c h c2 h2"
proof -
  have "length h \<le> b \<and> copied c2 (g ! a) (h2 ! b)" if ab: "c2 a = Some b" "c a = None" for a b
  proof (cases "c1 a")
    case None
    with assms(1,2) ab show ?thesis by (force simp: extends_def)
  next
    case (Some b')
    with assms(2) ab have "b' = b" by (auto simp: extends_def map_le_def dom_def)
    with assms(1) Some ab have "length h \<le> b" "copied c1 (g ! a) (h1 ! b)" by (auto simp: extends_def)
    moreover have "h2 ! b = h1 ! b" using assms(3,4) Some \<open>b' = b\<close> calculation(1) by (auto simp: keeps_def ran_def)
    ultimately show ?thesis using assms(2) by (auto simp: extends_def intro: copied_mono)
  qed
  with assms(1,2) show ?thesis by (auto simp: extends_def intro: map_le_trans)
qed

lemma extends_put: "extends g c h c' h1 \<Longrightarrow> b < length h \<Longrightarrow> extends g c h c' (h1[b := t])"
  by (force simp: extends_def)

lemma extends_refl [simp]: "extends g c h c h"
  by (simp add: extends_def map_le_def)

lemma fair_put: "fair g c h \<Longrightarrow> length g \<le> b \<Longrightarrow> fair g c (h[b := t])"
  by (auto simp: fair_def keeps_def)

lemma image_of_inject:
  assumes "fair g c h" "covers c v" "covers c w" "image_of c v = image_of c w"
  shows "v = w"
proof -
  have "inj_on c (dom c)" using assms(1) by (simp add: fair_def)
  with assms(2-4) show ?thesis
    by (cases v; cases w) (auto simp: image_of_def covers_def dom_def inj_on_def)
qed

lemma image_of_not_nil: "in_heap n v \<Longrightarrow> image_of c v \<noteq> LNil"
  by (cases v) (auto simp: in_heap_def image_of_def split: option.split)

text \<open>What copying one value does.\<close>

definition deep_ok ::
  "lua_heap \<Rightarrow> (lua_value \<Rightarrow> copies \<Rightarrow> lua_heap \<Rightarrow> (mlua_error + lua_value \<times> copies \<times> lua_heap) option) \<Rightarrow> bool"
where
  "deep_ok g deep \<longleftrightarrow>
     (\<forall>v c h v' c' h'. fair g c h \<longrightarrow> in_heap (length g) v \<longrightarrow> deep v c h = Some (Inr (v', c', h')) \<longrightarrow>
        fair g c' h' \<and> extends g c h c' h' \<and> keeps 0 h h' \<and> covers c' v \<and> v' = image_of c' v)"

lemma deep_okD:
  assumes "deep_ok g deep" "deep v c h = Some (Inr (v', c', h'))" "fair g c h" "in_heap (length g) v"
  shows "fair g c' h'" "extends g c h c' h'" "keeps 0 h h'" "covers c' v" "v' = image_of c' v"
  using assms unfolding deep_ok_def by blast+

text \<open>The entries of the table being copied that are done, and the copy in the making.\<close>

definition half_copied :: "copies \<Rightarrow> (lua_value \<times> lua_value) list \<Rightarrow> lua_table \<Rightarrow> bool" where
  "half_copied c done t' \<longleftrightarrow>
     tb_pairs t' = map (map_prod (image_of c) (image_of c)) done \<and>
     (\<forall>kv \<in> set done. covers c (fst kv) \<and> covers c (snd kv))"

lemma half_copied_mono: "half_copied c done t \<Longrightarrow> c \<subseteq>\<^sub>m c' \<Longrightarrow> half_copied c' done t"
  unfolding half_copied_def using images_mono [of "done" c c'] by metis

lemma half_copied_put:
  assumes "half_copied c done t" "fair g c h" "covers c k" "covers c v" "k \<notin> fst ` set done" "in_heap n v"
  shows "half_copied c (done @ [(k, v)]) (raw_put (image_of c k) (image_of c v) t) \<and>
    tb_meta (raw_put (image_of c k) (image_of c v) t) = tb_meta t"
proof -
  have "image_of c k \<notin> fst ` set (tb_pairs t)"
  proof
    assume "image_of c k \<in> fst ` set (tb_pairs t)"
    then obtain kv where "kv \<in> set done" "image_of c k = image_of c (fst kv)"
      using assms(1) by (auto simp: half_copied_def)
    with assms(1,3,5) image_of_inject [OF assms(2)] show False by (fastforce simp: half_copied_def)
  qed
  from raw_put_new [OF image_of_not_nil [OF assms(6)] this] assms(1,3,4) show ?thesis
    by (simp add: half_copied_def)
qed

lemma copy_entries_extends:
  assumes "deep_ok g deep" "copy_entries deep L b (map Inr ps) c h = Some (Inr (c', h'))"
    and "fair g c h" "length g \<le> b" "b < length h" "half_copied c done (h ! b)"
    and "distinct (map fst (done @ ps))" "\<forall>kv \<in> set ps. in_heap (length g) (fst kv) \<and> in_heap (length g) (snd kv)"
  shows "fair g c' h' \<and> extends g c h c' h' \<and> (\<forall>i < length h. i \<noteq> b \<longrightarrow> h' ! i = h ! i) \<and>
    tb_meta (h' ! b) = tb_meta (h ! b) \<and> half_copied c' (done @ ps) (h' ! b)"
  using assms(2-)
proof (induction ps arbitrary: c h "done")
  case (Cons kv ps)
  obtain k v where kv: "kv = (k, v)" by force
  from Cons.prems(1) kv obtain k' c1 h1 v' c2 h2 h3 where
    deep: "deep k c h = Some (Inr (k', c1, h1))" "deep v c1 h1 = Some (Inr (v', c2, h2))"
    and put: "raw_set L b k' v' h2 = Inr h3"
    and rest: "copy_entries deep L b (map Inr ps) c2 h3 = Some (Inr (c', h'))"
    by (auto split: option.splits sum.splits)
  have inh: "in_heap (length g) k" "in_heap (length g) v" using Cons.prems(7) kv by auto
  note d1 = deep_okD [OF assms(1) deep(1) Cons.prems(2) inh(1)]
  note d2 = deep_okD [OF assms(1) deep(2) d1(1) inh(2)]
  have le: "c \<subseteq>\<^sub>m c1" "c1 \<subseteq>\<^sub>m c2" "length h \<le> length h1" "length h1 \<le> length h2"
    using d1(2) d2(2) by (simp_all add: extends_def)
  have k: "covers c2 k" "k' = image_of c2 k" using image_of_mono [OF d1(4) le(2)] d1(5) by simp_all
  have same: "h2 ! i = h ! i" if "i < length h" for i using that d1(3) d2(3) le by (simp add: keeps_def)
  have t: "h3 = h2[b := raw_put k' v' (h2 ! b)]" "length h3 = length h2" "b < length h2"
    using put Cons.prems(4) le by (auto simp: raw_set_def table_at_def Let_def split: if_splits)
  have half0: "half_copied c2 done (h2 ! b)"
    using half_copied_mono [OF half_copied_mono [OF Cons.prems(5) le(1)] le(2)] same Cons.prems(4) by simp
  have half: "half_copied c2 (done @ [(k, v)]) (h3 ! b)" "tb_meta (h3 ! b) = tb_meta (h ! b)"
    using half_copied_put [OF half0 d2(1) k(1) d2(4) _ inh(2)] Cons.prems(6) kv k(2) d2(5) t same Cons.prems(4) by auto
  have ex: "extends g c h c2 h3"
    unfolding t(1)
    by (rule extends_put [OF extends_trans [OF d1(2) d2(2) keeps_above [OF d2(3)]] Cons.prems(4)])
      (use d1(1) in \<open>auto simp: fair_def\<close>)
  have "distinct (map fst ((done @ [(k, v)]) @ ps))" "\<forall>kv \<in> set ps. in_heap (length g) (fst kv) \<and> in_heap (length g) (snd kv)"
    using Cons.prems(6,7) kv by auto
  from Cons.IH [OF rest fair_put [OF d2(1) Cons.prems(3), of "raw_put k' v' (h2 ! b)", folded t(1)] Cons.prems(3) _ half(1) this]
  have ih: "fair g c' h'" "extends g c2 h3 c' h'" "\<And>i. i < length h3 \<Longrightarrow> i \<noteq> b \<Longrightarrow> h' ! i = h3 ! i"
    "tb_meta (h' ! b) = tb_meta (h3 ! b)" "half_copied c' ((done @ [(k, v)]) @ ps) (h' ! b)"
    using t by auto
  have "extends g c h c' h'"
    by (rule extends_trans [OF ex ih(2)])
      (use ih(2,3) Cons.prems(4) d2(1) t in \<open>auto simp: keeps_def extends_def fair_def\<close>)
  moreover have "h' ! i = h ! i" if "i < length h" "i \<noteq> b" for i
    using that ih(3) [of i] same [of i] t le by simp
  ultimately show ?case using ih half kv by simp
qed simp

lemma fair_create:
  assumes "fair g c h" "create_table L h = Inr (b, h1)" "a < length g" "c a = None"
  shows "fair g (c(a \<mapsto> b)) (mark_copy a b h1) \<and> length g \<le> b \<and> table_at h1 a = g ! a"
proof -
  note new = create_table_new [OF assms(2)]
  have len: "length g \<le> length h" using assms(1) by (simp add: fair_def keeps_def)
  with assms new show ?thesis
    unfolding fair_def keeps_def ran_def
    by (auto simp: inj_on_def dom_def mark_copy_def set_metatable_def table_at_def nth_append split: if_splits)
qed

lemma heap_ok_entries:
  assumes "heap_ok g" "a < length g" "mset ps = mset (tb_pairs (g ! a))"
  shows "distinct (map fst ps) \<and> (\<forall>kv \<in> set ps. in_heap (length g) (fst kv) \<and> in_heap (length g) (snd kv))"
proof -
  have "g ! a \<in> set g" using assms(2) by simp
  with assms(1) have g: "distinct (map fst (tb_pairs (g ! a)))"
    "\<forall>kv \<in> set (tb_pairs (g ! a)). in_heap (length g) (fst kv) \<and> in_heap (length g) (snd kv)"
    by (auto simp: heap_ok_def list_all_iff)
  with assms(3) mset_eq_setD [OF assms(3)] show ?thesis by (metis mset_eq_imp_distinct_iff mset_map)
qed

lemma deep_copy_ok:
  assumes "lua_tables L" "heap_ok g"
  shows "deep_ok g (deep_copy n L)"
proof (induction n)
  case 0
  show ?case by (simp add: deep_ok_def)
next
  case (Suc n)
  show ?case
    unfolding deep_ok_def
  proof (intro allI impI)
    fix v c h v' c' h'
    assume f: "fair g c h" and v: "in_heap (length g) v" and r: "deep_copy (Suc n) L v c h = Some (Inr (v', c', h'))"
    show "fair g c' h' \<and> extends g c h c' h' \<and> keeps 0 h h' \<and> covers c' v \<and> v' = image_of c' v"
    proof (cases "\<exists>a. v = LTable a \<and> c a = None")
      case False
      with f r show ?thesis by (cases v) (auto simp: image_of_def covers_def)
    next
      case True
      then obtain a where a: "v = LTable a" "c a = None" by blast
      have ag: "a < length g" using v a by (simp add: in_heap_def)
      from r a obtain b h1 where c: "create_table L h = Inr (b, h1)" by (auto split: sum.splits)
      note new = create_table_new [OF c] and fc = fair_create [OF f c ag a(2)]
      have at: "table_at h1 a = g ! a" and len: "length g \<le> b" using fc by auto
      obtain ps where ps: "lb_pairs L (g ! a) = map Inr ps" "mset ps = mset (tb_pairs (g ! a))"
        using lua_tables.pairs_once [OF assms(1)] by blast
      from r a c at ps have e: "copy_entries (deep_copy n L) L b (map Inr ps) (c(a \<mapsto> b)) (mark_copy a b h1) = Some (Inr (c', h'))"
        and v': "v' = LTable b" by (auto split: option.splits sum.splits)
      let ?h = "mark_copy a b h1"
      have h: "length ?h = Suc (length h)" "b = length h" "\<And>i. i < length h \<Longrightarrow> ?h ! i = h ! i"
        "tb_pairs (?h ! b) = []" "tb_meta (?h ! b) = mark_of_copy (g ! a)"
        using new at by (auto simp: mark_copy_def mark_of_copy_def set_metatable_def table_at_def plain_table_def nth_append)
      have fair: "fair g (c(a \<mapsto> b)) ?h" using fc by simp
      note ok = heap_ok_entries [OF assms(2) ag ps(2)]
      have "half_copied (c(a \<mapsto> b)) [] (?h ! b)" using h by (simp add: half_copied_def)
      from copy_entries_extends [OF Suc e fair _ _ this] h len ok
      have x: "fair g c' h'" "extends g (c(a \<mapsto> b)) ?h c' h'" "\<And>i. i < length h \<Longrightarrow> h' ! i = h ! i"
        "tb_meta (h' ! b) = mark_of_copy (g ! a)" "half_copied c' ps (h' ! b)" by auto
      have ab: "c' a = Some b" "c \<subseteq>\<^sub>m c'" using x(2) a(2) by (auto simp: extends_def map_le_def dom_def split: if_splits)
      have made: "copied c' (g ! a) (h' ! b)"
      proof -
        have "tb_pairs (h' ! b) = map (map_prod (image_of c') (image_of c')) ps"
          "\<forall>kv \<in> set (tb_pairs (g ! a)). covers c' (fst kv) \<and> covers c' (snd kv)"
          using x(5) unfolding half_copied_def mset_eq_setD [OF ps(2)] by blast+
        with x(4) ps(2) show ?thesis by (simp add: copied_def)
      qed
      have "extends g c h c' h'"
        unfolding extends_def
      proof (intro conjI allI impI)
        show "length h \<le> length h'" using x(2) h(1) by (simp add: extends_def)
        fix i j
        assume ij: "c' i = Some j" "c i = None"
        have "length h \<le> j \<and> copied c' (g ! i) (h' ! j)"
        proof (cases "i = a")
          case True
          with ij ab made h(2) show ?thesis by simp
        next
          case False
          with ij have "(c(a \<mapsto> b)) i = None" by simp
          with ij(1) x(2) h(1) show ?thesis by (auto simp: extends_def dest: Suc_leD)
        qed
        then show "length h \<le> j" "copied c' (g ! i) (h' ! j)" by auto
      qed (rule ab(2))
      moreover have "keeps 0 h h'" using x(2,3) h by (auto simp: keeps_def extends_def)
      ultimately show ?thesis using x(1) ab v' a by (auto simp: covers_def image_of_def)
    qed
  qed
qed

section \<open>The fuel is enough\<close>

lemma copy_entries_defined:
  assumes "deep_ok g deep" "fair g c h" "length g \<le> b"
    and "\<And>v c' h'. fair g c' h' \<Longrightarrow> dom c \<subseteq> dom c' \<Longrightarrow> in_heap (length g) v \<Longrightarrow> deep v c' h' \<noteq> None"
    and "\<forall>kv \<in> set ps. in_heap (length g) (fst kv) \<and> in_heap (length g) (snd kv)"
  shows "copy_entries deep L b (map Inr ps) c h \<noteq> None"
  using assms(2,4,5)
proof (induction ps arbitrary: c h)
  case (Cons kv ps)
  obtain k v where kv: "kv = (k, v)" by force
  have inh: "in_heap (length g) k" "in_heap (length g) v" using Cons.prems(3) kv by auto
  show ?case
  proof (cases "deep k c h")
    case None
    with Cons.prems(2) [OF Cons.prems(1) _ inh(1)] show ?thesis by simp
  next
    case k: (Some r)
    show ?thesis
    proof (cases r)
      case (Inr kch)
      obtain k' c1 h1 where r: "kch = (k', c1, h1)" by (metis prod_cases3)
      note d1 = deep_okD [OF assms(1) k [unfolded Inr r] Cons.prems(1) inh(1)]
      have le: "dom c \<subseteq> dom c1" using d1(2) by (auto simp: extends_def map_le_implies_dom_le)
      obtain r2 where v: "deep v c1 h1 = Some r2" using Cons.prems(2) [OF d1(1) le inh(2)] by blast
      show ?thesis
      proof (cases r2)
        case r2: (Inr vch)
        obtain v' c2 h2 where r': "vch = (v', c2, h2)" by (metis prod_cases3)
        note d2 = deep_okD [OF assms(1) v [unfolded r2 r'] d1(1) inh(2)]
        have le2: "dom c \<subseteq> dom c2" using le d2(2) map_le_implies_dom_le unfolding extends_def by blast
        show ?thesis
        proof (cases "raw_set L b k' v' h2")
          case put: (Inr h3)
          then have h3: "h3 = h2[b := raw_put k' v' (table_at h2 b)]" by (auto simp: raw_set_def Let_def split: if_splits)
          have "fair g c2 h3" unfolding h3 by (rule fair_put [OF d2(1) assms(3)])
          then have "copy_entries deep L b (map Inr ps) c2 h3 \<noteq> None"
            by (rule Cons.IH) (use Cons.prems(2,3) le2 in auto)
          with k v put show ?thesis by (simp add: kv Inr r r2 r')
        qed (use k v in \<open>simp add: kv Inr r r2 r'\<close>)
      qed (use k v in \<open>simp add: kv Inr r\<close>)
    qed (use k in \<open>simp add: kv\<close>)
  qed
qed simp

lemma deep_copy_defined:
  assumes "lua_tables L" "heap_ok g"
  shows "fair g c h \<Longrightarrow> in_heap (length g) v \<Longrightarrow> card ({..<length g} - dom c) < n \<Longrightarrow> deep_copy n L v c h \<noteq> None"
proof (induction n arbitrary: v c h)
  case (Suc n)
  show ?case
  proof (cases "\<exists>a. v = LTable a \<and> c a = None")
    case True
    then obtain a where a: "v = LTable a" "c a = None" by blast
    have ag: "a < length g" using Suc.prems(2) a by (simp add: in_heap_def)
    show ?thesis
    proof (cases "create_table L h")
      case (Inr bh)
      obtain b h1 where c: "create_table L h = Inr (b, h1)" using Inr by (cases bh) simp
      note f = fair_create [OF Suc.prems(1) c ag a(2)]
      obtain ps where ps: "lb_pairs L (g ! a) = map Inr ps" "mset ps = mset (tb_pairs (g ! a))"
        using lua_tables.pairs_once [OF assms(1)] by blast
      have "card ({..<length g} - dom (c(a \<mapsto> b))) < n"
      proof -
        have "{..<length g} - dom (c(a \<mapsto> b)) = ({..<length g} - dom c) - {a}" by auto
        moreover have "a \<in> {..<length g} - dom c" using ag a(2) by auto
        ultimately show ?thesis using Suc.prems(3) card_Diff1_less [of "{..<length g} - dom c" a] by simp
      qed
      then have fuel: "card ({..<length g} - dom c') < n" if "dom (c(a \<mapsto> b)) \<subseteq> dom c'" for c' :: copies
        using that by (meson Diff_mono card_mono finite_Diff finite_lessThan le_less_trans order_refl)
      have "copy_entries (deep_copy n L) L b (map Inr ps) (c(a \<mapsto> b)) (mark_copy a b h1) \<noteq> None"
        by (rule copy_entries_defined [OF deep_copy_ok [OF assms]])
          (use f Suc.IH fuel heap_ok_entries [OF assms(2) ag ps(2)] in auto)
      with a c f ps show ?thesis by auto
    qed (use a in simp)
  next
    case False
    then show ?thesis by (cases v) auto
  qed
qed simp

section \<open>The copy of a record\<close>

text \<open>Every table reached from \<open>a\<close> is copied to a table of its own; the copy of \<open>a\<close> gets the record mark
  that \<open>a\<close> has.\<close>

definition copy_meta :: "lua_heap \<Rightarrow> nat \<Rightarrow> nat \<Rightarrow> metatable option" where
  "copy_meta h a i =
     (case record_shape (h ! i) of
        Some s \<Rightarrow> if i = a then Some (RecordMt s) else mark_of_copy (h ! i)
      | None \<Rightarrow> mark_of_copy (h ! i))"

definition isomorphic :: "lua_heap \<Rightarrow> nat \<Rightarrow> copies \<Rightarrow> lua_heap \<Rightarrow> bool" where
  "isomorphic h a c h' \<longleftrightarrow>
     a \<in> dom c \<and> inj_on c (dom c) \<and>
     (\<forall>i j. c i = Some j \<longrightarrow> i < length h \<and> length h \<le> j \<and> j < length h' \<and> tb_meta (h' ! j) = copy_meta h a i \<and>
        (\<forall>kv \<in> set (tb_pairs (h ! i)). covers c (fst kv) \<and> covers c (snd kv)) \<and>
        mset (tb_pairs (h' ! j)) = mset (map (map_prod (image_of c) (image_of c)) (tb_pairs (h ! i))))"

lemma record_copy_isomorphic:
  assumes "lua_tables L" "heap_ok h" "a < length h"
  obtains e where "record_copy L a h = Some (Inl e)"
    | c b h' where "record_copy L a h = Some (Inr (LTable b, h'))" "c a = Some b" "keeps 0 h h'" "isomorphic h a c h'"
proof -
  have f: "fair h Map.empty h" by (simp add: fair_def)
  have v: "in_heap (length h) (LTable a)" using assms(3) by (simp add: in_heap_def)
  obtain r where r: "deep_copy (Suc (length h)) L (LTable a) Map.empty h = Some r"
    using deep_copy_defined [OF assms(1,2) f v, of "Suc (length h)"] by auto
  show thesis
  proof (cases r)
    case (Inl e)
    with r show thesis by (intro that(1) [of e]) (simp add: record_copy_def del: deep_copy.simps)
  next
    case (Inr x)
    obtain w c h1 where x: "x = (w, c, h1)" by (metis prod_cases3)
    note d = deep_okD [OF deep_copy_ok [OF assms(1,2)] r [unfolded Inr x] f v]
    obtain b where b: "c a = Some b" "w = LTable b" using d(4,5) by (auto simp: covers_def image_of_def)
    have c: "length h \<le> j \<and> j < length h1 \<and> i < length h \<and> copied c (h ! i) (h1 ! j)" if "c i = Some j" for i j
      using that d(1,2) by (auto simp: fair_def extends_def ran_def dom_def subset_iff)
    let ?h = "finish_copy a b h1"
    have fin: "length ?h = length h1" "\<And>j. tb_pairs (?h ! j) = tb_pairs (h1 ! j)"
      "\<And>j. j < length h1 \<Longrightarrow> tb_meta (?h ! j) = (case record_shape (h1 ! a) of Some s \<Rightarrow> if j = b then Some (RecordMt s) else tb_meta (h1 ! j) | None \<Rightarrow> tb_meta (h1 ! j))"
      "\<And>j. j \<noteq> b \<Longrightarrow> ?h ! j = h1 ! j"
      using c [OF b(1)] d(3) assms(3)
      by (auto simp: finish_copy_def mark_record_def set_metatable_def table_at_def nth_list_update keeps_def
          split: option.splits)
    have "h1 ! a = h ! a" using d(3) assms(3) by (simp add: keeps_def)
    moreover have "j = b \<longleftrightarrow> i = a" if "c i = Some j" for i j
      using that b(1) d(1) by (auto simp: fair_def inj_on_def dom_def)
    ultimately have "isomorphic h a c ?h"
      using c b(1) d(1) fin
      by (auto simp: isomorphic_def copied_def copy_meta_def fair_def split: option.splits)
    moreover have "keeps 0 h ?h" using d(3) fin c [OF b(1)] by (auto simp: keeps_def)
    moreover have "record_copy L a h = Some (Inr (LTable b, ?h))"
      using r by (simp add: record_copy_def Inr x b(2) del: deep_copy.simps)
    ultimately show thesis using b(1) by (intro that(2)) auto
  qed
qed

text \<open>A copy represents what its original represents.\<close>

lemma images_zip:
  assumes "set ps = set (zip ks vs)" "length ks = length vs" "\<And>k. k \<in> set ks \<Longrightarrow> f k = k"
    and "distinct (map fst ps)" "mset ps' = mset (map (map_prod f f) ps)"
  shows "set ps' = set (zip ks (map f vs)) \<and> distinct (map fst ps')"
proof
  have "set ps' = set (map (map_prod f f) (zip ks vs))"
    using mset_eq_setD [OF assms(5)] assms(1) by simp
  also have "map (map_prod f f) (zip ks vs) = zip (map f ks) (map f vs)"
    unfolding zip_map_map by (rule map_cong) auto
  also have "map f ks = ks" by (rule map_idI) (rule assms(3))
  finally show "set ps' = set (zip ks (map f vs))" .
  have "map fst (map (map_prod f f) ps) = map fst ps"
    using assms(1,3) by (auto simp: set_zip_leftD)
  then have "mset (map fst ps') = mset (map fst ps)" by (metis assms(5) mset_map)
  then show "distinct (map fst ps')" using assms(4) by (metis mset_eq_imp_distinct_iff)
qed

lemma image_of_scalar: "(\<And>a. v \<noteq> LTable a) \<Longrightarrow> image_of c v = v"
  by (cases v) (auto simp: image_of_def)

lemma covers_values:
  assumes "set ps = set (zip ks vs)" "length ks = length vs" "\<forall>kv \<in> set ps. covers c (fst kv) \<and> covers c (snd kv)" "x \<in> set vs"
  shows "covers c x"
proof -
  obtain y where "(y, x) \<in> set (zip ks vs)" using in_set_impl_in_set_zip2 [OF assms(2,4)] .
  with assms(1,3) show ?thesis by auto
qed

lemma rep_copied:
  assumes "isomorphic h a c h'" "c a = Some b"
  shows "rep h n {a} v j \<Longrightarrow> covers c v \<Longrightarrow> rep h' (length h) {b} (image_of c v) j"
proof (induction rule: rep.induct)
  case (rep_list i vs xs)
  then obtain k where k: "c i = Some k" by (auto simp: covers_def)
  note iso = assms(1) [unfolded isomorphic_def]
  from iso k have t: "length h \<le> k" "k < length h'" "tb_meta (h' ! k) = copy_meta h a i"
    "\<forall>kv \<in> set (tb_pairs (h ! i)). covers c (fst kv) \<and> covers c (snd kv)"
    "mset (tb_pairs (h' ! k)) = mset (map (map_prod (image_of c) (image_of c)) (tb_pairs (h ! i)))" by auto
  have kb: "k = b \<longleftrightarrow> i = a" using iso k assms(2) by (auto simp: inj_on_def dom_def)
  let ?keys = "map (\<lambda>i. LInt (of_nat (Suc i))) [0..<length vs]"
  have p: "set (tb_pairs (h ! i)) = set (zip ?keys vs)" "distinct (map fst (tb_pairs (h ! i)))"
    using rep_list(3) by (auto simp: list_table_def)
  have "image_of c x = x" if "x \<in> set ?keys" for x using that by (auto simp: image_of_def)
  from images_zip [OF p(1) _ this p(2) t(5)]
  have z: "set (tb_pairs (h' ! k)) = set (zip ?keys (map (image_of c) vs))" "distinct (map fst (tb_pairs (h' ! k)))" by auto
  have "tb_meta (h' ! k) = Some ListMt \<or> k = b \<and> tb_meta (h' ! k) = Some (RecordMt ShapeList)"
    using rep_list(3) kb
    by (auto simp: t(3) list_table_def copy_meta_def mark_of_copy_def is_list_table_def record_shape_def)
  with z have "list_table (k \<in> {b}) (h' ! k) (map (image_of c) vs)"
    unfolding list_table_def length_map singleton_iff by blast
  moreover have "covers c x" if "x \<in> set vs" for x
    by (rule covers_values [OF p(1) _ t(4) that]) simp
  then have "list_all2 (rep h' (length h) {b}) (map (image_of c) vs) xs"
    using rep_list(4) by (auto simp: list_all2_conv_all_nth)
  ultimately show ?case using t k by (auto simp: image_of_def intro: rep.rep_list)
next
  case (rep_object i m vs)
  then obtain k where k: "c i = Some k" by (auto simp: covers_def)
  note iso = assms(1) [unfolded isomorphic_def]
  from iso k have t: "length h \<le> k" "k < length h'" "tb_meta (h' ! k) = copy_meta h a i"
    "\<forall>kv \<in> set (tb_pairs (h ! i)). covers c (fst kv) \<and> covers c (snd kv)"
    "mset (tb_pairs (h' ! k)) = mset (map (map_prod (image_of c) (image_of c)) (tb_pairs (h ! i)))" by auto
  have kb: "k = b \<longleftrightarrow> i = a" using iso k assms(2) by (auto simp: inj_on_def dom_def)
  let ?keys = "map LStr (map fst m)"
  have p: "set (tb_pairs (h ! i)) = set (zip ?keys vs)" "distinct (map fst (tb_pairs (h ! i)))" "length ?keys = length vs"
    using rep_object(3) by (auto simp: object_table_def)
  have "image_of c x = x" if "x \<in> set ?keys" for x using that by (auto simp: image_of_def)
  note z = images_zip [OF p(1,3) this p(2) t(5)]
  have "tb_meta (h' ! k) = None \<or> k = b \<and> tb_meta (h' ! k) = Some (RecordMt ShapeObject)"
    using rep_object(3) kb
    by (auto simp: t(3) object_table_def copy_meta_def mark_of_copy_def is_list_table_def record_shape_def)
  with z p(3) have "object_table (k \<in> {b}) (h' ! k) (map fst m) (map (image_of c) vs)"
    by (simp add: object_table_def)
  moreover have "covers c x" if "x \<in> set vs" for x
    by (rule covers_values [OF p(1,3) t(4) that])
  then have "list_all2 (rep h' (length h) {b}) (map (image_of c) vs) (map snd m)"
    using rep_object(4) by (auto simp: list_all2_conv_all_nth)
  ultimately show ?case using t k by (auto simp: image_of_def intro: rep.rep_object)
qed (simp_all add: image_of_scalar number_not_table lua_null_def rep.intros [unfolded lua_null_def])

text \<open>So the copy of the record the script was given is read back as the record.\<close>

theorem copied_record:
  assumes "lua_tables L" "hand_over L r h = Inr (LTable a, h1)" "keeps (length h) h1 h2" "heap_ok h2"
    and "record_copy L a h2 = Some (Inr (v, h3))" "keeps (length h2) h3 h4"
    and "crosses r" "nests_within MAX_DEPTH r" "text_bytes r \<le> cap"
  shows "from_lua L cap h4 v = Inr r"
proof -
  have "rep h1 (length h) {a} (LTable a) r" using hand_over_rep [OF assms(2,7)] by simp
  then have r: "rep h2 (length h) {a} (LTable a) r" using assms(3) by (rule rep_keeps) simp
  then have "a < length h2" using rep_table by blast
  then obtain c b where c: "v = LTable b" "c a = Some b" "isomorphic h2 a c h3"
    by (rule record_copy_isomorphic [OF assms(1,4)]) (use assms(5) in auto)
  from rep_copied [OF c(3,2) r] c have "rep h3 (length h2) {b} v r" by (auto simp: covers_def image_of_def)
  then have "rep h4 (length h2) {b} v r" using assms(6) by (rule rep_keeps) simp
  from lua_tables.read_rep [OF assms(1) this assms(7,8), of cap] assms(9)
  show ?thesis by (simp add: reads_def from_lua_def)
qed

end
