(* ===== verification/Lua_Vm.thy ===== *)
theory Lua_Vm
  imports Lua_Copy Stage
begin

text \<open>
  \<open>crates/lua/src/vm.rs\<close>: one VM of one \<open>lua\<close> node. The interpreter is the argument \<open>interpreter\<close>: it
  runs the script up to the next thing the code's callbacks answer, an event, and goes on with the
  answer. The callbacks, the guardrails, the budget and the reading of what \<open>process\<close> returned are the
  code's. A run takes fuel, one unit per event; \<open>Lua_Stage\<close> says how much is enough.
\<close>

section \<open>The script and what stops it\<close>

definition FORBIDDEN :: "string list" where
  "FORBIDDEN = [''os'', ''io'', ''package'', ''require'', ''load'', ''loadfile'', ''dofile'', ''loadstring'', ''debug'', ''print'']"

definition instead_of :: "string \<Rightarrow> string option" where
  "instead_of name = (if name = ''print'' then Some ''log.info'' else None)"

definition HOOK_EVERY :: nat where "HOOK_EVERY = 1000"

record lua_script =
  sc_chunk_name :: string
  sc_source :: string
  sc_node :: string
  sc_instructions :: nat
  sc_memory_bytes :: nat
  sc_output_bytes :: nat

definition display_name :: "lua_script \<Rightarrow> string" where
  "display_name sc = dropWhile (\<lambda>c. c = CHR ''@'' \<or> c = CHR ''='') (sc_chunk_name sc)"

datatype lua_failure = OverBudget | OverMemory | ScriptError string | Refused output_error

definition BUDGET_EXCEEDED :: string where "BUDGET_EXCEEDED = ''instruction budget exceeded''"

fun failure_label :: "lua_failure \<Rightarrow> lua_error_kind" where
  "failure_label OverBudget = LuaInstructions"
| "failure_label OverMemory = LuaMemory"
| "failure_label (ScriptError m) = LuaRuntime"
| "failure_label (Refused e) = LuaOutput"

fun describe :: "lua_failure \<Rightarrow> string" where
  "describe OverBudget = BUDGET_EXCEEDED"
| "describe OverMemory = ''memory cap exceeded''"
| "describe (ScriptError m) = m"
| "describe (Refused e) = ''returned record refused: '' @ output_message e"

datatype stopped = StoppedLua lua_failure | StoppedState state_error

text \<open>The prefix is that of \<open>StateError\<close>'s display.\<close>

fun at_load :: "stopped \<Rightarrow> lua_failure" where
  "at_load (StoppedLua e) = e"
| "at_load (StoppedState e) = ScriptError (''state store: '' @ state_message e)"

fun root_cause :: "mlua_error \<Rightarrow> mlua_error" where
  "root_cause (CallbackError trace cause) = root_cause cause"
| "root_cause (WithContext context cause) = root_cause cause"
| "root_cause other = other"

definition guardrail :: "lua_lib \<Rightarrow> mlua_error \<Rightarrow> stopped option" where
  "guardrail L e =
     (case lb_downcast L e of
        Some BudgetExceeded \<Rightarrow> Some (StoppedLua OverBudget)
      | Some (StateFailure s) \<Rightarrow> Some (StoppedState s)
      | _ \<Rightarrow> (case root_cause e of MemoryError m \<Rightarrow> Some (StoppedLua OverMemory) | _ \<Rightarrow> None))"

definition classify :: "lua_lib \<Rightarrow> mlua_error \<Rightarrow> stopped" where
  "classify L e = (case guardrail L e of Some s \<Rightarrow> s | None \<Rightarrow> StoppedLua (ScriptError (lb_error_text L e)))"

definition caught_message :: "lua_lib \<Rightarrow> mlua_error \<Rightarrow> string" where
  "caught_message L e = (case root_cause e of RuntimeError m \<Rightarrow> m | other \<Rightarrow> lb_error_text L other)"

section \<open>The callbacks\<close>

text \<open>What a run stops for, and what it goes on with. \<open>Guarded\<close> is the end of a function called under
  \<open>pcall\<close>, or under \<open>xpcall\<close> when the flag is set; \<open>Handled\<close> is the end of a handler of \<open>xpcall\<close>.\<close>

datatype lua_event =
    Ended "mlua_error + lua_value"
  | HookTick
  | Guarded bool "mlua_error + lua_value list"
  | Handled "mlua_error + lua_value list"
  | CallGet string
  | CallSetNx string string u64
  | CallIncr string int u64
  | CallDel string
  | CallLog string
  | CallNow
  | MetaIndex lua_value
  | MetaNewindex lua_value
  | MetaPairs
  | JsonList "nat option"
  | JsonNewindex

datatype lua_answer = Reply "mlua_error + lua_value list" | RunHandler string

definition raise :: "string \<Rightarrow> mlua_error + 'a" where "raise message = Inl (RuntimeError message)"

record current =
  cu_state :: state_handle
  cu_meta :: meta

definition protected :: "lua_lib \<Rightarrow> bool \<Rightarrow> mlua_error + lua_value list \<Rightarrow> lua_heap \<Rightarrow> lua_answer" where
  "protected L with_handler r h =
     (case r of
        Inr vs \<Rightarrow> Reply (Inr (LBool True # vs))
      | Inl e \<Rightarrow>
          if guardrail L e \<noteq> None then Reply (Inl e)
          else (case create_string L (caught_message L e) h of
                  Inl full \<Rightarrow> Reply (Inl full)
                | Inr text \<Rightarrow>
                    if with_handler then RunHandler (caught_message L e) else Reply (Inr [LBool False, text])))"

definition handled :: "mlua_error + lua_value list \<Rightarrow> lua_answer" where
  "handled r = Reply (map_sum id (\<lambda>vs. LBool False # vs) r)"

definition millis :: "u64 \<Rightarrow> duration" where "millis ms = unat ms * 1000000"

text \<open>A state error becomes an error of the interpreter that carries it.\<close>

definition outside :: "state_error + 'a \<Rightarrow> mlua_error + 'a" where
  "outside r = map_sum (\<lambda>e. ExternalError (StateFailure e)) id r"

definition api_get ::
  "lua_lib \<Rightarrow> 's environment \<Rightarrow> current \<Rightarrow> string \<Rightarrow> lua_heap \<Rightarrow> 's port \<Rightarrow> (mlua_error + lua_value list) \<times> 's port" where
  "api_get L env cur key h p =
     (case state_get env (cu_state cur) key p of
        (Inl e, p) \<Rightarrow> (outside (Inl e), p)
      | (Inr None, p) \<Rightarrow> (Inr [LNil], p)
      | (Inr (Some bytes), p) \<Rightarrow> (map_sum id (\<lambda>v. [v]) (create_string L bytes h), p))"

definition api_set_nx ::
  "lua_lib \<Rightarrow> 's environment \<Rightarrow> current \<Rightarrow> string \<Rightarrow> string \<Rightarrow> u64 \<Rightarrow> lua_heap \<Rightarrow> 's port
     \<Rightarrow> (mlua_error + lua_value list) \<times> 's port" where
  "api_set_nx L env cur key v ttl h p =
     (case state_set_nx env (cu_state cur) key v (millis ttl) p of
        (Inl e, p) \<Rightarrow> (outside (Inl e), p)
      | (Inr None, p) \<Rightarrow> (Inr [LBool True, LNil], p)
      | (Inr (Some existing), p) \<Rightarrow> (map_sum id (\<lambda>v. [LBool False, v]) (create_string L existing h), p))"

definition api_incr ::
  "'s environment \<Rightarrow> current \<Rightarrow> string \<Rightarrow> int \<Rightarrow> u64 \<Rightarrow> 's port \<Rightarrow> (mlua_error + lua_value list) \<times> 's port" where
  "api_incr env cur key by ttl p =
     (case state_incr env (cu_state cur) key by (millis ttl) p of
        (r, p) \<Rightarrow> (map_sum id (\<lambda>n. [LInt (of_int n)]) (outside r), p))"

definition api_del ::
  "'s environment \<Rightarrow> current \<Rightarrow> string \<Rightarrow> 's port \<Rightarrow> (mlua_error + lua_value list) \<times> 's port" where
  "api_del env cur key p =
     (case state_del env (cu_state cur) key p of (r, p) \<Rightarrow> (map_sum id (\<lambda>_. []) (outside r), p))"

definition api_now :: "'s environment \<Rightarrow> 's port \<Rightarrow> (mlua_error + lua_value list) \<times> 's port" where
  "api_now env p =
     (case unix_nanos_now env p of
        (n, p) \<Rightarrow> (Inr [LInt (if uint n < 2 ^ 63 then n else of_nat (2 ^ 63 - 1))], p))"

definition meta_index :: "lua_lib \<Rightarrow> current \<Rightarrow> lua_value \<Rightarrow> lua_heap \<Rightarrow> mlua_error + lua_value list" where
  "meta_index L cur key h =
     (case key of
        LStr k \<Rightarrow>
          if \<not> is_utf8 k then Inl (OtherError ''invalid utf-8'')
          else (case meta_field_parse k of
                  None \<Rightarrow> Inr [LNil]
                | Some field \<Rightarrow> map_sum id (\<lambda>v. [v]) (meta_to_lua L (cu_meta cur) field h))
      | _ \<Rightarrow> Inr [LNil])"

definition meta_newindex :: "lua_lib \<Rightarrow> lua_value \<Rightarrow> mlua_error + lua_value list" where
  "meta_newindex L key =
     raise (''`meta` is the pipeline's and read-only (writing `'' @
       (case lb_key_text L key of Some t \<Rightarrow> t | None \<Rightarrow> []) @ ''`); copy a value into the record instead'')"

text \<open>\<open>pairs(meta)\<close> walks a snapshot of the four values; \<open>next\<close> is the interpreter's.\<close>

fun snapshot_loop :: "lua_lib \<Rightarrow> current \<Rightarrow> nat \<Rightarrow> meta_field list \<Rightarrow> lua_heap \<Rightarrow> mlua_error + lua_heap" where
  "snapshot_loop L cur a [] h = Inr h"
| "snapshot_loop L cur a (f # fs) h =
     (case meta_to_lua L (cu_meta cur) f h of
        Inl e \<Rightarrow> Inl e
      | Inr v \<Rightarrow>
          (case raw_set L a (LStr (meta_field_str f)) v h of
             Inl e \<Rightarrow> Inl e
           | Inr h \<Rightarrow> snapshot_loop L cur a fs h))"

definition meta_pairs :: "lua_lib \<Rightarrow> current \<Rightarrow> lua_heap \<Rightarrow> (mlua_error + lua_value list) \<times> lua_heap" where
  "meta_pairs L cur h =
     (case create_table L h of
        Inl e \<Rightarrow> (Inl e, h)
      | Inr (a, h1) \<Rightarrow>
          (case snapshot_loop L cur a meta_field_ALL h1 of
             Inl e \<Rightarrow> (Inl e, h1)
           | Inr h2 \<Rightarrow> (Inr [LTable a, LNil], h2)))"

definition json_list :: "lua_lib \<Rightarrow> nat option \<Rightarrow> lua_heap \<Rightarrow> (mlua_error + lua_value list) \<times> lua_heap" where
  "json_list L arg h =
     (case (case arg of Some a \<Rightarrow> Inr (a, h) | None \<Rightarrow> create_table L h) of
        Inl e \<Rightarrow> (Inl e, h)
      | Inr (a, h) \<Rightarrow>
          if \<not> accepts_list_mark (table_at h a) then
            (raise ''`json.list` takes a plain table or a list, not a table with a metatable'', h)
          else (Inr [LTable a], set_metatable a ListMt h))"

text \<open>The instruction hook: the budget is counted in steps.\<close>

definition hook_step :: "lua_script \<Rightarrow> nat" where
  "hook_step sc = max 1 (min (sc_instructions sc) HOOK_EVERY)"

definition hook_tick :: "lua_script \<Rightarrow> nat \<Rightarrow> (mlua_error + lua_value list) \<times> nat" where
  "hook_tick sc used =
     (let used = used + hook_step sc
      in (if sc_instructions sc < used then Inl (ExternalError BudgetExceeded) else Inr [], used))"

definition answer_event ::
  "lua_lib \<Rightarrow> 's environment \<Rightarrow> lua_script \<Rightarrow> current \<Rightarrow> lua_event \<Rightarrow> lua_heap \<Rightarrow> nat \<Rightarrow> 's port
     \<Rightarrow> lua_answer \<times> lua_heap \<times> nat \<times> 's port" where
  "answer_event L env sc cur ev h used p =
     (case ev of
        Ended r \<Rightarrow> (Reply (map_sum id (\<lambda>v. [v]) r), h, used, p)
      | HookTick \<Rightarrow> (case hook_tick sc used of (r, used) \<Rightarrow> (Reply r, h, used, p))
      | Guarded with_handler r \<Rightarrow> (protected L with_handler r h, h, used, p)
      | Handled r \<Rightarrow> (handled r, h, used, p)
      | CallGet key \<Rightarrow> (case api_get L env cur key h p of (r, p) \<Rightarrow> (Reply r, h, used, p))
      | CallSetNx key v ttl \<Rightarrow> (case api_set_nx L env cur key v ttl h p of (r, p) \<Rightarrow> (Reply r, h, used, p))
      | CallIncr key by ttl \<Rightarrow> (case api_incr env cur key by ttl p of (r, p) \<Rightarrow> (Reply r, h, used, p))
      | CallDel key \<Rightarrow> (case api_del env cur key p of (r, p) \<Rightarrow> (Reply r, h, used, p))
      | CallLog message \<Rightarrow> (Reply (Inr []), h, used, p)
      | CallNow \<Rightarrow> (case api_now env p of (r, p) \<Rightarrow> (Reply r, h, used, p))
      | MetaIndex key \<Rightarrow> (Reply (meta_index L cur key h), h, used, p)
      | MetaNewindex key \<Rightarrow> (Reply (meta_newindex L key), h, used, p)
      | MetaPairs \<Rightarrow> (case meta_pairs L cur h of (r, h) \<Rightarrow> (Reply r, h, used, p))
      | JsonList arg \<Rightarrow> (case json_list L arg h of (r, h) \<Rightarrow> (Reply r, h, used, p))
      | JsonNewindex \<Rightarrow> (Reply (raise ''`json` is read-only''), h, used, p))"

end
