(* ===== verification/Lua_Scan.thy ===== *)
theory Lua_Scan
  imports Prelude
begin

text \<open>
  \<open>crates/lua/src/scan.rs\<close>: the free identifiers of a script's source with their lines. The code's
  index into the bytes is the list of bytes that are left; \<open>previous\<close> is the last byte that was not
  whitespace or a comment.
\<close>

definition NEWLINE :: char where "NEWLINE = CHR 0x0A"

definition is_ascii_whitespace :: "char \<Rightarrow> bool" where
  "is_ascii_whitespace c \<longleftrightarrow> byte c \<in> {9, 10, 12, 13, 32}"

definition name_byte :: "char \<Rightarrow> bool" where
  "name_byte c \<longleftrightarrow> is_ascii_alphanumeric c \<or> c = CHR ''_''"

definition number_byte :: "char \<Rightarrow> bool" where
  "number_byte c \<longleftrightarrow> is_ascii_alphanumeric c \<or> c = DOT"

text \<open>The rest after the close of a long bracket of some level, and the newlines up to it.\<close>

fun bracket_end :: "nat \<Rightarrow> string \<Rightarrow> nat \<Rightarrow> string \<times> nat" where
  "bracket_end level [] newlines = ([], newlines)"
| "bracket_end level (c # cs) newlines =
     (let newlines = (if c = NEWLINE then Suc newlines else newlines)
      in if c = CHR '']'' \<and> list_all (\<lambda>b. b = CHR ''='') (take level cs)
           \<and> (case drop level cs of d # _ \<Rightarrow> d = CHR '']'' | [] \<Rightarrow> False)
         then (drop (Suc level) cs, newlines)
         else bracket_end level cs newlines)"

definition long_bracket :: "string \<Rightarrow> (string \<times> nat) option" where
  "long_bracket s =
     (case s of
        c # rest \<Rightarrow>
          if c \<noteq> CHR ''['' then None
          else (let level = length (takeWhile (\<lambda>b. b = CHR ''='') rest)
                in case drop level rest of
                     d # body \<Rightarrow> if d = CHR ''['' then Some (bracket_end level body 0) else None
                   | [] \<Rightarrow> None)
      | [] \<Rightarrow> None)"

text \<open>After an opening quote: the rest after the closing one, and the line it is on.\<close>

fun skip_quoted :: "char \<Rightarrow> string \<Rightarrow> nat \<Rightarrow> string \<times> nat" where
  "skip_quoted q [] line = ([], line)"
| "skip_quoted q [c] line = ([], if c \<noteq> q \<and> c = NEWLINE then Suc line else line)"
| "skip_quoted q (c # d # ds) line =
     (if c = q then (d # ds, line)
      else if c = BSLASH then skip_quoted q ds (if d = NEWLINE then Suc line else line)
      else skip_quoted q (d # ds) (if c = NEWLINE then Suc line else line))"

definition assigned :: "string \<Rightarrow> bool" where
  "assigned after =
     (case dropWhile (\<lambda>c. is_ascii_whitespace c \<and> c \<noteq> NEWLINE) after of
        c # rest \<Rightarrow> c = CHR ''='' \<and> (case rest of d # _ \<Rightarrow> d \<noteq> CHR ''='' | [] \<Rightarrow> True)
      | [] \<Rightarrow> False)"

lemma bracket_end_length: "length (fst (bracket_end level s n)) \<le> length s"
  by (induction level s n rule: bracket_end.induct) (auto simp: Let_def)

lemma long_bracket_length: "long_bracket s = Some (r, n) \<Longrightarrow> length r < length s"
proof -
  assume l: "long_bracket s = Some (r, n)"
  then obtain c rest d body where s: "s = c # rest"
    "drop (length (takeWhile (\<lambda>b. b = CHR ''='') rest)) rest = d # body"
    "(r, n) = bracket_end (length (takeWhile (\<lambda>b. b = CHR ''='') rest)) body 0"
    by (auto simp: long_bracket_def Let_def split: list.splits if_splits)
  have "length r \<le> length body" by (metis s(3) bracket_end_length fst_conv)
  also have "length body < length rest" using arg_cong [OF s(2), of length] by simp
  finally show ?thesis by (simp add: s(1))
qed

lemma skip_quoted_length: "length (fst (skip_quoted q s n)) \<le> length s"
  by (induction q s n rule: skip_quoted.induct) auto

lemma skip_quoted_le: "(r, l) = skip_quoted q s n \<Longrightarrow> length r \<le> length s"
  by (metis fst_conv skip_quoted_length)

lemma drop_comment_le: "length (dropWhile p (tl cs)) \<le> length cs"
  by (cases cs) (simp_all add: length_dropWhile_le le_SucI)

text \<open>The loop. A comment that is not a long bracket runs up to the newline.\<close>

function scan_names :: "char option \<Rightarrow> nat \<Rightarrow> string \<Rightarrow> (string \<times> nat) list" where
  "scan_names previous line [] = []"
| "scan_names previous line (c # cs) =
     (if c = NEWLINE then scan_names previous (Suc line) cs
      else if is_ascii_whitespace c then scan_names previous line cs
      else if c = CHR ''-'' \<and> (case cs of d # _ \<Rightarrow> d = CHR ''-'' | [] \<Rightarrow> False) then
        (case long_bracket (tl cs) of
           Some (rest, newlines) \<Rightarrow> scan_names previous (line + newlines) rest
         | None \<Rightarrow> scan_names previous line (dropWhile (\<lambda>b. b \<noteq> NEWLINE) (tl cs)))
      else if c = DQ \<or> c = SQ then
        (case skip_quoted c cs line of (rest, line) \<Rightarrow> scan_names (Some c) line rest)
      else
        (case (if c = CHR ''['' then long_bracket (c # cs) else None) of
           Some (rest, newlines) \<Rightarrow> scan_names (Some CHR '']'') (line + newlines) rest
         | None \<Rightarrow>
             if is_ascii_digit c then scan_names (Some CHR ''0'') line (dropWhile number_byte cs)
             else if is_ascii_alphabetic c \<or> c = CHR ''_'' then
               (let name = c # takeWhile name_byte cs; after = dropWhile name_byte cs;
                    rest = scan_names (Some CHR ''a'') line after
                in if previous \<notin> {Some DOT, Some CHR '':''} \<and> \<not> assigned after then (name, line) # rest else rest)
             else scan_names (Some c) line cs))"
  by pat_completeness auto
termination
  by (relation "measure (\<lambda>(previous, line, s). length s)")
    (auto dest!: long_bracket_length skip_quoted_le simp: less_Suc_eq_le length_dropWhile_le drop_comment_le
      split: if_splits)

declare scan_names.simps(2) [simp del]

definition free_names :: "string \<Rightarrow> (string \<times> nat) list" where
  "free_names source = scan_names None 1 source"

section \<open>Tokens\<close>

text \<open>A source as a list of lexical tokens; \<open>token_ok\<close> says that the text after a token does not run into
  it. A quoted string is its characters, each plain or escaped.\<close>

datatype quoted_char = Plain char | Escaped char

datatype lua_token =
    TkName string
  | TkNumber string
  | TkSpace char
  | TkSymbol char
  | TkQuoted char "quoted_char list"
  | TkLong nat string
  | TkBlock nat string
  | TkComment string

fun quoted_text :: "quoted_char \<Rightarrow> string" where
  "quoted_text (Plain c) = [c]"
| "quoted_text (Escaped c) = [BSLASH, c]"

definition bracket_open :: "nat \<Rightarrow> string" where "bracket_open level = CHR ''['' # replicate level CHR ''='' @ ''[''"
definition bracket_close :: "nat \<Rightarrow> string" where "bracket_close level = CHR '']'' # replicate level CHR ''='' @ '']''"

fun token_text :: "lua_token \<Rightarrow> string" where
  "token_text (TkName n) = n"
| "token_text (TkNumber n) = n"
| "token_text (TkSpace c) = [c]"
| "token_text (TkSymbol c) = [c]"
| "token_text (TkQuoted q body) = q # concat (map quoted_text body) @ [q]"
| "token_text (TkLong level body) = bracket_open level @ body @ bracket_close level"
| "token_text (TkBlock level body) = ''--'' @ bracket_open level @ body @ bracket_close level"
| "token_text (TkComment body) = ''--'' @ body"

definition source_text :: "lua_token list \<Rightarrow> string" where
  "source_text ts = concat (map token_text ts)"

definition starts_with_byte :: "(char \<Rightarrow> bool) \<Rightarrow> string \<Rightarrow> bool" where
  "starts_with_byte p s \<longleftrightarrow> (case s of c # _ \<Rightarrow> p c | [] \<Rightarrow> False)"

definition name_start :: "char \<Rightarrow> bool" where "name_start c \<longleftrightarrow> is_ascii_alphabetic c \<or> c = CHR ''_''"

definition closes_once :: "nat \<Rightarrow> string \<Rightarrow> bool" where
  "closes_once level body \<longleftrightarrow>
     (\<forall>us vs. body @ bracket_close level = us @ bracket_close level @ vs \<longrightarrow> vs = [])"

fun quoted_ok :: "char \<Rightarrow> quoted_char \<Rightarrow> bool" where
  "quoted_ok q (Plain c) \<longleftrightarrow> c \<noteq> q \<and> c \<noteq> BSLASH"
| "quoted_ok q (Escaped c) \<longleftrightarrow> True"

fun token_ok :: "lua_token \<Rightarrow> string \<Rightarrow> bool" where
  "token_ok (TkName n) rest \<longleftrightarrow> starts_with_byte name_start n \<and> list_all name_byte n \<and> \<not> starts_with_byte name_byte rest"
| "token_ok (TkNumber n) rest \<longleftrightarrow>
     starts_with_byte is_ascii_digit n \<and> list_all number_byte n \<and> \<not> starts_with_byte number_byte rest"
| "token_ok (TkSpace c) rest \<longleftrightarrow> is_ascii_whitespace c"
| "token_ok (TkSymbol c) rest \<longleftrightarrow>
     \<not> is_ascii_whitespace c \<and> \<not> name_start c \<and> \<not> is_ascii_digit c \<and> c \<noteq> DQ \<and> c \<noteq> SQ \<and>
     (c = CHR ''-'' \<longrightarrow> \<not> starts_with_byte (\<lambda>d. d = CHR ''-'') rest) \<and> long_bracket (c # rest) = None"
| "token_ok (TkQuoted q body) rest \<longleftrightarrow> q \<in> {DQ, SQ} \<and> list_all (quoted_ok q) body"
| "token_ok (TkLong level body) rest \<longleftrightarrow> closes_once level body"
| "token_ok (TkBlock level body) rest \<longleftrightarrow> closes_once level body"
| "token_ok (TkComment body) rest \<longleftrightarrow>
     NEWLINE \<notin> set body \<and> long_bracket (body @ rest) = None \<and> (rest = [] \<or> starts_with_byte (\<lambda>c. c = NEWLINE) rest)"

fun tokens_ok :: "lua_token list \<Rightarrow> bool" where
  "tokens_ok [] \<longleftrightarrow> True"
| "tokens_ok (t # ts) \<longleftrightarrow> token_ok t (source_text ts) \<and> tokens_ok ts"

definition newlines :: "string \<Rightarrow> nat" where "newlines s = length (filter (\<lambda>c. c = NEWLINE) s)"

text \<open>A name is followed by a single \<open>=\<close> on its line.\<close>

fun token_assigned :: "lua_token list \<Rightarrow> bool" where
  "token_assigned (TkSpace c # ts) \<longleftrightarrow> c \<noteq> NEWLINE \<and> token_assigned ts"
| "token_assigned (TkSymbol c # ts) \<longleftrightarrow>
     c = CHR ''='' \<and> (case ts of TkSymbol d # _ \<Rightarrow> d \<noteq> CHR ''='' | _ \<Rightarrow> True)"
| "token_assigned _ \<longleftrightarrow> False"

fun is_blank_token :: "lua_token \<Rightarrow> bool" where
  "is_blank_token (TkSpace c) \<longleftrightarrow> True"
| "is_blank_token (TkBlock level body) \<longleftrightarrow> True"
| "is_blank_token (TkComment body) \<longleftrightarrow> True"
| "is_blank_token _ \<longleftrightarrow> False"

text \<open>The free names: the names that no \<open>.\<close> or \<open>:\<close> comes before, blanks aside, and that are not assigned.\<close>

fun token_names :: "bool \<Rightarrow> nat \<Rightarrow> lua_token list \<Rightarrow> (string \<times> nat) list" where
  "token_names field line [] = []"
| "token_names field line (t # ts) =
     (case t of TkName n \<Rightarrow> if \<not> field \<and> \<not> token_assigned ts then [(n, line)] else [] | _ \<Rightarrow> []) @
     token_names (if is_blank_token t then field else t \<in> {TkSymbol DOT, TkSymbol CHR '':''})
       (line + newlines (token_text t)) ts"

section \<open>The scan finds the free names\<close>

lemma newlines_simps [simp]:
  "newlines [] = 0" "newlines (c # s) = (if c = NEWLINE then Suc (newlines s) else newlines s)"
  "newlines (s @ t) = newlines s + newlines t"
  by (simp_all add: newlines_def)

lemma newlines_none: "NEWLINE \<notin> set s \<Longrightarrow> newlines s = 0"
  by (simp add: newlines_def filter_empty_conv) metis

lemma newline_bytes:
  "\<not> name_byte NEWLINE" "\<not> number_byte NEWLINE" "is_ascii_whitespace NEWLINE"
  by (simp_all add: NEWLINE_def name_byte_def number_byte_def is_ascii_whitespace_def is_ascii_alphanumeric_def
      is_ascii_alphabetic_def is_ascii_digit_def byte_def)

lemma takeWhile_run:
  assumes "list_all p n" "\<not> starts_with_byte p rest"
  shows "takeWhile p (n @ rest) = n" "dropWhile p (n @ rest) = rest"
  using assms by (induction n) (auto simp: starts_with_byte_def split: list.splits)

lemma skip_quoted_text:
  assumes "list_all (quoted_ok q) body" "q \<in> {DQ, SQ}"
  shows "skip_quoted q (concat (map quoted_text body) @ q # rest) line =
    (rest, line + newlines (concat (map quoted_text body)))"
  using assms(1)
proof (induction body arbitrary: line)
  case Nil
  then show ?case by (cases rest) simp_all
next
  case (Cons x body)
  obtain y ys where more: "concat (map quoted_text body) @ q # rest = y # ys"
    by (cases "concat (map quoted_text body)") auto
  have "q \<noteq> BSLASH" "BSLASH \<noteq> NEWLINE" using assms(2) by (auto simp: NEWLINE_def)
  with Cons more show ?case by (cases x) auto
qed

lemma all_replicate: "list_all (\<lambda>b. b = x) s \<longleftrightarrow> s = replicate (length s) x"
  by (induction s) auto

text \<open>Where the loop finds a close, one starts.\<close>

lemma close_found:
  assumes "list_all (\<lambda>b. b = CHR ''='') (take level s)" "starts_with_byte (\<lambda>d. d = CHR '']'') (drop level s)"
  shows "CHR '']'' # s = bracket_close level @ drop (Suc level) s"
proof -
  from assms(2) obtain r where r: "drop level s = CHR '']'' # r" by (auto simp: starts_with_byte_def split: list.splits)
  then have "level < length s" by (metis drop_eq_Nil2 linorder_not_le list.distinct(1))
  with assms(1) have t: "take level s = replicate level CHR ''=''" by (simp add: all_replicate)
  have "s = take level s @ drop level s" by simp
  also have "\<dots> = replicate level CHR ''='' @ CHR '']'' # r" unfolding t r ..
  finally show ?thesis by (simp add: bracket_close_def)
qed

lemma bracket_end_close:
  assumes "closes_once level body"
  shows "bracket_end level (body @ bracket_close level @ rest) n = (rest, n + newlines body)"
  using assms
proof (induction body arbitrary: n)
  case Nil
  have "CHR '']'' \<noteq> NEWLINE" by (simp add: NEWLINE_def)
  then show ?case by (simp add: bracket_close_def list_all_iff)
next
  case (Cons c body)
  have "closes_once level body"
    using Cons.prems unfolding closes_once_def by (metis append_Cons)
  note ih = Cons.IH [OF this]
  define tail where "tail = body @ bracket_close level @ rest"
  have "\<not> (c = CHR '']'' \<and> list_all (\<lambda>b. b = CHR ''='') (take level tail)
      \<and> starts_with_byte (\<lambda>d. d = CHR '']'') (drop level tail))"
  proof
    assume "c = CHR '']'' \<and> list_all (\<lambda>b. b = CHR ''='') (take level tail)
      \<and> starts_with_byte (\<lambda>d. d = CHR '']'') (drop level tail)"
    then have c: "c # tail = bracket_close level @ drop (Suc level) tail" using close_found by auto
    have "drop (Suc level) tail = drop (Suc level) (body @ bracket_close level) @ rest"
    proof -
      have "Suc level \<le> length (body @ bracket_close level)" by (simp add: bracket_close_def)
      moreover have "tail = (body @ bracket_close level) @ rest" by (simp add: tail_def)
      ultimately show ?thesis by (metis append.right_neutral append_assoc diff_is_0_eq drop_0 drop_append)
    qed
    with c have "(c # body) @ bracket_close level = bracket_close level @ drop (Suc level) (body @ bracket_close level)"
      by (simp add: tail_def)
    with Cons.prems have "drop (Suc level) (body @ bracket_close level) = []"
      unfolding closes_once_def by (metis append_Nil)
    then show False by (simp add: bracket_close_def, arith)
  qed
  with ih show ?case by (auto simp: Let_def starts_with_byte_def simp flip: tail_def)
qed

lemma long_bracket_text:
  assumes "closes_once level body"
  shows "long_bracket (bracket_open level @ body @ bracket_close level @ rest) = Some (rest, newlines body)"
proof -
  let ?more = "''['' @ body @ bracket_close level @ rest"
  have "takeWhile (\<lambda>b. b = CHR ''='') (replicate level CHR ''='' @ ?more) = replicate level CHR ''=''"
    by (rule takeWhile_run) (simp_all add: starts_with_byte_def list_all_iff)
  then show ?thesis using bracket_end_close [OF assms, of rest 0] by (simp add: long_bracket_def bracket_open_def)
qed

lemma newlines_bracket [simp]: "newlines (bracket_open level) = 0" "newlines (bracket_close level) = 0"
  by (auto simp: bracket_open_def bracket_close_def NEWLINE_def intro!: newlines_none)

text \<open>The bytes a token starts with, as the loop tells them apart.\<close>

lemma name_start_byte:
  "name_start c \<Longrightarrow> c \<noteq> NEWLINE \<and> \<not> is_ascii_whitespace c \<and> c \<noteq> CHR ''-'' \<and> c \<noteq> DQ \<and> c \<noteq> SQ \<and> c \<noteq> CHR ''[''
    \<and> \<not> is_ascii_digit c \<and> c \<noteq> DOT \<and> c \<noteq> CHR '':'' \<and> c \<noteq> CHR ''='' \<and> name_byte c"
  by (auto simp: name_start_def is_ascii_alphabetic_def is_ascii_whitespace_def is_ascii_digit_def NEWLINE_def byte_def
      name_byte_def is_ascii_alphanumeric_def)

lemma digit_byte:
  "is_ascii_digit c \<Longrightarrow> c \<noteq> NEWLINE \<and> \<not> is_ascii_whitespace c \<and> c \<noteq> CHR ''-'' \<and> c \<noteq> DQ \<and> c \<noteq> SQ \<and> c \<noteq> CHR ''[''
    \<and> c \<noteq> DOT \<and> c \<noteq> CHR '':'' \<and> c \<noteq> CHR ''='' \<and> number_byte c"
  by (auto simp: is_ascii_whitespace_def is_ascii_digit_def NEWLINE_def byte_def number_byte_def is_ascii_alphanumeric_def)

lemma name_no_newline: "list_all name_byte n \<Longrightarrow> newlines n = 0"
  using newline_bytes(1) by (intro newlines_none) (auto simp: list_all_iff)

lemma number_no_newline: "list_all number_byte n \<Longrightarrow> newlines n = 0"
  using newline_bytes(2) by (intro newlines_none) (auto simp: list_all_iff)

lemma source_text_Cons [simp]: "source_text (t # ts) = token_text t @ source_text ts" "source_text [] = []"
  by (simp_all add: source_text_def)

text \<open>The byte a token's text starts with.\<close>

lemma first_byte:
  assumes "token_ok t rest"
  obtains c cs where "token_text t = c # cs" "c = CHR ''='' \<longleftrightarrow> t = TkSymbol CHR ''=''"
    "is_ascii_whitespace c \<longleftrightarrow> t = TkSpace c"
proof (cases t)
  case (TkName n)
  with assms obtain c cs where "n = c # cs" "name_start c" by (auto simp: starts_with_byte_def split: list.splits)
  with TkName name_start_byte [of c] show thesis by (intro that) auto
next
  case (TkNumber n)
  with assms obtain c cs where "n = c # cs" "is_ascii_digit c" by (auto simp: starts_with_byte_def split: list.splits)
  with TkNumber digit_byte [of c] show thesis by (intro that) auto
next
  case (TkSpace c)
  with assms have "c \<noteq> CHR ''=''" by (auto simp: is_ascii_whitespace_def byte_def)
  with TkSpace assms show thesis by (intro that) auto
qed (use assms that in \<open>auto simp: bracket_open_def is_ascii_whitespace_def byte_def\<close>)

lemma assigned_other: "\<not> is_ascii_whitespace c \<Longrightarrow> c \<noteq> CHR ''='' \<Longrightarrow> \<not> assigned (c # cs)"
  by (simp add: assigned_def)

lemma assigned_tokens: "tokens_ok ts \<Longrightarrow> assigned (source_text ts) = token_assigned ts"
proof (induction ts)
  case (Cons t ts)
  then have ok: "token_ok t (source_text ts)" by simp
  then obtain c cs where c: "token_text t = c # cs" "c = CHR ''='' \<longleftrightarrow> t = TkSymbol CHR ''=''"
    "is_ascii_whitespace c \<longleftrightarrow> t = TkSpace c" by (rule first_byte)
  show ?case
  proof (cases "is_ascii_whitespace c")
    case True
    have "NEWLINE \<noteq> CHR ''=''" by (simp add: NEWLINE_def)
    with True c Cons show ?thesis by (cases "c = NEWLINE") (simp_all add: assigned_def)
  next
    case nspace: False
    show ?thesis
    proof (cases "c = CHR ''=''")
      case True
      then have t: "t = TkSymbol CHR ''=''" using c by simp
      have "starts_with_byte (\<lambda>d. d = CHR ''='') (source_text ts) \<longleftrightarrow> (case ts of TkSymbol d # _ \<Rightarrow> d = CHR ''='' | _ \<Rightarrow> False)"
      proof (cases ts)
        case (Cons u us)
        with \<open>tokens_ok (t # ts)\<close> have "token_ok u (source_text us)" by simp
        then obtain b bs where "token_text u = b # bs" "b = CHR ''='' \<longleftrightarrow> u = TkSymbol CHR ''=''" by (rule first_byte)
        with Cons show ?thesis by (auto simp: starts_with_byte_def split: lua_token.split)
      qed (simp add: starts_with_byte_def)
      with t nspace True show ?thesis
        by (cases ts) (auto simp: assigned_def starts_with_byte_def split: list.splits lua_token.splits)
    next
      case False
      with nspace assigned_other [of c "cs @ source_text ts"] c show ?thesis
        using ok by (cases t) auto
    qed
  qed
qed (simp add: assigned_def)

text \<open>One step of the loop per token.\<close>

lemma scan_space: "is_ascii_whitespace c \<Longrightarrow> scan_names p l (c # cs) = scan_names p (l + newlines [c]) cs"
  using newline_bytes(3) by (simp add: scan_names.simps)

lemma scan_symbol:
  "token_ok (TkSymbol c) cs \<Longrightarrow> scan_names p l (c # cs) = scan_names (Some c) l cs \<and> newlines [c] = 0"
  using newline_bytes(3) by (auto simp: scan_names.simps name_start_def starts_with_byte_def)

lemma scan_name:
  assumes "token_ok (TkName n) rest"
  shows "scan_names p l (n @ rest) =
    (if p \<notin> {Some DOT, Some CHR '':''} \<and> \<not> assigned rest then [(n, l)] else []) @ scan_names (Some CHR ''a'') l rest"
proof -
  obtain c cs where n: "n = c # cs" "name_start c" "list_all name_byte cs" "\<not> starts_with_byte name_byte rest"
    using assms by (auto simp: starts_with_byte_def split: list.splits)
  note b = name_start_byte [OF n(2)]
  show ?thesis
    using b n(2) by (simp add: n(1) scan_names.simps takeWhile_run [OF n(3,4)] name_start_def Let_def)
qed

lemma scan_number:
  assumes "token_ok (TkNumber n) rest"
  shows "scan_names p l (n @ rest) = scan_names (Some CHR ''0'') l rest"
proof -
  obtain c cs where n: "n = c # cs" "is_ascii_digit c" "list_all number_byte cs" "\<not> starts_with_byte number_byte rest"
    using assms by (auto simp: starts_with_byte_def split: list.splits)
  show ?thesis
    using digit_byte [OF n(2)] n(2) by (simp add: n(1) scan_names.simps takeWhile_run [OF n(3,4)])
qed

lemma scan_quoted:
  assumes "token_ok (TkQuoted q body) rest"
  shows "scan_names p l (q # concat (map quoted_text body) @ q # rest) =
    scan_names (Some q) (l + newlines (concat (map quoted_text body))) rest \<and> newlines [q] = 0"
proof -
  have q: "q \<in> {DQ, SQ}" "list_all (quoted_ok q) body" using assms by auto
  then have "q \<noteq> NEWLINE" "\<not> is_ascii_whitespace q" "q \<noteq> CHR ''-''"
    by (auto simp: NEWLINE_def is_ascii_whitespace_def byte_def)
  with q show ?thesis by (simp add: scan_names.simps skip_quoted_text [OF q(2,1)])
qed

lemma scan_long:
  assumes "closes_once level body"
  shows "scan_names p l (bracket_open level @ body @ bracket_close level @ rest) =
    scan_names (Some CHR '']'') (l + newlines body) rest"
proof -
  let ?s = "replicate level CHR ''='' @ ''['' @ body @ bracket_close level @ rest"
  have s: "bracket_open level @ body @ bracket_close level @ rest = CHR ''['' # ?s" by (simp add: bracket_open_def)
  have "long_bracket (CHR ''['' # ?s) = Some (rest, newlines body)"
    using long_bracket_text [OF assms, of rest] by (simp only: s)
  then show ?thesis unfolding s by (simp add: scan_names.simps NEWLINE_def is_ascii_whitespace_def byte_def)
qed

lemma dash_byte: "CHR ''-'' \<noteq> NEWLINE" "\<not> is_ascii_whitespace CHR ''-''"
  by (auto simp: NEWLINE_def is_ascii_whitespace_def byte_def)

lemma scan_block:
  assumes "closes_once level body"
  shows "scan_names p l (''--'' @ bracket_open level @ body @ bracket_close level @ rest) =
    scan_names p (l + newlines body) rest"
  using dash_byte long_bracket_text [OF assms, of rest] by (simp add: scan_names.simps(2) [of _ _ "CHR ''-''"])

lemma scan_comment:
  assumes "token_ok (TkComment body) rest"
  shows "scan_names p l (''--'' @ body @ rest) = scan_names p l rest"
proof -
  have "dropWhile (\<lambda>b. b \<noteq> NEWLINE) (body @ rest) = rest"
    using assms by (intro takeWhile_run) (auto simp: list_all_iff starts_with_byte_def split: list.splits)
  with assms dash_byte show ?thesis by (simp add: scan_names.simps(2) [of _ _ "CHR ''-''"])
qed

text \<open>What \<open>previous\<close> is after a token.\<close>

fun after_token :: "char option \<Rightarrow> lua_token \<Rightarrow> char option" where
  "after_token p (TkName n) = Some CHR ''a''"
| "after_token p (TkNumber n) = Some CHR ''0''"
| "after_token p (TkSymbol c) = Some c"
| "after_token p (TkQuoted q body) = Some q"
| "after_token p (TkLong level body) = Some CHR '']''"
| "after_token p t = p"

lemma scan_token:
  assumes "token_ok t (source_text ts)" "tokens_ok ts"
  shows "scan_names p l (token_text t @ source_text ts) =
    (case t of TkName n \<Rightarrow> if p \<notin> {Some DOT, Some CHR '':''} \<and> \<not> token_assigned ts then [(n, l)] else [] | _ \<Rightarrow> []) @
    scan_names (after_token p t) (l + newlines (token_text t)) (source_text ts)"
proof (cases t)
  case (TkName n)
  with assms(1) have "newlines n = 0" by (auto intro: name_no_newline)
  with TkName scan_name [of n "source_text ts" p l] assms assigned_tokens show ?thesis by simp
next
  case (TkNumber n)
  with assms(1) have "newlines n = 0" by (auto intro: number_no_newline)
  with TkNumber scan_number [of n "source_text ts" p l] assms show ?thesis by simp
next
  case (TkSpace c)
  with scan_space [of c p l "source_text ts"] assms show ?thesis by simp
next
  case (TkSymbol c)
  with scan_symbol [of c "source_text ts" p l] assms show ?thesis by simp
next
  case (TkQuoted q body)
  with scan_quoted [of q body "source_text ts" p l] assms show ?thesis by (auto split: if_splits)
next
  case (TkLong level body)
  with scan_long [of level body p l "source_text ts"] assms show ?thesis by simp
next
  case (TkBlock level body)
  with scan_block [of level body p l "source_text ts"] assms dash_byte show ?thesis by simp
next
  case (TkComment body)
  with scan_comment [of body "source_text ts" p l] assms dash_byte newlines_none [of body] show ?thesis by simp
qed

lemma after_token_field:
  assumes "token_ok t rest"
  shows "after_token p t \<in> {Some DOT, Some CHR '':''} \<longleftrightarrow>
    (if is_blank_token t then p \<in> {Some DOT, Some CHR '':''} else t \<in> {TkSymbol DOT, TkSymbol CHR '':''})"
  using assms by (cases t) auto

theorem scan_tokens:
  assumes "tokens_ok ts"
  shows "scan_names p l (source_text ts) = token_names (p \<in> {Some DOT, Some CHR '':''}) l ts"
  using assms
proof (induction ts arbitrary: p l)
  case (Cons t ts)
  then have ok: "token_ok t (source_text ts)" "tokens_ok ts" by simp_all
  from scan_token [OF ok, of p l] Cons.IH [OF ok(2), of "after_token p t" "l + newlines (token_text t)"]
    after_token_field [OF ok(1), of p]
  show ?case by (simp only: source_text_Cons token_names.simps)
qed simp

text \<open>After the concatenation operator a name counts as a field, so it is not seen.\<close>

lemma concatenated_name_unseen:
  "free_names ''x = 1 .. os'' = [] \<and> free_names ''x = 1 + os'' = [(''os'', 1)]"
  by code_simp

end
