(* ===== verification/Lua_Stage.thy ===== *)
theory Lua_Stage
  imports Lua_Vm Lua_Scan Config
begin

text \<open>
  The rest of \<open>crates/lua/src/vm.rs\<close>, one run of \<open>process\<close>, and \<open>crates/lua/src/lib.rs\<close>: loading a
  \<open>lua\<close> node and processing a record. The thread's VMs (\<open>VMS\<close>) are part of what a worker carries, so
  the store of a worker is a pair: the state store and the VMs.
\<close>

section \<open>Running the script\<close>

text \<open>The interpreter: its sandbox with the API and the guardrails installed, the run of the chunk's top
  level, the global \<open>process\<close>, a call of it, and one stretch of running up to the next event.\<close>

record 'v interpreter =
  ip_new :: "lua_script \<Rightarrow> mlua_error + 'v \<times> lua_heap"
  ip_exec :: "lua_script \<Rightarrow> 'v \<Rightarrow> lua_heap \<Rightarrow> (mlua_error + unit) \<times> 'v \<times> lua_heap"
  ip_process :: "'v \<Rightarrow> mlua_error + lua_value"
  ip_call :: "lua_value \<Rightarrow> lua_value \<Rightarrow> 'v \<Rightarrow> 'v"
  ip_step :: "'v \<Rightarrow> lua_heap \<Rightarrow> lua_event \<times> lua_heap \<times> (lua_answer \<Rightarrow> 'v)"

record 'v vm =
  vm_state :: 'v
  vm_heap :: lua_heap
  vm_used :: nat
  vm_script :: lua_script

text \<open>Running to the end; no result when the fuel is gone.\<close>

primrec script_loop ::
  "nat \<Rightarrow> lua_lib \<Rightarrow> 'v interpreter \<Rightarrow> 's environment \<Rightarrow> current \<Rightarrow> 'v vm \<Rightarrow> 's port
     \<Rightarrow> ((mlua_error + lua_value) \<times> 'v vm \<times> 's port) option" where
  "script_loop 0 L ip env cur vm p = None"
| "script_loop (Suc n) L ip env cur vm p =
     (case ip_step ip (vm_state vm) (vm_heap vm) of
        (ev, h, go_on) \<Rightarrow>
          (case answer_event L env (vm_script vm) cur ev h (vm_used vm) p of
             (answer, h, used, p) \<Rightarrow>
               (let vm = vm\<lparr>vm_state := go_on answer, vm_heap := h, vm_used := used\<rparr>
                in case ev of
                     Ended r \<Rightarrow> Some (r, vm, p)
                   | _ \<Rightarrow> script_loop n L ip env cur vm p)))"

text \<open>\<open>Vm::new\<close>.\<close>

definition vm_new :: "lua_lib \<Rightarrow> 'v interpreter \<Rightarrow> lua_script \<Rightarrow> lua_failure + 'v vm" where
  "vm_new L ip sc =
     (case ip_new ip sc of
        Inl e \<Rightarrow> Inl (ScriptError (lb_error_text L e))
      | Inr (v, h) \<Rightarrow>
          (case ip_exec ip sc v h of
             (Inl e, v, h) \<Rightarrow> Inl (at_load (classify L e))
           | (Inr _, v, h) \<Rightarrow>
               (case ip_process ip v of
                  Inr (LFunction f) \<Rightarrow> Inr \<lparr>vm_state = v, vm_heap = h, vm_used = 0, vm_script = sc\<rparr>
                | Inr _ \<Rightarrow>
                    Inl (ScriptError (display_name sc @ '': the script must define a function `process(record, meta)`''))
                | Inl e \<Rightarrow> Inl (ScriptError (lb_error_text L e)))))"

datatype returned = ReturnedRecord rec_value | ReturnedDrop | ReturnedSplit "rec_value list"

definition refused_output :: "output_error \<Rightarrow> stopped" where "refused_output e = StoppedLua (Refused e)"

fun read_split ::
  "lua_lib \<Rightarrow> nat \<Rightarrow> lua_heap \<Rightarrow> lua_table \<Rightarrow> nat list \<Rightarrow> stopped + rec_value list" where
  "read_split L cap h t [] = Inr []"
| "read_split L cap h t (i # ns) =
     (case raw_get t (LInt (of_nat i)) of
        LTable a \<Rightarrow>
          (case from_lua L cap h (LTable a) of
             Inl e \<Rightarrow> Inl (refused_output e)
           | Inr r \<Rightarrow> map_sum id (\<lambda>rs. r # rs) (read_split L cap h t ns))
      | _ \<Rightarrow> Inl (refused_output (OutputErr ''every entry of a returned list must be a record table'')))"

text \<open>What the script returned, for the record it was given.\<close>

definition read_returned :: "lua_lib \<Rightarrow> nat \<Rightarrow> rec_value \<Rightarrow> lua_heap \<Rightarrow> lua_value \<Rightarrow> stopped + returned" where
  "read_returned L cap r h v =
     (let one = (\<lambda>v. case from_lua L cap h v of Inl e \<Rightarrow> Inl (refused_output e) | Inr j \<Rightarrow> Inr (ReturnedRecord j));
          no = (\<lambda>message. Inl (refused_output (OutputErr message)))
      in case v of
           LNil \<Rightarrow> Inr ReturnedDrop
         | LTable a \<Rightarrow>
             (let t = table_at h a; returned_record = (record_shape t \<noteq> None)
              in if returned_record \<or> shape_of_table L t = ShapeObject then
                   if \<not> returned_record \<and> tb_pairs t = [] then no ''an empty table is neither a record nor a list''
                   else one (LTable a)
                 else (case list_len L t ''the returned list'' of
                         Inl e \<Rightarrow> Inl (refused_output e)
                       | Inr n \<Rightarrow>
                           if n = 0 then
                             no ''an empty list splits the record into nothing; return nil to drop it''
                           else map_sum id ReturnedSplit (read_split L cap h t [1..<Suc n])))
         | LBool b \<Rightarrow>
             if (case r of JBool _ \<Rightarrow> True | _ \<Rightarrow> False) then one v
             else no ''`process` returned a boolean; return nil to drop the record''
         | other \<Rightarrow> one other)"

text \<open>A fresh table behind a metatable of the stage: \<open>meta\<close> is number 0, \<open>json\<close> number 1.\<close>

definition fresh_behind :: "lua_lib \<Rightarrow> nat \<Rightarrow> lua_heap \<Rightarrow> mlua_error + nat \<times> lua_heap" where
  "fresh_behind L which h = map_sum id (\<lambda>(a, h). (a, set_metatable a (OtherMt which) h)) (create_table L h)"

definition vm_prepare :: "lua_lib \<Rightarrow> rec_value \<Rightarrow> lua_heap \<Rightarrow> mlua_error + lua_value \<times> lua_value \<times> lua_heap" where
  "vm_prepare L r h =
     (case hand_over L r h of
        Inl e \<Rightarrow> Inl e
      | Inr (v, h) \<Rightarrow>
          (case fresh_behind L 0 h of
             Inl e \<Rightarrow> Inl e
           | Inr (m, h) \<Rightarrow> map_sum id (\<lambda>(j, h). (v, LTable m, h)) (fresh_behind L 1 h)))"

text \<open>\<open>Vm::run\<close>.\<close>

definition vm_run ::
  "nat \<Rightarrow> lua_lib \<Rightarrow> 'v interpreter \<Rightarrow> 's environment \<Rightarrow> stage_context \<Rightarrow> rec_value \<Rightarrow> 'v vm \<Rightarrow> 's port
     \<Rightarrow> ((stopped + returned) \<times> 'v vm \<times> 's port) option" where
  "vm_run fuel L ip env ctx r vm p =
     (let vm = vm\<lparr>vm_used := 0\<rparr>; sc = vm_script vm
      in case vm_prepare L r (vm_heap vm) of
           Inl e \<Rightarrow> Some (Inl (classify L e), vm, p)
         | Inr (v, m, h) \<Rightarrow>
             map_option
               (\<lambda>(result, vm, p).
                  (case result of
                     Inl e \<Rightarrow> Inl (classify L e)
                   | Inr v \<Rightarrow>
                       if sc_instructions sc < vm_used vm then Inl (StoppedLua OverBudget)
                       else read_returned L (sc_output_bytes sc) r (vm_heap vm) v, vm, p))
               (script_loop fuel L ip env \<lparr>cu_state = cx_state ctx, cu_meta = cx_meta ctx\<rparr>
                  (vm\<lparr>vm_state := ip_call ip v m (vm_state vm), vm_heap := h\<rparr>) p))"

section \<open>The node\<close>

record lua_limits =
  li_instructions :: nat
  li_memory_kib :: nat
  li_output_kib :: nat

definition lua_limits_default :: lua_limits where
  "lua_limits_default = \<lparr>li_instructions = 1000000, li_memory_kib = 16 * 1024, li_output_kib = 1024\<rparr>"

definition MIN_MEMORY_KIB :: nat where "MIN_MEMORY_KIB = 64"

datatype on_error = ErrorPass | ErrorDrop | ErrorNak

record lua_params =
  lp_script :: "string option"
  lp_source :: "string option"
  lp_limits :: lua_limits
  lp_on_error :: on_error
  lp_on_state_error :: "state_policy option"

record lua_node =
  lu_vm_id :: nat
  lu_script :: lua_script
  lu_on_error :: on_error
  lu_on_state_error :: state_policy
  lu_uses_state :: bool

definition at_least :: "node_config \<Rightarrow> string \<Rightarrow> nat \<Rightarrow> nat \<Rightarrow> config_error + unit" where
  "at_least node name v floor =
     (if v < floor then Inl (invalid_params node (''`limits.'' @ name @ ''` must be at least '' @ show_nat floor))
      else Inr ())"

text \<open>\<open>read_file\<close> reads a script file, an error as its text.\<close>

definition script_source :: "(string \<Rightarrow> string + string) \<Rightarrow> node_config \<Rightarrow> lua_params \<Rightarrow> config_error + string \<times> string" where
  "script_source read_file node params =
     (case (lp_script params, lp_source params) of
        (Some path, None) \<Rightarrow>
          (case read_file path of
             Inl e \<Rightarrow> Inl (invalid_params node (''`script`: cannot read `'' @ path @ ''`: '' @ e))
           | Inr source \<Rightarrow> Inr (CHR ''@'' # path, source))
      | (None, Some source) \<Rightarrow> Inr (CHR ''='' # node_id node, source)
      | (None, None) \<Rightarrow> Inl (invalid_params node ''give `script` (a file path) or `source` (the script inline)'')
      | (Some _, Some _) \<Rightarrow> Inl (invalid_params node ''`script` and `source` are alternatives; give one''))"

fun check_names :: "node_config \<Rightarrow> lua_script \<Rightarrow> (string \<times> nat) list \<Rightarrow> bool \<Rightarrow> config_error + bool" where
  "check_names node sc [] uses = Inr uses"
| "check_names node sc ((name, line) # names) uses =
     (if name \<in> set FORBIDDEN then
        Inl (invalid_params node (display_name sc @ '':'' @ show_nat line @ '': `'' @ name @
          ''` is not available in the sandbox'' @
          (case instead_of name of Some i \<Rightarrow> ''; use '' @ i | None \<Rightarrow> [])))
      else check_names node sc names (uses \<or> name = ''state''))"

definition script_of :: "node_config \<Rightarrow> lua_limits \<Rightarrow> string \<Rightarrow> string \<Rightarrow> lua_script" where
  "script_of node li chunk_name source =
     \<lparr>sc_chunk_name = chunk_name, sc_source = source, sc_node = node_id node,
      sc_instructions = li_instructions li, sc_memory_bytes = li_memory_kib li * 1024,
      sc_output_bytes = li_output_kib li * 1024\<rparr>"

definition check_limits :: "node_config \<Rightarrow> lua_limits \<Rightarrow> config_error + unit" where
  "check_limits node li =
     (case at_least node ''instructions'' (li_instructions li) 1 of
        Inl e \<Rightarrow> Inl e
      | Inr _ \<Rightarrow>
          (case at_least node ''memory_kib'' (li_memory_kib li) MIN_MEMORY_KIB of
             Inl e \<Rightarrow> Inl e
           | Inr _ \<Rightarrow> at_least node ''output_kib'' (li_output_kib li) 1))"

definition lua_from_node ::
  "lua_lib \<Rightarrow> 'v interpreter \<Rightarrow> (string \<Rightarrow> string + string) \<Rightarrow> (yaml \<Rightarrow> string + lua_params) \<Rightarrow> nat \<Rightarrow> node_config
     \<Rightarrow> config_error + lua_node" where
  "lua_from_node L ip read_file from_value vm_id node =
     (case parse_params from_value node of
        Inl e \<Rightarrow> Inl e
      | Inr params \<Rightarrow>
     (case script_source read_file node params of
        Inl e \<Rightarrow> Inl e
      | Inr (chunk_name, source) \<Rightarrow>
     (case check_limits node (lp_limits params) of
        Inl e \<Rightarrow> Inl e
      | Inr _ \<Rightarrow>
     (let sc = script_of node (lp_limits params) chunk_name source
      in case check_names node sc (free_names source) False of
        Inl e \<Rightarrow> Inl e
      | Inr uses \<Rightarrow>
          if lp_on_state_error params \<noteq> None \<and> \<not> uses then
            Inl (invalid_params node ''`on_state_error` is given but the script never uses `state`'')
          else (case vm_new L ip sc of
                  Inl e \<Rightarrow> Inl (invalid_params node (describe e))
                | Inr _ \<Rightarrow>
                    Inr \<lparr>lu_vm_id = vm_id, lu_script = sc, lu_on_error = lp_on_error params,
                       lu_on_state_error = (case lp_on_state_error params of Some q \<Rightarrow> q | None \<Rightarrow> PolicyNak),
                       lu_uses_state = uses\<rparr>)))))"

section \<open>Processing\<close>

type_synonym 'v vms = "nat \<Rightarrow> 'v vm option"

text \<open>The state store beside the VMs.\<close>

definition beside_vms :: "'s store_ops \<Rightarrow> ('s \<times> 'w) store_ops" where
  "beside_vms ops =
     \<lparr>so_set_nx = (\<lambda>k v ttl (s, w). apsnd (\<lambda>s. (s, w)) (so_set_nx ops k v ttl s)),
      so_set = (\<lambda>k v ttl (s, w). apsnd (\<lambda>s. (s, w)) (so_set ops k v ttl s)),
      so_compare_and_set = (\<lambda>k x v ttl (s, w). apsnd (\<lambda>s. (s, w)) (so_compare_and_set ops k x v ttl s)),
      so_get = (\<lambda>k (s, w). apsnd (\<lambda>s. (s, w)) (so_get ops k s)),
      so_incr = (\<lambda>k by ttl (s, w). apsnd (\<lambda>s. (s, w)) (so_incr ops k by ttl s)),
      so_del = (\<lambda>k (s, w). apsnd (\<lambda>s. (s, w)) (so_del ops k s))\<rparr>"

definition keep_vm :: "nat \<Rightarrow> 'v vm option \<Rightarrow> ('s \<times> 'v vms) port \<Rightarrow> ('s \<times> 'v vms) port" where
  "keep_vm i vm p = p\<lparr>w_store := (fst (w_store p), (snd (w_store p))(i := vm))\<rparr>"

text \<open>\<open>Lua::vm\<close>: the worker's VM of the node, built on its first record.\<close>

definition worker_vm ::
  "lua_lib \<Rightarrow> 'v interpreter \<Rightarrow> lua_node \<Rightarrow> ('s \<times> 'v vms) port \<Rightarrow> (lua_failure + 'v vm) \<times> ('s \<times> 'v vms) port" where
  "worker_vm L ip lu p =
     (case snd (w_store p) (lu_vm_id lu) of
        Some vm \<Rightarrow> (Inr vm, p)
      | None \<Rightarrow>
          (case vm_new L ip (lu_script lu) of
             Inl e \<Rightarrow> (Inl e, p)
           | Inr vm \<Rightarrow> (Inr vm, keep_vm (lu_vm_id lu) (Some vm) p)))"

definition on_failure ::
  "lua_node \<Rightarrow> stage_context \<Rightarrow> rec_value \<Rightarrow> lua_failure \<Rightarrow> ('s \<times> 'v vms) port \<Rightarrow> stage_output \<times> ('s \<times> 'v vms) port"
where
  "on_failure lu ctx r e p =
     (let p = (if e = OverMemory then keep_vm (lu_vm_id lu) None p else p);
          p = stage_lua_error ctx (failure_label e) p
      in (case lu_on_error lu of
            ErrorPass \<Rightarrow> Pass r
          | ErrorDrop \<Rightarrow> Drop LuaError
          | ErrorNak \<Rightarrow> StageFailed \<lparr>se_message = describe e, se_source = None\<rparr>, p))"

definition lua_process ::
  "(lua_script \<Rightarrow> nat) \<Rightarrow> lua_lib \<Rightarrow> 'v interpreter \<Rightarrow> lua_node \<Rightarrow> ('s \<times> 'v vms) environment \<Rightarrow> rec_value \<Rightarrow> stage_context
     \<Rightarrow> ('s \<times> 'v vms) port \<Rightarrow> stage_output option \<times> ('s \<times> 'v vms) port" where
  "lua_process fuel L ip lu env r ctx p =
     (case worker_vm L ip lu p of
        (Inl e, p) \<Rightarrow> apfst Some (on_failure lu ctx r e p)
      | (Inr vm, p) \<Rightarrow>
          (case vm_run (fuel (lu_script lu)) L ip env ctx r vm p of
             None \<Rightarrow> (None, p)
           | Some (run, vm, p) \<Rightarrow>
               (let p = keep_vm (lu_vm_id lu) (Some vm) p
                in case run of
                     Inr (ReturnedRecord r) \<Rightarrow> (Some (Pass r), p)
                   | Inr ReturnedDrop \<Rightarrow> (Some (Drop LuaDrop), p)
                   | Inr (ReturnedSplit rs) \<Rightarrow> (Some (Split rs), p)
                   | Inl (StoppedState e) \<Rightarrow> (Some (StoreFailed r e), p)
                   | Inl (StoppedLua e) \<Rightarrow> apfst Some (on_failure lu ctx r e p))))"

definition lua_stage :: "(lua_script \<Rightarrow> nat) \<Rightarrow> lua_lib \<Rightarrow> 'v interpreter \<Rightarrow> lua_node \<Rightarrow> ('s \<times> 'v vms) stage" where
  "lua_stage fuel L ip lu =
     \<lparr>st_process = lua_process fuel L ip lu, st_engine = None, st_uses_state = lu_uses_state lu,
      st_on_state_error = lu_on_state_error lu\<rparr>"

end
