(* ===== verification/Lua_Returned.thy ===== *)
theory Lua_Returned
  imports Lua_Stage
begin

text \<open>
  What \<open>process\<close> returns, read back: a table that carries the record mark is one record, whatever its
  shape. So the record the script was given, and a copy of it, come back as that record.
\<close>

lemma returned_marked:
  assumes "record_shape (table_at h a) \<noteq> None" "from_lua L cap h (LTable a) = Inr j"
  shows "read_returned L cap r h (LTable a) = Inr (ReturnedRecord j)"
  using assms by (simp add: read_returned_def Let_def)

lemma returned_scalar:
  assumes "\<And>a. v \<noteq> LTable a" "v \<noteq> LNil" "(\<exists>b. v = LBool b) \<longrightarrow> (\<exists>b. r = JBool b)" "from_lua L cap h v = Inr j"
  shows "read_returned L cap r h v = Inr (ReturnedRecord j)"
  using assms by (cases v) (auto simp: read_returned_def Let_def)

lemma hand_over_marked:
  assumes "hand_over L r h = Inr (LTable a, h1)" "a < length h1"
  shows "record_shape (table_at h1 a) \<noteq> None"
  using assms
  by (auto simp: hand_over_def mark_record_def set_metatable_def record_shape_def table_at_def
      split: sum.splits lua_value.splits)

lemma hand_over_table:
  assumes "hand_over L r h = Inr (LTable a, h1)" "crosses r"
  shows "length h \<le> a" "a < length h1"
  using hand_over_rep [OF assms] rep_table by blast+

lemma kept_table: "keeps n h h' \<Longrightarrow> n \<le> a \<Longrightarrow> a < length h \<Longrightarrow> table_at h' a = table_at h a"
  by (simp add: keeps_def table_at_def)

lemma number_not_bool: "number_to_lua x \<noteq> LBool b"
  by (cases x rule: number_to_lua.cases) (auto simp: unsigned_to_lua_def)

lemma returned_untouched:
  assumes "lua_tables L" "hand_over L r h = Inr (v, h1)" "keeps (length h) h1 h2"
    and "crosses r" "nests_within MAX_DEPTH r" "text_bytes r \<le> cap"
  shows "read_returned L cap r h2 v = Inr (ReturnedRecord r)"
proof -
  note whole = lua_tables.untouched_record [OF assms]
  have rep: "rep h1 (length h) {a. v = LTable a} v r" using hand_over_rep [OF assms(2,4)] ..
  show ?thesis
  proof (cases "\<exists>a. v = LTable a")
    case True
    then obtain a where v: "v = LTable a" ..
    note a = hand_over_table [OF assms(2) [unfolded v] assms(4)]
    from returned_marked [of h2 a] hand_over_marked [OF assms(2) [unfolded v] a(2)] kept_table [OF assms(3) a] whole
    show ?thesis by (simp add: v)
  next
    case False
    have "(\<exists>b. v = LBool b) \<longrightarrow> (\<exists>b. r = JBool b)"
      using rep by cases (auto simp: lua_null_def number_not_bool)
    with False rep_not_nil [OF rep] whole show ?thesis by (intro returned_scalar) auto
  qed
qed

text \<open>A copy is made, or refused by the memory cap; the tables there were stay as they are.\<close>

lemma returned_copy:
  assumes "lua_tables L" "hand_over L r h = Inr (LTable a, h1)" "keeps (length h) h1 h2" "heap_ok h2"
    and "crosses r" "nests_within MAX_DEPTH r" "text_bytes r \<le> cap"
  obtains e where "record_copy L a h2 = Some (Inl e)"
    | b h3 where "record_copy L a h2 = Some (Inr (LTable b, h3))" "length h2 \<le> b" "keeps 0 h2 h3"
      "\<And>h4. keeps (length h2) h3 h4 \<Longrightarrow> read_returned L cap r h4 (LTable b) = Inr (ReturnedRecord r)"
proof -
  note a = hand_over_table [OF assms(2,5)]
  have a2: "a < length h2" using a(2) assms(3) by (simp add: keeps_def)
  have marked: "record_shape (h2 ! a) \<noteq> None"
    using hand_over_marked [OF assms(2) a(2)] kept_table [OF assms(3) a] a2 by (simp add: table_at_def)
  from record_copy_isomorphic [OF assms(1,4) a2] consider (refused) e where "record_copy L a h2 = Some (Inl e)"
    | (made) c b h3 where "record_copy L a h2 = Some (Inr (LTable b, h3))" "c a = Some b" "keeps 0 h2 h3" "isomorphic h2 a c h3"
    by blast
  then show thesis
  proof cases
    case refused
    then show thesis by (rule that(1))
  next
    case c: (made c b h3)
    have b: "length h2 \<le> b" "b < length h3" "tb_meta (h3 ! b) = copy_meta h2 a a"
      using c(2,4) by (auto simp: isomorphic_def)
    show thesis
    proof (rule that(2) [OF c(1) b(1) c(3)])
      fix h4
      assume k: "keeps (length h2) h3 h4"
      have "record_shape (table_at h4 b) \<noteq> None"
        using kept_table [OF k b(1,2)] b(2,3) marked
        by (auto simp: table_at_def copy_meta_def record_shape_def split: option.splits metatable.splits)
      then show "read_returned L cap r h4 (LTable b) = Inr (ReturnedRecord r)"
        using copied_record [OF assms(1,2,3,4) c(1) k assms(5,6,7)] by (rule returned_marked)
    qed
  qed
qed

end
