(* ===== verification/Lua_Runs.thy ===== *)
theory Lua_Runs
  imports Lua_Stage
begin

text \<open>
  What the guardrails of a \<open>lua\<close> node achieve. The locale \<open>lua_runtime\<close> states what the interpreter
  does with a script that has no to-be-closed variable (\<open>local x <close>\<close>): between two ticks of the
  instruction hook it stops a bounded number of times, an error the hook raises reaches the protected
  calls around it and the handlers among them from the inside out, each of which may raise it again,
  and past the last of them it ends the run. On it a run ends, and one past its budget ends as that.

  The restriction is needed: in Lua 5.4 the closing function of a variable may raise an error of its own
  in place of the one it is called for, and \<open>pcall\<close> catches that. \<open>Lua_Examples\<close> has both interpreters.
\<close>

text \<open>\<open>ok\<close> is a state of the interpreter with at most \<open>limit\<close> protected calls pending, \<open>raised\<close> the error it
  is raising, and \<open>rank\<close> the stops that may come before the next tick, or while the error is raised.\<close>

fun stops :: "lua_event \<Rightarrow> bool" where
  "stops (Ended r) \<longleftrightarrow> True"
| "stops _ \<longleftrightarrow> False"

definition run_fuel :: "nat \<Rightarrow> nat \<Rightarrow> lua_script \<Rightarrow> nat" where
  "run_fuel every limit sc = sc_instructions sc div hook_step sc * Suc every + every + limit + 2"

locale lua_runtime =
  fixes L :: lua_lib and ip :: "'v interpreter" and every limit :: nat
    and ok :: "'v \<Rightarrow> bool" and raised :: "'v \<Rightarrow> mlua_error option" and rank :: "'v \<Rightarrow> nat"
  assumes budget_known: "lb_downcast L (ExternalError BudgetExceeded) = Some BudgetExceeded"
    and boots: "ip_new ip sc = Inr (v, h) \<Longrightarrow> ip_exec ip sc v h = (u, v', h') \<Longrightarrow> ok v' \<and> raised v' = None"
    and call_ok: "ok v \<Longrightarrow> raised v = None \<Longrightarrow> ok (ip_call ip a m v) \<and> raised (ip_call ip a m v) = None \<and> rank (ip_call ip a m v) \<le> every"
    and step_ok: "ok v \<Longrightarrow> ip_step ip v h = (ev, h', go) \<Longrightarrow> ok (go answer)"
    and ended: "ok v \<Longrightarrow> ip_step ip v h = (Ended r, h', go) \<Longrightarrow> raised (go answer) = None \<and> (\<forall>e. raised v = Some e \<longrightarrow> r = Inl e)"
    and runs_on: "ok v \<Longrightarrow> raised v = None \<Longrightarrow> ip_step ip v h = (ev, h', go) \<Longrightarrow> ev \<noteq> HookTick \<Longrightarrow> \<not> stops ev \<Longrightarrow>
      rank (go answer) < rank v \<and> raised (go answer) = None"
    and ticks: "ok v \<Longrightarrow> raised v = None \<Longrightarrow> ip_step ip v h = (HookTick, h', go) \<Longrightarrow>
      raised (go (Reply (Inr vs))) = None \<and> rank (go (Reply (Inr vs))) \<le> every \<and>
      raised (go (Reply (Inl e))) = Some e \<and> rank (go (Reply (Inl e))) \<le> limit"
    and unwinds: "ok v \<Longrightarrow> raised v = Some e \<Longrightarrow> ip_step ip v h = (ev, h', go) \<Longrightarrow> \<not> stops ev \<Longrightarrow>
      (ev = Handled (Inl e) \<or> (\<exists>w. ev = Guarded w (Inl e))) \<and> rank (go (Reply (Inl x))) < rank v \<and> raised (go (Reply (Inl x))) = Some x"
begin

lemma guards_budget: "guardrail L (ExternalError BudgetExceeded) = Some (StoppedLua OverBudget)"
  by (simp add: guardrail_def budget_known)

text \<open>What is raised when the budget is used up, and only then: the guardrail of the budget.\<close>

definition budget_state :: "'v vm \<Rightarrow> bool" where
  "budget_state vm \<longleftrightarrow> ok (vm_state vm) \<and>
     (if sc_instructions (vm_script vm) < vm_used vm
      then \<exists>e. raised (vm_state vm) = Some e \<and> guardrail L e = Some (StoppedLua OverBudget)
      else raised (vm_state vm) = None)"

definition budget_left :: "'v vm \<Rightarrow> nat" where
  "budget_left vm =
     (if sc_instructions (vm_script vm) < vm_used vm then rank (vm_state vm)
      else (sc_instructions (vm_script vm) - vm_used vm) div hook_step (vm_script vm) * Suc every
        + rank (vm_state vm) + Suc limit)"

lemma hook_step_positive: "0 < hook_step sc"
  by (simp add: hook_step_def)

lemma tick_answer:
  "answer_event L env sc cur HookTick h used p =
    (Reply (if sc_instructions sc < used + hook_step sc then Inl (ExternalError BudgetExceeded) else Inr []),
     h, used + hook_step sc, p)"
  by (simp add: answer_event_def hook_tick_def Let_def)

lemma other_used: "ev \<noteq> HookTick \<Longrightarrow> fst (snd (snd (answer_event L env sc cur ev h used p))) = used"
  by (cases ev) (simp_all add: answer_event_def split_def)

lemma step_used:
  assumes "answer_event L env sc cur ev h used p = (answer, h', used', p')"
  shows "(ev = HookTick \<longrightarrow> used' = used + hook_step sc \<and>
        answer = Reply (if sc_instructions sc < used' then Inl (ExternalError BudgetExceeded) else Inr [])) \<and>
     (ev \<noteq> HookTick \<longrightarrow> used' = used)"
proof (cases "ev = HookTick")
  case True
  from assms [unfolded True tick_answer] True show ?thesis by auto
next
  case False
  from other_used [OF False, of env sc cur h used p] assms False show ?thesis by simp
qed

lemma div_step:
  assumes "0 < s" "u + s \<le> (b::nat)"
  shows "(b - (u + s)) div s * m + m = (b - u) div s * m"
proof -
  define x where "x = b - (u + s)"
  have "b - u = x + s" using assms(2) by (simp add: x_def)
  moreover have "(x + s) div s = Suc (x div s)" using div_add_self2 [of s x] assms(1) by simp
  ultimately have "(b - u) div s = Suc (x div s)" by (simp only:)
  then show ?thesis by (simp flip: x_def)
qed

text \<open>One step keeps the state and uses up what is left.\<close>

lemma step_budget:
  assumes "budget_state vm" "ip_step ip (vm_state vm) (vm_heap vm) = (ev, h, go)" "\<not> stops ev"
    and "answer_event L env (vm_script vm) cur ev h (vm_used vm) p = (answer, h', used, p')"
  shows "budget_state (vm\<lparr>vm_state := go answer, vm_heap := h', vm_used := used\<rparr>) \<and>
    budget_left (vm\<lparr>vm_state := go answer, vm_heap := h', vm_used := used\<rparr>) < budget_left vm"
proof -
  let ?b = "sc_instructions (vm_script vm)" and ?s = "hook_step (vm_script vm)"
  have okv: "ok (vm_state vm)" using assms(1) by (simp add: budget_state_def)
  note u = step_used [OF assms(4)] and okg = step_ok [OF okv assms(2), of answer]
  show ?thesis
  proof (cases "?b < vm_used vm")
    case True
    with assms(1) obtain e where e: "raised (vm_state vm) = Some e" "guardrail L e = Some (StoppedLua OverBudget)"
      by (auto simp: budget_state_def)
    from unwinds [OF okv e(1) assms(2,3)] have w: "ev = Handled (Inl e) \<or> (\<exists>w. ev = Guarded w (Inl e))"
      "\<And>x. rank (go (Reply (Inl x))) < rank (vm_state vm) \<and> raised (go (Reply (Inl x))) = Some x" by blast+
    with e(2) assms(4) have "answer = Reply (Inl e)" by (auto simp: answer_event_def protected_def handled_def)
    moreover have "ev \<noteq> HookTick" using w(1) by auto
    ultimately show ?thesis using w(2) e(2) u True okg by (simp add: budget_state_def budget_left_def)
  next
    case False
    with assms(1) have r: "raised (vm_state vm) = None" by (simp add: budget_state_def)
    show ?thesis
    proof (cases "ev = HookTick")
      case True
      note t = ticks [OF okv r assms(2) [unfolded True]]
      show ?thesis
      proof (cases "?b < vm_used vm + ?s")
        case over: True
        with u True t False guards_budget okg show ?thesis
          by (auto simp: budget_state_def budget_left_def less_Suc_eq_le intro: trans_le_add2)
      next
        case within: False
        with u True have a: "answer = Reply (Inr [])" "used = vm_used vm + ?s" by auto
        have "(?b - (vm_used vm + ?s)) div ?s * Suc every + Suc every = (?b - vm_used vm) div ?s * Suc every"
          using within by (intro div_step [OF hook_step_positive]) simp
        moreover have "rank (go answer) \<le> every" "raised (go answer) = None" using t a by auto
        ultimately show ?thesis using within False okg a by (simp add: budget_state_def budget_left_def)
      qed
    next
      case other: False
      with u runs_on [OF okv r assms(2) other assms(3)] False okg show ?thesis
        by (simp add: budget_state_def budget_left_def)
    qed
  qed
qed

text \<open>Enough fuel ends a run, and a run past its budget ends as one, whatever the script catches.\<close>

lemma script_loop_ends:
  assumes "budget_state vm" "budget_left vm < n"
  shows "\<exists>r vm' p'. script_loop n L ip env cur vm p = Some (r, vm', p') \<and> vm_script vm' = vm_script vm \<and>
    ok (vm_state vm') \<and> raised (vm_state vm') = None \<and>
    (sc_instructions (vm_script vm) < vm_used vm' \<longrightarrow> (\<exists>e. r = Inl e \<and> classify L e = StoppedLua OverBudget))"
  using assms
proof (induction n arbitrary: vm p)
  case (Suc n)
  obtain ev h go where s: "ip_step ip (vm_state vm) (vm_heap vm) = (ev, h, go)" by (metis prod_cases3)
  obtain answer h' used p' where a: "answer_event L env (vm_script vm) cur ev h (vm_used vm) p = (answer, h', used, p')"
    by (metis prod_cases4)
  have okv: "ok (vm_state vm)" using Suc.prems(1) by (simp add: budget_state_def)
  show ?case
  proof (cases "stops ev")
    case True
    then obtain r where ev: "ev = Ended r" by (cases ev) auto
    note e = ended [OF okv s [unfolded ev]] and ok' = step_ok [OF okv s, of answer]
    have "used = vm_used vm" using step_used [OF a] ev by simp
    moreover have "\<exists>e. r = Inl e \<and> classify L e = StoppedLua OverBudget" if "sc_instructions (vm_script vm) < vm_used vm"
      using that Suc.prems(1) e by (auto simp: budget_state_def classify_def)
    ultimately show ?thesis using s a ev e ok' by (auto simp: Let_def)
  next
    case False
    note b = step_budget [OF Suc.prems(1) s False a]
    let ?vm = "vm\<lparr>vm_state := go answer, vm_heap := h', vm_used := used\<rparr>"
    have "script_loop (Suc n) L ip env cur vm p = script_loop n L ip env cur ?vm p'"
      using s a False by (cases ev) (simp_all add: Let_def)
    moreover have "budget_left ?vm < n" using b Suc.prems(2) by simp
    ultimately show ?thesis using Suc.IH [of ?vm p'] b by simp
  qed
qed simp

lemma vm_run_ends:
  assumes "ok (vm_state vm)" "raised (vm_state vm) = None"
  shows "\<exists>result vm' p'. vm_run (run_fuel every limit (vm_script vm)) L ip env ctx r vm p = Some (result, vm', p') \<and>
    vm_script vm' = vm_script vm \<and> ok (vm_state vm') \<and> raised (vm_state vm') = None \<and>
    (sc_instructions (vm_script vm) < vm_used vm' \<longrightarrow> result = Inl (StoppedLua OverBudget))"
proof (cases "vm_prepare L r (vm_heap vm)")
  case (Inl e)
  with assms show ?thesis by (simp add: vm_run_def Let_def)
next
  case (Inr x)
  obtain v m h where x: "x = (v, m, h)" by (metis prod_cases3)
  let ?vm = "vm\<lparr>vm_used := 0, vm_state := ip_call ip v m (vm_state vm), vm_heap := h\<rparr>"
  let ?cur = "\<lparr>cu_state = cx_state ctx, cu_meta = cx_meta ctx\<rparr>"
  note c = call_ok [OF assms, of v m]
  then have "budget_state ?vm" "budget_left ?vm < run_fuel every limit (vm_script vm)"
    by (auto simp: budget_state_def budget_left_def run_fuel_def)
  from script_loop_ends [OF this, of env ?cur p] obtain res vm' p' where
    "script_loop (run_fuel every limit (vm_script vm)) L ip env ?cur ?vm p = Some (res, vm', p')"
    "vm_script vm' = vm_script vm" "ok (vm_state vm')" "raised (vm_state vm') = None"
    "sc_instructions (vm_script vm) < vm_used vm' \<longrightarrow> (\<exists>e. res = Inl e \<and> classify L e = StoppedLua OverBudget)"
    by auto
  then show ?thesis by (auto simp: vm_run_def Let_def Inr x split: sum.splits)
qed

end

end
