(* ===== verification/Lua_Node.thy ===== *)
theory Lua_Node
  imports Lua_Runs Builtin
begin

text \<open>
  A \<open>lua\<close> node as a stage: it keeps the contract the engine needs, it always answers, what loads, and
  the registry of the binary (\<open>default_registry\<close> of \<open>crates/pipeline/src/lib.rs\<close>).
\<close>

section \<open>The contract\<close>

definition is_lua_error :: "measure \<Rightarrow> bool" where
  "is_lua_error m = (case m of Count n l by \<Rightarrow> n = LuaErrors | _ \<Rightarrow> False)"

definition lua_errors :: "'s port \<Rightarrow> measures" where
  "lua_errors p = filter is_lua_error (w_measures p)"

text \<open>What a run adds: measurements of a stage, no failure of a script among them.\<close>

definition appends_quietly :: "'s port \<Rightarrow> 's port \<Rightarrow> bool" where
  "appends_quietly p q \<longleftrightarrow> appends_owned p q \<and> lua_errors q = lua_errors p"

lemma appends_quietly_refl [simp]: "appends_quietly p p"
  by (simp add: appends_quietly_def)

lemma appends_quietly_trans: "appends_quietly p q \<Longrightarrow> appends_quietly q r \<Longrightarrow> appends_quietly p r"
  by (auto simp: appends_quietly_def intro: appends_owned_trans)

lemma appends_quietly_owned: "appends_quietly p q \<Longrightarrow> appends_owned p q"
  by (simp add: appends_quietly_def)

lemma unix_nanos_quiet: "unix_nanos_now env p = (n, p') \<Longrightarrow> appends_quietly p p'"
  by (auto simp: unix_nanos_now_def read_wall_def appends_quietly_def appends_owned_def lua_errors_def Let_def)

lemma state_timed_quiet:
  assumes "state_timed env sh op p = (r, p')"
  shows "appends_quietly p p'"
  using assms state_timed_owned [OF assms]
  by (auto simp: appends_quietly_def state_timed_def lua_errors_def is_lua_error_def world_defs state_op_def
      state_error_count_def split: if_splits prod.splits sum.splits)

lemma answer_quiet:
  assumes "answer_event L env sc cur ev h used p = (answer, h', used', p')"
  shows "appends_quietly p p'"
  using assms
  by (cases ev)
    (auto simp: answer_event_def api_get_def api_set_nx_def api_incr_def api_del_def api_now_def state_get_def
      state_set_nx_def state_incr_def state_del_def split: prod.splits sum.splits option.splits
      dest: state_timed_quiet unix_nanos_quiet)

lemma script_loop_quiet: "script_loop n L ip env cur vm p = Some (r, vm', p') \<Longrightarrow> appends_quietly p p'"
proof (induction n arbitrary: vm p)
  case (Suc n)
  obtain ev h go where s: "ip_step ip (vm_state vm) (vm_heap vm) = (ev, h, go)" by (metis prod_cases3)
  obtain answer h' used p1 where a: "answer_event L env (vm_script vm) cur ev h (vm_used vm) p = (answer, h', used, p1)"
    by (metis prod_cases4)
  from Suc.prems s a answer_quiet [OF a] show ?case
    by (cases ev) (auto simp: Let_def intro: appends_quietly_trans Suc.IH)
qed simp

lemma vm_run_quiet: "vm_run fuel L ip env ctx r vm p = Some (x, vm', p') \<Longrightarrow> appends_quietly p p'"
  by (auto simp: vm_run_def Let_def split: sum.splits dest: script_loop_quiet)

lemma keep_vm_quiet: "appends_quietly p q \<Longrightarrow> appends_quietly p (keep_vm i vm q)"
  by (simp add: keep_vm_def appends_quietly_def appends_owned_def lua_errors_def)

lemma worker_vm_quiet: "worker_vm L ip lu p = (x, p') \<Longrightarrow> appends_quietly p p'"
  by (auto simp: worker_vm_def intro: keep_vm_quiet split: option.splits sum.splits)

lemma on_failure_owned: "on_failure lu ctx r e p = (out, p') \<Longrightarrow> appends_owned p p'"
proof -
  assume o: "on_failure lu ctx r e p = (out, p')"
  let ?q = "if e = OverMemory then keep_vm (lu_vm_id lu) None p else p"
  have "appends_owned p ?q" by (simp add: appends_quietly_owned keep_vm_quiet)
  then have "appends_owned p (stage_lua_error ctx (failure_label e) ?q)" by (rule appends_owned_trans) (rule stage_metrics_owned)
  with o show ?thesis by (simp add: on_failure_def Let_def)
qed

lemma lua_process_owned:
  assumes "lua_process fuel L ip lu env r ctx p = (out, p')"
  shows "appends_owned p p'"
proof -
  obtain x p1 where w: "worker_vm L ip lu p = (x, p1)" by force
  have "appends_owned p1 p'"
    using assms w
    by (auto simp: lua_process_def Let_def apfst_def map_prod_def intro: keep_vm_quiet appends_quietly_owned
        dest!: vm_run_quiet on_failure_owned intro: appends_owned_trans
        split: sum.splits option.splits returned.splits stopped.splits prod.splits)
  with appends_quietly_owned [OF worker_vm_quiet [OF w]] show ?thesis by (rule appends_owned_trans)
qed

interpretation lua_contract: stage_contract "lua_stage fuel L ip lu"
  by unfold_locales (auto simp: lua_stage_def intro: lua_process_owned)

lemma lua_never_routes: "never_routes (lua_stage fuel L ip lu)"
  by (auto simp: never_routes_def lua_stage_def lua_process_def on_failure_def Let_def
      split: prod.splits sum.splits option.splits returned.splits stopped.splits on_error.splits)

section \<open>It always answers\<close>

text \<open>The node's VM on the worker is at rest.\<close>

definition vm_at_rest ::
  "('v \<Rightarrow> bool) \<Rightarrow> ('v \<Rightarrow> mlua_error option) \<Rightarrow> lua_node \<Rightarrow> ('s \<times> 'v vms) port \<Rightarrow> bool" where
  "vm_at_rest ok raised lu p \<longleftrightarrow>
     (\<forall>vm. snd (w_store p) (lu_vm_id lu) = Some vm \<longrightarrow>
        vm_script vm = lu_script lu \<and> ok (vm_state vm) \<and> raised (vm_state vm) = None)"

text \<open>What a node does with a run of the script: every result has its output, and a failure is counted
  once under its kind and decided by \<open>on_error\<close>.\<close>

fun output_of :: "lua_node \<Rightarrow> rec_value \<Rightarrow> stopped + returned \<Rightarrow> stage_output" where
  "output_of lu r (Inr (ReturnedRecord j)) = Pass j"
| "output_of lu r (Inr ReturnedDrop) = Drop LuaDrop"
| "output_of lu r (Inr (ReturnedSplit js)) = Split js"
| "output_of lu r (Inl (StoppedState e)) = StoreFailed r e"
| "output_of lu r (Inl (StoppedLua e)) =
     (case lu_on_error lu of
        ErrorPass \<Rightarrow> Pass r
      | ErrorDrop \<Rightarrow> Drop LuaError
      | ErrorNak \<Rightarrow> StageFailed \<lparr>se_message = describe e, se_source = None\<rparr>)"

fun errors_of :: "stage_context \<Rightarrow> stopped + returned \<Rightarrow> measures" where
  "errors_of ctx (Inl (StoppedLua e)) = lua_error_count (with_kind (lua_error_kind_str (failure_label e)) (cx_labels ctx))"
| "errors_of ctx _ = []"

lemma on_failure_result:
  "on_failure lu ctx r e p = (output_of lu r (Inl (StoppedLua e)),
     measure (errors_of ctx (Inl (StoppedLua e))) (if e = OverMemory then keep_vm (lu_vm_id lu) None p else p))"
  by (simp add: on_failure_def Let_def stage_lua_error_def)

text \<open>What a node did with a run: \<open>q\<close> is what it carries after the run.\<close>

definition settled ::
  "lua_node \<Rightarrow> stage_context \<Rightarrow> rec_value \<Rightarrow> stopped + returned \<Rightarrow> ('s \<times> 'v vms) port
     \<Rightarrow> stage_output option \<times> ('s \<times> 'v vms) port" where
  "settled lu ctx r run q =
     (Some (output_of lu r run),
      measure (errors_of ctx run) (if run = Inl (StoppedLua OverMemory) then keep_vm (lu_vm_id lu) None q else q))"

lemma measure_nothing [simp]: "measure [] p = p"
  by (simp add: measure_def)

lemma lua_process_settled:
  "lua_process fuel L ip lu env r ctx p =
     (case worker_vm L ip lu p of
        (Inl e, p) \<Rightarrow> settled lu ctx r (Inl (StoppedLua e)) p
      | (Inr vm, p) \<Rightarrow>
          (case vm_run (fuel (lu_script lu)) L ip env ctx r vm p of
             None \<Rightarrow> (None, p)
           | Some (run, vm, p) \<Rightarrow> settled lu ctx r run (keep_vm (lu_vm_id lu) (Some vm) p)))"
  by (auto simp: lua_process_def settled_def on_failure_result Let_def
      split: prod.splits sum.splits option.splits returned.splits stopped.splits)

lemma settled_errors: "settled lu ctx r run q = (out, p') \<Longrightarrow> lua_errors p' = lua_errors q @ errors_of ctx run"
  by (cases "(ctx, run)" rule: errors_of.cases)
    (auto simp: settled_def lua_errors_def measure_def keep_vm_def lua_error_count_def is_lua_error_def)

lemma settled_rest: "settled lu ctx r run q = (out, p') \<Longrightarrow> vm_at_rest ok raised lu q \<Longrightarrow> vm_at_rest ok raised lu p'"
  by (auto simp: settled_def vm_at_rest_def measure_def keep_vm_def split: if_splits)

lemma settled_vm:
  "settled lu ctx r run q = (out, p') \<Longrightarrow> snd (w_store p') (lu_vm_id lu) = Some vm \<Longrightarrow>
     snd (w_store q) (lu_vm_id lu) = Some vm"
  by (auto simp: settled_def measure_def keep_vm_def split: if_splits)

context lua_runtime begin

lemma vm_new_at_rest: "vm_new L ip sc = Inr vm \<Longrightarrow> vm_script vm = sc \<and> ok (vm_state vm) \<and> raised (vm_state vm) = None"
  by (auto simp: vm_new_def split: sum.splits prod.splits lua_value.splits dest: boots)

text \<open>The node answers, counts a failure once, is ready for the next record, and a run past its budget is
  that failure, whatever the script catches.\<close>

lemma lua_process_answers:
  assumes "vm_at_rest ok raised lu p"
  shows "\<exists>run p'. lua_process (run_fuel every limit) L ip lu env r ctx p = (Some (output_of lu r run), p') \<and>
    lua_errors p' = lua_errors p @ errors_of ctx run \<and> vm_at_rest ok raised lu p' \<and>
    (\<forall>vm. snd (w_store p') (lu_vm_id lu) = Some vm \<and> sc_instructions (lu_script lu) < vm_used vm \<longrightarrow>
       run = Inl (StoppedLua OverBudget))"
proof -
  obtain x p1 where w: "worker_vm L ip lu p = (x, p1)" by force
  have q1: "lua_errors p1 = lua_errors p" using worker_vm_quiet [OF w] by (simp add: appends_quietly_def)
  show ?thesis
  proof (cases x)
    case (Inl e)
    let ?s = "settled lu ctx r (Inl (StoppedLua e)) p1"
    have rest: "vm_at_rest ok raised lu p1" and none: "snd (w_store p1) (lu_vm_id lu) = None"
      using w assms Inl by (auto simp: worker_vm_def split: option.splits sum.splits)
    obtain out p' where s: "?s = (out, p')" by force
    then have "out = Some (output_of lu r (Inl (StoppedLua e)))" by (simp add: settled_def)
    with s w Inl settled_errors [OF s] settled_rest [OF s rest] settled_vm [OF s] none q1 show ?thesis
      by (intro exI [where x = "Inl (StoppedLua e)"] exI [where x = p']) (auto simp: lua_process_settled)
  next
    case (Inr vm)
    have vm: "vm_script vm = lu_script lu" "ok (vm_state vm)" "raised (vm_state vm) = None"
      using w assms Inr vm_new_at_rest by (auto simp: worker_vm_def vm_at_rest_def split: option.splits sum.splits)
    from vm_run_ends [OF vm(2,3), of env ctx r p1] obtain run vm' p2 where
      run: "vm_run (run_fuel every limit (lu_script lu)) L ip env ctx r vm p1 = Some (run, vm', p2)"
      "vm_script vm' = lu_script lu" "ok (vm_state vm')" "raised (vm_state vm') = None"
      "sc_instructions (lu_script lu) < vm_used vm' \<longrightarrow> run = Inl (StoppedLua OverBudget)" using vm(1) by auto
    let ?p = "keep_vm (lu_vm_id lu) (Some vm') p2"
    have rest: "vm_at_rest ok raised lu ?p" and kept: "snd (w_store ?p) (lu_vm_id lu) = Some vm'"
      using run by (simp_all add: vm_at_rest_def keep_vm_def)
    have q2: "lua_errors ?p = lua_errors p1"
      using keep_vm_quiet [OF vm_run_quiet [OF run(1)]] by (simp add: appends_quietly_def)
    obtain out p' where s: "settled lu ctx r run ?p = (out, p')" by force
    then have "out = Some (output_of lu r run)" by (simp add: settled_def)
    with s w Inr run(1,5) settled_errors [OF s] settled_rest [OF s rest] settled_vm [OF s] kept q1 q2 show ?thesis
      by (intro exI [where x = run] exI [where x = p']) (auto simp: lua_process_settled)
  qed
qed

end

section \<open>The store beside the VMs\<close>

text \<open>A store keeps its contract for the stages of a worker that carries VMs beside it.\<close>

context state_store begin

lemma split_beside: "apsnd (\<lambda>s. (s, w)) x = (r, s') \<Longrightarrow> x = (r, fst s') \<and> snd s' = w"
  by (cases x) auto

lemma beside_vms_contract: "state_store (beside_vms ops) (\<lambda>s. view (fst s)) (\<lambda>s. up (fst s))"
proof (unfold_locales, goal_cases)
  case (1 s ttl k v r s')
  then show ?case using set_nx_up [of "fst s" ttl k v r "fst s'"] by (cases s) (auto simp: beside_vms_def dest: split_beside)
next
  case (2 s ttl k v u s')
  then show ?case using set_up [of "fst s" ttl k v u "fst s'"] by (cases s) (auto simp: beside_vms_def dest: split_beside)
next
  case (3 s ttl k x v r s')
  then show ?case
    using compare_and_set_up [of "fst s" ttl k x v r "fst s'"] by (cases s) (auto simp: beside_vms_def dest: split_beside)
next
  case (4 s k r s')
  then show ?case using get_up [of "fst s" k r "fst s'"] by (cases s) (auto simp: beside_vms_def dest: split_beside)
next
  case (5 s ttl k b n s')
  then have i: "so_incr ops k b ttl (fst s) = (n, fst s')" by (cases s) (auto simp: beside_vms_def dest: split_beside)
  show ?case by (rule incr_up [OF 5(1,2) i])
next
  case (6 s k u s')
  then show ?case using del_up [of "fst s" k u "fst s'"] by (cases s) (auto simp: beside_vms_def dest: split_beside)
next
  case (7 s k v ttl)
  then obtain e s' where "so_set_nx ops k v ttl (fst s) = (Inl e, s')" using set_nx_down by blast
  then show ?case by (cases s) (simp add: beside_vms_def)
next
  case (8 s k b ttl)
  then obtain e s' where "so_incr ops k b ttl (fst s) = (Inl e, s')" using incr_down by blast
  then show ?case by (cases s) (simp add: beside_vms_def)
next
  case (9 s k x v ttl)
  then obtain e s' where "so_compare_and_set ops k x v ttl (fst s) = (Inl e, s')" using compare_and_set_down by blast
  then show ?case by (cases s) (simp add: beside_vms_def)
qed

end

interpretation mem_beside_vms:
  state_store "beside_vms memory_ops" "\<lambda>s. mem_view (fst s)" "\<lambda>s. \<not> failing (fst s)"
  by (rule mem.beside_vms_contract)

section \<open>The registry of the binary\<close>

text \<open>\<open>ids\<close> gives each node built its number; \<open>NEXT_VM_ID\<close> is a counter of the process.\<close>

record 'v lua_setup =
  ls_lib :: lua_lib
  ls_interpreter :: "'v interpreter"
  ls_fuel :: "lua_script \<Rightarrow> nat"
  ls_read_file :: "string \<Rightarrow> string + string"
  ls_params :: "yaml \<Rightarrow> string + lua_params"
  ls_ids :: "node_config \<Rightarrow> nat"

definition lua_build :: "'v lua_setup \<Rightarrow> node_config \<Rightarrow> config_error + ('s \<times> 'v vms) stage" where
  "lua_build ls node =
     map_sum id (lua_stage (ls_fuel ls) (ls_lib ls) (ls_interpreter ls))
       (lua_from_node (ls_lib ls) (ls_interpreter ls) (ls_read_file ls) (ls_params ls) (ls_ids ls node) node)"

definition register_lua :: "'v lua_setup \<Rightarrow> ('s \<times> 'v vms, 'k) registry \<Rightarrow> ('s \<times> 'v vms, 'k) registry" where
  "register_lua ls g = register_stage ''lua'' (lua_build ls) g"

definition default_registry ::
  "texts \<Rightarrow> loader \<Rightarrow> (string \<Rightarrow> string) \<Rightarrow> deserializers \<Rightarrow> 'v lua_setup \<Rightarrow> ('s \<times> 'v vms, 'k) registry" where
  "default_registry tx ld sha dz ls = register_lua ls (register_all tx ld sha dz registry_new)"

lemma default_registry_ok:
  "registry_ok (dz_route dz) (default_registry tx ld sha dz ls :: ('s \<times> 'v vms, 'k) registry)"
  unfolding registry_ok_def
proof (intro allI impI)
  let ?g = "default_registry tx ld sha dz ls :: ('s \<times> 'v vms, 'k) registry"
  fix node st
  assume b: "build_stage ?g node = Inr st"
  show "stage_contract st \<and> routes_declared (dz_route dz) node st"
  proof (cases "node_kind node = ''lua''")
    case True
    with b obtain lu where "st = lua_stage (ls_fuel ls) (ls_lib ls) (ls_interpreter ls) lu"
      by (auto simp: build_stage_def default_registry_def register_lua_def register_stage_def lua_build_def map_sum_Inr_iff)
    then show ?thesis using lua_contract.stage_contract_axioms never_routes_declared [OF lua_never_routes] by blast
  next
    case False
    with b have "build_stage (register_all tx ld sha dz registry_new :: ('s \<times> 'v vms, 'k) registry) node = Inr st"
      by (simp add: build_stage_def default_registry_def register_lua_def register_stage_def)
    then show ?thesis by (rule register_all_stages)
  qed
qed

end
