(* ===== verification/Lua_Examples.thy ===== *)
theory Lua_Examples
  imports Lua_Node Examples
begin

text \<open>
  Interpreters to run the \<open>lua\<close> stage on. A \<open>player\<close> makes the calls of its plan one after the other and
  then returns, or goes on as \<open>while true do pcall(function() while true do end end) end\<close> does, under
  \<open>pl_depth\<close> nested calls of \<open>pcall\<close>. With \<open>pl_closing\<close> the inner function also has a to-be-closed variable
  whose closing function raises an error. Without it a player keeps the laws of \<open>lua_runtime\<close>; with it
  a run never ends, whatever its budget.
\<close>

record player =
  pl_plan :: "lua_event list"
  pl_result :: "lua_value option"
  pl_depth :: nat
  pl_closing :: bool

datatype play = Playing "lua_event list" | Over "mlua_error + lua_value" | Spinning | Raising nat mlua_error

definition closed_error :: mlua_error where "closed_error = RuntimeError ''closed''"

fun after_tick :: "nat \<Rightarrow> play \<Rightarrow> lua_answer \<Rightarrow> play" where
  "after_tick depth v (Reply (Inl e)) = Raising depth e"
| "after_tick depth v _ = v"

fun after_call :: "play \<Rightarrow> lua_answer \<Rightarrow> play" where
  "after_call v (Reply (Inl e)) = Over (Inl e)"
| "after_call v _ = v"

fun after_guard :: "nat \<Rightarrow> lua_answer \<Rightarrow> play" where
  "after_guard n (Reply (Inl e)) = Raising n e"
| "after_guard n _ = Spinning"

fun play_step :: "player \<Rightarrow> play \<Rightarrow> lua_heap \<Rightarrow> lua_event \<times> lua_heap \<times> (lua_answer \<Rightarrow> play)" where
  "play_step pl (Playing (ev # es)) h = (ev, h, if ev = HookTick then after_tick 0 (Playing es) else after_call (Playing es))"
| "play_step pl (Playing []) h =
     (case pl_result pl of
        Some v \<Rightarrow> (Ended (Inr v), h, \<lambda>_. Over (Inr LNil))
      | None \<Rightarrow> (HookTick, h, after_tick (pl_depth pl) Spinning))"
| "play_step pl (Over r) h = (Ended r, h, \<lambda>_. Over (Inr LNil))"
| "play_step pl Spinning h = (HookTick, h, after_tick (pl_depth pl) Spinning)"
| "play_step pl (Raising 0 e) h = (Ended (Inl e), h, \<lambda>_. Over (Inr LNil))"
| "play_step pl (Raising (Suc n) e) h =
     (Guarded False (Inl (if pl_closing pl then closed_error else e)), h, after_guard n)"

definition play_interpreter :: "player \<Rightarrow> play interpreter" where
  "play_interpreter pl =
     \<lparr>ip_new = (\<lambda>sc. Inr (Over (Inr LNil), [])), ip_exec = (\<lambda>sc v h. (Inr (), v, h)),
      ip_process = (\<lambda>v. Inr (LFunction 0)), ip_call = (\<lambda>a m v. Playing (pl_plan pl)), ip_step = play_step pl\<rparr>"

section \<open>A player keeps the laws\<close>

definition play_ok :: "player \<Rightarrow> play \<Rightarrow> bool" where
  "play_ok pl v =
     (case v of
        Playing es \<Rightarrow> length es \<le> length (pl_plan pl) \<and> list_all (\<lambda>ev. \<not> stops ev) es
      | Raising n e \<Rightarrow> n \<le> pl_depth pl
      | _ \<Rightarrow> True)"

definition play_raised :: "play \<Rightarrow> mlua_error option" where
  "play_raised v = (case v of Raising n e \<Rightarrow> Some e | _ \<Rightarrow> None)"

definition play_rank :: "play \<Rightarrow> nat" where
  "play_rank v = (case v of Playing es \<Rightarrow> Suc (length es) | Raising n e \<Rightarrow> n | _ \<Rightarrow> 0)"

lemmas play_defs = play_ok_def play_raised_def play_rank_def

lemma after_tick_play:
  "after_tick d v a = v \<or> (\<exists>e. a = Reply (Inl e) \<and> after_tick d v a = Raising d e)"
  by (cases "(d, v, a)" rule: after_tick.cases) auto

lemma after_call_play: "after_call v a = v \<or> (\<exists>e. after_call v a = Over (Inl e))"
  by (cases "(v, a)" rule: after_call.cases) auto

lemma after_guard_play: "after_guard n a = Spinning \<or> (\<exists>e. after_guard n a = Raising n e)"
  by (cases "(n, a)" rule: after_guard.cases) auto

lemma play_steps:
  assumes "play_ok pl v" "play_step pl v h = (ev, h', go)"
  obtains es where "v = Playing (ev # es)" "go = (if ev = HookTick then after_tick 0 (Playing es) else after_call (Playing es))"
  | r where "v = Playing []" "ev = Ended (Inr r)" "go = (\<lambda>_. Over (Inr LNil))"
  | "v \<in> {Playing [], Spinning}" "ev = HookTick" "go = after_tick (pl_depth pl) Spinning"
  | r where "v = Over r" "ev = Ended r" "go = (\<lambda>_. Over (Inr LNil))"
  | e where "v = Raising 0 e" "ev = Ended (Inl e)" "go = (\<lambda>_. Over (Inr LNil))"
  | n e where "v = Raising (Suc n) e" "ev = Guarded False (Inl (if pl_closing pl then closed_error else e))" "go = after_guard n"
  using assms(2) by (cases "(pl, v, h)" rule: play_step.cases) (auto split: option.splits)

lemma player_runtime:
  assumes "\<not> pl_closing pl" "list_all (\<lambda>ev. \<not> stops ev) (pl_plan pl)"
  shows "lua_runtime reference_lib (play_interpreter pl) (Suc (length (pl_plan pl))) (pl_depth pl)
    (play_ok pl) play_raised play_rank"
proof (unfold_locales, goal_cases)
  case 1
  show ?case by (simp add: reference_lib_def)
next
  case (2 sc v h u v' h')
  then show ?case by (auto simp: play_interpreter_def play_defs)
next
  case (3 v a m)
  then show ?case using assms(2) by (simp add: play_interpreter_def play_defs)
next
  case (4 v h ev h' go answer)
  then have "play_step pl v h = (ev, h', go)" by (simp add: play_interpreter_def)
  from 4(1) this show ?case
  proof (rule play_steps, goal_cases)
    case (1 es)
    then show ?case
      using 4(1) after_tick_play [of 0 "Playing es" answer] after_call_play [of "Playing es" answer]
      by (auto simp: play_ok_def)
  next
    case 3
    then show ?case using 4(1) after_tick_play [of "pl_depth pl" Spinning answer] by (auto simp: play_ok_def)
  next
    case (6 n e)
    then show ?case using 4(1) after_guard_play [of n answer] by (auto simp: play_ok_def)
  qed (simp_all add: play_ok_def)
next
  case (5 v h r h' go answer)
  then have "play_step pl v h = (Ended r, h', go)" by (simp add: play_interpreter_def)
  from 5(1) this show ?case
    by (rule play_steps) (use 5(1) in \<open>auto simp: play_defs\<close>)
next
  case (6 v h ev h' go answer)
  then have "play_step pl v h = (ev, h', go)" by (simp add: play_interpreter_def)
  from 6(1) this show ?case
  proof (rule play_steps, goal_cases)
    case (1 es)
    then show ?case using 6(4) after_call_play [of "Playing es" answer] by (auto simp: play_defs)
  qed (use 6(2,4,5) in \<open>auto simp: play_defs\<close>)
next
  case (7 v h h' go vs e)
  then have "play_step pl v h = (HookTick, h', go)" by (simp add: play_interpreter_def)
  from 7(1) this show ?case
    by (rule play_steps) (use 7(1) in \<open>auto simp: play_defs\<close>)
next
  case (8 v e h ev h' go x)
  then have "play_step pl v h = (ev, h', go)" by (simp add: play_interpreter_def)
  from 8(1) this show ?case
    by (rule play_steps) (use 8(2,4) assms(1) in \<open>auto simp: play_defs\<close>)
qed

text \<open>The loop that catches its own end, under two calls of \<open>pcall\<close>, and a plan of ordinary calls.\<close>

definition spinner :: player where
  "spinner = \<lparr>pl_plan = [], pl_result = None, pl_depth = 2, pl_closing = False\<rparr>"

definition counter_player :: player where
  "counter_player =
     \<lparr>pl_plan = [CallNow, HookTick, CallIncr ''seen'' 1 60000], pl_result = Some LNil, pl_depth = 0, pl_closing = False\<rparr>"

interpretation spinner: lua_runtime reference_lib "play_interpreter spinner" 1 2 "play_ok spinner" play_raised play_rank
  using player_runtime [of spinner] by (simp add: spinner_def)

interpretation counter: lua_runtime reference_lib "play_interpreter counter_player" 4 0 "play_ok counter_player"
  play_raised play_rank
  using player_runtime [of counter_player] by (simp add: counter_player_def eval_nat_numeral)

section \<open>A closing function outlives the budget\<close>

definition closer :: player where
  "closer = \<lparr>pl_plan = [], pl_result = None, pl_depth = 1, pl_closing = True\<rparr>"

lemma closed_caught: "protected reference_lib False (Inl closed_error) h = Reply (Inr [lua_value.LBool False, lua_value.LStr ''closed''])"
  by (simp add: protected_def guardrail_def reference_lib_def closed_error_def create_string_def caught_message_def)

lemma closing_never_ends:
  assumes "vm_state vm \<in> {Playing [], Spinning} \<or> (\<exists>e. vm_state vm = Raising 1 e)"
  shows "script_loop n reference_lib (play_interpreter closer) env cur vm p = None"
  using assms
proof (induction n arbitrary: vm p)
  case (Suc n)
  obtain ev h go where s: "play_step closer (vm_state vm) (vm_heap vm) = (ev, h, go)" by (metis prod_cases3)
  obtain answer h' used p' where a: "answer_event reference_lib env (vm_script vm) cur ev h (vm_used vm) p = (answer, h', used, p')"
    by (metis prod_cases4)
  have "go answer = Spinning \<or> (\<exists>e. go answer = Raising 1 e)" "\<not> stops ev"
    using Suc.prems s a after_tick_play [of 1 Spinning answer]
    by (auto simp: closer_def One_nat_def answer_event_def closed_caught)
  with Suc.IH [of "vm\<lparr>vm_state := go answer, vm_heap := h', vm_used := used\<rparr>" p'] s a show ?case
    by (cases ev) (auto simp: play_interpreter_def Let_def)
qed simp

lemma player_has_vm: "\<exists>vm p'. worker_vm reference_lib (play_interpreter pl) lu p = (Inr vm, p')"
  by (simp add: worker_vm_def vm_new_def play_interpreter_def split: option.split)

lemma null_prepared: "\<exists>v m h'. vm_prepare reference_lib JNull h = Inr (v, m, h')"
  by (simp add: vm_prepare_def hand_over_def fresh_behind_def create_table_def reference_lib_def lua_null_def)

lemma closing_run: "vm_run n reference_lib (play_interpreter closer) env ctx JNull vm p = None"
proof -
  obtain v m h' where v: "vm_prepare reference_lib JNull (vm_heap vm) = Inr (v, m, h')" using null_prepared by blast
  have "ip_call (play_interpreter closer) v m s = Playing []" for s by (simp add: play_interpreter_def closer_def)
  then show ?thesis by (simp add: vm_run_def Let_def v closing_never_ends)
qed

section \<open>A record to hand over\<close>

definition example_crossing :: rec_value where
  "example_crossing = JObj [(''items'', JArr [JNull, JNum (PosInt 7), JArr []]), (''name'', JStr ''acme'')]"

definition handed_heap :: lua_heap where
  "handed_heap =
     [\<lparr>tb_pairs = [(lua_value.LStr ''items'', LTable 1), (lua_value.LStr ''name'', lua_value.LStr ''acme'')], tb_meta = Some (RecordMt ShapeObject)\<rparr>,
      \<lparr>tb_pairs = [(lua_value.LInt 1, lua_null), (lua_value.LInt 2, lua_value.LInt 7), (lua_value.LInt 3, LTable 2)], tb_meta = Some ListMt\<rparr>,
      \<lparr>tb_pairs = [], tb_meta = Some ListMt\<rparr>]"

lemma example_crosses:
  "crosses example_crossing" "nests_within MAX_DEPTH example_crossing" "text_bytes example_crossing \<le> 64"
proof -
  have "is_utf8 ''items''" "is_utf8 ''name''" "is_utf8 ''acme''" by code_simp+
  moreover have "wf_obj [(''items'', JArr [JNull, JNum (PosInt 7), JArr []]), (''name'', JStr ''acme'')]" by code_simp
  ultimately show "crosses example_crossing" by (simp add: example_crossing_def)
qed (simp_all add: example_crossing_def MAX_DEPTH_def)

lemma example_handed: "hand_over reference_lib example_crossing [] = Inr (LTable 0, handed_heap)"
  by (simp add: example_crossing_def hand_over_def create_table_def create_string_def raw_set_def reference_lib_def
      table_at_def raw_put_def plain_table_def unsigned_to_lua_def set_metatable_def mark_record_def lua_null_def
      handed_heap_def)

lemma handed_heap_ok: "heap_ok handed_heap"
  by (simp add: heap_ok_def handed_heap_def in_heap_def lua_null_def)

section \<open>A script to scan\<close>

definition example_tokens :: "lua_token list" where
  "example_tokens =
     [TkName ''a'', TkSpace CHR '' '', TkSymbol CHR ''='', TkSpace CHR '' '', TkName ''b'', TkSymbol DOT, TkName ''os'',
      TkComment '' os'', TkSpace NEWLINE, TkName ''os'']"

lemma example_tokens_ok: "tokens_ok example_tokens" "source_text example_tokens = ''a = b.os-- os'' @ [NEWLINE] @ ''os''"
proof -
  show "tokens_ok example_tokens"
    by (simp add: example_tokens_def source_text_def starts_with_byte_def name_start_def name_byte_def is_ascii_alphanumeric_def
        is_ascii_alphabetic_def is_ascii_digit_def is_ascii_whitespace_def byte_def NEWLINE_def
        long_bracket_def)
  show "source_text example_tokens = ''a = b.os-- os'' @ [NEWLINE] @ ''os''" by code_simp
qed

lemma example_token_names: "token_names False 1 example_tokens = [(''b'', 1), (''os'', 2)]"
  by code_simp

section \<open>A pipeline with a lua node\<close>

definition lua_source :: string where
  "lua_source = ''function process(record) state.incr(\"seen\", 1, 60000) end''"

definition example_lua_params :: lua_params where
  "example_lua_params =
     \<lparr>lp_script = None, lp_source = Some lua_source, lp_limits = lua_limits_default, lp_on_error = ErrorNak,
      lp_on_state_error = Some PolicyPass\<rparr>"

definition example_setup :: "play lua_setup" where
  "example_setup =
     \<lparr>ls_lib = reference_lib, ls_interpreter = play_interpreter counter_player,
      ls_fuel = run_fuel 4 0, ls_read_file = (\<lambda>_. Inl ''no such file''), ls_params = (\<lambda>_. Inr example_lua_params),
      ls_ids = (\<lambda>_. 1)\<rparr>"

definition lua_config :: config where
  "lua_config =
     \<lparr>cfg_name = ''logs'', cfg_workers = None, cfg_source = None,
      cfg_nodes =
        [\<lparr>node_id = ''shape'', node_kind = ''lua'', node_from = [''source''], node_params = YMapping []\<rparr>,
         \<lparr>node_id = ''out'', node_kind = ''sink.memory'', node_from = [''shape''], node_params = YMapping []\<rparr>]\<rparr>"

definition lua_dag :: dag where
  "lua_dag = projr (dag_from_config example_routes lua_config)"

lemma lua_dag_loads: "dag_from_config example_routes lua_config = Inr lua_dag"
proof -
  have "\<not> isl (dag_from_config example_routes lua_config)" by code_simp
  then show ?thesis by (simp add: lua_dag_def)
qed

lemma lua_dag_nodes: "dag_nodes lua_dag = cfg_nodes lua_config"
  by code_simp

definition example_sinks :: "(string \<times> (node_config \<Rightarrow> config_error + memory_sinks sink)) list" where
  "example_sinks = [(''sink.memory'', memory_sink_build (\<lambda>_. Some ''{}''))]"

definition lua_registry :: "(state_data \<times> play vms, memory_sinks) registry" where
  "lua_registry =
     fold (\<lambda>(kind, factory). register_sink kind factory) example_sinks
       (default_registry example_texts example_loader (\<lambda>s. s) example_deserializers example_setup)"

lemma example_script_names:
  "free_names lua_source =
     [(''function'', 1), (''process'', 1), (''record'', 1), (''state'', 1), (''end'', 1)]"
  by code_simp

definition lua_example_node :: lua_node where
  "lua_example_node =
     \<lparr>lu_vm_id = 1, lu_script = script_of (hd (cfg_nodes lua_config)) lua_limits_default ''=shape'' lua_source,
      lu_on_error = ErrorNak, lu_on_state_error = PolicyPass, lu_uses_state = True\<rparr>"

lemma lua_example_loads:
  "lua_from_node reference_lib (play_interpreter counter_player) f (\<lambda>_. Inr example_lua_params) 1 (hd (cfg_nodes lua_config))
     = Inr lua_example_node"
  by (simp add: lua_from_node_def parse_params_def example_lua_params_def script_source_def check_limits_def at_least_def
      lua_limits_default_def MIN_MEMORY_KIB_def example_script_names FORBIDDEN_def vm_new_def play_interpreter_def
      lua_example_node_def lua_config_def)

definition lua_pipeline :: "(state_data \<times> play vms, memory_sinks) pipeline" where
  "lua_pipeline = projr (pipeline_compile example_routes lua_config lua_registry)"

lemma lua_pipeline_compiles: "pipeline_compile example_routes lua_config lua_registry = Inr lua_pipeline"
proof -
  have "\<not> isl (pipeline_compile example_routes lua_config lua_registry)"
    unfolding pipeline_compile_def lua_dag_loads sum.case lua_dag_nodes
    using lua_example_loads [of "\<lambda>_. Inl ''no such file''"]
    by (simp add: build_node_def build_stage_def build_sink_def is_sink_def starts_with_def lua_registry_def example_sinks_def
        default_registry_def register_lua_def register_stage_def register_sink_def lua_build_def example_setup_def
        memory_sink_build_def lua_config_def)
  then show ?thesis by (simp add: lua_pipeline_def)
qed

text \<open>A worker on an empty store, with no VM yet.\<close>

definition lua_env :: "(state_data \<times> play vms) environment" where
  "lua_env =
     \<lparr>en_pipeline = ''logs'', en_ops = beside_vms memory_ops, en_signals = signals_new,
      en_instant = (\<lambda>n. n), en_wall = (\<lambda>n. n)\<rparr>"

definition lua_port :: "(state_data \<times> play vms) port" where
  "lua_port = \<lparr>w_store = (state_data_new, \<lambda>_. None), w_measures = [], w_ticks = 0\<rparr>"

end
