(* ===== verification/Engine_Traces.thy ===== *)
theory Engine_Traces
  imports Engine
begin

text \<open>
  The shape of a trace: while a record is walked, every span is opened under a span opened before it, or
  under the delivery, so a trace that is exported is a tree below its delivery span.
\<close>

section \<open>The buffer\<close>

text \<open>The parents of the drafts, each before the draft; a handle is the draft's position.\<close>

definition spans_nested :: "trace_buffer \<Rightarrow> bool" where
  "spans_nested b \<longleftrightarrow>
     (tb_tracing b \<longrightarrow> tb_opened b = length (tb_drafts b)) \<and>
     (\<forall>i < length (tb_drafts b). case dr_parent (tb_drafts b ! i) of None \<Rightarrow> True | Some p \<Rightarrow> p < i)"

text \<open>What a close or a failure leaves of a buffer: its drafts with their nodes and parents.\<close>

definition same_drafts :: "trace_buffer \<Rightarrow> trace_buffer \<Rightarrow> bool" where
  "same_drafts b b' \<longleftrightarrow>
     tb_tracing b' = tb_tracing b \<and> tb_opened b' = tb_opened b \<and> map dr_parent (tb_drafts b') = map dr_parent (tb_drafts b)"

lemma same_drafts_refl [simp]: "same_drafts b b"
  by (simp add: same_drafts_def)

lemma same_drafts_trans: "same_drafts a b \<Longrightarrow> same_drafts b c \<Longrightarrow> same_drafts a c"
  by (simp add: same_drafts_def)

lemma same_drafts_length: "same_drafts b b' \<Longrightarrow> length (tb_drafts b') = length (tb_drafts b)"
  unfolding same_drafts_def by (metis length_map)

lemma same_drafts_nested: "same_drafts b b' \<Longrightarrow> spans_nested b \<Longrightarrow> spans_nested b'"
  using same_drafts_length [of b b'] unfolding same_drafts_def spans_nested_def
  by (metis (no_types, lifting) nth_map)

lemma buffer_close_same [simp]: "same_drafts b (buffer_close at fin result b)"
  by (auto simp: buffer_close_def same_drafts_def map_update list_update_same_conv)

lemma buffer_fail_open_same [simp]: "same_drafts b (buffer_fail_open fin failure error b)"
  by (auto simp: buffer_fail_open_def same_drafts_def)

text \<open>The handles that are open: positions of drafts, when there are any.\<close>

definition handle_in :: "nat option \<Rightarrow> trace_buffer \<Rightarrow> bool" where
  "handle_in parent b \<longleftrightarrow> (tb_tracing b \<longrightarrow> (case parent of None \<Rightarrow> True | Some p \<Rightarrow> p < length (tb_drafts b)))"

lemma buffer_open_nested:
  assumes "buffer_open node parent start b = (span, b')" "spans_nested b" "handle_in parent b"
  shows "spans_nested b' \<and> handle_in (Some span) b' \<and> tb_tracing b' = tb_tracing b \<and> length (tb_drafts b) \<le> length (tb_drafts b')"
proof (cases "tb_tracing b")
  case True
  let ?d = "\<lparr>dr_node = node, dr_parent = parent, dr_start = start, dr_result = None, dr_end = start\<rparr>"
  have b': "b' = b\<lparr>tb_opened := tb_opened b + 1, tb_drafts := tb_drafts b @ [?d]\<rparr>" "span = length (tb_drafts b)"
    using assms(1,2) True by (auto simp: buffer_open_def Let_def spans_nested_def)
  have "case dr_parent ((tb_drafts b @ [?d]) ! i) of None \<Rightarrow> True | Some p \<Rightarrow> p < i" if "i < Suc (length (tb_drafts b))" for i
    using assms(2,3) True that by (auto simp: spans_nested_def handle_in_def nth_append less_Suc_eq)
  then show ?thesis using assms(2) True by (simp add: b' spans_nested_def handle_in_def)
next
  case False
  then show ?thesis using assms by (auto simp: buffer_open_def Let_def spans_nested_def handle_in_def)
qed

section \<open>The walk\<close>

text \<open>A walk only adds spans, each below one that is there.\<close>

definition spans_grow :: "('s, 'k) walking \<Rightarrow> ('s, 'k) walking \<Rightarrow> bool" where
  "spans_grow s s' \<longleftrightarrow>
     (let b = wk_spans (fst s); b' = wk_spans (fst s')
      in tb_tracing b' = tb_tracing b \<and> length (tb_drafts b) \<le> length (tb_drafts b') \<and> (spans_nested b \<longrightarrow> spans_nested b'))
     \<and> w_traces (snd s') = w_traces (snd s)"

lemma spans_grow_refl [simp]: "spans_grow s s"
  by (simp add: spans_grow_def Let_def)

lemma spans_grow_trans: "spans_grow s t \<Longrightarrow> spans_grow t u \<Longrightarrow> spans_grow s u"
  by (simp add: spans_grow_def Let_def)

lemma spans_grow_same:
  assumes "same_drafts (wk_spans (fst s)) (wk_spans (fst s'))" "w_traces (snd s') = w_traces (snd s)"
  shows "spans_grow s s'"
  using same_drafts_length [OF assms(1)] same_drafts_nested [OF assms(1)] assms
  by (simp add: spans_grow_def Let_def same_drafts_def)

lemma handle_in_grows: "handle_in parent (wk_spans (fst s)) \<Longrightarrow> spans_grow s s' \<Longrightarrow> handle_in parent (wk_spans (fst s'))"
  by (auto simp: handle_in_def spans_grow_def Let_def split: option.splits)

lemma walk_fail_spans: "spans_grow s (walk_fail env m key at ended kind error s)"
  by (rule spans_grow_same) (cases s; cases "at_span at"; simp add: walk_fail_def Let_def measure_def emit_def)+

lemma close_span_spans: "spans_grow s (close_span span ended result s)"
  by (rule spans_grow_same) (cases s; simp add: close_span_def)+

lemma measured_spans: "spans_grow s (measured ms s)"
  by (rule spans_grow_same) (cases s; simp add: measured_def measure_def)+

lemmas walk_spans = walk_fail_spans close_span_spans measured_spans
  spans_grow_trans [OF measured_spans close_span_spans] spans_grow_trans [OF measured_spans walk_fail_spans]

lemma settle_output_spans:
  "settle_output env d m key i st at span ended out s = (h, s') \<Longrightarrow> spans_grow s s'"
  by (auto simp: settle_output_def Let_def walk_spans
      split: stage_output.splits state_policy.splits if_splits)

lemma visit_node_spans:
  assumes "handle_in parent (wk_spans (fst s))" "spans_nested (wk_spans (fst s))"
  shows "visit_node env pl m key index r parent s = Finished (span, h, s') \<Longrightarrow>
      spans_grow s s' \<and> handle_in (Some span) (wk_spans (fst s'))"
    and "visit_node env pl m key index r parent s = Panicked (span, h, s') \<Longrightarrow> spans_grow s s'"
proof -
  obtain wk w where s: "s = (wk, w)" by (cases s)
  let ?n = "node_id (dag_node (pl_dag pl) index)"
  define engine where
    "engine = (case pl_nodes pl ! index of CSink _ \<Rightarrow> None | CStage st \<Rightarrow> st_engine st)"
  define l where "l = with_engine engine (labels_new (tenant m) ?n)"
  obtain started w1 where w1: "read_instant env (measure (records_in l) w) = (started, w1)" by force
  obtain span1 spans where sp: "buffer_open ?n parent started (wk_spans wk) = (span1, spans)" by force
  define at where "at = \<lparr>at_labels = l, at_span = Some span1\<rparr>"
  define wk1 where "wk1 = wk\<lparr>wk_spans := spans, wk_at := Some at\<rparr>"
  have t1: "w_traces w1 = w_traces w" using w1 by (auto simp: read_instant_def measure_def)
  from buffer_open_nested [OF sp] assms have o: "spans_grow s (wk1, w1)" "handle_in (Some span1) (wk_spans wk1)"
    by (auto simp: s t1 spans_grow_def Let_def wk1_def)
  have both: "spans_grow s s' \<and> handle_in (Some span1) (wk_spans (fst s'))" if "spans_grow (wk1, w1) s'" for s'
    using spans_grow_trans [OF o(1) that] handle_in_grows [OF _ that] o(2) by simp
  have world: "spans_grow (wk1, w1) (wk1, w')" if "w_traces w' = w_traces w1" for w'
    using that by (simp add: spans_grow_same)
  show "spans_grow s s' \<and> handle_in (Some span) (wk_spans (fst s'))"
    if v: "visit_node env pl m key index r parent s = Finished (span, h, s')"
  proof (cases "pl_nodes pl ! index")
    case (CSink sink)
    have e: "engine = None" by (simp add: engine_def CSink)
    obtain written k where k: "sk_write sink m r (w_sinks w1) = (written, k)" by force
    obtain ended w2 where w2: "read_instant env (w1\<lparr>w_sinks := k\<rparr>) = (ended, w2)" by force
    let ?w = "measure (sink_publish_duration l (ended - started)) w2"
    from v k w1 w2 sp CSink obtain result where res: "written = Some result" and x: "span = span1"
      "s' = (case result of
          Inr bytes \<Rightarrow> close_span span1 ended SWritten (measured (bytes_out l bytes) (measured (records_out l 1) (wk1, ?w)))
        | Inl err \<Rightarrow> walk_fail env m key at ended SinkErrorKind err (measured (sink_publish_error l) (wk1, ?w)))"
      by (cases written) (auto simp: visit_node_def Let_def s l_def e wk1_def at_def split: sum.splits)
    have "spans_grow (wk1, w1) (wk1, ?w)" by (rule world) (use w2 in \<open>auto simp: measure_def read_instant_def\<close>)
    moreover have "spans_grow (wk1, ?w) s'"
      unfolding x by (cases result) (auto intro: spans_grow_trans [OF measured_spans] walk_spans)
    ultimately have "spans_grow (wk1, w1) s'" by (rule spans_grow_trans)
    with both x(1) show ?thesis by simp
  next
    case (CStage st)
    have e: "engine = st_engine st" by (simp add: engine_def CStage)
    obtain out p where p: "st_process st env r (make_context env m ?n st) (port_of w1) = (out, p)" by force
    obtain ended w2 where w2: "read_instant env (put_port p w1) = (ended, w2)" by force
    from v p w1 w2 sp CStage obtain outp where x: "span = span1" and
      so: "settle_output env (pl_dag pl) m key index st at span1 ended outp
        (wk1, measure (stage_duration l (ended - started)) w2) = (h, s')"
      by (cases out) (auto simp: visit_node_def Let_def s l_def e wk1_def at_def split: prod.splits)
    have "spans_grow (wk1, w1) (wk1, measure (stage_duration l (ended - started)) w2)"
      by (rule world) (use w2 in \<open>auto simp: measure_def read_instant_def put_port_def\<close>)
    from spans_grow_trans [OF this settle_output_spans [OF so]] show ?thesis using both x by simp
  qed
  show "spans_grow s s'" if v: "visit_node env pl m key index r parent s = Panicked (span, h, s')"
  proof (cases "pl_nodes pl ! index")
    case (CSink sink)
    have e: "engine = None" by (simp add: engine_def CSink)
    obtain written k where k: "sk_write sink m r (w_sinks w1) = (written, k)" by force
    from v k w1 sp CSink have "s' = (wk1, w1\<lparr>w_sinks := k\<rparr>)"
      by (auto simp: visit_node_def Let_def s l_def e wk1_def at_def split: option.splits sum.splits prod.splits)
    then have "spans_grow (wk1, w1) s'" using world by simp
    then show ?thesis using both by blast
  next
    case (CStage st)
    have e: "engine = st_engine st" by (simp add: engine_def CStage)
    obtain out p where p: "st_process st env r (make_context env m ?n st) (port_of w1) = (out, p)" by force
    from v p w1 sp CStage have "s' = (wk1, put_port p w1)"
      by (cases out) (auto simp: visit_node_def Let_def s l_def e wk1_def at_def split: prod.splits)
    then have "spans_grow (wk1, w1) s'" using world by (simp add: put_port_def)
    then show ?thesis using both by blast
  qed
qed

lemma leave_spans: "spans_grow s (leave s)"
  by (rule spans_grow_same) (cases s; simp add: leave_def)+

text \<open>Where a walk ends, by itself or by a panic.\<close>

definition grows_to :: "('s, 'k) walking \<Rightarrow> ('s, 'k) walking run \<Rightarrow> bool" where
  "grows_to s x \<longleftrightarrow> (case x of Finished s' \<Rightarrow> spans_grow s s' | Panicked s' \<Rightarrow> spans_grow s s' | NoFuel \<Rightarrow> True)"

lemma grows_to_trans: "spans_grow s t \<Longrightarrow> grows_to t x \<Longrightarrow> grows_to s x"
  by (auto simp: grows_to_def intro: spans_grow_trans split: run.splits)

lemma spans_grow_nested: "spans_grow s s' \<Longrightarrow> spans_nested (wk_spans (fst s)) \<Longrightarrow> spans_nested (wk_spans (fst s'))"
  by (simp add: spans_grow_def Let_def)

lemma walk_spans_grow:
  "handle_in parent (wk_spans (fst s)) \<Longrightarrow> spans_nested (wk_spans (fst s)) \<Longrightarrow>
     grows_to s (run_node n env pl m key index r parent s)"
  "handle_in parent (wk_spans (fst s)) \<Longrightarrow> spans_nested (wk_spans (fst s)) \<Longrightarrow>
     grows_to s (fan_out n env pl m key ts r parent s)"
  "handle_in parent (wk_spans (fst s)) \<Longrightarrow> spans_nested (wk_spans (fst s)) \<Longrightarrow>
     grows_to s (fan_all n env pl m key ts rs parent s)"
proof (induction n env pl m key index r parent s and n env pl m key ts r parent s
    and n env pl m key ts rs parent s rule: run_node_fan_out_fan_all.induct)
  case (2 n env pl m key index r parent s)
  show ?case
  proof (cases "visit_node env pl m key index r parent s")
    case (Finished x)
    obtain span h t where x: "x = (span, h, t)" by (cases x)
    note v = Finished [unfolded x]
    from visit_node_spans(1) [OF 2(2,3) v] have g: "spans_grow s t" "handle_in (Some span) (wk_spans (fst t))" by simp_all
    from 2(1) [OF v refl refl g(2) spans_grow_nested [OF g(1) 2(3)]] g(1) show ?thesis by (simp add: v grows_to_trans)
  next
    case (Panicked x)
    obtain span h t where x: "x = (span, h, t)" by (cases x)
    show ?thesis using visit_node_spans(2) [OF 2(2,3) Panicked [unfolded x]] by (simp add: Panicked x grows_to_def)
  qed (simp add: grows_to_def)
next
  case (4 n env pl m key t ts r parent s)
  show ?case
  proof (cases "run_node n env pl m key t r parent s")
    case (Finished u)
    have "spans_grow s u" using 4(1) [OF 4(3,4)] Finished by (simp add: grows_to_def)
    from spans_grow_trans [OF this leave_spans] have g: "spans_grow s (leave u)" .
    from 4(2) [OF Finished handle_in_grows [OF 4(3) g] spans_grow_nested [OF g 4(4)]] g
    show ?thesis by (simp add: Finished grows_to_trans)
  next
    case (Panicked u)
    then show ?thesis using 4(1) [OF 4(3,4)] by (simp add: grows_to_def)
  qed (simp add: grows_to_def)
next
  case (6 n env pl m key ts r rs parent s)
  show ?case
  proof (cases "fan_out n env pl m key ts r parent s")
    case (Finished u)
    have g: "spans_grow s u" using 6(1) [OF 6(3,4)] Finished by (simp add: grows_to_def)
    from 6(2) [OF Finished handle_in_grows [OF 6(3) g] spans_grow_nested [OF g 6(4)]] g
    show ?thesis by (simp add: Finished grows_to_trans)
  next
    case (Panicked u)
    then show ?thesis using 6(1) [OF 6(3,4)] by (simp add: grows_to_def)
  qed (simp add: grows_to_def)
qed (simp_all add: grows_to_def)

section \<open>The traces that are exported\<close>

text \<open>A trace is rooted when its delivery has an id and each of its spans is under it or under a span
  before.\<close>

definition rooted :: "record_trace \<Rightarrow> bool" where
  "rooted t \<longleftrightarrow> rt_span_id t \<noteq> 0 \<and>
     (\<forall>i < length (rt_spans t). ns_parent (rt_spans t ! i) = rt_span_id t \<or>
        (\<exists>j < i. ns_parent (rt_spans t ! i) = ns_span_id (rt_spans t ! j)))"

lemma buffer_finish_rooted:
  assumes "spans_nested b"
  shows "rooted (fst (buffer_finish k m settlement now b))"
  unfolding rooted_def
proof (intro conjI allI impI)
  let ?t = "fst (buffer_finish k m settlement now b)"
  show "rt_span_id ?t \<noteq> 0" by (simp add: buffer_finish_def Let_def delivery_span_id_def span_id_nonzero)
  fix i
  assume "i < length (rt_spans ?t)"
  then have i: "i < length (tb_drafts b)" by (simp add: buffer_finish_def Let_def)
  have s: "rt_spans ?t ! j = finish_span k (delivery_count m) (\<lambda>x. tb_started_at b + (x - tb_started b)) now (j, tb_drafts b ! j)"
    if "j < length (tb_drafts b)" for j
    using that by (simp add: buffer_finish_def Let_def nth_enumerate_eq)
  show "ns_parent (rt_spans ?t ! i) = rt_span_id ?t \<or> (\<exists>j < i. ns_parent (rt_spans ?t ! i) = ns_span_id (rt_spans ?t ! j))"
  proof (cases "dr_parent (tb_drafts b ! i)")
    case None
    then show ?thesis unfolding s [OF i] by (auto simp: finish_span_def buffer_finish_def Let_def split: option.splits)
  next
    case (Some p)
    then have p: "p < i" using assms i by (auto simp: spans_nested_def)
    then have "ns_parent (rt_spans ?t ! i) = ns_span_id (rt_spans ?t ! p)"
      using i unfolding s [OF i] s [OF order.strict_trans [OF p i]]
      by (auto simp: finish_span_def Let_def Some split: option.splits)
    with p show ?thesis by blast
  qed
qed

lemma walk_record_spans:
  assumes "walk_record fuel env pl m r spans w = Some s'" "spans_nested spans"
  shows "spans_nested (wk_spans (fst s')) \<and> w_traces (snd s') = w_traces w"
proof -
  let ?s = "(\<lparr>wk_at = None, wk_failure = None, wk_spans = spans\<rparr>, w)"
  have g: "grows_to ?s (fan_out fuel env pl m (trace_key_of m) (dag_sources (pl_dag pl)) r None ?s)"
    by (rule walk_spans_grow(2)) (simp_all add: handle_in_def assms(2))
  have "spans_grow ?s s'"
  proof (cases "fan_out fuel env pl m (trace_key_of m) (dag_sources (pl_dag pl)) r None ?s")
    case (Finished t)
    with assms(1) g show ?thesis by (simp add: walk_record_def grows_to_def)
  next
    case (Panicked t)
    obtain wk w1 where t: "t = (wk, w1)" by (cases t)
    obtain now w2 where now: "read_instant env w1 = (now, w2)" by force
    have "spans_grow ?s (wk, w1)" using g by (simp add: Panicked t grows_to_def)
    moreover have "spans_grow (wk, w1) (wk, w2)"
      by (rule spans_grow_same) (use now in \<open>auto simp: read_instant_def\<close>)
    moreover have "spans_grow (wk, w2) s'"
    proof -
      let ?p = "''stage or sink panicked''"
      let ?at = "case wk_at wk of Some at \<Rightarrow> at | None \<Rightarrow> \<lparr>at_labels = labels_new (tenant m) SOURCE_ID, at_span = None\<rparr>"
      obtain wk3 w3 where f: "walk_fail env m (trace_key_of m) ?at now PanicKind ?p (wk, w2) = (wk3, w3)" by force
      have s': "s' = (wk3\<lparr>wk_spans := buffer_fail_open now PanicKind ?p (wk_spans wk3)\<rparr>, w3)"
        using assms(1) by (simp add: walk_record_def Let_def Panicked t now f)
      have "spans_grow (wk, w2) (wk3, w3)" unfolding f [symmetric] by (rule walk_fail_spans)
      moreover have "spans_grow (wk3, w3) s'" unfolding s' by (rule spans_grow_same) simp_all
      ultimately show ?thesis by (rule spans_grow_trans)
    qed
    ultimately show ?thesis using spans_grow_trans by blast
  qed (use assms(1) in \<open>simp add: walk_record_def\<close>)
  then show ?thesis using assms(2) by (simp add: spans_grow_def Let_def)
qed

lemma keep_trace_rooted:
  assumes "spans_nested (wk_spans (fst s))" "keep_trace env m s = (b, w')"
  shows "\<exists>ts. w_traces w' = w_traces (snd s) @ ts \<and> list_all rooted ts"
  using assms buffer_finish_rooted [OF assms(1)]
  by (auto simp: keep_trace_def export_trace_def read_instant_def Let_def split: prod.splits if_splits) (metis fst_conv)+

lemma handle_traces_rooted:
  assumes "handle fuel env pl e spans w = Some (outcome, spans', w')" "tb_tracing spans \<or> tb_drafts spans = []"
  shows "\<exists>ts. w_traces w' = w_traces w @ ts \<and> list_all rooted ts"
proof -
  obtain b w1 where b: "walk_begin env spans w = (b, w1)" by force
  have b1: "spans_nested b" "w_traces w1 = w_traces w"
    using b assms(2) by (auto simp: walk_begin_def buffer_begin_def spans_nested_def Let_def read_instant_def read_wall_def split: if_splits)
  obtain resolved w2 where r: "resolve_now env (en_arrival e) w1 = (resolved, w2)" by force
  have w2: "w_traces w2 = w_traces w1"
    using r by (auto simp: resolve_now_def unix_nanos_now_def read_wall_def Let_def split: if_splits prod.splits)
  have i: "w_traces (intake env (en_arrival e) resolved w2) = w_traces w2"
    by (simp add: intake_def Let_def measure_def emit_def split: option.split)
  show ?thesis
  proof (cases resolved)
    case (Inl rejected)
    with assms(1) b r i w2 b1(2) show ?thesis
      by (auto simp: handle_def Let_def reject_def measure_def emit_def log_nak_def split: prod.splits rejection.splits)
  next
    case (Inr m)
    with assms(1) b r obtain s where s: "walk_record fuel env pl m (en_record e) b
        (measure (records_out (labels_new (tenant m) SOURCE_ID) 1) (intake env (en_arrival e) resolved w2)) = Some s"
      "settle_walk env m s = (outcome, spans', w')"
      by (auto simp: handle_def Let_def)
    note ws = walk_record_spans [OF s(1) b1(1)]
    obtain b2 w3 where k: "keep_trace env m s = (b2, w3)" by force
    from keep_trace_rooted [OF _ k] ws obtain ts where "w_traces w3 = w_traces (snd s) @ ts" "list_all rooted ts" by auto
    moreover have "w_traces w' = w_traces w3"
      using s(2) k by (auto simp: settle_walk_def Let_def measure_def emit_def log_nak_def unix_nanos_now_def read_wall_def
          split: option.splits ingestion_time.splits prod.splits if_splits)
    ultimately show ?thesis using ws i w2 b1(2) by (auto simp: measure_def)
  qed
qed

end
