(* ===== verification/Harness_Expect.thy ===== *)
theory Harness_Expect
  imports Sample
begin

text \<open>
  The load-test harness, \<open>crates/harness/src/loghub.rs\<close> and \<open>expect.rs\<close>: the log sets it replays, the
  lines loaded from them, and what the producer expects of every message. Reading files and CSV rows
  is I/O and a third-party crate: a set is loaded from the lines of its log and the rows of its table.
\<close>

section \<open>The sets\<close>

definition MAIN :: string where "MAIN = ''processed.loghub.main''"

definition AUDIT :: string where "AUDIT = ''processed.loghub.audit''"

record log_set =
  se_name :: string
  se_tenant :: string
  se_columns :: "string list"
  se_subjects :: "string list"

definition SETS :: "log_set list" where
  "SETS =
     [\<lparr>se_name = ''Linux'', se_tenant = ''linux'',
       se_columns = [''Month'', ''Date'', ''Time'', ''Level'', ''Component'', ''PID'', ''Content''],
       se_subjects = [MAIN, AUDIT]\<rparr>,
      \<lparr>se_name = ''OpenSSH'', se_tenant = ''openssh'',
       se_columns = [''Date'', ''Day'', ''Time'', ''Component'', ''Pid'', ''Content''], se_subjects = [MAIN]\<rparr>,
      \<lparr>se_name = ''Apache'', se_tenant = ''apache'',
       se_columns = [''Time'', ''Level'', ''Content''], se_subjects = [MAIN]\<rparr>,
      \<lparr>se_name = ''Mac'', se_tenant = ''mac'',
       se_columns = [''Month'', ''Date'', ''Time'', ''User'', ''Component'', ''PID'', ''Address'', ''Content''],
       se_subjects = [MAIN]\<rparr>]"

definition set_named :: "string \<Rightarrow> log_set option" where
  "set_named name = List.find (\<lambda>s. se_name s = name) SETS"

record log_line =
  ln_id :: nat
  ln_body :: string
  ln_attributes :: "(string \<times> string) list"

definition payload :: "log_set \<Rightarrow> log_line \<Rightarrow> u64 \<Rightarrow> u64 \<Rightarrow> json" where
  "payload s l cycle observed =
     JObj (fold (\<lambda>(k, v). obj_insert k v)
       [(''observed_time_unix_nano'', JNum (PosInt observed)),
        (''body'', JStr (ln_body l)),
        (''resource'', JObj [(''log.format'', JStr (se_name s))]),
        (''attributes'', JObj (fold (\<lambda>(k, v). obj_insert k v)
           [(''loghub.line_id'', JNum (PosInt (of_nat (ln_id l)))), (''loghub.cycle'', JNum (PosInt cycle))] []))] [])"

text \<open>\<open>str::trim_end\<close>, and the suffix \<open>.0\<close> cut off a run of digits.\<close>

definition trim_end :: "string \<Rightarrow> string" where
  "trim_end s = concat (rev (dropWhile is_whitespace (rev (utf8_chars s))))"

definition strip_suffix :: "string \<Rightarrow> string \<Rightarrow> string option" where
  "strip_suffix p s = map_option rev (strip_prefix (rev p) (rev s))"

definition normalise :: "string \<Rightarrow> string \<Rightarrow> string" where
  "normalise column cell =
     (let trimmed = (if column = ''Content'' then trim_end cell else cell)
      in case strip_suffix ''.0'' trimmed of
           Some digits \<Rightarrow> if digits \<noteq> [] \<and> list_all is_ascii_digit digits then digits else trimmed
         | None \<Rightarrow> trimmed)"

section \<open>Loading a set\<close>

datatype load_error = LoadRead string | LoadCsv string | LoadShape string

definition index_of :: "string \<Rightarrow> string list \<Rightarrow> nat option" where
  "index_of name headers = map_option fst (List.find (\<lambda>(i, h). h = name) (enumerate 0 headers))"

definition column_index :: "string list \<Rightarrow> string \<Rightarrow> load_error + nat" where
  "column_index headers name =
     (case index_of name headers of
        Some at \<Rightarrow> Inr at
      | None \<Rightarrow> Inl (LoadShape (''no `'' @ name @ ''` column'')))"

fun column_indices :: "string list \<Rightarrow> string list \<Rightarrow> load_error + (string \<times> nat) list" where
  "column_indices headers [] = Inr []"
| "column_indices headers (c # cs) =
     (case column_index headers c of
        Inl e \<Rightarrow> Inl e
      | Inr at \<Rightarrow> map_sum id (Cons (c, at)) (column_indices headers cs))"

definition cell :: "string list \<Rightarrow> nat \<Rightarrow> string" where
  "cell row at = (if at < length row then row ! at else [])"

definition row_attributes :: "(string \<times> nat) list \<Rightarrow> string list \<Rightarrow> (string \<times> string) list" where
  "row_attributes columns row =
     fold (\<lambda>(column, at) m.
         let v = normalise column (cell row at) in if v = [] then m else obj_insert column v m) columns []"

fun load_rows ::
  "string list \<Rightarrow> nat \<Rightarrow> (string \<times> nat) list \<Rightarrow> (string + string list) list \<Rightarrow> string list \<Rightarrow> log_line list
     \<Rightarrow> load_error + log_line list" where
  "load_rows raw line_id_at columns [] seen lines = Inr lines"
| "load_rows raw line_id_at columns (Inl e # rows) seen lines = Inl (LoadCsv e)"
| "load_rows raw line_id_at columns (Inr row # rows) seen lines =
     (case parse_unsigned 64 (cell row line_id_at) of
        None \<Rightarrow> Inl (LoadShape (''LineId `'' @ cell row line_id_at @ ''` is not a number''))
      | Some line_id \<Rightarrow>
          if line_id = 0 \<or> length raw < line_id then
            Inl (LoadShape (''LineId '' @ show_nat line_id @ '' is past the raw log''))
          else (let body = raw ! (line_id - 1)
                in if body \<in> set seen then load_rows raw line_id_at columns rows seen lines
                   else load_rows raw line_id_at columns rows (body # seen)
                          (lines @ [\<lparr>ln_id = line_id, ln_body = body, ln_attributes = row_attributes columns row\<rparr>])))"

definition load_set :: "string list \<Rightarrow> string list \<Rightarrow> (string + string list) list \<Rightarrow> log_set \<Rightarrow> load_error + log_line list" where
  "load_set raw headers rows s =
     (case column_index headers ''LineId'' of
        Inl e \<Rightarrow> Inl e
      | Inr at \<Rightarrow>
          (case column_indices headers (se_columns s) of
             Inl e \<Rightarrow> Inl e
           | Inr columns \<Rightarrow> map_sum id (sort_key ln_id) (load_rows raw at columns rows [] [])))"

section \<open>Expectations\<close>

definition PIPELINE_NAME :: string where "PIPELINE_NAME = ''poc''"

definition SAMPLE_PERCENT :: f64 where "SAMPLE_PERCENT = f64_of_int 90"

definition sample_keeps :: "nat \<Rightarrow> u64 \<Rightarrow> bool" where
  "sample_keeps line_id cycle \<longleftrightarrow>
     share_keeps (share_from_percent SAMPLE_PERCENT)
       (mix (fnv1a64 (''['' @ show_nat line_id @ '','' @ show_u64 cycle @ '']'')))"

record edits =
  ew_set :: "(string \<times> string) list"
  ew_copied :: "(string \<times> string) list"

definition edits_written_in :: "edits \<Rightarrow> (string \<times> json) list \<Rightarrow> bool" where
  "edits_written_in w attributes \<longleftrightarrow>
     list_all (\<lambda>(name, v). obj_get attributes name = Some (JStr v)) (ew_set w) \<and>
     list_all (\<lambda>(target, source). obj_get attributes target = obj_get attributes source) (ew_copied w)"

definition edits_poc :: edits where
  "edits_poc = \<lparr>ew_set = [(''pipeline'', PIPELINE_NAME)], ew_copied = [(''service'', ''Component'')]\<rparr>"

record lua_writes =
  lw_lengths :: "(string \<times> string) list"

fun as_str :: "json \<Rightarrow> string option" where
  "as_str (JStr s) = Some s"
| "as_str _ = None"

fun as_u64 :: "json \<Rightarrow> u64 option" where
  "as_u64 (JNum (PosInt w)) = Some w"
| "as_u64 _ = None"

definition lua_written_in :: "lua_writes \<Rightarrow> (string \<times> json) list \<Rightarrow> bool" where
  "lua_written_in w attributes \<longleftrightarrow>
     list_all (\<lambda>(target, source).
       map_option as_u64 (obj_get attributes target) =
         map_option (\<lambda>t. Some (of_nat (length t))) (Option.bind (obj_get attributes source) as_str)) (lw_lengths w)"

definition lua_poc :: lua_writes where
  "lua_poc = \<lparr>lw_lengths = [(''content_bytes'', ''Content'')]\<rparr>"

record expected =
  ex_id :: u64
  ex_set :: string
  ex_tenant :: string
  ex_line_id :: nat
  ex_cycle :: u64
  ex_dup_of :: "u64 option"
  ex_subjects :: "string list"
  ex_drop :: "drop_reason option"
  ex_attributes :: "(string \<times> string) list"
  ex_edits :: edits
  ex_lua :: lua_writes

type_synonym group = "string \<times> nat \<times> u64"

definition ex_group :: "expected \<Rightarrow> group" where
  "ex_group e = (ex_set e, ex_line_id e, ex_cycle e)"

definition ex_describe :: "expected \<Rightarrow> string" where
  "ex_describe e = ''id '' @ show_u64 (ex_id e) @ '' ('' @ ex_set e @ '' LineId '' @ show_nat (ex_line_id e) @ '')''"

definition dedupe_subject :: "expected \<Rightarrow> string option" where
  "dedupe_subject e = (case ex_subjects e of s # _ \<Rightarrow> Some s | [] \<Rightarrow> None)"

definition expectation :: "u64 \<Rightarrow> log_set \<Rightarrow> log_line \<Rightarrow> u64 \<Rightarrow> u64 option \<Rightarrow> expected" where
  "expectation i s l cycle dup_of =
     \<lparr>ex_id = i, ex_set = se_name s, ex_tenant = se_tenant s, ex_line_id = ln_id l, ex_cycle = cycle,
      ex_dup_of = dup_of,
      ex_subjects = filter (\<lambda>sub. sub \<noteq> MAIN \<or> sample_keeps (ln_id l) cycle) (se_subjects s),
      ex_drop = map_option (\<lambda>_. DropDedupe) dup_of, ex_attributes = ln_attributes l,
      ex_edits = edits_poc, ex_lua = lua_poc\<rparr>"

section \<open>Facts\<close>

lemma set_named_SETS: "s \<in> set SETS \<Longrightarrow> set_named (se_name s) = Some s"
proof -
  have "list_all (\<lambda>s. set_named (se_name s) = Some s) SETS" by code_simp
  then show "s \<in> set SETS \<Longrightarrow> set_named (se_name s) = Some s" by (simp add: list_all_iff)
qed

lemma expectation_group: "ex_group (expectation i s l cycle dup) = (se_name s, ln_id l, cycle)"
  by (simp add: ex_group_def expectation_def)

text \<open>What a group must reach is decided by its set, line and cycle: duplicates agree on it.\<close>

lemma expectation_subjects:
  assumes "s \<in> set SETS" "s' \<in> set SETS"
    and "ex_group (expectation i s l cycle dup) = ex_group (expectation i' s' l' cycle' dup')"
  shows "ex_subjects (expectation i s l cycle dup) = ex_subjects (expectation i' s' l' cycle' dup')"
proof -
  from assms(3) have "se_name s = se_name s'" "ln_id l = ln_id l'" "cycle = cycle'" by (simp_all add: expectation_group)
  moreover from this(1) assms(1,2) set_named_SETS have "s = s'" by (metis option.inject)
  ultimately show ?thesis by (simp add: expectation_def)
qed

lemma expectation_subjects_distinct: "s \<in> set SETS \<Longrightarrow> distinct (ex_subjects (expectation i s l cycle dup))"
proof -
  have "list_all (\<lambda>s. distinct (se_subjects s)) SETS" by code_simp
  then show "s \<in> set SETS \<Longrightarrow> distinct (ex_subjects (expectation i s l cycle dup))"
    by (simp add: list_all_iff expectation_def)
qed

text \<open>A set loads as one line per distinct body, each under the first row that has it, in the order of their ids.\<close>

lemma load_rows_lines:
  assumes "load_rows raw at columns rows seen lines = Inr out" "distinct (map ln_body lines)" "set (map ln_body lines) = set seen"
    and "\<forall>l \<in> set lines. 0 < ln_id l \<and> ln_id l \<le> length raw \<and> ln_body l = raw ! (ln_id l - 1)"
  shows "distinct (map ln_body out) \<and> (\<forall>l \<in> set out. 0 < ln_id l \<and> ln_id l \<le> length raw \<and> ln_body l = raw ! (ln_id l - 1))"
  using assms
proof (induction raw at columns rows seen lines rule: load_rows.induct)
  case (3 raw at columns row rows seen lines)
  then show ?case by (auto simp: Let_def split: option.splits if_splits)
qed auto

lemma load_set_lines:
  assumes "load_set raw headers rows s = Inr lines"
  shows "sorted (map ln_id lines) \<and> distinct (map ln_id lines) \<and> distinct (map ln_body lines) \<and>
    (\<forall>l \<in> set lines. 0 < ln_id l \<and> ln_id l \<le> length raw \<and> ln_body l = raw ! (ln_id l - 1))"
proof -
  from assms obtain at columns out where l: "load_rows raw at columns rows [] [] = Inr out" "lines = sort_key ln_id out"
    by (auto simp: load_set_def map_sum_Inr_iff split: sum.splits)
  note r = load_rows_lines [OF l(1), simplified]
  have "distinct (map ln_id out)"
    using r by (auto simp: distinct_map inj_on_def)
  with r show ?thesis by (simp add: l(2) distinct_map)
qed

end
