(* ===== verification/Otel.thy ===== *)
theory Otel
  imports Events Engine_Traces Harness_Expect
begin

text \<open>
  \<open>crates/otel/src\<close>: what the pipeline's measurements, events and kept traces become on the OpenTelemetry
  side, and which signals are on. The SDK behind it (batching, the wire, its threads) is not modelled: a
  signal is the list of what is handed to its processor. The variables of the environment, the builders
  of the exporters and what \<open>/proc\<close> holds are arguments.
\<close>

section \<open>Attributes\<close>

text \<open>An OTLP integer is an \<open>i64\<close>.\<close>

datatype otel_value = OStr string | OInt int

type_synonym attributes = "(string \<times> otel_value) list"

definition saturating_i64 :: "u64 \<Rightarrow> int" where
  "saturating_i64 v = min (int (unat v)) (2 ^ 63 - 1)"

section \<open>Metrics\<close>

text \<open>\<open>metric as usize\<close>: the position of a value in its declaration.\<close>

fun counter_position :: "counter_metric \<Rightarrow> nat" where
  "counter_position RecordsIn = 0" | "counter_position RecordsOut = 1" | "counter_position RecordsDropped = 2"
| "counter_position RecordsErrored = 3" | "counter_position StateOps = 4" | "counter_position StateErrors = 5"
| "counter_position LuaErrors = 6" | "counter_position RegexNonmatch = 7" | "counter_position EditUnapplied = 8"
| "counter_position SourceNaks = 9" | "counter_position SourceRedeliveries = 10"
| "counter_position SourceInvalidHeaders = 11" | "counter_position Dlq = 12" | "counter_position DlqPublishErrors = 13"
| "counter_position SinkPublishErrors = 14" | "counter_position BytesIn = 15" | "counter_position BytesOut = 16"

fun histogram_position :: "histogram_metric \<Rightarrow> nat" where
  "histogram_position StageDuration = 0" | "histogram_position StateOpDuration = 1"
| "histogram_position DlqPublishDuration = 2" | "histogram_position SinkPublishDuration = 3"
| "histogram_position EndToEnd = 4"

text \<open>The boundaries of a histogram's buckets, in units of ten microseconds.\<close>

definition SECONDS_BOUNDARIES :: "nat list" where
  "SECONDS_BOUNDARIES =
     [10, 25, 50, 100, 250, 500, 1000, 2500, 5000, 10000, 25000, 50000, 100000, 250000, 500000, 1000000]"

definition END_TO_END_BOUNDARIES :: "nat list" where
  "END_TO_END_BOUNDARIES =
     [100, 250, 500, 1000, 2500, 5000, 10000, 25000, 50000, 100000, 250000, 500000, 1000000, 3000000, 6000000, 12000000]"

record histogram_instrument =
  hi_name :: string
  hi_unit :: string
  hi_boundaries :: "nat list"

record recorder =
  rc_counters :: "string list"
  rc_histograms :: "histogram_instrument list"

definition recorder_new :: recorder where
  "recorder_new =
     \<lparr>rc_counters = map counter_str counter_ALL,
      rc_histograms = map (\<lambda>h. \<lparr>hi_name = histogram_str h, hi_unit = ''s'',
        hi_boundaries = (if h = EndToEnd then END_TO_END_BOUNDARIES else SECONDS_BOUNDARIES)\<rparr>) histogram_ALL\<rparr>"

definition label_attributes :: "labels \<Rightarrow> attributes" where
  "label_attributes l = map (\<lambda>(name, v). (name, OStr v)) (label_pairs l)"

text \<open>A call on an instrument. Indexing past the array would panic (\<open>None\<close>).\<close>

datatype instrument_call = AddTo string u64 attributes | RecordIn histogram_instrument f64 attributes

fun otlp_record :: "recorder \<Rightarrow> measure \<Rightarrow> instrument_call option" where
  "otlp_record r (Count metric l by) =
     (let i = counter_position metric
      in if i < length (rc_counters r) then Some (AddTo (rc_counters r ! i) by (label_attributes l)) else None)"
| "otlp_record r (Observe metric l v) =
     (let i = histogram_position metric
      in if i < length (rc_histograms r) then Some (RecordIn (rc_histograms r ! i) v (label_attributes l)) else None)"

section \<open>Events\<close>

fun severity_str :: "severity \<Rightarrow> string" where
  "severity_str Info = ''info''"
| "severity_str Warn = ''warn''"
| "severity_str SevError = ''error''"

record log_record =
  lg_event_name :: string
  lg_timestamp :: nat
  lg_severity :: severity
  lg_severity_text :: string
  lg_body :: string
  lg_attributes :: attributes
  lg_trace :: "(trace_id \<times> span_id) option"

text \<open>\<open>now\<close> is the wall clock.\<close>

definition otlp_emit :: "nat \<Rightarrow> event \<Rightarrow> log_record" where
  "otlp_emit now e =
     (let kind = event_kind_str (ev_kind e)
      in \<lparr>lg_event_name = kind, lg_timestamp = now, lg_severity = severity_of (ev_kind e),
          lg_severity_text = severity_str (severity_of (ev_kind e)),
          lg_body = (if ev_message e = [] then kind else ev_message e),
          lg_attributes =
            [(''event'', OStr kind)]
            @ (case ev_record e of Some i \<Rightarrow> [(''record.id'', OStr (show_u64 i))] | None \<Rightarrow> [])
            @ [(''tenant'', OStr (ev_tenant e)), (''node'', OStr (ev_node e))]
            @ (case ev_failure e of Some f \<Rightarrow> [(''reason'', OStr (failure_kind_str f))] | None \<Rightarrow> [])
            @ [(''delivery_count'', OInt (saturating_i64 (ev_delivery e)))]
            @ (case ev_sequence e of Some n \<Rightarrow> [(''stream_sequence'', OInt (saturating_i64 n))] | None \<Rightarrow> []),
          lg_trace = map_option (\<lambda>t. (tc_trace t, tc_span t)) (ev_trace e)\<rparr>)"

section \<open>Traces\<close>

datatype span_status = Unset | StatusError string

record span_data =
  sp_trace :: trace_id
  sp_id :: span_id
  sp_parent :: span_id
  sp_name :: string
  sp_start :: nat
  sp_end :: nat
  sp_attributes :: attributes
  sp_status :: span_status

text \<open>\<open>SpanId::INVALID\<close>.\<close>

definition SPAN_INVALID :: span_id where "SPAN_INVALID = 0"

definition node_attributes :: "attributes \<Rightarrow> node_span \<Rightarrow> attributes \<times> span_status" where
  "node_attributes shared s =
     (let attributes = shared @ [(''node'', OStr (ns_node s)),
            (''outcome'', OStr (span_outcome_str (span_result_outcome (ns_result s))))]
      in case ns_result s of
           SPass \<Rightarrow> (attributes, Unset)
         | SStateErrorPass \<Rightarrow> (attributes, Unset)
         | SWritten \<Rightarrow> (attributes, Unset)
         | SRouted label \<Rightarrow> (attributes @ [(''label'', OStr label)], Unset)
         | SSplit records \<Rightarrow> (attributes @ [(''records'', OInt (saturating_i64 records))], Unset)
         | SDrop reason \<Rightarrow> (attributes @ [(''reason'', OStr (drop_reason_str reason))], Unset)
         | SError failure error \<Rightarrow> (attributes @ [(''failure'', OStr (failure_kind_str failure))], StatusError error))"

definition shared_attributes :: "record_trace \<Rightarrow> attributes" where
  "shared_attributes t = [(''record.id'', OStr (show_u64 (rt_record_id t))), (''tenant'', OStr (rt_tenant t))]"

definition node_span_data :: "record_trace \<Rightarrow> node_span \<Rightarrow> span_data" where
  "node_span_data t s =
     (let (attributes, status) = node_attributes (shared_attributes t) s
      in \<lparr>sp_trace = rt_trace_id t, sp_id = ns_span_id s, sp_parent = ns_parent s, sp_name = ns_node s,
          sp_start = ns_start s, sp_end = ns_end s, sp_attributes = attributes, sp_status = status\<rparr>)"

definition delivery_span_data :: "record_trace \<Rightarrow> span_data" where
  "delivery_span_data t =
     \<lparr>sp_trace = rt_trace_id t, sp_id = rt_span_id t, sp_parent = SPAN_INVALID, sp_name = ''delivery'',
      sp_start = rt_start t, sp_end = rt_end t,
      sp_attributes = shared_attributes t @ [(''delivery_count'', OInt (saturating_i64 (rt_delivery t))),
        (''settlement'', OStr (settlement_str (rt_settlement t)))],
      sp_status = (case rt_settlement t of SettleAck \<Rightarrow> Unset | SettleNak \<Rightarrow> StatusError ''nak'')\<rparr>"

text \<open>The spans in the order they are handed to the batch processor.\<close>

definition otlp_export :: "record_trace \<Rightarrow> span_data list" where
  "otlp_export t = map (node_span_data t) (rt_spans t) @ [delivery_span_data t]"

section \<open>Which signals are on\<close>

definition OTEL_ENDPOINT :: string where "OTEL_ENDPOINT = ''OTEL_EXPORTER_OTLP_ENDPOINT''"
definition OTEL_METRICS_ENDPOINT :: string where "OTEL_METRICS_ENDPOINT = ''OTEL_EXPORTER_OTLP_METRICS_ENDPOINT''"
definition OTEL_LOGS_ENDPOINT :: string where "OTEL_LOGS_ENDPOINT = ''OTEL_EXPORTER_OTLP_LOGS_ENDPOINT''"
definition OTEL_TRACES_ENDPOINT :: string where "OTEL_TRACES_ENDPOINT = ''OTEL_EXPORTER_OTLP_TRACES_ENDPOINT''"
definition OTEL_SAMPLER_ARG :: string where "OTEL_SAMPLER_ARG = ''OTEL_TRACES_SAMPLER_ARG''"

datatype otel_error = ExporterError string string | SamplerArgError string | ShutdownError string string

definition otel_configured :: "(string \<Rightarrow> string option) \<Rightarrow> string \<Rightarrow> bool" where
  "otel_configured env specific \<longleftrightarrow>
     list_ex (\<lambda>var. case env var of Some v \<Rightarrow> trim_text v \<noteq> [] | None \<Rightarrow> False) [specific, OTEL_ENDPOINT]"

definition otel_exporter ::
  "(string \<Rightarrow> string option) \<Rightarrow> string \<Rightarrow> string \<Rightarrow> string + 'x \<Rightarrow> otel_error + 'x option" where
  "otel_exporter env signal specific build =
     (if \<not> otel_configured env specific then Inr None
      else (case build of Inr x \<Rightarrow> Inr (Some x) | Inl err \<Rightarrow> Inl (ExporterError signal err)))"

text \<open>\<open>(0.0..=1.0).contains\<close> on doubles.\<close>

definition in_unit :: "f64 \<Rightarrow> bool" where
  "in_unit w \<longleftrightarrow> f64_partial_cmp 0 w \<in> {Some Less, Some Equal} \<and> f64_partial_cmp w (f64_of_int 1) \<in> {Some Less, Some Equal}"

definition otel_sampling :: "string option \<Rightarrow> otel_error + trace_sampling" where
  "otel_sampling arg =
     (case (case arg of None \<Rightarrow> None | Some t \<Rightarrow> if trim_text t = [] then None else Some (trim_text t)) of
        None \<Rightarrow> Inr (trace_sampling_ratio DEFAULT_SAMPLE_RATIO)
      | Some t \<Rightarrow>
          (case parse_f64 t of
             Some ratio \<Rightarrow> if in_unit ratio then Inr (trace_sampling_ratio ratio) else Inl (SamplerArgError t)
           | None \<Rightarrow> Inl (SamplerArgError t)))"

text \<open>The telemetry: a provider per signal that is on, and the signals the engine is given. Events go
  to the exporter, or else to stderr.\<close>

datatype event_target = ToOtlp | ToStderr

record 'x telemetry =
  te_meters :: "'x option"
  te_logs :: "'x option"
  te_traces :: "'x option"
  te_events :: event_target
  te_signals :: signals

record 'x builders =
  bu_metrics :: "string + 'x"
  bu_logs :: "string + 'x"
  bu_traces :: "string + 'x"

definition otel_init :: "(string \<Rightarrow> string option) \<Rightarrow> 'x builders \<Rightarrow> otel_error + 'x telemetry" where
  "otel_init env b =
     (case otel_exporter env ''metrics'' OTEL_METRICS_ENDPOINT (bu_metrics b) of Inl e \<Rightarrow> Inl e | Inr meters \<Rightarrow>
      case otel_exporter env ''logs'' OTEL_LOGS_ENDPOINT (bu_logs b) of Inl e \<Rightarrow> Inl e | Inr logs \<Rightarrow>
      case otel_exporter env ''traces'' OTEL_TRACES_ENDPOINT (bu_traces b) of Inl e \<Rightarrow> Inl e | Inr traces \<Rightarrow>
      case (case traces of
              None \<Rightarrow> Inr signals_new
            | Some x \<Rightarrow> map_sum id (\<lambda>s. with_traces s signals_new) (otel_sampling (env OTEL_SAMPLER_ARG))) of
        Inl e \<Rightarrow> Inl e | Inr signals \<Rightarrow>
      Inr \<lparr>te_meters = meters, te_logs = logs, te_traces = traces,
           te_events = (if logs = None then ToStderr else ToOtlp), te_signals = signals\<rparr>)"

definition otel_exported :: "'x telemetry \<Rightarrow> string" where
  "otel_exported t =
     (let on = List.map_filter id [map_option (\<lambda>_. ''metrics'') (te_meters t), map_option (\<lambda>_. ''logs'') (te_logs t),
        map_option (\<lambda>_. ''traces'') (te_traces t)]
      in if on = [] then ''off'' else join '', '' on)"

text \<open>Every provider is shut down, in the order of the signals, then the first error is reported. The
  result pairs what was shut down with it.\<close>

definition otel_shutdown :: "('x \<Rightarrow> string + unit) \<Rightarrow> 'x telemetry \<Rightarrow> 'x list \<times> (otel_error + unit)" where
  "otel_shutdown stop t =
     (let on = List.map_filter id [map_option (Pair ''metrics'') (te_meters t), map_option (Pair ''logs'') (te_logs t),
        map_option (Pair ''traces'') (te_traces t)]
      in (map snd on,
          case List.find (\<lambda>(signal, x). isl (stop x)) on of
            None \<Rightarrow> Inr ()
          | Some (signal, x) \<Rightarrow> Inl (ShutdownError signal (case stop x of Inl e \<Rightarrow> e | Inr u \<Rightarrow> []))))"

text \<open>The instance id: the hostname, else \<open>HOSTNAME\<close>, else the process id.\<close>

definition otel_instance :: "string option \<Rightarrow> string option \<Rightarrow> nat \<Rightarrow> string" where
  "otel_instance hostname_file hostname_var pid =
     (case (case hostname_file of None \<Rightarrow> None | Some h \<Rightarrow> if trim_text h = [] then None else Some (trim_text h)) of
        Some h \<Rightarrow> h
      | None \<Rightarrow>
          (case (case hostname_var of None \<Rightarrow> None | Some h \<Rightarrow> if h = [] then None else Some h) of
             Some h \<Rightarrow> h
           | None \<Rightarrow> show_nat pid))"

section \<open>The process\<close>

text \<open>The first word of a text: \<open>split_whitespace().next()\<close>.\<close>

definition first_word :: "string \<Rightarrow> string option" where
  "first_word s =
     (let w = takeWhile (\<lambda>p. \<not> is_whitespace p) (dropWhile is_whitespace (utf8_chars s))
      in if w = [] then None else Some (concat w))"

text \<open>\<open>str::lines\<close>: a line ends at a newline, with or without a carriage return before it.\<close>

definition text_lines :: "string \<Rightarrow> string list" where
  "text_lines s =
     (let pieces = split_on CHR 0x0A s;
          pieces = (if last pieces = [] then butlast pieces else pieces)
      in map (\<lambda>(i, l). if i < length (split_on CHR 0x0A s) - 1 \<and> l \<noteq> [] \<and> last l = CHR 0x0D then butlast l else l)
           (enumerate 0 pieces))"

definition cpu_seconds :: "string option \<Rightarrow> f64 option" where
  "cpu_seconds schedstat =
     map_option (\<lambda>nanos. f64_div (f64_of_int (int (unat nanos))) (f64_of_int (10 ^ 9)))
       (Option.bind (Option.bind schedstat first_word) parse_u64)"

definition find_map :: "('a \<Rightarrow> 'b option) \<Rightarrow> 'a list \<Rightarrow> 'b option" where
  "find_map f xs = (case List.map_filter f xs of [] \<Rightarrow> None | y # ys \<Rightarrow> Some y)"

definition status_field :: "string option \<Rightarrow> string \<Rightarrow> u64 option" where
  "status_field status key =
     Option.bind (Option.bind (Option.bind status (\<lambda>s. find_map (strip_prefix key) (text_lines s))) first_word) parse_u64"

datatype process_observation = CpuTime f64 | MemoryUsage u64 | ThreadCount u64

text \<open>What the three callbacks observe; bytes wrap at the width, as a release build's product does.\<close>

definition process_observe :: "string option \<Rightarrow> string option \<Rightarrow> process_observation list" where
  "process_observe schedstat status =
     List.map_filter id
       [map_option CpuTime (cpu_seconds schedstat),
        map_option (\<lambda>kib. MemoryUsage (kib * 1024)) (status_field status ''VmRSS:''),
        map_option ThreadCount (status_field status ''Threads:'')]"

section \<open>Facts\<close>

text \<open>A measurement reaches the instrument of its metric: no index is past the arrays, and each array is
  in the order the values are declared.\<close>

lemma counter_position: "counter_position c < length counter_ALL \<and> counter_ALL ! counter_position c = c"
  by (cases c) (simp_all add: counter_ALL_def)

lemma histogram_position: "histogram_position h < length histogram_ALL \<and> histogram_ALL ! histogram_position h = h"
  by (cases h) (simp_all add: histogram_ALL_def)

lemma otlp_record_named:
  "otlp_record recorder_new (Count c l by) = Some (AddTo (counter_str c) by (label_attributes l))"
  "otlp_record recorder_new (Observe h l v) =
     Some (RecordIn \<lparr>hi_name = histogram_str h, hi_unit = ''s'',
       hi_boundaries = (if h = EndToEnd then END_TO_END_BOUNDARIES else SECONDS_BOUNDARIES)\<rparr> v (label_attributes l))"
  using counter_position [of c] histogram_position [of h] by (simp_all add: recorder_new_def Let_def)

lemma boundaries_sorted: "sorted_wrt (<) SECONDS_BOUNDARIES" "sorted_wrt (<) END_TO_END_BOUNDARIES"
  by (simp_all add: SECONDS_BOUNDARIES_def END_TO_END_BOUNDARIES_def)

text \<open>No signal carries two attributes of one name.\<close>

lemma otlp_attributes_distinct:
  "distinct (map fst (label_attributes l))" "distinct (map fst (lg_attributes (otlp_emit now e)))"
  "distinct (map fst (sp_attributes (node_span_data t s)))" "distinct (map fst (sp_attributes (delivery_span_data t)))"
proof -
  have "map fst (label_attributes l) = map fst (label_pairs l)"
    by (simp add: label_attributes_def comp_def case_prod_beta)
  then show "distinct (map fst (label_attributes l))" using label_pairs_distinct by metis
  show "distinct (map fst (lg_attributes (otlp_emit now e)))"
    by (simp add: otlp_emit_def Let_def split: option.split)
  show "distinct (map fst (sp_attributes (node_span_data t s)))"
    by (cases "ns_result s") (simp_all add: node_span_data_def node_attributes_def shared_attributes_def Let_def)
  show "distinct (map fst (sp_attributes (delivery_span_data t)))"
    by (simp add: delivery_span_data_def shared_attributes_def)
qed

text \<open>Exactly the signals with an endpoint have an exporter, and traces are sampled as asked.\<close>

lemma otel_exporter_Inr: "otel_exporter env signal specific build = Inr x \<Longrightarrow> x \<noteq> None \<longleftrightarrow> otel_configured env specific"
  by (auto simp: otel_exporter_def split: if_splits sum.splits)

lemma otel_init_signals:
  assumes "otel_init env b = Inr t"
  shows "te_meters t \<noteq> None \<longleftrightarrow> otel_configured env OTEL_METRICS_ENDPOINT"
    "te_logs t \<noteq> None \<longleftrightarrow> otel_configured env OTEL_LOGS_ENDPOINT"
    "te_traces t \<noteq> None \<longleftrightarrow> otel_configured env OTEL_TRACES_ENDPOINT"
    "sg_tracing (te_signals t) \<longleftrightarrow> te_traces t \<noteq> None" "te_events t = ToOtlp \<longleftrightarrow> te_logs t \<noteq> None"
proof -
  from assms obtain meters logs traces where x:
    "otel_exporter env ''metrics'' OTEL_METRICS_ENDPOINT (bu_metrics b) = Inr meters"
    "otel_exporter env ''logs'' OTEL_LOGS_ENDPOINT (bu_logs b) = Inr logs"
    "otel_exporter env ''traces'' OTEL_TRACES_ENDPOINT (bu_traces b) = Inr traces"
    by (auto simp: otel_init_def split: sum.splits)
  with assms have t: "te_meters t = meters" "te_logs t = logs" "te_traces t = traces"
    "te_events t = (if logs = None then ToStderr else ToOtlp)" "sg_tracing (te_signals t) \<longleftrightarrow> traces \<noteq> None"
    by (auto simp: otel_init_def signals_new_def with_traces_def map_sum_Inr_iff split: sum.splits option.splits)
  from t x show "te_meters t \<noteq> None \<longleftrightarrow> otel_configured env OTEL_METRICS_ENDPOINT"
    "te_logs t \<noteq> None \<longleftrightarrow> otel_configured env OTEL_LOGS_ENDPOINT"
    "te_traces t \<noteq> None \<longleftrightarrow> otel_configured env OTEL_TRACES_ENDPOINT"
    "sg_tracing (te_signals t) \<longleftrightarrow> te_traces t \<noteq> None" "te_events t = ToOtlp \<longleftrightarrow> te_logs t \<noteq> None"
    using otel_exporter_Inr [OF x(1)] otel_exporter_Inr [OF x(2)] otel_exporter_Inr [OF x(3)]
    by (simp_all del: not_None_eq split: if_splits)
qed

text \<open>The spans of a rooted trace are a tree: one root, the delivery, and every other span below one of
  the same trace that is exported before it, or below the delivery.\<close>

definition span_tree :: "span_data list \<Rightarrow> bool" where
  "span_tree ss \<longleftrightarrow>
     ss \<noteq> [] \<and> sp_parent (last ss) = SPAN_INVALID \<and> sp_id (last ss) \<noteq> SPAN_INVALID \<and>
     (\<forall>s \<in> set ss. sp_trace s = sp_trace (last ss)) \<and>
     (\<forall>i < length ss - 1. sp_parent (ss ! i) = sp_id (last ss) \<or> (\<exists>j < i. sp_parent (ss ! i) = sp_id (ss ! j)))"

lemma node_span_data_fields [simp]:
  "sp_parent (node_span_data t s) = ns_parent s" "sp_id (node_span_data t s) = ns_span_id s"
  "sp_trace (node_span_data t s) = rt_trace_id t"
  by (simp_all add: node_span_data_def split: prod.split)

lemma delivery_span_data_fields [simp]:
  "sp_parent (delivery_span_data t) = SPAN_INVALID" "sp_id (delivery_span_data t) = rt_span_id t"
  "sp_trace (delivery_span_data t) = rt_trace_id t"
  by (simp_all add: delivery_span_data_def)

lemma otlp_export_tree:
  assumes "rooted t"
  shows "span_tree (otlp_export t)"
proof -
  have "sp_parent (otlp_export t ! i) = sp_id (last (otlp_export t)) \<or>
      (\<exists>j < i. sp_parent (otlp_export t ! i) = sp_id (otlp_export t ! j))" if "i < length (rt_spans t)" for i
  proof -
    from assms that consider "ns_parent (rt_spans t ! i) = rt_span_id t"
      | j where "j < i" "ns_parent (rt_spans t ! i) = ns_span_id (rt_spans t ! j)"
      unfolding rooted_def by blast
    then show ?thesis
    proof cases
      case (2 j)
      with that show ?thesis by (intro disjI2 exI [of _ j]) (simp add: otlp_export_def nth_append)
    qed (use that in \<open>simp add: otlp_export_def nth_append\<close>)
  qed
  then show ?thesis
    using assms by (auto simp: rooted_def span_tree_def SPAN_INVALID_def) (auto simp: otlp_export_def SPAN_INVALID_def)
qed

end
