(* ===== verification/Harness_Plan.thy ===== *)
theory Harness_Plan
  imports Harness_Expect "HOL-Library.Product_Lexorder"
begin

text \<open>
  \<open>crates/harness/src/plan.rs\<close>: every message the producer will send, decided before the first is sent,
  and what it guarantees: a duplicate follows its original closely, and a body comes back only after
  every line of every set had its turn. A \<open>Duration\<close> is nanoseconds; a conversion that panics is \<open>None\<close>.
\<close>

section \<open>Arithmetic\<close>

text \<open>The sum of two doubles: exact in units of \<open>2 ^ -1074\<close>, then rounded. A sum of zero is positive,
  except that of two negative zeros.\<close>

definition f64_add :: "f64 \<Rightarrow> f64 \<Rightarrow> f64" where
  "f64_add a b =
     (if f64_nan a \<or> f64_nan b then F64_NAN
      else if f64_inf a then (if f64_inf b \<and> f64_neg a \<noteq> f64_neg b then F64_NAN else a)
      else if f64_inf b then b
      else if f64_key a + f64_key b = 0 then f64_make (f64_neg a \<and> f64_neg b) 0
      else f64_make (f64_key a + f64_key b < 0) (round_bits (nat \<bar>f64_key a + f64_key b\<bar>) (2 ^ 1074)))"

definition f64_minus :: "f64 \<Rightarrow> f64" where
  "f64_minus w = w XOR 0x8000000000000000"

definition f64_less :: "f64 \<Rightarrow> f64 \<Rightarrow> bool" where
  "f64_less a b \<longleftrightarrow> f64_partial_cmp a b = Some Less"

text \<open>\<open>Duration::try_from_secs_f64\<close>: the nearest nanosecond, ties to even.\<close>

definition try_from_secs_f64 :: "f64 \<Rightarrow> duration option" where
  "try_from_secs_f64 w =
     (if \<not> f64_finite w \<or> f64_less w 0 then None
      else (let nanos = round_half_even (f64_mag w * 10 ^ 9) (2 ^ 1074)
            in if nanos < 2 ^ 64 * 10 ^ 9 then Some nanos else None))"

definition duration_add :: "duration \<Rightarrow> duration \<Rightarrow> duration option" where
  "duration_add a b = (if a + b < 2 ^ 64 * 10 ^ 9 then Some (a + b) else None)"

text \<open>\<open>SplitMix64\<close>: the value drawn and the generator after it.\<close>

definition splitmix_next :: "u64 \<Rightarrow> u64 \<times> u64" where
  "splitmix_next s =
     (let s = s + 0x9e3779b97f4a7c15;
          z = s;
          z = (z XOR drop_bit 30 z) * 0xbf58476d1ce4e5b9;
          z = (z XOR drop_bit 27 z) * 0x94d049bb133111eb
      in (z XOR drop_bit 31 z, s))"

definition splitmix_unit :: "u64 \<Rightarrow> f64 \<times> u64" where
  "splitmix_unit s =
     (let (v, s) = splitmix_next s
      in (f64_div (f64_of_int (int (unat (drop_bit 11 v)))) (f64_of_int (2 ^ 53)), s))"

section \<open>The flags\<close>

definition DUP_LAG :: duration where "DUP_LAG = 500 * 10 ^ 6"

definition REPEAT_MARGIN :: duration where "REPEAT_MARGIN = 10 ^ 9"

definition MAX_COUNT :: nat where "MAX_COUNT = 2 ^ 22"

record plan_config =
  pc_rate :: f64
  pc_count :: nat
  pc_dup_percent :: u8
  pc_seed :: u64
  pc_dedupe_window :: duration

definition plan_config_default :: plan_config where
  "plan_config_default =
     \<lparr>pc_rate = f64_of_int 1667, pc_count = 100000, pc_dup_percent = 30, pc_seed = 1, pc_dedupe_window = 2 * 10 ^ 9\<rparr>"

record planned =
  pl_id :: u64
  pl_set :: nat
  pl_line :: nat
  pl_cycle :: u64
  pl_dup_of :: "u64 option"
  pl_at :: duration

datatype plan_error = InvalidFlag string | RateTooHigh duration duration

definition DUP_LAG_SECS :: f64 where
  "DUP_LAG_SECS = f64_div (f64_of_int (int (DUP_LAG mod 10 ^ 9))) (f64_of_int (10 ^ 9))"

text \<open>The slots within the lag: what \<open>floor\<close> gives a positive product is its integer part.\<close>

definition lag_slots :: "f64 \<Rightarrow> nat" where
  "lag_slots rate = unat (f64_as_u64 (f64_mul DUP_LAG_SECS rate))"

section \<open>The loop\<close>

text \<open>The scheduled duplicates in the order of their keys, the slot each is due and its original's slot.\<close>

record planning =
  ps_rng :: u64
  ps_sent :: "nat list"
  ps_originals :: nat
  ps_due :: "((nat \<times> nat) \<times> planned) list"
  ps_messages :: "planned list"

definition due_insert :: "nat \<times> nat \<Rightarrow> planned \<Rightarrow> ((nat \<times> nat) \<times> planned) list \<Rightarrow> ((nat \<times> nat) \<times> planned) list" where
  "due_insert k p m = insort_key fst (k, p) (filter (\<lambda>x. fst x \<noteq> k) m)"

definition schedule :: "nat \<Rightarrow> f64 \<Rightarrow> nat \<Rightarrow> planned \<Rightarrow> planning \<Rightarrow> planning" where
  "schedule half chance i original st =
     (if 0 < half \<and> length (ps_due st) < half
      then (let (u, g) = splitmix_unit (ps_rng st)
            in if f64_less u chance
               then (let (v, g) = splitmix_next g; after = 1 + unat v mod half
                     in st\<lparr>ps_rng := g, ps_due := due_insert (i + after, i) original (ps_due st)\<rparr>)
               else st\<lparr>ps_rng := g\<rparr>)
      else st)"

definition send_original :: "nat list \<Rightarrow> nat \<Rightarrow> f64 \<Rightarrow> nat \<Rightarrow> u64 \<Rightarrow> duration \<Rightarrow> planning \<Rightarrow> planning" where
  "send_original lens half chance i ident at st =
     (let s = ps_originals st mod length lens;
          sent = ps_sent st ! s;
          original = \<lparr>pl_id = ident, pl_set = s, pl_line = sent mod (lens ! s), pl_cycle = of_nat (sent div (lens ! s)),
            pl_dup_of = None, pl_at = at\<rparr>;
          st = st\<lparr>ps_originals := Suc (ps_originals st), ps_sent := (ps_sent st)[s := Suc sent]\<rparr>;
          st = schedule half chance i original st
      in st\<lparr>ps_messages := ps_messages st @ [original]\<rparr>)"

definition plan_slot :: "f64 \<Rightarrow> nat list \<Rightarrow> u64 \<Rightarrow> nat \<Rightarrow> f64 \<Rightarrow> nat \<Rightarrow> planning \<Rightarrow> planning option" where
  "plan_slot rate lens base half chance i st =
     (case try_from_secs_f64 (f64_div (f64_of_int (int i)) rate) of
        None \<Rightarrow> None
      | Some at \<Rightarrow>
          (let ident = base OR of_nat i
           in Some (case ps_due st of
                ((due, slot), original) # rest \<Rightarrow>
                  if due \<le> i
                  then st\<lparr>ps_due := rest,
                    ps_messages := ps_messages st @ [original\<lparr>pl_id := ident, pl_dup_of := Some (pl_id original), pl_at := at\<rparr>]\<rparr>
                  else send_original lens half chance i ident at st
              | [] \<Rightarrow> send_original lens half chance i ident at st)))"

fun plan_slots :: "f64 \<Rightarrow> nat list \<Rightarrow> u64 \<Rightarrow> nat \<Rightarrow> f64 \<Rightarrow> nat list \<Rightarrow> planning \<Rightarrow> planning option" where
  "plan_slots rate lens base half chance [] st = Some st"
| "plan_slots rate lens base half chance (i # is) st =
     (case plan_slot rate lens base half chance i st of
        None \<Rightarrow> None
      | Some st \<Rightarrow> plan_slots rate lens base half chance is st)"

definition plan_begin :: "u64 \<Rightarrow> nat list \<Rightarrow> planning" where
  "plan_begin seed lens =
     \<lparr>ps_rng = seed, ps_sent = replicate (length lens) 0, ps_originals = 0, ps_due = [], ps_messages = []\<rparr>"

text \<open>What is left once the flags and the repeat of a body are accepted.\<close>

definition plan_messages :: "plan_config \<Rightarrow> nat list \<Rightarrow> u64 \<Rightarrow> f64 \<Rightarrow> (plan_error + planned list) option" where
  "plan_messages c lens base share =
     (let half = lag_slots (pc_rate c) div 2
      in if f64_less 0 share \<and> half = 0
         then Some (Inl (InvalidFlag ''--rate is too low to send a duplicate within 500ms; use at least 4''))
         else (let chance = f64_div share (f64_add (f64_of_int 1) (f64_minus share))
               in map_option (\<lambda>st. Inr (ps_messages st))
                    (plan_slots (pc_rate c) lens base half chance [0..<pc_count c] (plan_begin (pc_seed c) lens))))"

definition plan :: "plan_config \<Rightarrow> nat list \<Rightarrow> u64 \<Rightarrow> (plan_error + planned list) option" where
  "plan c lens base =
     (if \<not> (f64_finite (pc_rate c) \<and> f64_less 0 (pc_rate c))
      then Some (Inl (InvalidFlag ''--rate must be a positive number''))
      else if 50 < pc_dup_percent c then Some (Inl (InvalidFlag ''--dup-percent must be from 0 to 50''))
      else if MAX_COUNT \<le> pc_count c
      then Some (Inl (InvalidFlag (''--count must be below '' @ show_nat MAX_COUNT)))
      else if lens = [] then Some (Inl (InvalidFlag ''--datasets names no set''))
      else if Min (set lens) = 0 then Some (Inl (InvalidFlag ''a set has no lines''))
      else
        (let share = f64_div (f64_of_int (int (unat (pc_dup_percent c)))) (f64_of_int 100);
             originals_per_second = f64_mul (pc_rate c) (f64_add (f64_of_int 1) (f64_minus share));
             bodies = f64_mul (f64_of_int (int (Min (set lens)))) (f64_of_int (int (length lens)))
         in case try_from_secs_f64 (f64_div bodies originals_per_second) of
              None \<Rightarrow> None
            | Some repeat \<Rightarrow>
                (case Option.bind (duration_add (pc_dedupe_window c) DUP_LAG) (\<lambda>d. duration_add d REPEAT_MARGIN) of
                   None \<Rightarrow> None
                 | Some needed \<Rightarrow>
                     if repeat < needed then Some (Inl (RateTooHigh repeat needed))
                     else plan_messages c lens base share)))"

section \<open>What a plan holds\<close>

definition is_original :: "planned \<Rightarrow> bool" where
  "is_original p \<longleftrightarrow> pl_dup_of p = None"

definition originals_in :: "planned list \<Rightarrow> nat" where
  "originals_in ms = length (filter is_original ms)"

text \<open>The \<open>k\<close>th original, round-robin over the sets, each cycling through its lines.\<close>

definition kth_original :: "nat list \<Rightarrow> nat \<Rightarrow> planned \<Rightarrow> bool" where
  "kth_original lens k p \<longleftrightarrow>
     (let s = k mod length lens; n = k div length lens
      in pl_set p = s \<and> pl_line p = n mod (lens ! s) \<and> pl_cycle p = of_nat (n div (lens ! s)))"

definition repeats :: "planned \<Rightarrow> planned \<Rightarrow> bool" where
  "repeats p q \<longleftrightarrow> pl_dup_of p = Some (pl_id q) \<and> pl_set p = pl_set q \<and> pl_line p = pl_line q \<and> pl_cycle p = pl_cycle q"

text \<open>Every entry of the queue waits behind at most \<open>half\<close> others from the slot it is due.\<close>

definition queued :: "nat \<Rightarrow> planning \<Rightarrow> bool" where
  "queued half st \<longleftrightarrow>
     (let i = length (ps_messages st); due = ps_due st
      in sorted (map fst due) \<and> length due \<le> half \<and>
        (\<forall>r < length due. case due ! r of ((d, slot), p) \<Rightarrow>
           slot < i \<and> p = ps_messages st ! slot \<and> is_original p \<and> slot < d \<and> d \<le> slot + half \<and> (d < i \<longrightarrow> i + r < d + half)))"

text \<open>How many of the first \<open>k\<close> originals went to set \<open>s\<close> of \<open>n\<close>.\<close>

definition handed :: "nat \<Rightarrow> nat \<Rightarrow> nat \<Rightarrow> nat" where
  "handed n k s = (k + (n - 1 - s)) div n"

definition in_order :: "nat list \<Rightarrow> u64 \<Rightarrow> planning \<Rightarrow> bool" where
  "in_order lens base st \<longleftrightarrow>
     ps_originals st = originals_in (ps_messages st) \<and> length (ps_sent st) = length lens \<and>
     (\<forall>s < length lens. ps_sent st ! s = handed (length lens) (ps_originals st) s) \<and>
     (\<forall>i < length (ps_messages st). pl_id (ps_messages st ! i) = base OR of_nat i) \<and>
     (\<forall>i < length (ps_messages st). is_original (ps_messages st ! i) \<longrightarrow>
        kth_original lens (originals_in (take i (ps_messages st))) (ps_messages st ! i))"

definition follows :: "nat \<Rightarrow> planned list \<Rightarrow> bool" where
  "follows half ms \<longleftrightarrow>
     (\<forall>i < length ms. \<not> is_original (ms ! i) \<longrightarrow>
        (\<exists>slot < i. is_original (ms ! slot) \<and> repeats (ms ! i) (ms ! slot) \<and> i < slot + 2 * half))"


section \<open>The loop keeps it\<close>

lemma due_insert_queue:
  assumes "sorted (map fst due)" "\<forall>x \<in> set due. fst x \<noteq> k"
  shows "sorted (map fst (due_insert k p due)) \<and> length (due_insert k p due) = Suc (length due) \<and>
    set (due_insert k p due) = insert (k, p) (set due)"
proof -
  have "filter (\<lambda>x. fst x \<noteq> k) due = due" using assms(2) by (simp add: filter_id_conv)
  then show ?thesis using assms(1) by (simp add: due_insert_def sorted_insort_key set_insort_key)
qed

lemma is_original_make [simp]:
  "is_original \<lparr>pl_id = a, pl_set = b, pl_line = c, pl_cycle = d, pl_dup_of = e, pl_at = f\<rparr> \<longleftrightarrow> e = None"
  by (simp add: is_original_def)

lemma originals_in_append [simp]: "originals_in (ms @ [m]) = originals_in ms + (if is_original m then 1 else 0)"
  by (simp add: originals_in_def)

lemma handed_eqI: "n = Suc (s + d) \<Longrightarrow> n * q \<le> k + d \<Longrightarrow> k + d < n * q + n \<Longrightarrow> handed n k s = q"
  unfolding handed_def by (rule div_nat_eqI) simp_all

lemma handed_now: "0 < n \<Longrightarrow> handed n k (k mod n) = k div n"
  using mult_div_mod_eq [of n k] mod_less_divisor [of n k]
  by (intro handed_eqI [where d = "n - 1 - k mod n"]) linarith+

lemma handed_next:
  assumes "s < n"
  shows "handed n (Suc k) s = (if s = k mod n then Suc (handed n k s) else handed n k s)"
proof -
  let ?q = "k div n"
  from assms obtain d where n: "n = Suc (s + d)" by (rule less_imp_Suc_add [THEN exE])
  define p where "p = n * ?q"
  have k: "p + k mod n = k" "k mod n < n" "n * Suc ?q = n + p" using assms by (simp_all add: p_def)
  consider "s = k mod n" | "s < k mod n" | "k mod n < s" by linarith
  then show ?thesis
  proof cases
    case 1
    have "handed n (Suc k) s = Suc ?q" by (rule handed_eqI [OF n]) (use 1 k n assms in \<open>unfold p_def [symmetric] k(3), linarith\<close>)+
    moreover have "handed n k s = ?q" by (rule handed_eqI [OF n]) (use 1 k n assms in \<open>unfold p_def [symmetric] k(3), linarith\<close>)+
    ultimately show ?thesis using 1 by simp
  next
    case 2
    have "handed n (Suc k) s = Suc ?q" by (rule handed_eqI [OF n]) (use 2 k n assms in \<open>unfold p_def [symmetric] k(3), linarith\<close>)+
    moreover have "handed n k s = Suc ?q" by (rule handed_eqI [OF n]) (use 2 k n assms in \<open>unfold p_def [symmetric] k(3), linarith\<close>)+
    ultimately show ?thesis using 2 by simp
  next
    case 3
    have "handed n (Suc k) s = ?q" by (rule handed_eqI [OF n]) (use 3 k n assms in \<open>unfold p_def [symmetric] k(3), linarith\<close>)+
    moreover have "handed n k s = ?q" by (rule handed_eqI [OF n]) (use 3 k n assms in \<open>unfold p_def [symmetric] k(3), linarith\<close>)+
    ultimately show ?thesis using 3 by simp
  qed
qed

lemma schedule_fields [simp]:
  "ps_sent (schedule half chance i p st) = ps_sent st" "ps_originals (schedule half chance i p st) = ps_originals st"
  "ps_messages (schedule half chance i p st) = ps_messages st"
  by (simp_all add: schedule_def Let_def split: prod.split)

lemma schedule_due:
  "ps_due (schedule half chance i p st) = ps_due st \<or>
   (\<exists>d. i < d \<and> d \<le> i + half \<and> length (ps_due st) < half \<and> ps_due (schedule half chance i p st) = due_insert (d, i) p (ps_due st))"
proof (cases "0 < half \<and> length (ps_due st) < half")
  case True
  have d: "\<exists>d. i < d \<and> d \<le> i + half \<and> due_insert (i + (1 + v mod half), i) p (ps_due st) = due_insert (d, i) p (ps_due st)" for v
  proof -
    have "v mod half < half" using True by simp
    then show ?thesis by (intro exI [of _ "i + (1 + v mod half)"]) simp
  qed
  show ?thesis
    using True d by (simp add: schedule_def Let_def split: prod.split)
qed (auto simp: schedule_def)

lemma in_order_original:
  assumes "in_order lens base st" "0 < length lens" "i = length (ps_messages st)"
  shows "in_order lens base (send_original lens half chance i (base OR of_nat i) at st)"
  unfolding in_order_def
proof (intro conjI allI impI)
  let ?st = "send_original lens half chance i (base OR of_nat i) at st"
  let ?n = "length lens" and ?k = "ps_originals st" and ?s = "ps_originals st mod length lens"
  let ?p = "\<lparr>pl_id = base OR of_nat i, pl_set = ?s, pl_line = ps_sent st ! ?s mod (lens ! ?s),
    pl_cycle = of_nat (ps_sent st ! ?s div (lens ! ?s)), pl_dup_of = None, pl_at = at\<rparr>"
  have f: "ps_messages ?st = ps_messages st @ [?p]" "ps_originals ?st = Suc ?k"
    "ps_sent ?st = (ps_sent st)[?s := Suc (ps_sent st ! ?s)]" "is_original ?p"
    by (simp_all add: send_original_def Let_def is_original_def)
  have s: "?s < ?n" using assms(2) by simp
  have sent: "ps_sent st ! ?s = ?k div ?n"
    using assms(1) s handed_now [OF assms(2)] by (simp add: in_order_def)
  show "ps_originals ?st = originals_in (ps_messages ?st)" "length (ps_sent ?st) = ?n"
    using assms(1) by (simp_all add: f in_order_def)
  show "ps_sent ?st ! s' = handed ?n (ps_originals ?st) s'" if "s' < ?n" for s'
    using assms(1) that sent handed_now [OF assms(2), of ?k]
    by (simp add: f in_order_def nth_list_update handed_next)
  show "pl_id (ps_messages ?st ! j) = base OR of_nat j" if "j < length (ps_messages ?st)" for j
    using assms(1) that by (auto simp: f in_order_def nth_append less_Suc_eq assms(3) [symmetric])
  show "kth_original lens (originals_in (take j (ps_messages ?st))) (ps_messages ?st ! j)"
    if "j < length (ps_messages ?st)" "is_original (ps_messages ?st ! j)" for j
  proof (cases "j = length (ps_messages st)")
    case True
    then show ?thesis using assms(1) sent by (simp add: f kth_original_def in_order_def)
  next
    case False
    then show ?thesis using assms(1) that by (simp add: f in_order_def nth_append)
  qed
qed

lemma queued_entry:
  assumes "queued half st" "((d, slot), p) \<in> set (ps_due st)"
  shows "slot < length (ps_messages st) \<and> p = ps_messages st ! slot \<and> is_original p \<and> slot < d \<and> d \<le> slot + half"
proof -
  from assms(2) obtain r where "r < length (ps_due st)" "ps_due st ! r = ((d, slot), p)" by (auto simp: in_set_conv_nth)
  with assms(1) show ?thesis by (fastforce simp: queued_def Let_def)
qed

lemma queued_original:
  assumes "queued half st" "i = length (ps_messages st)" "\<forall>x \<in> set (ps_due st). i < fst (fst x)"
  shows "queued half (send_original lens half chance i ident at st)"
proof -
  let ?st = "send_original lens half chance i ident at st"
  define p where "p = last (ps_messages ?st)"
  have m: "ps_messages ?st = ps_messages st @ [p]" and p: "is_original p"
    by (simp_all add: p_def send_original_def Let_def is_original_def)
  have due: "sorted (map fst (ps_due ?st)) \<and> length (ps_due ?st) \<le> half \<and>
      (\<forall>x \<in> set (ps_due ?st). x \<in> set (ps_due st) \<or> (\<exists>d. x = ((d, i), p) \<and> i < d \<and> d \<le> i + half))"
  proof -
    let ?s = "st\<lparr>ps_originals := Suc (ps_originals st),
      ps_sent := (ps_sent st)[ps_originals st mod length lens := Suc (ps_sent st ! (ps_originals st mod length lens))]\<rparr>"
    have e: "ps_due ?st = ps_due (schedule half chance i p ?s)"
      by (simp add: p_def send_original_def Let_def)
    have new: "\<forall>x \<in> set (ps_due st). fst x \<noteq> (d, i)" for d
      using queued_entry [OF assms(1)] assms(2) by fastforce
    have s: "sorted (map fst (ps_due st))" using assms(1) by (simp add: queued_def Let_def)
    from schedule_due [of half chance i p ?s] show ?thesis
      using assms(1) due_insert_queue [OF s new] unfolding e by (auto simp: queued_def Let_def)
  qed
  have "case x of ((d, slot), q) \<Rightarrow>
      slot < Suc i \<and> q = ps_messages ?st ! slot \<and> is_original q \<and> slot < d \<and> d \<le> slot + half \<and> i < d"
    if x: "x \<in> set (ps_due ?st)" for x
  proof (cases "x \<in> set (ps_due st)")
    case True
    obtain d slot q where xe: "x = ((d, slot), q)" by (metis prod.collapse)
    have "i < d" using bspec [OF assms(3) True] by (simp add: xe)
    with queued_entry [OF assms(1) True [unfolded xe]] show ?thesis
      unfolding xe by (elim conjE) (simp add: m nth_append assms(2) [symmetric])
  next
    case False
    with due x obtain d where "x = ((d, i), p)" "i < d" "d \<le> i + half" by blast
    then show ?thesis using p by (simp add: m nth_append assms(2) [symmetric])
  qed
  note entry = this
  have len: "length (ps_messages ?st) = Suc i" by (simp add: m assms(2) [symmetric])
  show ?thesis
    unfolding queued_def Let_def len
  proof (intro conjI allI impI)
    fix r
    assume "r < length (ps_due ?st)"
    then have "ps_due ?st ! r \<in> set (ps_due ?st)" by simp
    from entry [OF this] show "case ps_due ?st ! r of ((d, slot), q) \<Rightarrow>
        slot < Suc i \<and> q = ps_messages ?st ! slot \<and> is_original q \<and> slot < d \<and> d \<le> slot + half \<and>
          (d < Suc i \<longrightarrow> Suc i + r < d + half)"
      by (simp split: prod.splits)
  qed (use due in blast)+
qed

lemma queued_duplicate:
  assumes "queued half st" "i = length (ps_messages st)" "ps_due st = ((d, slot), p) # rest" "d \<le> i"
  shows "queued half (st\<lparr>ps_due := rest, ps_messages := ps_messages st @ [q]\<rparr>)"
    "slot < i \<and> p = ps_messages st ! slot \<and> is_original p \<and> i < slot + 2 * half"
proof -
  have len: "Suc (length rest) \<le> half" and s: "sorted (map fst rest)"
    using assms(1,3) by (simp_all add: queued_def Let_def)
  have q: "case ps_due st ! r of ((d, slot), p) \<Rightarrow>
      slot < i \<and> p = ps_messages st ! slot \<and> is_original p \<and> slot < d \<and> d \<le> slot + half \<and> (d < i \<longrightarrow> i + r < d + half)"
    if "r < length (ps_due st)" for r
    using assms(1,2) that by (simp add: queued_def Let_def)
  from q [of 0] have h: "slot < i \<and> p = ps_messages st ! slot \<and> is_original p \<and> slot < d \<and> d \<le> slot + half \<and>
      (d < i \<longrightarrow> i < d + half)"
    by (auto simp: assms(3))
  then have i: "i < slot + 2 * half" using assms(4) by linarith
  with h show "slot < i \<and> p = ps_messages st ! slot \<and> is_original p \<and> i < slot + 2 * half"
    by blast
  have "case rest ! r of ((d, slot), p) \<Rightarrow>
      slot < Suc i \<and> p = (ps_messages st @ [q]) ! slot \<and> is_original p \<and> slot < d \<and> d \<le> slot + half \<and>
        (d < Suc i \<longrightarrow> Suc i + r < d + half)"
    if r: "r < length rest" for r
  proof -
    obtain d' slot' p' where e: "rest ! r = ((d', slot'), p')" by (metis prod.collapse)
    from q [of "Suc r"] r have
      "slot' < i \<and> p' = ps_messages st ! slot' \<and> is_original p' \<and> slot' < d' \<and> d' \<le> slot' + half \<and>
        (d' < i \<longrightarrow> i + Suc r < d' + half)"
      by (auto simp: assms(3) e)
    then show ?thesis using r len by (elim conjE) (auto simp: e nth_append less_Suc_eq assms(2) [symmetric])
  qed
  then show "queued half (st\<lparr>ps_due := rest, ps_messages := ps_messages st @ [q]\<rparr>)"
    using s len by (simp add: queued_def Let_def assms(2) [symmetric])
qed

text \<open>One slot sends one message and keeps the order, the queue and the lag.\<close>

definition laid :: "nat list \<Rightarrow> u64 \<Rightarrow> nat \<Rightarrow> planning \<Rightarrow> bool" where
  "laid lens base half st \<longleftrightarrow> in_order lens base st \<and> queued half st \<and> follows half (ps_messages st)"

lemma follows_append:
  assumes "follows half ms" "is_original m \<or> (\<exists>slot < length ms. is_original (ms ! slot) \<and> repeats m (ms ! slot) \<and> length ms < slot + 2 * half)"
  shows "follows half (ms @ [m])"
  unfolding follows_def
proof (intro allI impI)
  fix i
  assume i: "i < length (ms @ [m])" "\<not> is_original ((ms @ [m]) ! i)"
  show "\<exists>slot < i. is_original ((ms @ [m]) ! slot) \<and> repeats ((ms @ [m]) ! i) ((ms @ [m]) ! slot) \<and> i < slot + 2 * half"
  proof (cases "i < length ms")
    case True
    with assms(1) i obtain slot where "slot < i" "is_original (ms ! slot)" "repeats (ms ! i) (ms ! slot)" "i < slot + 2 * half"
      by (auto simp: follows_def nth_append)
    with True show ?thesis by (intro exI [of _ slot]) (simp add: nth_append)
  next
    case False
    then have "i = length ms" using i by simp
    with assms(2) i show ?thesis by (auto simp: nth_append)
  qed
qed

lemma in_order_duplicate:
  assumes "in_order lens base st" "\<not> is_original q" "pl_id q = base OR of_nat (length (ps_messages st))"
  shows "in_order lens base (st\<lparr>ps_due := rest, ps_messages := ps_messages st @ [q]\<rparr>)"
  using assms by (auto simp: in_order_def nth_append less_Suc_eq)

lemma laid_slot:
  assumes "laid lens base half st" "0 < length lens" "i = length (ps_messages st)"
    and "plan_slot rate lens base half chance i st = Some st'"
  shows "laid lens base half st' \<and> length (ps_messages st') = Suc i"
proof -
  from assms(4) obtain at where at: "try_from_secs_f64 (f64_div (f64_of_int (int i)) rate) = Some at"
    by (auto simp: plan_slot_def split: option.splits)
  have l: "in_order lens base st" "queued half st" "follows half (ps_messages st)" using assms(1) by (simp_all add: laid_def)
  show ?thesis
  proof (cases "\<exists>x rest. ps_due st = x # rest \<and> fst (fst x) \<le> i")
    case True
    then obtain d slot p rest where due: "ps_due st = ((d, slot), p) # rest" "d \<le> i" by auto
    let ?q = "p\<lparr>pl_id := base OR of_nat i, pl_dup_of := Some (pl_id p), pl_at := at\<rparr>"
    have st': "st' = st\<lparr>ps_due := rest, ps_messages := ps_messages st @ [?q]\<rparr>"
      using assms(4) at due by (simp add: plan_slot_def)
    note q = queued_duplicate [OF l(2) assms(3) due]
    have "repeats ?q p" "\<not> is_original ?q" "pl_id ?q = base OR of_nat (length (ps_messages st))"
      by (simp_all add: repeats_def is_original_def assms(3))
    then show ?thesis
      using q l unfolding laid_def st'
      by (auto intro!: in_order_duplicate follows_append exI [of _ slot] simp: assms(3))
  next
    case False
    have later: "\<forall>x \<in> set (ps_due st). i < fst (fst x)"
    proof (cases "ps_due st")
      case (Cons y ys)
      then have "sorted (map fst (y # ys))" using l(2) by (simp add: queued_def Let_def)
      moreover have "i < fst (fst y)" using False Cons by (simp add: not_le)
      ultimately show ?thesis using Cons by (fastforce simp: less_eq_prod_def)
    qed simp
    have st': "st' = send_original lens half chance i (base OR of_nat i) at st"
    proof (cases "ps_due st")
      case (Cons y ys)
      obtain d slot p where "y = ((d, slot), p)" by (metis prod.collapse)
      with Cons show ?thesis using assms(4) at False by (auto simp: plan_slot_def Let_def)
    qed (use assms(4) at in \<open>simp add: plan_slot_def Let_def\<close>)
    have m: "\<exists>m. ps_messages st' = ps_messages st @ [m] \<and> is_original m"
      by (simp add: st' send_original_def Let_def)
    then show ?thesis
      using in_order_original [OF l(1) assms(2,3)] queued_original [OF l(2) assms(3) later] l(3)
      unfolding laid_def st' [symmetric] using assms(3) follows_append [OF l(3)] by (auto simp: st')
  qed
qed

lemma laid_slots:
  assumes "plan_slots rate lens base half chance [i..<n] st = Some st'" "i \<le> n"
    and "laid lens base half st" "0 < length lens" "i = length (ps_messages st)"
  shows "laid lens base half st' \<and> length (ps_messages st') = n"
  using assms
proof (induction "n - i" arbitrary: i st)
  case 0
  then show ?case by simp
next
  case (Suc k)
  then have "i < n" by simp
  then have "[i..<n] = i # [Suc i..<n]" by (rule upt_conv_Cons)
  with Suc.prems(1) obtain s where s: "plan_slot rate lens base half chance i st = Some s"
    "plan_slots rate lens base half chance [Suc i..<n] s = Some st'"
    by (auto split: option.splits)
  from laid_slot [OF Suc.prems(3-5) s(1)] Suc.hyps \<open>i < n\<close> show ?case
    by (intro Suc.hyps(1) [OF _ s(2)]) (use Suc.prems(4) in simp_all)
qed

lemma laid_begin: "laid lens base half (plan_begin seed lens)"
  by (auto simp: laid_def in_order_def queued_def follows_def plan_begin_def originals_in_def handed_def Let_def)

section \<open>Plans\<close>

lemma plan_runs:
  assumes "plan c lens base = Some (Inr ms)"
  shows "lens \<noteq> [] \<and> 0 \<notin> set lens \<and> pc_count c < MAX_COUNT \<and>
    (\<exists>chance st. plan_slots (pc_rate c) lens base (lag_slots (pc_rate c) div 2) chance [0..<pc_count c]
       (plan_begin (pc_seed c) lens) = Some st \<and> ms = ps_messages st)"
proof -
  have z: "Min (set lens) = 0" if "0 \<in> set lens" using that Min_le [of "set lens" 0] by simp
  have m: "\<exists>chance st. plan_slots (pc_rate c) lens base (lag_slots (pc_rate c) div 2) chance [0..<pc_count c]
       (plan_begin (pc_seed c) lens) = Some st \<and> ms = ps_messages st"
    if "plan_messages c lens base share = Some (Inr ms)" for share
    using that by (auto simp: plan_messages_def Let_def split: if_splits)
  have "\<exists>share. lens \<noteq> [] \<and> Min (set lens) \<noteq> 0 \<and> pc_count c < MAX_COUNT \<and> plan_messages c lens base share = Some (Inr ms)"
    using assms by (auto simp: plan_def Let_def not_le simp del: Min_eq_iff split: if_splits option.splits)
  with z m show ?thesis by blast
qed

lemma plan_laid:
  assumes "plan c lens base = Some (Inr ms)"
  obtains st where "laid lens base (lag_slots (pc_rate c) div 2) st" "ps_messages st = ms" "length ms = pc_count c"
    "lens \<noteq> []" "0 \<notin> set lens" "pc_count c < MAX_COUNT"
proof -
  from plan_runs [OF assms] obtain chance st where p:
    "plan_slots (pc_rate c) lens base (lag_slots (pc_rate c) div 2) chance [0..<pc_count c] (plan_begin (pc_seed c) lens) = Some st"
    "ms = ps_messages st" "lens \<noteq> []" "0 \<notin> set lens" "pc_count c < MAX_COUNT"
    by blast
  from laid_slots [OF p(1) _ laid_begin] p show ?thesis by (intro that) (simp_all add: plan_begin_def)
qed

text \<open>A duplicate follows its original within the lag, and holds the same line.\<close>

lemma plan_duplicates:
  assumes "plan c lens base = Some (Inr ms)" "i < length ms" "pl_dup_of (ms ! i) \<noteq> None"
  shows "\<exists>slot < i. is_original (ms ! slot) \<and> repeats (ms ! i) (ms ! slot) \<and> i - slot < lag_slots (pc_rate c)"
proof -
  from assms(1) obtain st where "laid lens base (lag_slots (pc_rate c) div 2) st" "ps_messages st = ms"
    by (rule plan_laid)
  then have "follows (lag_slots (pc_rate c) div 2) ms" by (simp add: laid_def)
  moreover have "\<not> is_original (ms ! i)" using assms(3) by (simp add: is_original_def)
  ultimately obtain slot where "slot < i" "is_original (ms ! slot)" "repeats (ms ! i) (ms ! slot)"
    "i < slot + 2 * (lag_slots (pc_rate c) div 2)"
    using assms(2) unfolding follows_def by blast
  moreover have "2 * (lag_slots (pc_rate c) div 2) \<le> lag_slots (pc_rate c)" by simp
  ultimately show ?thesis by (intro exI [of _ slot]) linarith
qed

text \<open>The ids are the slots under the base, pairwise different over a base with room for them.\<close>

lemma plan_ids:
  assumes "plan c lens base = Some (Inr ms)"
  shows "length ms = pc_count c \<and> (\<forall>i < length ms. pl_id (ms ! i) = base OR of_nat i)"
proof -
  from assms obtain st where "laid lens base (lag_slots (pc_rate c) div 2) st" "ps_messages st = ms" "length ms = pc_count c"
    by (rule plan_laid)
  then show ?thesis by (auto simp: laid_def in_order_def)
qed

lemma low_bits:
  fixes base :: u64
  assumes "take_bit 22 base = 0" "i < 2 ^ 22"
  shows "take_bit 22 (base OR of_nat i) = of_nat i"
proof -
  have "take_bit 22 (word_of_nat i :: u64) = word_of_nat (take_bit 22 i)"
    by (rule bit_word_eqI) (auto simp: bit_simps)
  also have "take_bit 22 i = i" using assms(2) by (simp add: take_bit_nat_eq_self_iff)
  finally show ?thesis by (simp add: assms(1))
qed

lemma plan_ids_distinct:
  assumes "plan c lens base = Some (Inr ms)" "take_bit 22 base = 0"
  shows "distinct (map pl_id ms)"
proof -
  from assms(1) obtain st where "length ms = pc_count c" "pc_count c < MAX_COUNT" by (rule plan_laid)
  then have i: "i < 2 ^ 22" if "i < length ms" for i using that by (simp add: MAX_COUNT_def)
  show ?thesis
    unfolding distinct_conv_nth
  proof (intro allI impI, rule notI)
    fix i j
    assume ij: "i < length (map pl_id ms)" "j < length (map pl_id ms)" "i \<noteq> j" "map pl_id ms ! i = map pl_id ms ! j"
    then have "base OR word_of_nat i = base OR (word_of_nat j :: u64)" using plan_ids [OF assms(1)] by simp
    then have "(word_of_nat i :: u64) = word_of_nat j"
      using low_bits [OF assms(2) i] ij by (metis length_map)
    then have "i mod 2 ^ 64 = j mod 2 ^ 64" by (simp add: word_of_nat_eq_iff take_bit_eq_mod)
    then show False using i [of i] i [of j] ij by simp
  qed
qed

text \<open>A body comes back only after as many originals as the sets have lines: \<open>n\<close> sets of at least \<open>l\<close> lines.\<close>

lemma kth_repeats:
  assumes "kth_original lens k p" "kth_original lens k' q" "k < k'" "pl_set p = pl_set q" "pl_line p = pl_line q" "lens \<noteq> []"
  shows "length lens * lens ! pl_set p \<le> k' - k"
proof -
  let ?n = "length lens" and ?l = "lens ! pl_set p"
  have s: "k mod ?n = k' mod ?n" "k div ?n mod ?l = k' div ?n mod ?l"
    using assms by (auto simp: kth_original_def Let_def)
  have d: "k div ?n < k' div ?n"
  proof (rule ccontr)
    assume "\<not> ?thesis"
    then have "k' div ?n \<le> k div ?n" by simp
    then have "?n * (k' div ?n) \<le> ?n * (k div ?n)" by (rule mult_le_mono2)
    then have "?n * (k' div ?n) + k' mod ?n \<le> ?n * (k div ?n) + k mod ?n" using s(1) by linarith
    then show False using assms(3) by simp
  qed
  have "?l dvd k' div ?n - k div ?n" using s(2) d mod_eq_dvd_iff_nat [of "k div ?n" "k' div ?n" ?l] by simp
  then have "?l \<le> k' div ?n - k div ?n" using d by (intro dvd_imp_le) simp_all
  then have "?n * ?l \<le> ?n * (k' div ?n) - ?n * (k div ?n)" by (metis mult_le_mono2 diff_mult_distrib2)
  also have "\<dots> = k' - k"
    using mult_div_mod_eq [of ?n k] mult_div_mod_eq [of ?n k'] s(1) by linarith
  finally show ?thesis .
qed

lemma originals_between:
  assumes "i < j" "j \<le> length ms" "is_original (ms ! i)"
  shows "originals_in (take i ms) < originals_in (take j ms)" "originals_in (take j ms) - originals_in (take i ms) \<le> j - i"
proof -
  have "take j ms = take i ms @ take (j - i) (drop i ms)" using assms(1) by (simp add: take_add [symmetric])
  then have e: "originals_in (take j ms) = originals_in (take i ms) + originals_in (take (j - i) (drop i ms))"
    by (simp add: originals_in_def)
  have "ms ! i \<in> set (take (j - i) (drop i ms))"
    using assms by (auto simp: in_set_conv_nth intro!: exI [of _ 0])
  then have "ms ! i \<in> set (filter is_original (take (j - i) (drop i ms)))" using assms(3) by simp
  then have "0 < originals_in (take (j - i) (drop i ms))" unfolding originals_in_def by (rule length_pos_if_in_set)
  moreover have "originals_in (take (j - i) (drop i ms)) \<le> j - i"
    unfolding originals_in_def by (rule order_trans [OF length_filter_le]) simp
  ultimately show "originals_in (take i ms) < originals_in (take j ms)" "originals_in (take j ms) - originals_in (take i ms) \<le> j - i"
    using e by linarith+
qed

lemma plan_bodies:
  assumes "plan c lens base = Some (Inr ms)" "i < j" "j < length ms" "is_original (ms ! i)" "is_original (ms ! j)"
    and "pl_set (ms ! i) = pl_set (ms ! j)" "pl_line (ms ! i) = pl_line (ms ! j)"
  shows "length lens * lens ! pl_set (ms ! i) \<le> j - i"
proof -
  from assms(1) obtain st where l: "laid lens base (lag_slots (pc_rate c) div 2) st" "ps_messages st = ms" "lens \<noteq> []"
    by (rule plan_laid)
  have k: "kth_original lens (originals_in (take x ms)) (ms ! x)" if "x < length ms" "is_original (ms ! x)" for x
    using l that by (simp add: laid_def in_order_def)
  note b = originals_between [OF assms(2) less_imp_le [OF assms(3)] assms(4)]
  from kth_repeats [OF k k b(1) assms(6,7) l(3)] assms b(2) show ?thesis by simp
qed

text \<open>Every planned message is of a line its set has.\<close>

lemma plan_lines:
  assumes "plan c lens base = Some (Inr ms)" "i < length ms"
  shows "pl_set (ms ! i) < length lens \<and> pl_line (ms ! i) < lens ! pl_set (ms ! i)"
proof -
  from assms(1) obtain st where l: "laid lens base (lag_slots (pc_rate c) div 2) st" "ps_messages st = ms" "lens \<noteq> []" "0 \<notin> set lens"
    by (rule plan_laid)
  have o: "pl_set (ms ! x) < length lens \<and> pl_line (ms ! x) < lens ! pl_set (ms ! x)"
    if x: "x < length ms" "is_original (ms ! x)" for x
  proof -
    have "kth_original lens (originals_in (take x ms)) (ms ! x)"
      using l that by (simp add: laid_def in_order_def)
    then have "pl_set (ms ! x) = originals_in (take x ms) mod length lens"
      "pl_line (ms ! x) = originals_in (take x ms) div length lens mod (lens ! pl_set (ms ! x))"
      by (auto simp: kth_original_def Let_def)
    moreover from this(1) have "pl_set (ms ! x) < length lens" using l(3) by simp
    moreover from this have "lens ! pl_set (ms ! x) \<noteq> 0" using l(4) nth_mem by metis
    ultimately show ?thesis by simp
  qed
  show ?thesis
  proof (cases "is_original (ms ! i)")
    case False
    with plan_duplicates [OF assms] obtain slot where "slot < i" "is_original (ms ! slot)" "repeats (ms ! i) (ms ! slot)"
      by (auto simp: is_original_def)
    with o [of slot] assms(2) show ?thesis by (simp add: repeats_def)
  qed (use o assms in simp)
qed

end
