(* ===== verification/Doubles.thy ===== *)
theory Doubles
  imports Harness_Plan
begin

text \<open>
  Exact arithmetic on doubles: a normal positive double is \<open>m * 2 ^ e\<close> in units of \<open>2 ^ -1074\<close>, and an
  operation whose result is such a double rounds nothing.
\<close>

definition dbl :: "nat \<Rightarrow> nat \<Rightarrow> f64" where
  "dbl m e = of_nat (e * 2 ^ 52 + m)"

definition normal :: "nat \<Rightarrow> nat \<Rightarrow> bool" where
  "normal m e \<longleftrightarrow> 2 ^ 52 \<le> m \<and> m < 2 ^ 53 \<and> e < 2046"

lemma dbl_unat: "normal m e \<Longrightarrow> unat (dbl m e) = e * 2 ^ 52 + m"
proof -
  assume "normal m e"
  then have "e * 2 ^ 52 + m < 2 ^ LENGTH(64)" by (simp add: normal_def)
  then show ?thesis unfolding dbl_def by (rule of_nat_inverse [OF refl])
qed

lemma dbl_parts:
  assumes "normal m e"
  shows "f64_exp (dbl m e) = Suc e" "f64_man (dbl m e) = m - 2 ^ 52" "\<not> f64_neg (dbl m e)"
proof -
  from assms obtain k where k: "m = 2 ^ 52 + k" "k < 2 ^ 52" by (auto simp: normal_def le_iff_add)
  define w where "w = dbl m e"
  have u: "unat w = Suc e * 2 ^ 52 + k" using dbl_unat [OF assms] k by (simp add: w_def)
  have l: "unat w < 2 ^ 63" using assms u k by (simp add: normal_def)
  have "unat w div 2 ^ 52 = Suc e" "unat w mod 2 ^ 52 = k" unfolding u using k(2) by (simp_all only: div_mult_self3 mod_mult_self3 div_less mod_less)
  moreover have "m - 2 ^ 52 = k" using k by simp
  ultimately show "f64_exp (dbl m e) = Suc e" "f64_man (dbl m e) = m - 2 ^ 52"
    using l by (simp_all add: f64_exp_def f64_man_def w_def [symmetric])
  have "\<not> bit (unat w) 63" using l by (simp add: bit_iff_odd)
  then show "\<not> f64_neg (dbl m e)"
    by (simp add: f64_neg_def w_def [symmetric] bit_unsigned_iff)
qed

lemma dbl_facts:
  assumes "normal m e"
  shows "\<not> f64_nan (dbl m e)" "\<not> f64_inf (dbl m e)" "f64_finite (dbl m e)" "f64_mag (dbl m e) = m * 2 ^ e"
    "f64_key (dbl m e) = int (m * 2 ^ e)" "0 < m * 2 ^ e"
  using assms dbl_parts [OF assms]
  by (auto simp: f64_nan_def f64_inf_def f64_finite_def f64_mag_def f64_key_def normal_def)

lemma dbl_make: "normal p c \<Longrightarrow> n * 2 ^ 1074 = p * 2 ^ c * d \<Longrightarrow> 0 < d \<Longrightarrow> f64_make False (round_bits n d) = dbl p c"
proof -
  assume a: "normal p c" "n * 2 ^ 1074 = p * 2 ^ c * d" "0 < d"
  then have "round_bits n d = min (2047 * 2 ^ 52) (c * 2 ^ 52 + p)"
    by (intro round_bits_exact) (simp_all add: normal_def)
  then show ?thesis using a(1) by (simp add: f64_make_def dbl_def normal_def)
qed

lemma dbl_of_int: "normal (n * 2 ^ k) c \<Longrightarrow> k + c = 1074 \<Longrightarrow> f64_of_int (int n) = dbl (n * 2 ^ k) c"
  unfolding f64_of_int_def
  by (simp, rule dbl_make, assumption) (simp_all add: mult.assoc flip: power_add)

lemma dbl_mul:
  assumes "normal m e" "normal m' e'" "normal p c" "m * m' = p * 2 ^ k" "k + e + e' = c + 1074"
  shows "f64_mul (dbl m e) (dbl m' e') = dbl p c"
proof -
  have "m * 2 ^ e * (m' * 2 ^ e') * 2 ^ 1074 = m * m' * (2 ^ (e + e' + 1074))" by (simp add: power_add algebra_simps)
  also have "\<dots> = p * 2 ^ (k + e + e' + 1074)" unfolding assms(4) by (simp only: power_add mult.assoc)
  also have "\<dots> = p * 2 ^ c * (2 ^ 1074 * 2 ^ 1074)" unfolding assms(5) by (simp only: power_add mult.assoc)
  finally have "f64_make False (round_bits (m * 2 ^ e * (m' * 2 ^ e')) (2 ^ 1074 * 2 ^ 1074)) = dbl p c"
    by (intro dbl_make [OF assms(3)]) simp_all
  then show ?thesis
    by (simp only: f64_mul_def dbl_facts [OF assms(1)] dbl_facts [OF assms(2)] dbl_parts [OF assms(1)] dbl_parts [OF assms(2)] Let_def simp_thms if_False)
qed

lemma dbl_div:
  assumes "normal m e" "normal m' e'" "normal p c" "m * 2 ^ k = p * m'" "e + 1074 = k + c + e'"
  shows "f64_div (dbl m e) (dbl m' e') = dbl p c"
proof -
  have "m * 2 ^ e * 2 ^ 1074 = m * 2 ^ (e + 1074)" by (simp only: power_add mult.assoc)
  also have "\<dots> = m * 2 ^ k * 2 ^ (c + e')" unfolding assms(5) by (simp only: power_add mult.assoc)
  also have "\<dots> = p * 2 ^ c * (m' * 2 ^ e')" unfolding assms(4) by (simp add: power_add algebra_simps)
  finally have "f64_make False (round_bits (m * 2 ^ e) (m' * 2 ^ e')) = dbl p c"
    by (intro dbl_make [OF assms(3)] dbl_facts(6) [OF assms(2)])
  moreover have "m' * 2 ^ e' \<noteq> 0" using dbl_facts(6) [OF assms(2)] by simp
  ultimately show ?thesis
    by (simp only: f64_div_def dbl_facts [OF assms(1)] dbl_facts [OF assms(2)] dbl_parts [OF assms(1)] dbl_parts [OF assms(2)] Let_def simp_thms if_False)
qed

lemma round_whole: "0 < d \<Longrightarrow> round_half_even (q * d) d = q"
  by (simp add: round_half_even_def)

lemma zero_facts: "f64_key 0 = 0" "\<not> f64_nan 0"
  by (simp_all add: f64_key_def f64_mag_def f64_exp_def f64_man_def f64_neg_def f64_nan_def)

lemma dbl_less:
  assumes n: "normal m e"
  shows "\<not> f64_less (dbl m e) 0" "f64_less 0 (dbl m e)"
proof -
  have "0 < f64_key (dbl m e)" unfolding dbl_facts(5) [OF n] using dbl_facts(6) [OF n] by (simp only: of_nat_0_less_iff)
  then show "\<not> f64_less (dbl m e) 0" "f64_less 0 (dbl m e)"
    using dbl_facts(1) [OF n] by (simp_all add: f64_less_def f64_partial_cmp_def zero_facts cmp_def)
qed

lemma dbl_secs:
  assumes "normal m e" "m * 10 ^ 9 * 2 ^ e = q * 2 ^ 1074" "q < 2 ^ 64 * 10 ^ 9"
  shows "try_from_secs_f64 (dbl m e) = Some q"
proof -
  have "f64_mag (dbl m e) * 10 ^ 9 = q * 2 ^ 1074" using assms(2) by (simp add: dbl_facts [OF assms(1)] ac_simps)
  then have "round_half_even (f64_mag (dbl m e) * 10 ^ 9) (2 ^ 1074) = q" by (simp only: round_whole zero_less_power zero_less_numeral)
  then show ?thesis
    using assms(3) dbl_facts(3) [OF assms(1)] dbl_less(1) [OF assms(1)]
    by (simp only: try_from_secs_f64_def Let_def simp_thms if_False if_True)
qed

end
