(* ===== verification/Harness_Verdict.thy ===== *)
theory Harness_Verdict
  imports Harness_Expect "HOL-Library.Product_Lexorder" "HOL-Library.AList"
begin

text \<open>
  \<open>crates/harness/src/verdict.rs\<close>: the verdict on a load test, the expectations against what the sinks
  wrote and what was dead-lettered. A hash map is an association list; the maps of the report and the
  groups are in the order of their keys, as a \<open>BTreeMap\<close>'s are. The text of an optional header, printed
  for debugging, is an argument.
\<close>

definition MIN_DUPLICATES_DROPPED_PERCENT :: nat where "MIN_DUPLICATES_DROPPED_PERCENT = 80"

definition SHOWN :: nat where "SHOWN = 20"

definition SHOWN_LINE_IDS :: nat where "SHOWN_LINE_IDS = 100"

record written_message =
  wr_subject :: string
  wr_record_id :: "string option"
  wr_tenant :: "string option"
  wr_attributes :: "(string \<times> json) list"

record dead_message =
  dm_record_id :: "string option"

datatype finding = FoundMissing | FoundUnexpected | FoundDeadLettered | FoundEditMismatch | FoundLuaMismatch

fun finding_str :: "finding \<Rightarrow> string" where
  "finding_str FoundMissing = ''missing''"
| "finding_str FoundUnexpected = ''unexpected''"
| "finding_str FoundDeadLettered = ''dead_lettered''"
| "finding_str FoundEditMismatch = ''edit_mismatch''"
| "finding_str FoundLuaMismatch = ''lua_mismatch''"

definition finding_ALL :: "finding list" where
  "finding_ALL = [FoundMissing, FoundUnexpected, FoundDeadLettered, FoundEditMismatch, FoundLuaMismatch]"

record set_report =
  sr_checked :: nat
  sr_mismatched :: nat
  sr_lines :: "nat list"

definition set_report_default :: set_report where
  "set_report_default = \<lparr>sr_checked = 0, sr_mismatched = 0, sr_lines = []\<rparr>"

definition accuracy :: "set_report \<Rightarrow> f64" where
  "accuracy r =
     (if sr_checked r = 0 then f64_of_int 0
      else f64_div (f64_of_int (int (sr_checked r - sr_mismatched r))) (f64_of_int (int (sr_checked r))))"

record report =
  rp_published :: nat
  rp_received :: nat
  rp_expected :: nat
  rp_missing :: nat
  rp_unexpected :: nat
  rp_extra_copies :: nat
  rp_dead_lettered :: nat
  rp_duplicates_planned :: nat
  rp_duplicates_dropped :: nat
  rp_edit_mismatch :: nat
  rp_lua_mismatch :: nat
  rp_sampled_out :: nat
  rp_repeated_on_every_subject :: nat
  rp_sets :: "(string \<times> set_report) list"
  rp_examples :: "finding \<Rightarrow> string list"

definition report_default :: report where
  "report_default =
     \<lparr>rp_published = 0, rp_received = 0, rp_expected = 0, rp_missing = 0, rp_unexpected = 0, rp_extra_copies = 0,
      rp_dead_lettered = 0, rp_duplicates_planned = 0, rp_duplicates_dropped = 0, rp_edit_mismatch = 0,
      rp_lua_mismatch = 0, rp_sampled_out = 0, rp_repeated_on_every_subject = 0, rp_sets = [], rp_examples = (\<lambda>_. [])\<rparr>"

definition report_reached :: "report \<Rightarrow> nat" where
  "report_reached r = rp_expected r - rp_missing r"

definition dedupe_held :: "report \<Rightarrow> bool" where
  "dedupe_held r \<longleftrightarrow> rp_duplicates_planned r * MIN_DUPLICATES_DROPPED_PERCENT \<le> rp_duplicates_dropped r * 100"

definition passed :: "report \<Rightarrow> bool" where
  "passed r \<longleftrightarrow> rp_missing r = 0 \<and> rp_unexpected r = 0 \<and> rp_dead_lettered r = 0 \<and> rp_edit_mismatch r = 0 \<and>
     rp_lua_mismatch r = 0 \<and> dedupe_held r"

definition example :: "finding \<Rightarrow> string \<Rightarrow> report \<Rightarrow> report" where
  "example f text r =
     (if length (rp_examples r f) < SHOWN then r\<lparr>rp_examples := (rp_examples r)(f := rp_examples r f @ [text])\<rparr> else r)"

definition found_unexpected :: "string \<Rightarrow> report \<Rightarrow> report" where
  "found_unexpected text r = example FoundUnexpected text (r\<lparr>rp_unexpected := Suc (rp_unexpected r)\<rparr>)"

definition on_set :: "string \<Rightarrow> (set_report \<Rightarrow> set_report) \<Rightarrow> report \<Rightarrow> report" where
  "on_set name f r =
     r\<lparr>rp_sets := obj_insert name (f (case obj_get (rp_sets r) name of Some s \<Rightarrow> s | None \<Rightarrow> set_report_default)) (rp_sets r)\<rparr>"

text \<open>A decimal id, digits only.\<close>

definition parse_id :: "string option \<Rightarrow> u64 option" where
  "parse_id text =
     (case text of
        Some t \<Rightarrow> if t \<noteq> [] \<and> list_all is_ascii_digit t then parse_u64 t else None
      | None \<Rightarrow> None)"

definition by_id :: "expected list \<Rightarrow> u64 \<Rightarrow> expected option" where
  "by_id es = map_of (rev (map (\<lambda>e. (ex_id e, e)) es))"

definition tally :: "('k \<times> nat) list \<Rightarrow> 'k \<Rightarrow> nat" where
  "tally m k = (case map_of m k of Some n \<Rightarrow> n | None \<Rightarrow> 0)"

definition bump :: "'k \<Rightarrow> ('k \<times> nat) list \<Rightarrow> ('k \<times> nat) list" where
  "bump k m = AList.update k (Suc (tally m k)) m"

section \<open>What was written\<close>

record judging =
  jg_report :: report
  jg_copies :: "((u64 \<times> string) \<times> nat) list"
  jg_group_copies :: "((group \<times> string) \<times> nat) list"
  jg_reached :: "((group \<times> string) \<times> nat) list"
  jg_compared :: "group list"

definition extraction_matches :: "texts \<Rightarrow> expected \<Rightarrow> (string \<times> json) list \<Rightarrow> bool" where
  "extraction_matches tx e attributes \<longleftrightarrow>
     list_all (\<lambda>column.
         map_option (\<lambda>v. normalise column (case v of JStr t \<Rightarrow> t | other \<Rightarrow> tx_json tx other)) (obj_get attributes column) =
           obj_get (ex_attributes e) column)
       (case set_named (ex_set e) of Some s \<Rightarrow> se_columns s | None \<Rightarrow> [])"

definition compare_extraction :: "texts \<Rightarrow> expected \<Rightarrow> (string \<times> json) list \<Rightarrow> set_report \<Rightarrow> set_report" where
  "compare_extraction tx e attributes s =
     (let s = s\<lparr>sr_checked := Suc (sr_checked s)\<rparr>
      in if extraction_matches tx e attributes then s
         else s\<lparr>sr_mismatched := Suc (sr_mismatched s), sr_lines := sort (List.insert (ex_line_id e) (sr_lines s))\<rparr>)"

definition compare_copy :: "texts \<Rightarrow> expected \<Rightarrow> (string \<times> json) list \<Rightarrow> report \<Rightarrow> report" where
  "compare_copy tx e attributes r =
     (let r = on_set (ex_set e) (compare_extraction tx e attributes) r;
          r = (if edits_written_in (ex_edits e) attributes then r
               else example FoundEditMismatch (ex_describe e) (r\<lparr>rp_edit_mismatch := Suc (rp_edit_mismatch r)\<rparr>))
      in if lua_written_in (ex_lua e) attributes then r
         else example FoundLuaMismatch (ex_describe e) (r\<lparr>rp_lua_mismatch := Suc (rp_lua_mismatch r)\<rparr>))"

definition extra_copy :: "judging \<Rightarrow> judging" where
  "extra_copy j = j\<lparr>jg_report := (jg_report j)\<lparr>rp_extra_copies := Suc (rp_extra_copies (jg_report j))\<rparr>\<rparr>"

definition judge_arrival :: "texts \<Rightarrow> expected \<Rightarrow> written_message \<Rightarrow> judging \<Rightarrow> judging" where
  "judge_arrival tx e w j =
     (let at = (ex_group e, wr_subject w);
          j = j\<lparr>jg_group_copies := bump at (jg_group_copies j), jg_copies := bump (ex_id e, wr_subject w) (jg_copies j)\<rparr>
      in if 1 < tally (jg_copies j) (ex_id e, wr_subject w) then extra_copy j
         else (let j = j\<lparr>jg_reached := bump at (jg_reached j)\<rparr>;
                   j = (if 1 < tally (jg_reached j) at then extra_copy j else j)
               in if wr_subject w = MAIN \<and> ex_group e \<notin> set (jg_compared j)
                  then j\<lparr>jg_compared := ex_group e # jg_compared j, jg_report := compare_copy tx e (wr_attributes w) (jg_report j)\<rparr>
                  else j))"

definition judge_written :: "texts \<Rightarrow> (string option \<Rightarrow> string) \<Rightarrow> expected list \<Rightarrow> written_message \<Rightarrow> judging \<Rightarrow> judging" where
  "judge_written tx dbg es w j =
     (case Option.bind (parse_id (wr_record_id w)) (by_id es) of
        None \<Rightarrow>
          j\<lparr>jg_report := found_unexpected (dbg (wr_record_id w) @ '' on '' @ wr_subject w @ '': no published record id'') (jg_report j)\<rparr>
      | Some e \<Rightarrow>
          if wr_subject w \<notin> set (ex_subjects e) \<or> wr_tenant w \<noteq> Some (ex_tenant e)
          then j\<lparr>jg_report := found_unexpected
                  (ex_describe e @ '' on '' @ wr_subject w @ '' under tenant '' @ dbg (wr_tenant w)) (jg_report j)\<rparr>
          else judge_arrival tx e w j)"

section \<open>Group by group\<close>

text \<open>The first expectation of a group, how many ids it has, and how many of them are planned drops.\<close>

definition enter_group :: "expected \<Rightarrow> (group \<times> expected \<times> nat \<times> nat) list \<Rightarrow> (group \<times> expected \<times> nat \<times> nat) list" where
  "enter_group e m =
     (let (head, ids, planned) = (case map_of m (ex_group e) of Some x \<Rightarrow> x | None \<Rightarrow> (e, 0, 0))
      in AList.update (ex_group e) (head, Suc ids, if ex_drop e \<noteq> None then Suc planned else planned) m)"

definition groups_of :: "expected list \<Rightarrow> (group \<times> expected \<times> nat \<times> nat) list" where
  "groups_of es = sort_key fst (fold enter_group es [])"

definition missing_text :: "expected \<Rightarrow> string \<Rightarrow> string" where
  "missing_text e s =
     ex_set e @ '' LineId '' @ show_nat (ex_line_id e) @ '' cycle '' @ show_u64 (ex_cycle e) @ '' never reached '' @ s"

fun judge_subjects :: "((group \<times> string) \<times> nat) list \<Rightarrow> group \<Rightarrow> expected \<Rightarrow> string list \<Rightarrow> report \<Rightarrow> report" where
  "judge_subjects reached g e [] r = r"
| "judge_subjects reached g e (s # ss) r =
     judge_subjects reached g e ss
       (if map_of reached (g, s) \<noteq> None then r
        else example FoundMissing (missing_text e s) (r\<lparr>rp_missing := Suc (rp_missing r)\<rparr>))"

definition judge_dedupe :: "((group \<times> string) \<times> nat) list \<Rightarrow> group \<times> expected \<times> nat \<times> nat \<Rightarrow> report \<Rightarrow> report" where
  "judge_dedupe reached x r =
     (case x of (g, e, ids, planned) \<Rightarrow>
        (case dedupe_subject e of
           None \<Rightarrow> r
         | Some subject \<Rightarrow>
             r\<lparr>rp_duplicates_planned := rp_duplicates_planned r + planned,
               rp_duplicates_dropped := rp_duplicates_dropped r + min (ids - max 1 (tally reached (g, subject))) planned\<rparr>))"

definition judge_group ::
  "((group \<times> string) \<times> nat) list \<Rightarrow> ((group \<times> string) \<times> nat) list \<Rightarrow> group \<times> expected \<times> nat \<times> nat \<Rightarrow> report \<Rightarrow> report"
where
  "judge_group reached group_copies x r =
     (case x of (g, e, ids, planned) \<Rightarrow>
        (let r = judge_subjects reached g e (ex_subjects e) (r\<lparr>rp_expected := rp_expected r + length (ex_subjects e)\<rparr>);
             r = (if MAIN \<notin> set (ex_subjects e) then r\<lparr>rp_sampled_out := Suc (rp_sampled_out r)\<rparr> else r);
             r = (if 1 < length (ex_subjects e) \<and> list_all (\<lambda>s. 1 < tally group_copies (g, s)) (ex_subjects e)
                  then r\<lparr>rp_repeated_on_every_subject := Suc (rp_repeated_on_every_subject r)\<rparr> else r)
         in judge_dedupe reached x r))"

definition judge_dead :: "(string option \<Rightarrow> string) \<Rightarrow> expected list \<Rightarrow> dead_message \<Rightarrow> report \<Rightarrow> report" where
  "judge_dead dbg es d r =
     (case Option.bind (parse_id (dm_record_id d)) (by_id es) of
        Some e \<Rightarrow> example FoundDeadLettered (ex_describe e) (r\<lparr>rp_dead_lettered := Suc (rp_dead_lettered r)\<rparr>)
      | None \<Rightarrow> found_unexpected (''dead letter '' @ dbg (dm_record_id d) @ '': no published record id'') r)"

definition judging_begin :: "expected list \<Rightarrow> judging" where
  "judging_begin es =
     \<lparr>jg_report = fold (\<lambda>e. on_set (ex_set e) id) es (report_default\<lparr>rp_published := length es\<rparr>),
      jg_copies = [], jg_group_copies = [], jg_reached = [], jg_compared = []\<rparr>"

definition judge_where ::
  "texts \<Rightarrow> (string option \<Rightarrow> string) \<Rightarrow> expected list \<Rightarrow> written_message list \<Rightarrow> dead_message list \<Rightarrow> (string option \<Rightarrow> bool)
     \<Rightarrow> report" where
  "judge_where tx dbg es ws ds accepts =
     (let j = fold (judge_written tx dbg es) (filter (\<lambda>w. accepts (wr_record_id w)) ws) (judging_begin es);
          r = (jg_report j)\<lparr>rp_received := length (jg_copies j)\<rparr>;
          r = fold (judge_group (jg_reached j) (jg_group_copies j)) (groups_of es) r
      in fold (judge_dead dbg es) (filter (\<lambda>d. accepts (dm_record_id d)) ds) r)"

definition judge ::
  "texts \<Rightarrow> (string option \<Rightarrow> string) \<Rightarrow> expected list \<Rightarrow> written_message list \<Rightarrow> dead_message list \<Rightarrow> report" where
  "judge tx dbg es ws ds = judge_where tx dbg es ws ds (\<lambda>_. True)"

definition judge_so_far ::
  "texts \<Rightarrow> (string option \<Rightarrow> string) \<Rightarrow> expected list \<Rightarrow> written_message list \<Rightarrow> dead_message list \<Rightarrow> report" where
  "judge_so_far tx dbg es ws ds =
     judge_where tx dbg es ws ds
       (\<lambda>i. case parse_id i of None \<Rightarrow> True | Some n \<Rightarrow> n \<in> set (map ex_id es))"

section \<open>The summary\<close>

definition padded :: "nat \<Rightarrow> string \<Rightarrow> string" where
  "padded n s = s @ replicate (n - length (utf8_chars s)) CHR '' ''"

definition NL :: string where "NL = [CHR 0x0A]"

text \<open>\<open>percent\<close> prints a share with three decimals.\<close>

definition set_display :: "(f64 \<Rightarrow> string) \<Rightarrow> string \<times> set_report \<Rightarrow> string" where
  "set_display percent x =
     (case x of (name, s) \<Rightarrow>
        (let shown = take SHOWN_LINE_IDS (map show_nat (sr_lines s)); more = length (sr_lines s) - length shown
         in ''  '' @ padded 8 name @ '' '' @ percent (f64_mul (accuracy s) (f64_of_int 100)) @ ''% of '' @
            show_nat (sr_checked s) @ '' groups, '' @ show_nat (sr_mismatched s) @ '' mismatched'' @ NL @
            (if sr_lines s = [] then []
             else ''    distinct LineIds: '' @ join '', '' shown @
               (if 0 < more then '' (+'' @ show_nat more @ '' more)'' else []) @ NL)))"

definition report_display :: "(f64 \<Rightarrow> string) \<Rightarrow> report \<Rightarrow> string" where
  "report_display percent r =
     concat (map (\<lambda>(name, n). name @ show_nat n @ NL)
       [(''published      '', rp_published r), (''received       '', rp_received r), (''expected       '', rp_expected r),
        (''missing        '', rp_missing r), (''unexpected     '', rp_unexpected r), (''dead_lettered  '', rp_dead_lettered r),
        (''edit_mismatch  '', rp_edit_mismatch r), (''lua_mismatch   '', rp_lua_mismatch r), (''sampled_out    '', rp_sampled_out r),
        (''extra_copies   '', rp_extra_copies r), (''repeated_on_every_subject '', rp_repeated_on_every_subject r)]) @
     ''dedupe         dropped '' @ show_nat (rp_duplicates_dropped r) @ '' of '' @ show_nat (rp_duplicates_planned r) @
     '' planned duplicates (at least '' @ show_nat MIN_DUPLICATES_DROPPED_PERCENT @ ''%: '' @
     (if dedupe_held r then ''held'' else ''FAILED'') @ '')'' @ NL @
     ''extraction by set:'' @ NL @ concat (map (set_display percent) (rp_sets r)) @
     concat (map (\<lambda>f. if rp_examples r f = [] then []
         else finding_str f @ '':'' @ NL @ concat (map (\<lambda>line. ''  '' @ line @ NL) (rp_examples r f))) finding_ALL) @
     ''verdict: '' @ (if passed r then ''PASS'' else ''FAIL'')"

end
