(* ===== verification/Harness_Producer.thy ===== *)
theory Harness_Producer
  imports Harness_Plan Nats_Headers
begin

text \<open>
  \<open>crates/harness/src/cli.rs\<close>, the flags of the harness binaries, and \<open>bin/loghub_producer.rs\<close>: what it
  publishes, and which expectations it writes. Connecting, sleeping and spawning are I/O: a run is over
  the instants the messages were sent at and the outcomes of their publishes in the order they settled.
\<close>

section \<open>Flags\<close>

definition DEFAULT_EXPECTATIONS :: string where "DEFAULT_EXPECTATIONS = ''target/loghub/expectations.jsonl''"

definition DEFAULT_NATS_URL :: string where "DEFAULT_NATS_URL = ''nats://127.0.0.1:4222''"

type_synonym flags = "(string \<times> string) list"

fun parse_flags :: "string list \<Rightarrow> string list \<Rightarrow> flags \<Rightarrow> string + flags" where
  "parse_flags known [] m = Inr m"
| "parse_flags known (flag # args) m =
     (if flag \<notin> set known then Inl (''unknown flag `'' @ flag @ ''`; known: '' @ join '' '' known)
      else case args of
          [] \<Rightarrow> Inl (''`'' @ flag @ ''` needs a value'')
        | v # args \<Rightarrow>
            if obj_get m flag \<noteq> None then Inl (''`'' @ flag @ ''` given twice'')
            else parse_flags known args (obj_insert flag v m))"

definition flag_expectations :: "flags \<Rightarrow> string" where
  "flag_expectations m = (case obj_get m ''--expectations'' of Some p \<Rightarrow> p | None \<Rightarrow> DEFAULT_EXPECTATIONS)"

text \<open>The value of \<open>NATS_URL\<close>, if the environment has it, is an argument.\<close>

definition flag_nats_url :: "string option \<Rightarrow> flags \<Rightarrow> string" where
  "flag_nats_url env m =
     (case obj_get m ''--nats-url'' of Some u \<Rightarrow> u | None \<Rightarrow> (case env of Some u \<Rightarrow> u | None \<Rightarrow> DEFAULT_NATS_URL))"

definition flag_value :: "(string \<Rightarrow> 'a option) \<Rightarrow> flags \<Rightarrow> string \<Rightarrow> 'a \<Rightarrow> string + 'a" where
  "flag_value from_str m flag dflt =
     (case obj_get m flag of
        None \<Rightarrow> Inr dflt
      | Some text \<Rightarrow>
          (case from_str text of
             Some v \<Rightarrow> Inr v
           | None \<Rightarrow> Inl (''`'' @ flag @ '' '' @ text @ ''` is not a valid value'')))"

definition cli_duration :: "string \<Rightarrow> string + duration" where
  "cli_duration text =
     (let invalid = Inl (''`'' @ text @ ''` is not a duration like `2s` or `500ms`'')
      in case (case strip_suffix ''ms'' text of
                 Some ms \<Rightarrow> Some (ms, 0x3f50624dd2f1a9fc)
               | None \<Rightarrow> map_option (\<lambda>s. (s, 0x3ff0000000000000)) (strip_suffix ''s'' text)) of
           None \<Rightarrow> invalid
         | Some (number, scale) \<Rightarrow>
             (case parse_f64 number of
                None \<Rightarrow> invalid
              | Some v \<Rightarrow> (case try_from_secs_f64 (f64_mul v scale) of None \<Rightarrow> invalid | Some d \<Rightarrow> Inr d)))"

section \<open>Options\<close>

definition producer_FLAGS :: "string list" where
  "producer_FLAGS =
     [''--rate'', ''--count'', ''--datasets'', ''--dup-percent'', ''--seed'', ''--dedupe-window'', ''--expectations'',
      ''--nats-url'', ''--testdata'']"

definition TRIES :: nat where "TRIES = 4"

record producer_options =
  po_config :: plan_config
  po_sets :: "log_set list"
  po_expectations :: string
  po_nats_url :: string
  po_testdata :: string

fun sets_named :: "string list \<Rightarrow> string + log_set list" where
  "sets_named [] = Inr []"
| "sets_named (name # names) =
     (case set_named name of
        None \<Rightarrow> Inl (''unknown dataset `'' @ name @ ''`'')
      | Some s \<Rightarrow> map_sum id (Cons s) (sets_named names))"

definition producer_config :: "flags \<Rightarrow> string + plan_config" where
  "producer_config m =
     (let d = plan_config_default in
      case flag_value parse_f64 m ''--rate'' (pc_rate d) of Inl e \<Rightarrow> Inl e | Inr rate \<Rightarrow>
      case flag_value (parse_unsigned 64) m ''--count'' (pc_count d) of Inl e \<Rightarrow> Inl e | Inr many \<Rightarrow>
      case flag_value (\<lambda>t. map_option of_nat (parse_unsigned 8 t)) m ''--dup-percent'' (pc_dup_percent d) of
        Inl e \<Rightarrow> Inl e | Inr dup \<Rightarrow>
      case flag_value parse_u64 m ''--seed'' (pc_seed d) of Inl e \<Rightarrow> Inl e | Inr seed \<Rightarrow>
      case (case obj_get m ''--dedupe-window'' of None \<Rightarrow> Inr (pc_dedupe_window d) | Some t \<Rightarrow> cli_duration t) of
        Inl e \<Rightarrow> Inl e | Inr window \<Rightarrow>
      Inr \<lparr>pc_rate = rate, pc_count = many, pc_dup_percent = dup, pc_seed = seed, pc_dedupe_window = window\<rparr>)"

definition producer_options_from :: "string option \<Rightarrow> string \<Rightarrow> string list \<Rightarrow> string + producer_options" where
  "producer_options_from env testdata args =
     (case parse_flags producer_FLAGS args [] of
        Inl e \<Rightarrow> Inl e
      | Inr m \<Rightarrow>
          (case producer_config m of
             Inl e \<Rightarrow> Inl e
           | Inr config \<Rightarrow>
               (case sets_named (split_on CHR '','' (case obj_get m ''--datasets'' of
                    Some t \<Rightarrow> t | None \<Rightarrow> ''Linux,OpenSSH,Apache,Mac'')) of
                  Inl e \<Rightarrow> Inl e
                | Inr sets \<Rightarrow>
                    Inr \<lparr>po_config = config, po_sets = sets, po_expectations = flag_expectations m,
                         po_nats_url = flag_nats_url env m,
                         po_testdata = (case obj_get m ''--testdata'' of Some t \<Rightarrow> t | None \<Rightarrow> testdata)\<rparr>)))"

section \<open>Publishing\<close>

type_synonym loaded = "log_set \<times> log_line list"

record publish =
  pb_subject :: string
  pb_headers :: "(string \<times> string) list"
  pb_payload :: json
  pb_expectation :: expected

definition publish_new :: "planned \<Rightarrow> loaded list \<Rightarrow> u64 \<Rightarrow> publish" where
  "publish_new m loaded observed =
     (let (s, lines) = loaded ! pl_set m; l = lines ! pl_line m
      in \<lparr>pb_subject = ''logs.'' @ se_tenant s @ ''.loghub'',
          pb_headers = [(RECORD_ID, show_u64 (pl_id m)), (MSG_ID, show_u64 (pl_id m))],
          pb_payload = payload s l (pl_cycle m) observed,
          pb_expectation = expectation (pl_id m) s l (pl_cycle m) (pl_dup_of m)\<rparr>)"

text \<open>A publish is tried until the server acks it: \<open>answers\<close> is what each try came to.\<close>

type_synonym sent = "(expected \<times> string) + (expected \<times> nat)"

fun publish_tries :: "(nat \<Rightarrow> string option) \<Rightarrow> expected \<Rightarrow> nat \<Rightarrow> nat \<Rightarrow> string \<Rightarrow> sent" where
  "publish_tries answers e attempt 0 err = Inl (e, err)"
| "publish_tries answers e attempt (Suc left) err =
     (case answers attempt of
        None \<Rightarrow> Inr (e, attempt + 1)
      | Some err \<Rightarrow> publish_tries answers e (Suc attempt) left err)"

definition publish_send :: "(nat \<Rightarrow> string option) \<Rightarrow> publish \<Rightarrow> sent" where
  "publish_send answers p = publish_tries answers (pb_expectation p) 0 TRIES []"

record producer_tally =
  ty_acked :: nat
  ty_failed :: nat
  ty_retried :: nat
  ty_max_dup_lag :: duration
  ty_min_repeat :: "duration option"

definition producer_tally_default :: producer_tally where
  "producer_tally_default = \<lparr>ty_acked = 0, ty_failed = 0, ty_retried = 0, ty_max_dup_lag = 0, ty_min_repeat = None\<rparr>"

record sending =
  sn_tally :: producer_tally
  sn_sent_at :: "u64 \<Rightarrow> nat option"
  sn_last_original :: "nat \<times> nat \<Rightarrow> nat option"

text \<open>One message is sent at \<open>now\<close>.\<close>

definition note_sent :: "planned \<times> nat \<Rightarrow> sending \<Rightarrow> sending" where
  "note_sent x st =
     (let (m, now) = x; t = sn_tally st;
          st = (case pl_dup_of m of
              Some original \<Rightarrow>
                (case sn_sent_at st original of
                   Some at \<Rightarrow> st\<lparr>sn_tally := t\<lparr>ty_max_dup_lag := max (ty_max_dup_lag t) (now - at)\<rparr>\<rparr>
                 | None \<Rightarrow> st)
            | None \<Rightarrow>
                (let at = (pl_set m, pl_line m);
                     st' = st\<lparr>sn_last_original := (sn_last_original st)(at \<mapsto> now)\<rparr>
                 in case sn_last_original st at of
                      Some previous \<Rightarrow>
                        (let gap = now - previous
                         in st'\<lparr>sn_tally := t\<lparr>ty_min_repeat :=
                              Some (case ty_min_repeat t of Some g \<Rightarrow> min g gap | None \<Rightarrow> gap)\<rparr>\<rparr>)
                    | None \<Rightarrow> st'))
      in st\<lparr>sn_sent_at := (sn_sent_at st)(pl_id m \<mapsto> now)\<rparr>)"

text \<open>A publish that ended: its expectation is a line of the file once it was acked. A task that
  panicked, or a line that cannot be written, ends the run.\<close>

definition settle_publish :: "string + sent \<Rightarrow> producer_tally \<times> expected list \<Rightarrow> string + producer_tally \<times> expected list" where
  "settle_publish joined x =
     (let (t, out) = x in
      case joined of
        Inl err \<Rightarrow> Inl (''a publish task failed: '' @ err)
      | Inr (Inr (e, tries)) \<Rightarrow>
          Inr (t\<lparr>ty_acked := Suc (ty_acked t), ty_retried := (if 1 < tries then Suc (ty_retried t) else ty_retried t)\<rparr>,
               out @ [e])
      | Inr (Inl (e, err)) \<Rightarrow> Inr (t\<lparr>ty_failed := Suc (ty_failed t)\<rparr>, out))"

fun settle_publishes ::
  "(string + sent) list \<Rightarrow> producer_tally \<times> expected list \<Rightarrow> string + producer_tally \<times> expected list" where
  "settle_publishes [] x = Inr x"
| "settle_publishes (j # js) x = (case settle_publish j x of Inl e \<Rightarrow> Inl e | Inr x \<Rightarrow> settle_publishes js x)"

definition timing_ok :: "plan_config \<Rightarrow> producer_tally \<Rightarrow> bool" where
  "timing_ok c t \<longleftrightarrow>
     ty_max_dup_lag t \<le> DUP_LAG \<and>
     (case ty_min_repeat t of None \<Rightarrow> True | Some gap \<Rightarrow> pc_dedupe_window c + DUP_LAG + REPEAT_MARGIN \<le> gap) \<and>
     ty_retried t = 0"

datatype producer_outcome = Published | ProducerFailed

text \<open>What the file holds in the end, and the outcome for the done marker.\<close>

definition producer_run :: "plan_config \<Rightarrow> (planned \<times> nat) list \<Rightarrow> (string + sent) list \<Rightarrow> string + expected list \<times> producer_outcome" where
  "producer_run c messages joined =
     (let st = fold note_sent messages
          \<lparr>sn_tally = producer_tally_default, sn_sent_at = Map.empty, sn_last_original = Map.empty\<rparr>
      in case settle_publishes joined (sn_tally st, []) of
           Inl e \<Rightarrow> Inl e
         | Inr (t, out) \<Rightarrow> Inr (out, if ty_failed t = 0 \<and> timing_ok c t then Published else ProducerFailed))"

section \<open>Facts\<close>

text \<open>The flags that parse are pairs of known names, each at most once.\<close>

lemma obj_get_Some_keys: "obj_get m k \<noteq> None \<longleftrightarrow> k \<in> fst ` set m"
  by (simp add: obj_get_def map_of_eq_None_iff)

lemma parse_flags_pairs:
  "parse_flags known args m = Inr m' \<Longrightarrow>
   \<exists>ps. args = concat (map (\<lambda>(f, v). [f, v]) ps) \<and> set (map fst ps) \<subseteq> set known \<and> distinct (map fst ps) \<and>
     set (map fst ps) \<inter> dom (obj_get m) = {} \<and> obj_get m' = obj_get m ++ map_of ps"
proof (induction known args m rule: parse_flags.induct)
  case (1 known m)
  then show ?case by (intro exI [of _ "[]"]) simp
next
  case (2 known flag args m)
  then obtain v rest where a: "args = v # rest" "flag \<in> set known" "obj_get m flag = None"
    "parse_flags known rest (obj_insert flag v m) = Inr m'"
    by (auto split: if_splits list.splits)
  have "\<exists>ps. rest = concat (map (\<lambda>(f, v). [f, v]) ps) \<and> set (map fst ps) \<subseteq> set known \<and> distinct (map fst ps) \<and>
      set (map fst ps) \<inter> dom (obj_get (obj_insert flag v m)) = {} \<and>
      obj_get m' = obj_get (obj_insert flag v m) ++ map_of ps"
    by (rule "2.IH" [OF _ a(1) _ a(4)]) (use a in simp_all)
  then obtain ps where ps: "rest = concat (map (\<lambda>(f, v). [f, v]) ps)" "set (map fst ps) \<subseteq> set known"
    "distinct (map fst ps)" "set (map fst ps) \<inter> dom (obj_get (obj_insert flag v m)) = {}"
    "obj_get m' = obj_get (obj_insert flag v m) ++ map_of ps"
    by blast
  have g: "obj_get (obj_insert flag v m) = (obj_get m)(flag \<mapsto> v)" by (rule ext) simp
  from ps(4) have f: "flag \<notin> fst ` set ps" "fst ` set ps \<inter> dom (obj_get m) = {}" unfolding g by auto
  have new: "obj_get m' = obj_get m ++ map_of ((flag, v) # ps)"
    using ps(5) f(1) unfolding g by (auto simp: fun_eq_iff map_add_def map_of_eq_None_iff [symmetric] split: option.split)
  show ?case
  proof (intro exI conjI)
    show "obj_get m' = obj_get m ++ map_of ((flag, v) # ps)" by (rule new)
  qed (use a(1-3) ps(1-3) f in auto)
qed

text \<open>The file lists the messages that were acked, in the order they settled, and the run counts as
  published only when none failed or was retried.\<close>

lemma settle_publishes_file:
  assumes "settle_publishes joined (t, out) = Inr (t', out')"
  shows "list_all (\<lambda>j. \<exists>s. j = Inr s) joined \<and>
    out' = out @ concat (map (\<lambda>j. case j of Inr (Inr (e, n)) \<Rightarrow> [e] | _ \<Rightarrow> []) joined) \<and>
    ty_failed t' = ty_failed t + length (filter (\<lambda>j. \<exists>x. j = Inr (Inl x)) joined) \<and>
    ty_retried t' = ty_retried t + length (filter (\<lambda>j. \<exists>e n. j = Inr (Inr (e, n)) \<and> 1 < n) joined) \<and>
    ty_max_dup_lag t' = ty_max_dup_lag t \<and> ty_min_repeat t' = ty_min_repeat t"
  using assms
proof (induction joined arbitrary: t out)
  case (Cons j js)
  then obtain t1 out1 where s: "settle_publish j (t, out) = Inr (t1, out1)" "settle_publishes js (t1, out1) = Inr (t', out')"
    by (auto split: sum.splits)
  from Cons.IH [OF s(2)] s(1) show ?case
    by (auto simp: settle_publish_def split: sum.splits prod.splits if_splits)
qed simp

lemma producer_file:
  assumes "producer_run c messages joined = Inr (out, outcome)"
  shows "out = concat (map (\<lambda>j. case j of Inr (Inr (e, n)) \<Rightarrow> [e] | _ \<Rightarrow> []) joined)"
    "outcome = Published \<Longrightarrow> \<forall>j \<in> set joined. \<exists>e n. j = Inr (Inr (e, n)) \<and> n \<le> 1"
proof -
  from assms obtain t where s: "settle_publishes joined
      (sn_tally (fold note_sent messages \<lparr>sn_tally = producer_tally_default, sn_sent_at = Map.empty, sn_last_original = Map.empty\<rparr>), []) =
      Inr (t, out)" "outcome = (if ty_failed t = 0 \<and> timing_ok c t then Published else ProducerFailed)"
    by (auto simp: producer_run_def Let_def split: sum.splits)
  note f = settle_publishes_file [OF s(1)]
  show "out = concat (map (\<lambda>j. case j of Inr (Inr (e, n)) \<Rightarrow> [e] | _ \<Rightarrow> []) joined)" using f by simp
  assume "outcome = Published"
  then have "ty_failed t = 0" "ty_retried t = 0" using s(2) by (simp_all add: timing_ok_def split: if_splits)
  then have e: "filter (\<lambda>j. \<exists>x. j = Inr (Inl x)) joined = []" "filter (\<lambda>j. \<exists>e n. j = Inr (Inr (e, n)) \<and> 1 < n) joined = []"
    using f by simp_all
  show "\<forall>j \<in> set joined. \<exists>e n. j = Inr (Inr (e, n)) \<and> n \<le> 1"
  proof
    fix j
    assume j: "j \<in> set joined"
    with f obtain x where x: "j = Inr x" by (auto simp: list_all_iff)
    with e j show "\<exists>e n. j = Inr (Inr (e, n)) \<and> n \<le> 1"
      by (cases x) (auto simp: filter_empty_conv not_less)
  qed
qed

text \<open>A publish is tried at most four times, and what it counts is the tries made.\<close>

lemma publish_tries_counts:
  "publish_tries answers e attempt left err = Inr (e', n) \<Longrightarrow>
     e' = e \<and> attempt < n \<and> n \<le> attempt + left \<and> answers (n - 1) = None \<and> (\<forall>i. attempt \<le> i \<and> i < n - 1 \<longrightarrow> answers i \<noteq> None)"
proof (induction answers e attempt left err rule: publish_tries.induct)
  case (2 answers e attempt left err)
  show ?case
  proof (cases "answers attempt")
    case (Some err')
    then have "publish_tries answers e (Suc attempt) left err' = Inr (e', n)" using "2.prems" by simp
    from "2.IH" [OF Some this] have ih: "e' = e" "Suc attempt < n" "n \<le> Suc attempt + left" "answers (n - 1) = None"
      "\<And>i. Suc attempt \<le> i \<Longrightarrow> i < n - 1 \<Longrightarrow> answers i \<noteq> None"
      by blast+
    have "answers i \<noteq> None" if "attempt \<le> i" "i < n - 1" for i
      using that Some ih(5) [of i] by (cases "i = attempt") simp_all
    with ih show ?thesis by simp
  qed (use "2.prems" in auto)
qed simp

end
