(* ===== verification/Harness_Verifier.thy ===== *)
theory Harness_Verifier
  imports Harness_Verdict Harness_Producer
begin

text \<open>
  \<open>crates/harness/src/follow.rs\<close> and \<open>bin/loghub_verifier.rs\<close>: a run is followed while it happens. The
  verifier polls once a second; what a poll finds (the messages that came in, the expectations file, the
  done marker, the consumer and the ends of the streams) is an argument, and one turn of its loop is a
  step. Parsing a line of the file and the text of an error are parameters; an \<open>Instant\<close> is nanoseconds.
\<close>

section \<open>The expectations file\<close>

definition LF :: char where "LF = CHR 0x0A"

definition starts :: "string \<Rightarrow> string" where
  "starts s = rev (dropWhile (\<lambda>c. c \<noteq> LF) (rev s))"

definition ends :: "string \<Rightarrow> string" where
  "ends s = rev (takeWhile (\<lambda>c. c \<noteq> LF) (rev s))"

text \<open>\<open>LineBuffer::push\<close>: the lines that are complete, and what is held back.\<close>

definition line_push :: "string \<Rightarrow> string \<Rightarrow> string list \<times> string" where
  "line_push partial bytes =
     (let all = partial @ bytes
      in if LF \<notin> set all then ([], all)
         else (filter (\<lambda>l. l \<noteq> []) (split_on LF (starts all)), ends all))"

record tail =
  tl_path :: string
  tl_opened :: bool
  tl_read :: nat
  tl_lines :: nat
  tl_buffer :: string
  tl_expectations :: "expected list"

definition tail_new :: "string \<Rightarrow> tail" where
  "tail_new path =
     \<lparr>tl_path = path, tl_opened = False, tl_read = 0, tl_lines = 0, tl_buffer = [], tl_expectations = []\<rparr>"

definition tail_ends_whole :: "tail \<Rightarrow> bool" where
  "tail_ends_whole t \<longleftrightarrow> tl_buffer t = []"

fun take_lines :: "(string \<Rightarrow> string + expected) \<Rightarrow> string list \<Rightarrow> tail \<Rightarrow> string + tail" where
  "take_lines parse [] t = Inr t"
| "take_lines parse (line # lines) t =
     (let t = t\<lparr>tl_lines := Suc (tl_lines t)\<rparr>
      in case parse line of
           Inl err \<Rightarrow> Inl (tl_path t @ '':'' @ show_nat (tl_lines t) @ '': '' @ err)
         | Inr e \<Rightarrow> take_lines parse lines (t\<lparr>tl_expectations := tl_expectations t @ [e]\<rparr>))"

text \<open>The file is \<open>Inr None\<close> while it is not there; once opened it is what it holds. The JSON parser is
  handed the line, made UTF-8 if it is not.\<close>

definition tail_read :: "(string \<Rightarrow> string + expected) \<Rightarrow> string + string option \<Rightarrow> tail \<Rightarrow> string + tail" where
  "tail_read parse file t =
     (case file of
        Inl err \<Rightarrow> Inl (tl_path t @ '': '' @ err)
      | Inr None \<Rightarrow> Inr t
      | Inr (Some content) \<Rightarrow>
          (let t = t\<lparr>tl_opened := True\<rparr>
           in if length content < tl_read t
              then Inl (tl_path t @ '': rewritten while it was read; remove it before a run'')
              else (let bytes = drop (tl_read t) content;
                        (lines, buffer) = line_push (tl_buffer t) bytes
                    in take_lines parse lines (t\<lparr>tl_read := tl_read t + length bytes, tl_buffer := buffer\<rparr>))))"

section \<open>The done marker and the ends of a stream\<close>

fun producer_outcome_str :: "producer_outcome \<Rightarrow> string" where
  "producer_outcome_str Published = ''published''"
| "producer_outcome_str ProducerFailed = ''failed''"

definition producer_outcome_ALL :: "producer_outcome list" where
  "producer_outcome_ALL = [Published, ProducerFailed]"

definition done_marker :: "string \<Rightarrow> string" where "done_marker path = path @ ''.done''"

definition done_text :: "producer_outcome \<Rightarrow> string" where "done_text o' = producer_outcome_str o' @ [LF]"

definition parse_done :: "string \<Rightarrow> producer_outcome option" where
  "parse_done text = (let text = trim_text text in List.find (\<lambda>o'. producer_outcome_str o' = text) producer_outcome_ALL)"

record stream_end =
  sd_messages :: u64
  sd_last_sequence :: u64

definition stream_reached :: "stream_end \<Rightarrow> u64 option \<Rightarrow> bool" where
  "stream_reached e seen \<longleftrightarrow> sd_messages e = 0 \<or> (case seen of None \<Rightarrow> False | Some s \<Rightarrow> sd_last_sequence e \<le> s)"

section \<open>The loop\<close>

definition SETTLED_POLLS :: nat where "SETTLED_POLLS = 3"

definition POLL :: duration where "POLL = 10 ^ 9"

definition TICK :: duration where "TICK = 5 * 10 ^ 9"

definition READ_TIMEOUT :: duration where "READ_TIMEOUT = 60 * 10 ^ 9"

record verifier_options =
  vo_expectations :: string
  vo_nats_url :: string
  vo_producer_timeout :: duration
  vo_settle_timeout :: duration

definition verifier_FLAGS :: "string list" where
  "verifier_FLAGS = [''--expectations'', ''--nats-url'', ''--producer-timeout'', ''--settle-timeout'']"

definition flag_timeout :: "flags \<Rightarrow> string \<Rightarrow> nat \<Rightarrow> string + duration" where
  "flag_timeout m flag secs = (case obj_get m flag of None \<Rightarrow> Inr (secs * 10 ^ 9) | Some t \<Rightarrow> cli_duration t)"

definition verifier_options_from :: "string option \<Rightarrow> string list \<Rightarrow> string + verifier_options" where
  "verifier_options_from env args =
     (case parse_flags verifier_FLAGS args [] of
        Inl e \<Rightarrow> Inl e
      | Inr m \<Rightarrow>
          (case flag_timeout m ''--producer-timeout'' 600 of
             Inl e \<Rightarrow> Inl e
           | Inr producer \<Rightarrow>
               (case flag_timeout m ''--settle-timeout'' 120 of
                  Inl e \<Rightarrow> Inl e
                | Inr settle \<Rightarrow>
                    Inr \<lparr>vo_expectations = flag_expectations m, vo_nats_url = flag_nats_url env m,
                         vo_producer_timeout = producer, vo_settle_timeout = settle\<rparr>)))"

datatype stream_item = ItemWritten u64 written_message | ItemDead u64 dead_message | ItemFailed string

datatype phase =
    Producing
  | Settling nat nat
  | Reading stream_end stream_end nat

text \<open>What one turn of the loop finds: a failure of reading the marker or the consumer is its message.\<close>

record poll =
  at_items :: "stream_item list"
  at_file :: "string + string option"
  at_now :: nat
  at_marker :: "string + string option"
  at_consumer :: "string + (nat \<times> nat)"
  at_ends :: "string + (stream_end \<times> stream_end)"

record observing =
  ob_tail :: tail
  ob_written :: "written_message list"
  ob_dead :: "dead_message list"
  ob_seen_sinks :: "u64 option"
  ob_seen_dead :: "u64 option"
  ob_next_tick :: nat
  ob_phase :: phase
  ob_sent :: "report list"

definition seen_max :: "u64 option \<Rightarrow> u64 \<Rightarrow> u64 option" where
  "seen_max seen n = Some (case seen of None \<Rightarrow> n | Some s \<Rightarrow> max s n)"

fun take_items :: "stream_item list \<Rightarrow> observing \<Rightarrow> string + observing" where
  "take_items [] st = Inr st"
| "take_items (ItemWritten n w # items) st =
     take_items items (st\<lparr>ob_seen_sinks := seen_max (ob_seen_sinks st) n, ob_written := ob_written st @ [w]\<rparr>)"
| "take_items (ItemDead n d # items) st =
     take_items items (st\<lparr>ob_seen_dead := seen_max (ob_seen_dead st) n, ob_dead := ob_dead st @ [d]\<rparr>)"
| "take_items (ItemFailed message # items) st = Inl message"

text \<open>The judgement so far, sent to the exporter every \<open>TICK\<close>.\<close>

definition observe_tick :: "texts \<Rightarrow> (string option \<Rightarrow> string) \<Rightarrow> nat \<Rightarrow> observing \<Rightarrow> observing" where
  "observe_tick tx dbg now st =
     (if ob_next_tick st \<le> now
      then st\<lparr>ob_sent := ob_sent st @ [judge_so_far tx dbg (tl_expectations (ob_tail st)) (ob_written st) (ob_dead st)],
              ob_next_tick := now + TICK\<rparr>
      else st)"

definition read_marker :: "(string \<Rightarrow> string) \<Rightarrow> string \<Rightarrow> string + string option \<Rightarrow> string + producer_outcome option" where
  "read_marker dbg marker found =
     (case found of
        Inl err \<Rightarrow> Inl (marker @ '': '' @ err)
      | Inr None \<Rightarrow> Inr None
      | Inr (Some text) \<Rightarrow>
          (case parse_done text of
             Some o' \<Rightarrow> Inr (Some o')
           | None \<Rightarrow> Inl (marker @ '': unreadable marker '' @ dbg text)))"

datatype turn = Turn phase | Break

text \<open>The messages of the errors; durations and sequences are printed with \<open>{:?}\<close>.\<close>

record verifier_texts =
  vt_string :: "string \<Rightarrow> string"
  vt_duration :: "duration \<Rightarrow> string"
  vt_seen :: "u64 option \<Rightarrow> string"

definition turn_producing :: "verifier_texts \<Rightarrow> verifier_options \<Rightarrow> nat \<Rightarrow> poll \<Rightarrow> string + turn" where
  "turn_producing vt o' start p =
     (let marker = done_marker (vo_expectations o')
      in case read_marker (vt_string vt) marker (at_marker p) of
           Inl e \<Rightarrow> Inl e
         | Inr (Some Published) \<Rightarrow> Inr (Turn (Settling 0 (at_now p + vo_settle_timeout o')))
         | Inr (Some ProducerFailed) \<Rightarrow> Inl ''the producer did not publish its plan; the run is not judged''
         | Inr None \<Rightarrow>
             if start + vo_producer_timeout o' \<le> at_now p
             then Inl (''the producer did not finish within '' @ vt_duration vt (vo_producer_timeout o') @ '': no '' @ marker)
             else Inr (Turn Producing))"

definition turn_settling :: "verifier_texts \<Rightarrow> verifier_options \<Rightarrow> nat \<Rightarrow> nat \<Rightarrow> poll \<Rightarrow> string + turn" where
  "turn_settling vt o' clean deadline p =
     (case at_consumer p of
        Inl err \<Rightarrow> Inl (''consumer LOGS/pipeline: '' @ err)
      | Inr (pending, unacked) \<Rightarrow>
          (let clean = (if pending = 0 \<and> unacked = 0 then clean + 1 else 0)
           in if SETTLED_POLLS \<le> clean
              then (case at_ends p of
                      Inl err \<Rightarrow> Inl err
                    | Inr (sinks, dead) \<Rightarrow> Inr (Turn (Reading sinks dead (at_now p + READ_TIMEOUT))))
              else if deadline \<le> at_now p
              then Inl (''the pipeline did not settle within '' @ vt_duration vt (vo_settle_timeout o') @ '': '' @
                     show_nat pending @ '' pending, '' @ show_nat unacked @ '' awaiting ack'')
              else Inr (Turn (Settling clean deadline))))"

definition turn_reading ::
  "verifier_texts \<Rightarrow> stream_end \<Rightarrow> stream_end \<Rightarrow> nat \<Rightarrow> nat \<Rightarrow> observing \<Rightarrow> string + turn" where
  "turn_reading vt sinks dead deadline now st =
     (if stream_reached sinks (ob_seen_sinks st) \<and> stream_reached dead (ob_seen_dead st) then Inr Break
      else if deadline \<le> now
      then Inl (''the streams were not read to their end within '' @ vt_duration vt READ_TIMEOUT @ '': PROCESSED at '' @
             vt_seen vt (ob_seen_sinks st) @ '' of '' @ show_u64 (sd_last_sequence sinks) @ '', DLQ at '' @
             vt_seen vt (ob_seen_dead st) @ '' of '' @ show_u64 (sd_last_sequence dead))
      else Inr (Turn (Reading sinks dead deadline)))"

definition observe_turn ::
  "verifier_texts \<Rightarrow> verifier_options \<Rightarrow> nat \<Rightarrow> poll \<Rightarrow> observing \<Rightarrow> string + turn" where
  "observe_turn vt o' start p st =
     (case ob_phase st of
        Producing \<Rightarrow> turn_producing vt o' start p
      | Settling clean deadline \<Rightarrow> turn_settling vt o' clean deadline p
      | Reading sinks dead deadline \<Rightarrow> turn_reading vt sinks dead deadline (at_now p) st)"

section \<open>A run\<close>

text \<open>A turn takes in what came, reads the file, judges if it is time to, and moves the phase. The
  result is \<open>None\<close> while the run goes on: it sleeps a second and turns again.\<close>

record environment_texts =
  et_texts :: texts
  et_debug :: "string option \<Rightarrow> string"
  et_verifier :: verifier_texts
  et_parse :: "string \<Rightarrow> string + expected"

definition observe_step ::
  "environment_texts \<Rightarrow> verifier_options \<Rightarrow> nat \<Rightarrow> poll \<Rightarrow> observing \<Rightarrow> string + (observing \<times> bool)" where
  "observe_step et o' start p st =
     (case take_items (at_items p) st of
        Inl e \<Rightarrow> Inl e
      | Inr st \<Rightarrow>
          (case tail_read (et_parse et) (at_file p) (ob_tail st) of
             Inl e \<Rightarrow> Inl e
           | Inr t \<Rightarrow>
               (let st = observe_tick (et_texts et) (et_debug et) (at_now p) (st\<lparr>ob_tail := t\<rparr>)
                in case observe_turn (et_verifier et) o' start p st of
                     Inl e \<Rightarrow> Inl e
                   | Inr (Turn ph) \<Rightarrow> Inr (st\<lparr>ob_phase := ph\<rparr>, False)
                   | Inr Break \<Rightarrow> Inr (st, True))))"

text \<open>After the loop the file is read once more, as it is then.\<close>

definition observe_end :: "environment_texts \<Rightarrow> verifier_options \<Rightarrow> string + string option \<Rightarrow> observing \<Rightarrow> string + report" where
  "observe_end et o' file st =
     (case tail_read (et_parse et) file (ob_tail st) of
        Inl e \<Rightarrow> Inl e
      | Inr t \<Rightarrow>
          if tail_ends_whole t
          then Inr (judge (et_texts et) (et_debug et) (tl_expectations t) (ob_written st) (ob_dead st))
          else Inl (vo_expectations o' @ '' ends without a newline after the producer finished''))"

fun observe_loop ::
  "environment_texts \<Rightarrow> verifier_options \<Rightarrow> nat \<Rightarrow> string + string option \<Rightarrow> poll list \<Rightarrow> observing \<Rightarrow> (string + report) option" where
  "observe_loop et o' start file [] st = None"
| "observe_loop et o' start file (p # ps) st =
     (case observe_step et o' start p st of
        Inl e \<Rightarrow> Some (Inl e)
      | Inr (st, done) \<Rightarrow> if done then Some (observe_end et o' file st) else observe_loop et o' start file ps st)"

definition observing_begin :: "verifier_options \<Rightarrow> nat \<Rightarrow> observing" where
  "observing_begin o' start =
     \<lparr>ob_tail = tail_new (vo_expectations o'), ob_written = [], ob_dead = [], ob_seen_sinks = None, ob_seen_dead = None,
      ob_next_tick = start, ob_phase = Producing, ob_sent = []\<rparr>"

definition observe ::
  "environment_texts \<Rightarrow> verifier_options \<Rightarrow> nat \<Rightarrow> string + string option \<Rightarrow> poll list \<Rightarrow> (string + report) option" where
  "observe et o' start file ps = observe_loop et o' start file ps (observing_begin o' start)"

datatype exit_code = ExitSuccess | ExitFailure | ExitUnjudged

definition verifier_exit :: "string + report \<Rightarrow> exit_code" where
  "verifier_exit r =
     (case r of Inl e \<Rightarrow> ExitUnjudged | Inr report \<Rightarrow> if passed report then ExitSuccess else ExitFailure)"

text \<open>The counts of a report by the names of their gauges.\<close>

definition gauge_counts :: "report \<Rightarrow> (string \<times> nat) list" where
  "gauge_counts r =
     [(''loghub_published'', rp_published r), (''loghub_received'', rp_received r), (''loghub_expected'', rp_expected r),
      (''loghub_reached'', report_reached r), (''loghub_missing'', rp_missing r), (''loghub_unexpected'', rp_unexpected r),
      (''loghub_extra_copies'', rp_extra_copies r), (''loghub_dead_lettered'', rp_dead_lettered r),
      (''loghub_edit_mismatch'', rp_edit_mismatch r), (''loghub_lua_mismatch'', rp_lua_mismatch r),
      (''loghub_sampled_out'', rp_sampled_out r), (''loghub_repeated_on_every_subject'', rp_repeated_on_every_subject r),
      (''loghub_duplicates_planned'', rp_duplicates_planned r), (''loghub_duplicates_dropped'', rp_duplicates_dropped r)]"

end
