(* ===== verification/Harness_Follow_Laws.thy ===== *)
theory Harness_Follow_Laws
  imports Harness_Verifier "HOL-Library.Sublist"
begin

text \<open>
  What following a run guarantees: the file's lines come out whole however it was cut, a judgement is
  made only of a run that ended and was read to its end, and the verifier always ends.
\<close>

section \<open>Lines\<close>

definition whole_lines :: "string \<Rightarrow> string list" where
  "whole_lines s = filter (\<lambda>l. l \<noteq> []) (split_on LF s)"

lemma split_on_middle: "split_on d (s @ d # t) = split_on d s @ split_on d t"
  by (induction s) (auto split: list.split)

lemma whole_lines_append: "whole_lines (s @ LF # t) = whole_lines s @ whole_lines t"
  by (simp add: whole_lines_def split_on_middle)

lemma whole_lines_Nil [simp]: "whole_lines [] = []"
  by (simp add: whole_lines_def)

lemma line_push_none: "LF \<notin> set (p @ bytes) \<Longrightarrow> line_push p bytes = ([], p @ bytes)"
  by (simp add: line_push_def)

lemma line_push_some: "p @ bytes = s @ LF # t \<Longrightarrow> LF \<notin> set t \<Longrightarrow> line_push p bytes = (whole_lines s, t)"
proof -
  assume a: "p @ bytes = s @ LF # t" "LF \<notin> set t"
  have "starts (s @ LF # t) = s @ [LF]" "ends (s @ LF # t) = t"
    using a(2) by (simp_all add: starts_def ends_def dropWhile_append takeWhile_append)
  then show ?thesis
    using whole_lines_append [of s "[]"] by (simp add: line_push_def Let_def a(1) whole_lines_def)
qed

lemma line_push_cases:
  obtains "LF \<notin> set (p @ bytes)" "line_push p bytes = ([], p @ bytes)"
  | s t where "p @ bytes = s @ LF # t" "LF \<notin> set t" "line_push p bytes = (whole_lines s, t)"
proof (cases "LF \<in> set (p @ bytes)")
  case True
  then obtain s t where "p @ bytes = s @ LF # t" "LF \<notin> set t" using split_list_last by metis
  then show ?thesis using line_push_some that(2) by blast
qed (use line_push_none that(1) in blast)

text \<open>Bytes in pieces give the lines and the rest of the bytes at once.\<close>

lemma line_push_pieces:
  assumes "line_push p a = (ls, q)" "line_push q b = (ls', r)"
  shows "line_push p (a @ b) = (ls @ ls', r)"
proof (cases p a rule: line_push_cases)
  case 1
  then have "q = p @ a" "ls = []" using assms(1) by simp_all
  with assms(2) show ?thesis by (simp add: line_push_def)
next
  case (2 s t)
  then have q: "q = t" "ls = whole_lines s" using assms(1) by simp_all
  show ?thesis
  proof (cases q b rule: line_push_cases)
    case 1
    then have "line_push p (a @ b) = (whole_lines s, t @ b)"
      using 2 q by (intro line_push_some) (simp_all flip: append_assoc)
    then show ?thesis using 1 q assms(2) by simp
  next
    case (2 s' t')
    have "p @ a @ b = (s @ LF # s') @ LF # t'"
      using \<open>p @ a = s @ LF # t\<close> 2 q by (metis append.assoc append_Cons)
    then have "line_push p (a @ b) = (whole_lines (s @ LF # s'), t')" using 2 by (intro line_push_some) simp_all
    then show ?thesis using 2 q assms(2) by (simp add: whole_lines_append)
  qed
qed

text \<open>A tail has taken in the content of the file so far: its expectations are the parsed lines.\<close>

definition parses :: "(string \<Rightarrow> string + expected) \<Rightarrow> string list \<Rightarrow> expected list \<Rightarrow> bool" where
  "parses parse ls es \<longleftrightarrow> map parse ls = map Inr es"

definition tail_of :: "(string \<Rightarrow> string + expected) \<Rightarrow> string \<Rightarrow> tail \<Rightarrow> bool" where
  "tail_of parse content t \<longleftrightarrow>
     tl_read t = length content \<and>
     (\<exists>ls. line_push [] content = (ls, tl_buffer t) \<and> parses parse ls (tl_expectations t))"

lemma tail_of_new: "tail_of parse [] (tail_new path)"
  by (simp add: tail_of_def tail_new_def line_push_def parses_def)

lemma take_lines_parses:
  "take_lines parse ls t = Inr t' \<Longrightarrow>
   \<exists>es. parses parse ls es \<and> tl_expectations t' = tl_expectations t @ es \<and> tl_buffer t' = tl_buffer t \<and> tl_read t' = tl_read t"
proof (induction parse ls t rule: take_lines.induct)
  case (2 parse line lines t)
  then obtain e where e: "parse line = Inr e"
    "take_lines parse lines (t\<lparr>tl_lines := Suc (tl_lines t), tl_expectations := tl_expectations t @ [e]\<rparr>) = Inr t'"
    by (auto simp: Let_def split: sum.splits)
  from "2.IH" [OF refl e(1)] e(2) obtain es where "parses parse lines es" "tl_expectations t' = tl_expectations t @ e # es"
    "tl_buffer t' = tl_buffer t" "tl_read t' = tl_read t"
    by auto
  with e(1) show ?case by (intro exI [of _ "e # es"]) (simp add: parses_def)
qed (simp add: parses_def)

lemma tail_read_grows:
  assumes "tail_of parse content t" "tail_read parse (Inr (Some content')) t = Inr t'" "prefix content content'"
  shows "tail_of parse content' t'"
proof -
  from assms(3) obtain bytes where b: "content' = content @ bytes" by (auto simp: prefix_def)
  from assms(1) obtain ls where l: "tl_read t = length content" "line_push [] content = (ls, tl_buffer t)"
    "parses parse ls (tl_expectations t)"
    by (auto simp: tail_of_def)
  obtain ls' q where p: "line_push (tl_buffer t) bytes = (ls', q)" by (metis prod.collapse)
  with assms(2) l(1) have "take_lines parse ls'
      (t\<lparr>tl_opened := True, tl_read := length content + length bytes, tl_buffer := q\<rparr>) = Inr t'"
    by (simp add: tail_read_def b Let_def)
  from take_lines_parses [OF this] obtain es where "parses parse ls' es" "tl_expectations t' = tl_expectations t @ es"
    "tl_buffer t' = q" "tl_read t' = length content + length bytes"
    by auto
  then show ?thesis
    using l(3) line_push_pieces [OF l(2) p] by (simp add: tail_of_def b parses_def)
qed

text \<open>A tail that ends whole has parsed every line of the file.\<close>

lemma tail_of_whole:
  assumes "tail_of parse content t" "tail_ends_whole t"
  shows "parses parse (whole_lines content) (tl_expectations t)"
proof (cases "[] :: string" content rule: line_push_cases)
  case 1
  with assms have "content = []" by (auto simp: tail_of_def tail_ends_whole_def)
  with 1 assms show ?thesis by (auto simp: tail_of_def)
next
  case (2 s t')
  then have "t' = []" "parses parse (whole_lines s) (tl_expectations t)"
    using assms by (auto simp: tail_of_def tail_ends_whole_def)
  with 2 show ?thesis using whole_lines_append [of s "[]"] by simp
qed

section \<open>What came in\<close>

definition written_items :: "stream_item list \<Rightarrow> written_message list" where
  "written_items items = concat (map (\<lambda>i. case i of ItemWritten n w \<Rightarrow> [w] | _ \<Rightarrow> []) items)"

definition dead_items :: "stream_item list \<Rightarrow> dead_message list" where
  "dead_items items = concat (map (\<lambda>i. case i of ItemDead n d \<Rightarrow> [d] | _ \<Rightarrow> []) items)"

definition sink_sequences :: "stream_item list \<Rightarrow> u64 list" where
  "sink_sequences items = concat (map (\<lambda>i. case i of ItemWritten n w \<Rightarrow> [n] | _ \<Rightarrow> []) items)"

definition dead_sequences :: "stream_item list \<Rightarrow> u64 list" where
  "dead_sequences items = concat (map (\<lambda>i. case i of ItemDead n d \<Rightarrow> [n] | _ \<Rightarrow> []) items)"

lemmas item_lists = written_items_def dead_items_def sink_sequences_def dead_sequences_def

lemma take_items_fields:
  "take_items items st = Inr st' \<Longrightarrow>
   ob_written st' = ob_written st @ written_items items \<and> ob_dead st' = ob_dead st @ dead_items items \<and>
   ob_seen_sinks st' = fold (\<lambda>n s. seen_max s n) (sink_sequences items) (ob_seen_sinks st) \<and>
   ob_seen_dead st' = fold (\<lambda>n s. seen_max s n) (dead_sequences items) (ob_seen_dead st) \<and>
   ob_tail st' = ob_tail st \<and> ob_phase st' = ob_phase st"
  by (induction items st rule: take_items.induct) (auto simp: item_lists)

lemma seen_max_reached:
  "(case fold (\<lambda>n s. seen_max s n) ns seen of None \<Rightarrow> False | Some s \<Rightarrow> k \<le> s) \<longleftrightarrow>
   (case seen of None \<Rightarrow> False | Some s \<Rightarrow> k \<le> s) \<or> (\<exists>n \<in> set ns. k \<le> n)"
  by (induction ns arbitrary: seen) (auto simp: seen_max_def le_max_iff_disj split: option.splits)

lemma observe_tick_fields [simp]:
  "ob_written (observe_tick tx dbg now st) = ob_written st" "ob_dead (observe_tick tx dbg now st) = ob_dead st"
  "ob_seen_sinks (observe_tick tx dbg now st) = ob_seen_sinks st" "ob_seen_dead (observe_tick tx dbg now st) = ob_seen_dead st"
  "ob_tail (observe_tick tx dbg now st) = ob_tail st" "ob_phase (observe_tick tx dbg now st) = ob_phase st"
  by (simp_all add: observe_tick_def)

section \<open>Only a run that ended is judged\<close>

definition idle :: "poll \<Rightarrow> bool" where
  "idle p \<longleftrightarrow> at_consumer p = Inr (0, 0)"

definition says_published :: "poll \<Rightarrow> bool" where
  "says_published p \<longleftrightarrow> (\<exists>text. at_marker p = Inr (Some text) \<and> parse_done text = Some Published)"

text \<open>After the marker, three idle polls on end, the last of which found where the streams end.\<close>

definition settled :: "poll list \<Rightarrow> stream_end \<Rightarrow> stream_end \<Rightarrow> bool" where
  "settled ps sinks dead \<longleftrightarrow>
     (\<exists>before m between a b c after. ps = before @ [m] @ between @ [a, b, c] @ after \<and> says_published m \<and>
        idle a \<and> idle b \<and> idle c \<and> at_ends c = Inr (sinks, dead))"

definition phase_so_far :: "poll list \<Rightarrow> phase \<Rightarrow> bool" where
  "phase_so_far ps ph \<longleftrightarrow>
     (case ph of
        Producing \<Rightarrow> True
      | Settling clean deadline \<Rightarrow>
          clean < SETTLED_POLLS \<and>
          (\<exists>before m between cs. ps = before @ [m] @ between @ cs \<and> says_published m \<and> length cs = clean \<and> list_all idle cs)
      | Reading sinks dead deadline \<Rightarrow> settled ps sinks dead)"

definition file_contents :: "(string + string option) list \<Rightarrow> string list" where
  "file_contents fs = concat (map (\<lambda>f. case f of Inr (Some c) \<Rightarrow> [c] | _ \<Rightarrow> []) fs)"

definition content_of :: "(string + string option) list \<Rightarrow> string" where
  "content_of fs = (if file_contents fs = [] then [] else last (file_contents fs))"

definition observed_so_far :: "(string \<Rightarrow> string + expected) \<Rightarrow> poll list \<Rightarrow> observing \<Rightarrow> bool" where
  "observed_so_far parse ps st \<longleftrightarrow>
     (let items = concat (map at_items ps)
      in ob_written st = written_items items \<and> ob_dead st = dead_items items \<and>
        ob_seen_sinks st = fold (\<lambda>n s. seen_max s n) (sink_sequences items) None \<and>
        ob_seen_dead st = fold (\<lambda>n s. seen_max s n) (dead_sequences items) None \<and>
        (sorted_wrt prefix (file_contents (map at_file ps)) \<longrightarrow> tail_of parse (content_of (map at_file ps)) (ob_tail st)))"

lemma phase_settled: "settled ps sinks dead \<Longrightarrow> settled (ps @ [p]) sinks dead"
  unfolding settled_def by (metis append.assoc)

lemma phase_settlingI:
  "ps = before @ [m] @ between @ cs \<Longrightarrow> says_published m \<Longrightarrow> list_all idle cs \<Longrightarrow> length cs = clean \<Longrightarrow>
   clean < SETTLED_POLLS \<Longrightarrow> phase_so_far ps (Settling clean deadline)"
  unfolding phase_so_far_def by auto

lemma turn_phase:
  assumes "phase_so_far ps (ob_phase st)" "observe_turn vt o' start p st = Inr (Turn ph)"
  shows "phase_so_far (ps @ [p]) ph"
proof (cases "ob_phase st")
  case Producing
  with assms(2) have "ph = Producing \<or> (\<exists>d. ph = Settling 0 d \<and> says_published p)"
    by (auto simp: observe_turn_def turn_producing_def read_marker_def says_published_def Let_def
        split: sum.splits option.splits producer_outcome.splits if_splits)
  then show ?thesis
  proof
    assume "\<exists>d. ph = Settling 0 d \<and> says_published p"
    then show ?thesis
      by (auto intro!: phase_settlingI [of _ ps p "[]" "[]"] simp: SETTLED_POLLS_def)
  qed (simp add: phase_so_far_def)
next
  case (Settling clean deadline)
  with assms(1) obtain before m between cs where c: "clean < SETTLED_POLLS" "ps = before @ [m] @ between @ cs" "says_published m"
    "length cs = clean" "list_all idle cs"
    by (auto simp: phase_so_far_def)
  show ?thesis
  proof (cases "idle p")
    case True
    show ?thesis
    proof (cases "SETTLED_POLLS \<le> clean + 1")
      case third: True
      with True assms(2) Settling obtain sinks dead d where ph: "ph = Reading sinks dead d" "at_ends p = Inr (sinks, dead)"
        by (auto simp: observe_turn_def turn_settling_def idle_def Let_def split: sum.splits if_splits)
      from c(1,4) third have "length cs = 2" by (simp add: SETTLED_POLLS_def)
      then obtain a b where cs: "cs = [a, b]" by (auto simp: numeral_2_eq_2 length_Suc_conv)
      have "settled (ps @ [p]) sinks dead"
        unfolding settled_def
        using c True ph(2) cs
        by (intro exI [of _ before] exI [of _ m] exI [of _ between] exI [of _ a] exI [of _ b] exI [of _ p] exI [of _ "[]"]) simp
      then show ?thesis by (simp add: phase_so_far_def ph)
    next
      case False
      with True assms(2) Settling have "ph = Settling (clean + 1) deadline"
        by (auto simp: observe_turn_def turn_settling_def idle_def Let_def split: sum.splits if_splits)
      then show ?thesis
        using c True False
        by (auto intro!: phase_settlingI [of _ before m between "cs @ [p]"])
    qed
  next
    case False
    with assms(2) Settling have "ph = Settling 0 deadline"
      by (auto simp: observe_turn_def turn_settling_def idle_def Let_def SETTLED_POLLS_def split: sum.splits if_splits)
    then show ?thesis
      using c by (auto intro!: phase_settlingI [of _ before m "between @ cs @ [p]" "[]"] simp: SETTLED_POLLS_def)
  qed
next
  case (Reading sinks dead deadline)
  with assms(2) have "ph = Reading sinks dead deadline"
    by (auto simp: observe_turn_def turn_reading_def split: if_splits)
  with assms(1) Reading show ?thesis by (simp add: phase_so_far_def phase_settled)
qed

lemma file_contents_append [simp]: "file_contents (fs @ gs) = file_contents fs @ file_contents gs"
  by (simp add: file_contents_def)

lemma tail_read_content:
  assumes "sorted_wrt prefix (file_contents (fs @ [f]))" "tail_of parse (content_of fs) t" "tail_read parse f t = Inr t'"
  shows "tail_of parse (content_of (fs @ [f])) t'"
proof -
  from assms(3) consider "f = Inr None" "t' = t" | c where "f = Inr (Some c)"
    by (auto simp: tail_read_def split: sum.splits option.splits)
  then show ?thesis
  proof cases
    case 1
    have "file_contents [Inr None] = []" by (simp add: file_contents_def)
    then have "content_of (fs @ [f]) = content_of fs" by (simp add: content_of_def 1)
    with 1 show ?thesis using assms(2) by simp
  next
    case (2 c)
    have e: "file_contents (fs @ [f]) = file_contents fs @ [c]" by (simp add: 2 file_contents_def)
    have "prefix (content_of fs) c"
      using assms(1) unfolding e by (simp add: content_of_def sorted_wrt_append)
    moreover have "content_of (fs @ [f]) = c" unfolding content_of_def e by simp
    ultimately show ?thesis using tail_read_grows [OF assms(2)] assms(3) 2 by simp
  qed
qed

lemma step_observed:
  assumes "observed_so_far parse ps st" "observe_step et o' start p st = Inr (st', finished)" "parse = et_parse et"
  shows "observed_so_far parse (ps @ [p]) st'"
proof -
  from assms(2) obtain s1 t where s: "take_items (at_items p) st = Inr s1" "tail_read (et_parse et) (at_file p) (ob_tail s1) = Inr t"
    by (auto simp: observe_step_def split: sum.splits)
  define s2 where "s2 = observe_tick (et_texts et) (et_debug et) (at_now p) (s1\<lparr>ob_tail := t\<rparr>)"
  have st': "\<exists>ph. st' = s2\<lparr>ob_phase := ph\<rparr>"
  proof -
    have "st' = s2 \<or> (\<exists>ph. st' = s2\<lparr>ob_phase := ph\<rparr>)"
      using assms(2) s by (auto simp: observe_step_def s2_def [symmetric] Let_def split: sum.splits turn.splits)
    then show ?thesis by (metis observing.surjective observing.update_convs(7))
  qed
  have f: "ob_tail s2 = t" "ob_written s2 = ob_written s1" "ob_dead s2 = ob_dead s1" "ob_seen_sinks s2 = ob_seen_sinks s1"
    "ob_seen_dead s2 = ob_seen_dead s1"
    by (simp_all add: s2_def)
  have "tail_of parse (content_of (map at_file (ps @ [p]))) t"
    if "sorted_wrt prefix (file_contents (map at_file (ps @ [p])))"
  proof -
    have g: "sorted_wrt prefix (file_contents (map at_file ps @ [at_file p]))" using that by simp
    then have "sorted_wrt prefix (file_contents (map at_file ps))" by (simp add: sorted_wrt_append)
    then have "tail_of parse (content_of (map at_file ps)) (ob_tail s1)"
      using assms(1) take_items_fields [OF s(1)] by (simp add: observed_so_far_def Let_def)
    from tail_read_content [OF g this] s(2) assms(3) show ?thesis by simp
  qed
  then show ?thesis
    using st' assms(1) take_items_fields [OF s(1)] f by (auto simp: observed_so_far_def Let_def item_lists)
qed

lemma step_phase:
  assumes "phase_so_far ps (ob_phase st)" "observe_step et o' start p st = Inr (st', False)"
  shows "phase_so_far (ps @ [p]) (ob_phase st')"
proof -
  from assms(2) obtain s1 t where s: "take_items (at_items p) st = Inr s1" "tail_read (et_parse et) (at_file p) (ob_tail s1) = Inr t"
    by (auto simp: observe_step_def split: sum.splits)
  let ?s = "observe_tick (et_texts et) (et_debug et) (at_now p) (s1\<lparr>ob_tail := t\<rparr>)"
  from assms(2) s obtain ph where "observe_turn (et_verifier et) o' start p ?s = Inr (Turn ph)" "ob_phase st' = ph"
    by (auto simp: observe_step_def Let_def split: sum.splits turn.splits)
  moreover have "ob_phase ?s = ob_phase st" using take_items_fields [OF s(1)] by simp
  ultimately show ?thesis using turn_phase [of ps ?s] assms(1) by metis
qed

lemma step_break:
  assumes "phase_so_far ps (ob_phase st)" "observe_step et o' start p st = Inr (st', True)"
  shows "\<exists>sinks dead. settled ps sinks dead \<and> stream_reached sinks (ob_seen_sinks st') \<and> stream_reached dead (ob_seen_dead st')"
proof -
  from assms(2) obtain s1 t where s: "take_items (at_items p) st = Inr s1" "tail_read (et_parse et) (at_file p) (ob_tail s1) = Inr t"
    by (auto simp: observe_step_def split: sum.splits)
  let ?s = "observe_tick (et_texts et) (et_debug et) (at_now p) (s1\<lparr>ob_tail := t\<rparr>)"
  from assms(2) s have b: "observe_turn (et_verifier et) o' start p ?s = Inr Break" "st' = ?s"
    by (auto simp: observe_step_def Let_def split: sum.splits turn.splits)
  have ph: "ob_phase ?s = ob_phase st" using take_items_fields [OF s(1)] by simp
  show ?thesis
  proof (cases "ob_phase st")
    case (Reading sinks dead deadline)
    with b ph assms(1) show ?thesis
      by (auto simp: observe_turn_def turn_reading_def phase_so_far_def split: if_splits)
  qed (use b(1) ph in \<open>auto simp: observe_turn_def turn_producing_def turn_settling_def Let_def
      split: sum.splits option.splits producer_outcome.splits if_splits\<close>)
qed

lemma loop_judges:
  assumes "observe_loop et o' start file ps st = Some (Inr report)"
    and "observed_so_far (et_parse et) before st" "phase_so_far before (ob_phase st)"
  shows "\<exists>run p rest st' sinks dead. ps = run @ p # rest \<and> settled (before @ run) sinks dead \<and>
    observed_so_far (et_parse et) (before @ run @ [p]) st' \<and> observe_end et o' file st' = Inr report \<and>
    stream_reached sinks (ob_seen_sinks st') \<and> stream_reached dead (ob_seen_dead st')"
  using assms
proof (induction ps arbitrary: st before)
  case (Cons p ps)
  from Cons.prems(1) obtain st' finished where s: "observe_step et o' start p st = Inr (st', finished)"
    by (auto split: sum.splits)
  note o = step_observed [OF Cons.prems(2) s refl]
  show ?case
  proof (cases finished)
    case True
    with s Cons.prems(1) have e: "observe_end et o' file st' = Inr report" by simp
    have "observe_step et o' start p st = Inr (st', True)" using s True by simp
    from step_break [OF Cons.prems(3) this] obtain sinks dead where
      "settled before sinks dead" "stream_reached sinks (ob_seen_sinks st')" "stream_reached dead (ob_seen_dead st')"
      by blast
    with e o have "p # ps = [] @ p # ps \<and> settled (before @ []) sinks dead \<and> observed_so_far (et_parse et) (before @ [] @ [p]) st' \<and>
        observe_end et o' file st' = Inr report \<and> stream_reached sinks (ob_seen_sinks st') \<and> stream_reached dead (ob_seen_dead st')"
      by simp
    then show ?thesis by blast
  next
    case False
    then have loop: "observe_loop et o' start file ps st' = Some (Inr report)" using s Cons.prems(1) by simp
    have "observe_step et o' start p st = Inr (st', False)" using s False by simp
    from Cons.IH [OF loop o step_phase [OF Cons.prems(3) this]] obtain run q rest s2 sinks dead where
      "ps = run @ q # rest" "settled ((before @ [p]) @ run) sinks dead"
      "observed_so_far (et_parse et) ((before @ [p]) @ run @ [q]) s2" "observe_end et o' file s2 = Inr report"
      "stream_reached sinks (ob_seen_sinks s2)" "stream_reached dead (ob_seen_dead s2)"
      by blast
    then have "p # ps = (p # run) @ q # rest \<and> settled (before @ p # run) sinks dead \<and>
        observed_so_far (et_parse et) (before @ (p # run) @ [q]) s2 \<and> observe_end et o' file s2 = Inr report \<and>
        stream_reached sinks (ob_seen_sinks s2) \<and> stream_reached dead (ob_seen_dead s2)"
      by simp
    then show ?thesis by blast
  qed
qed simp

text \<open>Everything of a stream was read when it is empty or its last message came in.\<close>

definition read_to :: "stream_end \<Rightarrow> u64 list \<Rightarrow> bool" where
  "read_to e ns \<longleftrightarrow> sd_messages e = 0 \<or> (\<exists>n \<in> set ns. sd_last_sequence e \<le> n)"

lemma stream_reached_read: "stream_reached e (fold (\<lambda>n s. seen_max s n) ns None) \<longleftrightarrow> read_to e ns"
  using seen_max_reached [of "sd_last_sequence e" ns None] by (simp add: stream_reached_def read_to_def)

text \<open>What a report rests on: the polls of the run up to the one that ended it.\<close>

definition judged_run :: "environment_texts \<Rightarrow> poll list \<Rightarrow> string + string option \<Rightarrow> report \<Rightarrow> bool" where
  "judged_run et ps file report \<longleftrightarrow>
     (\<exists>run p rest sinks dead es. ps = run @ p # rest \<and> settled run sinks dead \<and>
        read_to sinks (sink_sequences (concat (map at_items (run @ [p])))) \<and>
        read_to dead (dead_sequences (concat (map at_items (run @ [p])))) \<and>
        report = judge (et_texts et) (et_debug et) es (written_items (concat (map at_items (run @ [p]))))
          (dead_items (concat (map at_items (run @ [p])))) \<and>
        (sorted_wrt prefix (file_contents (map at_file (run @ [p]) @ [file])) \<longrightarrow>
           parses (et_parse et) (whole_lines (content_of (map at_file (run @ [p]) @ [file]))) es))"

lemma observe_judges:
  assumes "observe et o' start file ps = Some (Inr report)"
  shows "judged_run et ps file report"
proof -
  have b: "observed_so_far (et_parse et) [] (observing_begin o' start)"
    using tail_of_new by (simp add: observed_so_far_def observing_begin_def item_lists file_contents_def content_of_def)
  have "phase_so_far [] (ob_phase (observing_begin o' start))" by (simp add: phase_so_far_def observing_begin_def)
  from loop_judges [OF assms [unfolded observe_def] b this] obtain run p rest st sinks dead where r:
    "ps = run @ p # rest" "settled run sinks dead" "observed_so_far (et_parse et) (run @ [p]) st"
    "observe_end et o' file st = Inr report" "stream_reached sinks (ob_seen_sinks st)" "stream_reached dead (ob_seen_dead st)"
    by auto
  from r(4) obtain t where t: "tail_read (et_parse et) file (ob_tail st) = Inr t" "tail_ends_whole t"
    "report = judge (et_texts et) (et_debug et) (tl_expectations t) (ob_written st) (ob_dead st)"
    by (auto simp: observe_end_def split: sum.splits if_splits)
  have "parses (et_parse et) (whole_lines (content_of (map at_file (run @ [p]) @ [file]))) (tl_expectations t)"
    if g: "sorted_wrt prefix (file_contents (map at_file (run @ [p]) @ [file]))"
  proof (rule tail_of_whole [OF tail_read_content [OF g _ t(1)] t(2)])
    have "sorted_wrt prefix (file_contents (map at_file (run @ [p])))"
      using g unfolding file_contents_append by (simp only: sorted_wrt_append)
    with r(3) show "tail_of (et_parse et) (content_of (map at_file (run @ [p]))) (ob_tail st)"
      unfolding observed_so_far_def Let_def by blast
  qed
  note es = this
  let ?items = "concat (map at_items (run @ [p]))"
  have f: "ob_written st = written_items ?items" "ob_dead st = dead_items ?items"
    "ob_seen_sinks st = fold (\<lambda>n s. seen_max s n) (sink_sequences ?items) None"
    "ob_seen_dead st = fold (\<lambda>n s. seen_max s n) (dead_sequences ?items) None"
    using r(3) unfolding observed_so_far_def Let_def by blast+
  have "read_to sinks (sink_sequences ?items)" "read_to dead (dead_sequences ?items)"
    using r(5,6) unfolding f stream_reached_read by blast+
  moreover have "report = judge (et_texts et) (et_debug et) (tl_expectations t) (written_items ?items) (dead_items ?items)"
    using t(3) unfolding f .
  ultimately show ?thesis unfolding judged_run_def using r(1,2) es by blast
qed

section \<open>The verifier always ends\<close>

text \<open>How many polls a second apart fit before a time is over.\<close>

definition turns :: "duration \<Rightarrow> nat" where
  "turns d = (d + POLL - 1) div POLL"

lemma turns_mono: "d \<le> d' \<Longrightarrow> turns d \<le> turns d'"
  unfolding turns_def by (rule div_le_mono) simp

lemma turns_later: "d \<le> d' - POLL \<Longrightarrow> 0 < d' \<Longrightarrow> turns d < turns d'"
proof -
  assume a: "d \<le> d' - POLL" "0 < d'"
  have "turns d \<le> (d' - POLL + POLL - 1) div POLL" unfolding turns_def by (rule div_le_mono) (use a in simp)
  also have "\<dots> < (d' + POLL - 1) div POLL"
  proof (cases "POLL \<le> d'")
    case True
    then have "d' + POLL - 1 = (d' - POLL + POLL - 1) + POLL" using a(2) by simp
    then show ?thesis by (simp add: POLL_def)
  qed (use a(2) in \<open>simp add: POLL_def\<close>)
  finally show ?thesis by (simp add: turns_def)
qed

definition turns_left :: "verifier_options \<Rightarrow> nat \<Rightarrow> nat \<Rightarrow> phase \<Rightarrow> nat" where
  "turns_left o' start now ph =
     (case ph of
        Producing \<Rightarrow> turns (start + vo_producer_timeout o' - now) + turns (vo_settle_timeout o') + turns READ_TIMEOUT + 3
      | Settling clean deadline \<Rightarrow> turns (deadline - now) + turns READ_TIMEOUT + 2
      | Reading sinks dead deadline \<Rightarrow> turns (deadline - now) + 1)"

fun spaced :: "nat \<Rightarrow> poll list \<Rightarrow> bool" where
  "spaced now [] \<longleftrightarrow> True"
| "spaced now (p # ps) \<longleftrightarrow> now \<le> at_now p \<and> spaced (at_now p + POLL) ps"

lemma turn_uses_time:
  assumes "observe_turn vt o' start p st = Inr (Turn ph)" "now \<le> at_now p"
  shows "turns_left o' start (at_now p + POLL) ph < turns_left o' start now (ob_phase st)"
proof -
  have wait: "turns (d - (at_now p + POLL)) < turns (d - now)" if "\<not> d \<le> at_now p" for d
    using that assms(2) by (intro turns_later) linarith+
  have start: "turns (at_now p + d - (at_now p + POLL)) \<le> turns d" for d
    by (rule turns_mono) simp
  show ?thesis
  proof (cases "ob_phase st")
    case Producing
    with assms(1) have "ph = Producing \<and> \<not> start + vo_producer_timeout o' \<le> at_now p \<or>
        ph = Settling 0 (at_now p + vo_settle_timeout o')"
      by (auto simp: observe_turn_def turn_producing_def Let_def split: sum.splits option.splits producer_outcome.splits if_splits)
    then show ?thesis
      using wait [of "start + vo_producer_timeout o'"] start [of "vo_settle_timeout o'"] Producing by (auto simp: turns_left_def)
  next
    case (Settling clean deadline)
    with assms(1) have "(\<exists>c. ph = Settling c deadline) \<and> \<not> deadline \<le> at_now p \<or>
        (\<exists>sinks dead. ph = Reading sinks dead (at_now p + READ_TIMEOUT))"
      by (auto simp: observe_turn_def turn_settling_def Let_def split: sum.splits if_splits)
    then show ?thesis
      using wait [of deadline] start [of READ_TIMEOUT] Settling by (auto simp: turns_left_def)
  next
    case (Reading sinks dead deadline)
    with assms(1) have "ph = ob_phase st" "\<not> deadline \<le> at_now p"
      by (auto simp: observe_turn_def turn_reading_def split: if_splits)
    then show ?thesis using wait [of deadline] Reading by (simp add: turns_left_def)
  qed
qed

lemma step_uses_time:
  assumes "observe_step et o' start p st = Inr (st', False)" "now \<le> at_now p"
  shows "turns_left o' start (at_now p + POLL) (ob_phase st') < turns_left o' start now (ob_phase st)"
proof -
  from assms(1) obtain s1 t where s: "take_items (at_items p) st = Inr s1" "tail_read (et_parse et) (at_file p) (ob_tail s1) = Inr t"
    by (auto simp: observe_step_def split: sum.splits)
  let ?s = "observe_tick (et_texts et) (et_debug et) (at_now p) (s1\<lparr>ob_tail := t\<rparr>)"
  from assms(1) s obtain ph where "observe_turn (et_verifier et) o' start p ?s = Inr (Turn ph)" "ob_phase st' = ph"
    by (auto simp: observe_step_def Let_def split: sum.splits turn.splits)
  moreover have "ob_phase ?s = ob_phase st" using take_items_fields [OF s(1)] by simp
  ultimately show ?thesis using turn_uses_time [of "et_verifier et" o' start p ?s] assms(2) by metis
qed

lemma loop_ends:
  "spaced now ps \<Longrightarrow> turns_left o' start now (ob_phase st) \<le> length ps \<Longrightarrow> observe_loop et o' start file ps st \<noteq> None"
proof (induction ps arbitrary: now st)
  case Nil
  then show ?case by (cases "ob_phase st") (simp_all add: turns_left_def)
next
  case (Cons p ps)
  show ?case
  proof (cases "observe_step et o' start p st")
    case (Inr r)
    obtain st' finished where r: "r = (st', finished)" by (cases r)
    show ?thesis
    proof (cases finished)
      case False
      then have "observe_step et o' start p st = Inr (st', False)" using Inr r by simp
      from step_uses_time [OF this, of now] Cons.prems
      have "turns_left o' start (at_now p + POLL) (ob_phase st') \<le> length ps" by simp
      then have "observe_loop et o' start file ps st' \<noteq> None" using Cons.IH [of "at_now p + POLL" st'] Cons.prems(1) by simp
      with False Inr r show ?thesis by simp
    qed (simp add: Inr r)
  qed simp
qed

text \<open>With polls a second apart the run ends by its timeouts, whatever the polls find.\<close>

lemma observe_ends:
  assumes "spaced start ps"
    and "turns (vo_producer_timeout o') + turns (vo_settle_timeout o') + turns READ_TIMEOUT + 3 \<le> length ps"
  shows "observe et o' start file ps \<noteq> None"
  unfolding observe_def using assms by (intro loop_ends) (auto simp: observing_begin_def turns_left_def)

lemma done_round_trip: "parse_done (done_text o') = Some o'"
proof -
  have "parse_done (done_text Published) = Some Published" "parse_done (done_text ProducerFailed) = Some ProducerFailed"
    by code_simp+
  then show ?thesis by (cases o') simp_all
qed

end
