(* ===== verification/Harness_Laws.thy ===== *)
theory Harness_Laws
  imports Harness_Verdict
begin

text \<open>
  What a verdict says: every message and dead letter is counted once, and a run passes exactly when
  every group reached every subject it must, nothing else was written and nothing was dead-lettered.
\<close>

section \<open>Tallies\<close>

lemma map_of_bump: "map_of (bump k m) k' = (if k' = k then Some (Suc (tally m k)) else map_of m k')"
  by (simp add: bump_def update_conv')

lemma tally_bump [simp]: "tally (bump k m) k' = (if k' = k then Suc (tally m k) else tally m k')"
  by (simp add: tally_def map_of_bump)

lemma keys_bump [simp]: "fst ` set (bump k m) = insert k (fst ` set m)"
  by (auto simp: bump_def dom_update)

lemma distinct_bump: "distinct (map fst m) \<Longrightarrow> distinct (map fst (bump k m))"
  by (simp add: bump_def distinct_update)

definition positive :: "('k \<times> nat) list \<Rightarrow> bool" where
  "positive m \<longleftrightarrow> distinct (map fst m) \<and> (\<forall>k n. map_of m k = Some n \<longrightarrow> 0 < n)"

lemma positive_Nil [simp]: "positive []"
  by (simp add: positive_def)

lemma positive_bump: "positive m \<Longrightarrow> positive (bump k m)"
  by (auto simp: positive_def distinct_bump map_of_bump)

lemma tally_positive: "positive m \<Longrightarrow> 0 < tally m k \<longleftrightarrow> k \<in> fst ` set m"
  by (auto simp: positive_def tally_def split: option.splits dest: map_of_SomeD simp: map_of_eq_None_iff) force

lemma length_bump: "positive m \<Longrightarrow> length (bump k m) = (if 0 < tally m k then length m else Suc (length m))"
proof -
  assume m: "positive m"
  have "length (bump k m) = card (fst ` set (bump k m))"
    using positive_bump [OF m] distinct_card [of "map fst (bump k m)"] by (simp add: positive_def)
  also have "\<dots> = card (insert k (fst ` set m))" by simp
  also have "\<dots> = (if k \<in> fst ` set m then card (fst ` set m) else Suc (card (fst ` set m)))" by (simp add: card_insert_if)
  also have "card (fst ` set m) = length m" using m distinct_card [of "map fst m"] by (simp add: positive_def)
  finally show ?thesis by (simp add: tally_positive [OF m])
qed

section \<open>What was written\<close>

text \<open>The message of an expectation, on a subject of it and under its tenant.\<close>

definition meant :: "expected list \<Rightarrow> written_message \<Rightarrow> expected \<Rightarrow> bool" where
  "meant es w e \<longleftrightarrow>
     Option.bind (parse_id (wr_record_id w)) (by_id es) = Some e \<and> wr_subject w \<in> set (ex_subjects e) \<and>
     wr_tenant w = Some (ex_tenant e)"

definition arrival :: "expected list \<Rightarrow> written_message \<Rightarrow> (group \<times> string) option" where
  "arrival es w =
     (case Option.bind (parse_id (wr_record_id w)) (by_id es) of
        Some e \<Rightarrow>
          if wr_subject w \<in> set (ex_subjects e) \<and> wr_tenant w = Some (ex_tenant e) then Some (ex_group e, wr_subject w) else None
      | None \<Rightarrow> None)"

lemma arrival_meant: "arrival es w = Some (g, s) \<longleftrightarrow> (\<exists>e. meant es w e \<and> g = ex_group e \<and> s = wr_subject w)"
  by (auto simp: arrival_def meant_def split: option.splits)

lemma by_id_in: "by_id es i = Some e \<Longrightarrow> e \<in> set es \<and> ex_id e = i"
  by (auto simp: by_id_def dest!: map_of_SomeD)

lemma meant_in: "meant es w e \<Longrightarrow> e \<in> set es"
  by (auto simp: meant_def bind_eq_Some_conv dest: by_id_in)

text \<open>The counts that the examples and the comparisons leave alone.\<close>

lemma example_counts [simp]:
  "rp_unexpected (example f t r) = rp_unexpected r" "rp_extra_copies (example f t r) = rp_extra_copies r"
  "rp_dead_lettered (example f t r) = rp_dead_lettered r" "rp_missing (example f t r) = rp_missing r"
  "rp_expected (example f t r) = rp_expected r" "rp_edit_mismatch (example f t r) = rp_edit_mismatch r"
  "rp_lua_mismatch (example f t r) = rp_lua_mismatch r"
  "rp_duplicates_planned (example f t r) = rp_duplicates_planned r"
  "rp_duplicates_dropped (example f t r) = rp_duplicates_dropped r"
  by (simp_all add: example_def)

lemma compare_copy_counts [simp]:
  "rp_unexpected (compare_copy tx e a r) = rp_unexpected r" "rp_extra_copies (compare_copy tx e a r) = rp_extra_copies r"
  "rp_dead_lettered (compare_copy tx e a r) = rp_dead_lettered r" "rp_missing (compare_copy tx e a r) = rp_missing r"
  "rp_expected (compare_copy tx e a r) = rp_expected r"
  by (simp_all add: compare_copy_def on_set_def Let_def)

text \<open>After some messages: who is not expected, what was reached, and that every other one is an extra copy.\<close>

definition known :: "expected list \<Rightarrow> (u64 \<times> string) set \<Rightarrow> (group \<times> string) set \<Rightarrow> bool" where
  "known es copied reached \<longleftrightarrow>
     (\<forall>i s. (i, s) \<in> copied \<longrightarrow> (\<exists>e. by_id es i = Some e \<and> (ex_group e, s) \<in> reached))"

lemma known_insert: "known es C R \<Longrightarrow> by_id es i = Some e \<Longrightarrow> known es (insert (i, s) C) (insert (ex_group e, s) R)"
  by (auto simp: known_def)

definition judged :: "expected list \<Rightarrow> written_message list \<Rightarrow> judging \<Rightarrow> bool" where
  "judged es ws j \<longleftrightarrow>
     positive (jg_copies j) \<and> positive (jg_reached j) \<and>
     rp_unexpected (jg_report j) = length (filter (\<lambda>w. arrival es w = None) ws) \<and>
     length (filter (\<lambda>w. arrival es w \<noteq> None) ws) = rp_extra_copies (jg_report j) + length (jg_reached j) \<and>
     fst ` set (jg_reached j) = {at. \<exists>w \<in> set ws. arrival es w = Some at} \<and>
     known es (fst ` set (jg_copies j)) (fst ` set (jg_reached j)) \<and>
     rp_dead_lettered (jg_report j) = 0 \<and> rp_missing (jg_report j) = 0 \<and> rp_expected (jg_report j) = 0"

lemma judge_arrival_fields:
  fixes j e w tx
  defines "at \<equiv> (ex_group e, wr_subject w)" and "c \<equiv> (ex_id e, wr_subject w)"
  defines "j' \<equiv> judge_arrival tx e w j"
  shows "jg_copies j' = bump c (jg_copies j)"
    "jg_reached j' = (if 0 < tally (jg_copies j) c then jg_reached j else bump at (jg_reached j))"
    "rp_extra_copies (jg_report j') = rp_extra_copies (jg_report j) +
       (if 0 < tally (jg_copies j) c \<or> 0 < tally (jg_reached j) at then 1 else 0)"
    "rp_unexpected (jg_report j') = rp_unexpected (jg_report j)"
    "rp_dead_lettered (jg_report j') = rp_dead_lettered (jg_report j)"
    "rp_missing (jg_report j') = rp_missing (jg_report j)" "rp_expected (jg_report j') = rp_expected (jg_report j)"
  unfolding assms by (auto simp: judge_arrival_def Let_def extra_copy_def)

lemma judged_step:
  assumes "judged es ws j"
  shows "judged es (ws @ [w]) (judge_written tx dbg es w j)"
proof (cases "arrival es w")
  case None
  then obtain r where r: "judge_written tx dbg es w j = j\<lparr>jg_report := r\<rparr>"
    "rp_unexpected r = Suc (rp_unexpected (jg_report j))" "rp_extra_copies r = rp_extra_copies (jg_report j)"
    "rp_dead_lettered r = rp_dead_lettered (jg_report j)" "rp_missing r = rp_missing (jg_report j)"
    "rp_expected r = rp_expected (jg_report j)"
    by (auto simp: judge_written_def arrival_def found_unexpected_def split: option.splits if_splits)
  show ?thesis using assms None unfolding judged_def by (elim conjE) (simp add: r)
next
  case (Some at)
  then obtain e where e: "meant es w e" and at: "at = (ex_group e, wr_subject w)" by (cases at) (auto simp: arrival_meant)
  have j': "judge_written tx dbg es w j = judge_arrival tx e w j" using e by (simp add: judge_written_def meant_def)
  have i: "by_id es (ex_id e) = Some e" using e by (auto simp: meant_def bind_eq_Some_conv dest: by_id_in)
  note f = judge_arrival_fields [of tx e w j]
  have pos: "positive (jg_copies j)" "positive (jg_reached j)" using assms by (simp_all add: judged_def)
  have again: "at \<in> fst ` set (jg_reached j)" if "0 < tally (jg_copies j) (ex_id e, wr_subject w)"
  proof -
    have "known es (fst ` set (jg_copies j)) (fst ` set (jg_reached j))"
      using assms unfolding judged_def by (elim conjE)
    moreover have "(ex_id e, wr_subject w) \<in> fst ` set (jg_copies j)" using that by (simp only: tally_positive [OF pos(1)])
    ultimately obtain e' where "by_id es (ex_id e) = Some e'" "(ex_group e', wr_subject w) \<in> fst ` set (jg_reached j)"
      unfolding known_def by blast
    with i show ?thesis unfolding at by (simp only: option.inject)
  qed
  have keys: "fst ` set (jg_reached (judge_arrival tx e w j)) = insert at (fst ` set (jg_reached j))"
    using again by (auto simp: f(2) at)
  have len: "length (jg_reached (judge_arrival tx e w j)) + rp_extra_copies (jg_report (judge_arrival tx e w j)) =
      Suc (length (jg_reached j) + rp_extra_copies (jg_report j))"
    by (simp add: f(2,3) length_bump [OF pos(2)])
  show ?thesis
    unfolding judged_def j'
  proof (intro conjI allI impI)
    show "fst ` set (jg_reached (judge_arrival tx e w j)) = {at. \<exists>w \<in> set (ws @ [w]). arrival es w = Some at}"
      using keys assms Some by (auto simp: judged_def)
    show "known es (fst ` set (jg_copies (judge_arrival tx e w j))) (fst ` set (jg_reached (judge_arrival tx e w j)))"
      unfolding keys f(1) keys_bump at using assms i unfolding judged_def by (elim conjE) (rule known_insert)
  qed (use assms Some len pos in \<open>auto simp: judged_def f positive_bump simp del: not_None_eq\<close>)
qed

lemma on_set_counts [simp]:
  "rp_unexpected (on_set n f r) = rp_unexpected r" "rp_extra_copies (on_set n f r) = rp_extra_copies r"
  "rp_dead_lettered (on_set n f r) = rp_dead_lettered r" "rp_missing (on_set n f r) = rp_missing r"
  "rp_expected (on_set n f r) = rp_expected r"
  by (simp_all add: on_set_def)

lemma judged_begin: "judged es [] (judging_begin es)"
proof -
  have "rp_unexpected (fold (\<lambda>e. on_set (ex_set e) id) xs r) = rp_unexpected r \<and>
      rp_extra_copies (fold (\<lambda>e. on_set (ex_set e) id) xs r) = rp_extra_copies r \<and>
      rp_dead_lettered (fold (\<lambda>e. on_set (ex_set e) id) xs r) = rp_dead_lettered r \<and>
      rp_missing (fold (\<lambda>e. on_set (ex_set e) id) xs r) = rp_missing r \<and>
      rp_expected (fold (\<lambda>e. on_set (ex_set e) id) xs r) = rp_expected r" for xs :: "expected list" and r :: report
    by (induction xs arbitrary: r) simp_all
  then show ?thesis by (simp add: judged_def judging_begin_def report_default_def known_def)
qed

lemma judged_all: "judged es ws (fold (judge_written tx dbg es) ws (judging_begin es))"
  by (induction ws rule: rev_induct) (simp_all add: judged_begin judged_step)

section \<open>Group by group\<close>

definition of_group :: "expected list \<Rightarrow> group \<Rightarrow> expected list" where
  "of_group es g = filter (\<lambda>e. ex_group e = g) es"

definition group_entry :: "expected list \<Rightarrow> group \<Rightarrow> (expected \<times> nat \<times> nat) option" where
  "group_entry es g =
     (case of_group es g of
        [] \<Rightarrow> None
      | e # rest \<Rightarrow> Some (e, Suc (length rest), length (filter (\<lambda>e. ex_drop e \<noteq> None) (e # rest))))"

lemma enter_groups:
  "distinct (map fst (fold enter_group es [])) \<and> map_of (fold enter_group es []) g = group_entry es g"
proof (induction es arbitrary: g rule: rev_induct)
  case Nil
  then show ?case by (simp add: group_entry_def of_group_def)
next
  case (snoc e es)
  have g: "group_entry (es @ [e]) g =
      (if ex_group e = g
       then (let (head, ids, planned) = (case group_entry es g of Some x \<Rightarrow> x | None \<Rightarrow> (e, 0, 0))
             in Some (head, Suc ids, if ex_drop e \<noteq> None then Suc planned else planned))
       else group_entry es g)" for g
    by (cases "of_group es g") (auto simp: group_entry_def of_group_def)
  show ?case
    using snoc.IH by (auto simp: enter_group_def g update_conv' distinct_update split: prod.splits)
qed

lemma groups_of_entries:
  assumes "(g, x) \<in> set (groups_of es)"
  shows "group_entry es g = Some x"
  using assms enter_groups [of es g] map_of_is_SomeI [of "fold enter_group es []" g x] by (simp add: groups_of_def)

lemma groups_of_keys: "fst ` set (groups_of es) = ex_group ` set es" "distinct (groups_of es)"
proof -
  have "fst ` set (groups_of es) = dom (group_entry es)"
    using enter_groups [of es] by (auto simp: groups_of_def dom_map_of_conv_image_fst [symmetric] dom_def)
  also have "\<dots> = ex_group ` set es"
  proof (rule set_eqI)
    fix g
    have "g \<in> dom (group_entry es) \<longleftrightarrow> of_group es g \<noteq> []" by (simp add: group_entry_def dom_def split: list.split)
    also have "\<dots> \<longleftrightarrow> g \<in> ex_group ` set es" by (auto simp: of_group_def filter_empty_conv)
    finally show "g \<in> dom (group_entry es) \<longleftrightarrow> g \<in> ex_group ` set es" .
  qed
  finally show "fst ` set (groups_of es) = ex_group ` set es" .
  show "distinct (groups_of es)" using enter_groups [of es] by (simp add: groups_of_def distinct_map)
qed

lemma judge_subjects_counts:
  "rp_missing (judge_subjects reached g e ss r) = rp_missing r + length (filter (\<lambda>s. (g, s) \<notin> fst ` set reached) ss)"
  "rp_expected (judge_subjects reached g e ss r) = rp_expected r"
  "rp_unexpected (judge_subjects reached g e ss r) = rp_unexpected r"
  "rp_dead_lettered (judge_subjects reached g e ss r) = rp_dead_lettered r"
  "rp_extra_copies (judge_subjects reached g e ss r) = rp_extra_copies r"
  "rp_edit_mismatch (judge_subjects reached g e ss r) = rp_edit_mismatch r"
  "rp_lua_mismatch (judge_subjects reached g e ss r) = rp_lua_mismatch r"
  by (induction reached g e ss r rule: judge_subjects.induct) (auto simp: map_of_eq_None_iff [symmetric])

lemma judge_dedupe_counts [simp]:
  "rp_missing (judge_dedupe reached x r) = rp_missing r" "rp_expected (judge_dedupe reached x r) = rp_expected r"
  "rp_unexpected (judge_dedupe reached x r) = rp_unexpected r"
  "rp_dead_lettered (judge_dedupe reached x r) = rp_dead_lettered r"
  "rp_extra_copies (judge_dedupe reached x r) = rp_extra_copies r"
  "rp_edit_mismatch (judge_dedupe reached x r) = rp_edit_mismatch r"
  "rp_lua_mismatch (judge_dedupe reached x r) = rp_lua_mismatch r"
  by (simp_all add: judge_dedupe_def split: prod.split option.split)

lemma judge_group_counts:
  "rp_missing (judge_group reached gc (g, e, n, m) r) =
     rp_missing r + length (filter (\<lambda>s. (g, s) \<notin> fst ` set reached) (ex_subjects e))"
  "rp_expected (judge_group reached gc (g, e, n, m) r) = rp_expected r + length (ex_subjects e)"
  "rp_unexpected (judge_group reached gc (g, e, n, m) r) = rp_unexpected r"
  "rp_dead_lettered (judge_group reached gc (g, e, n, m) r) = rp_dead_lettered r"
  "rp_extra_copies (judge_group reached gc (g, e, n, m) r) = rp_extra_copies r"
  by (simp_all add: judge_group_def Let_def judge_subjects_counts)

definition group_missing :: "(group \<times> string) set \<Rightarrow> group \<times> expected \<times> nat \<times> nat \<Rightarrow> nat" where
  "group_missing reached x = length (filter (\<lambda>s. (fst x, s) \<notin> reached) (ex_subjects (fst (snd x))))"

lemma judge_groups_counts:
  "rp_missing (fold (judge_group reached gc) gs r) = rp_missing r + sum_list (map (group_missing (fst ` set reached)) gs)"
  "rp_expected (fold (judge_group reached gc) gs r) = rp_expected r + sum_list (map (\<lambda>x. length (ex_subjects (fst (snd x)))) gs)"
  "rp_unexpected (fold (judge_group reached gc) gs r) = rp_unexpected r"
  "rp_dead_lettered (fold (judge_group reached gc) gs r) = rp_dead_lettered r"
  "rp_extra_copies (fold (judge_group reached gc) gs r) = rp_extra_copies r"
  by (induction gs arbitrary: r) (auto simp: judge_group_counts group_missing_def split: prod.splits)

definition is_dead :: "expected list \<Rightarrow> dead_message \<Rightarrow> bool" where
  "is_dead es d \<longleftrightarrow> Option.bind (parse_id (dm_record_id d)) (by_id es) \<noteq> None"

lemma judge_dead_counts:
  "rp_missing (fold (judge_dead dbg es) ds r) = rp_missing r" "rp_expected (fold (judge_dead dbg es) ds r) = rp_expected r"
  "rp_unexpected (fold (judge_dead dbg es) ds r) = rp_unexpected r + length (filter (\<lambda>d. \<not> is_dead es d) ds)"
  "rp_dead_lettered (fold (judge_dead dbg es) ds r) = rp_dead_lettered r + length (filter (is_dead es) ds)"
  "rp_extra_copies (fold (judge_dead dbg es) ds r) = rp_extra_copies r"
  by (induction ds arbitrary: r) (auto simp: judge_dead_def is_dead_def found_unexpected_def split: option.splits)

section \<open>The verdict\<close>

text \<open>Expectations agree when each group has one list of subjects, without repeats.\<close>

definition agree :: "expected list \<Rightarrow> bool" where
  "agree es \<longleftrightarrow>
     (\<forall>e \<in> set es. distinct (ex_subjects e) \<and> (\<forall>e' \<in> set es. ex_group e = ex_group e' \<longrightarrow> ex_subjects e = ex_subjects e'))"

lemma agree_subjects: "agree es \<Longrightarrow> e \<in> set es \<Longrightarrow> e' \<in> set es \<Longrightarrow> ex_group e = ex_group e' \<Longrightarrow> ex_subjects e = ex_subjects e'"
  unfolding agree_def by blast

lemma agree_distinct: "agree es \<Longrightarrow> e \<in> set es \<Longrightarrow> distinct (ex_subjects e)"
  unfolding agree_def by blast

text \<open>What the producer expects of the messages of a run; such expectations agree.\<close>

definition produced :: "expected list \<Rightarrow> bool" where
  "produced es \<longleftrightarrow> (\<forall>e \<in> set es. \<exists>s \<in> set SETS. \<exists>i l cycle dup. e = expectation i s l cycle dup)"

lemma produced_agree: "produced es \<Longrightarrow> agree es"
  unfolding produced_def agree_def
  using expectation_subjects expectation_subjects_distinct by (metis (no_types, lifting))

definition arrived :: "expected list \<Rightarrow> written_message list \<Rightarrow> (group \<times> string) set" where
  "arrived es ws = {at. \<exists>w \<in> set ws. arrival es w = Some at}"

lemma judge_counts:
  "rp_unexpected (judge tx dbg es ws ds) =
     length (filter (\<lambda>w. arrival es w = None) ws) + length (filter (\<lambda>d. \<not> is_dead es d) ds)"
  "rp_dead_lettered (judge tx dbg es ws ds) = length (filter (is_dead es) ds)"
  "rp_missing (judge tx dbg es ws ds) = sum_list (map (group_missing (arrived es ws)) (groups_of es))"
  "rp_expected (judge tx dbg es ws ds) = sum_list (map (\<lambda>x. length (ex_subjects (fst (snd x)))) (groups_of es))"
  "length (filter (\<lambda>w. arrival es w \<noteq> None) ws) = rp_extra_copies (judge tx dbg es ws ds) + card (arrived es ws)"
proof -
  let ?j = "fold (judge_written tx dbg es) ws (judging_begin es)"
  have j: "judged es ws ?j" by (rule judged_all)
  have p: "positive (jg_reached ?j)" using j unfolding judged_def by (elim conjE)
  have r: "fst ` set (jg_reached ?j) = arrived es ws" using j unfolding judged_def arrived_def by (elim conjE)
  then have "card (arrived es ws) = length (jg_reached ?j)"
    using p distinct_card [of "map fst (jg_reached ?j)"] by (simp add: positive_def)
  then show
    "rp_unexpected (judge tx dbg es ws ds) =
       length (filter (\<lambda>w. arrival es w = None) ws) + length (filter (\<lambda>d. \<not> is_dead es d) ds)"
    "rp_dead_lettered (judge tx dbg es ws ds) = length (filter (is_dead es) ds)"
    "rp_missing (judge tx dbg es ws ds) = sum_list (map (group_missing (arrived es ws)) (groups_of es))"
    "rp_expected (judge tx dbg es ws ds) = sum_list (map (\<lambda>x. length (ex_subjects (fst (snd x)))) (groups_of es))"
    "length (filter (\<lambda>w. arrival es w \<noteq> None) ws) = rp_extra_copies (judge tx dbg es ws ds) + card (arrived es ws)"
    using j r unfolding judged_def
    by (simp_all add: judge_def judge_where_def Let_def judge_dead_counts judge_groups_counts del: not_None_eq)
qed

lemma groups_of_first:
  assumes "(g, e, n, m) \<in> set (groups_of es)"
  shows "e \<in> set es \<and> ex_group e = g"
proof -
  from groups_of_entries [OF assms] obtain rest where "of_group es g = e # rest"
    by (auto simp: group_entry_def split: list.splits)
  then have "e \<in> set (of_group es g)" by simp
  then show ?thesis by (simp add: of_group_def)
qed

lemma groups_of_all: "e \<in> set es \<Longrightarrow> \<exists>e' n m. (ex_group e, e', n, m) \<in> set (groups_of es)"
  using groups_of_keys(1) [of es] by (metis (no_types, lifting) imageE imageI prod.collapse)

lemma arrived_expected: "(g, s) \<in> arrived es ws \<Longrightarrow> \<exists>e \<in> set es. ex_group e = g \<and> s \<in> set (ex_subjects e)"
proof -
  assume "(g, s) \<in> arrived es ws"
  then obtain w e where e: "meant es w e" "g = ex_group e" "s = wr_subject w" by (auto simp: arrived_def arrival_meant)
  moreover have "e \<in> set es" using e(1) by (rule meant_in)
  ultimately show ?thesis by (auto simp: meant_def)
qed

definition group_arrived :: "(group \<times> string) set \<Rightarrow> group \<times> expected \<times> nat \<times> nat \<Rightarrow> string list" where
  "group_arrived reached x = filter (\<lambda>s. (fst x, s) \<in> reached) (ex_subjects (fst (snd x)))"

lemma group_missing_arrived: "group_missing reached x + length (group_arrived reached x) = length (ex_subjects (fst (snd x)))"
  using sum_length_filter_compl [of "\<lambda>s. (fst x, s) \<in> reached" "ex_subjects (fst (snd x))"]
  by (simp add: group_missing_def group_arrived_def)

lemma card_arrived:
  assumes "agree es"
  shows "card (arrived es ws) = sum_list (map (\<lambda>x. length (group_arrived (arrived es ws) x)) (groups_of es))"
proof -
  let ?R = "arrived es ws" and ?G = "groups_of es"
  let ?P = "\<lambda>x. Pair (fst x) ` set (group_arrived ?R x)"
  have eq: "?R = (\<Union>x \<in> set ?G. ?P x)"
  proof
    show "?R \<subseteq> (\<Union>x \<in> set ?G. ?P x)"
    proof
      fix at
      assume at: "at \<in> ?R"
      obtain g s where gs: "at = (g, s)" by (cases at)
      from arrived_expected [OF at [unfolded gs]] obtain e where e: "e \<in> set es" "ex_group e = g" "s \<in> set (ex_subjects e)" by auto
      from groups_of_all [OF e(1)] obtain e' n m where x: "(g, e', n, m) \<in> set ?G" using e(2) by auto
      from groups_of_first [OF x] e(2) have e': "e' \<in> set es" "ex_group e = ex_group e'" by simp_all
      have "s \<in> set (ex_subjects e')" using agree_subjects [OF assms e(1) e'] e(3) by simp
      with at x show "at \<in> (\<Union>x \<in> set ?G. ?P x)" by (force simp: gs group_arrived_def)
    qed
  qed (auto simp: group_arrived_def)
  have fsts: "inj_on fst (set ?G)"
  proof (rule inj_onI)
    have e: "group_entry es (fst z) = Some (snd z)" if "z \<in> set ?G" for z
      using groups_of_entries [of "fst z" "snd z" es] that by simp
    fix x y
    assume "x \<in> set ?G" "y \<in> set ?G" "fst x = fst y"
    with e [of x] e [of y] show "x = y" by (simp add: prod_eq_iff)
  qed
  have "card (\<Union>x \<in> set ?G. ?P x) = (\<Sum>x \<in> set ?G. card (?P x))"
  proof (rule card_UN_disjoint)
    show "\<forall>x \<in> set ?G. \<forall>y \<in> set ?G. x \<noteq> y \<longrightarrow> ?P x \<inter> ?P y = {}"
    proof (intro ballI impI)
      fix x y
      assume "x \<in> set ?G" "y \<in> set ?G" "x \<noteq> y"
      then have "fst x \<noteq> fst y" using inj_onD [OF fsts, of x y] by blast
      then show "?P x \<inter> ?P y = {}" by blast
    qed
  qed simp_all
  also have "\<dots> = (\<Sum>x \<in> set ?G. length (group_arrived ?R x))"
  proof (rule sum.cong [OF refl])
    fix x
    assume x: "x \<in> set ?G"
    obtain g e n m where "x = (g, e, n, m)" by (metis prod_cases4)
    with x groups_of_first agree_distinct [OF assms] have "distinct (ex_subjects (fst (snd x)))" by auto
    then show "card (?P x) = length (group_arrived ?R x)"
      by (simp add: card_image inj_on_def distinct_card group_arrived_def del: set_filter)
  qed
  also have "\<dots> = sum_list (map (\<lambda>x. length (group_arrived ?R x)) ?G)"
    by (rule sum_list_distinct_conv_sum_set [OF groups_of_keys(2), symmetric])
  finally show ?thesis using eq by simp
qed

lemma sum_list_zero_iff: "sum_list (map f xs) = (0 :: nat) \<longleftrightarrow> (\<forall>x \<in> set xs. f x = 0)"
  by (induction xs) auto

text \<open>Every message and dead letter is counted once.\<close>

lemma verdict_adds_up:
  assumes "agree es"
  shows "length ws + length ds = rp_unexpected (judge tx dbg es ws ds) + rp_dead_lettered (judge tx dbg es ws ds) +
    rp_extra_copies (judge tx dbg es ws ds) + report_reached (judge tx dbg es ws ds)"
proof -
  let ?G = "groups_of es" and ?R = "arrived es ws"
  have "rp_expected (judge tx dbg es ws ds) = rp_missing (judge tx dbg es ws ds) + card ?R"
    unfolding judge_counts card_arrived [OF assms]
    by (simp add: sum_list_addf [symmetric] group_missing_arrived)
  then have r: "report_reached (judge tx dbg es ws ds) = card ?R" by (simp add: report_reached_def)
  have w: "length (filter (\<lambda>w. arrival es w = None) ws) + length (filter (\<lambda>w. arrival es w \<noteq> None) ws) = length ws"
    by (rule sum_length_filter_compl)
  have d: "length (filter (is_dead es) ds) + length (filter (\<lambda>d. \<not> is_dead es d) ds) = length ds"
    by (rule sum_length_filter_compl)
  show ?thesis
    unfolding r using w d judge_counts(5) [of es ws tx dbg ds] by (simp add: judge_counts(1,2) del: not_None_eq)
qed

text \<open>A run passes when each group reached each of its subjects, nothing else was written, nothing was
  dead-lettered, no comparison failed and enough duplicates were dropped.\<close>

lemma passed_iff:
  assumes "agree es"
  shows "passed (judge tx dbg es ws ds) \<longleftrightarrow>
    (\<forall>e \<in> set es. \<forall>s \<in> set (ex_subjects e). \<exists>w \<in> set ws. \<exists>e'. meant es w e' \<and> ex_group e' = ex_group e \<and> wr_subject w = s) \<and>
    (\<forall>w \<in> set ws. \<exists>e. meant es w e) \<and> ds = [] \<and>
    rp_edit_mismatch (judge tx dbg es ws ds) = 0 \<and> rp_lua_mismatch (judge tx dbg es ws ds) = 0 \<and>
    dedupe_held (judge tx dbg es ws ds)"
proof -
  have at: "(g, s) \<in> arrived es ws \<longleftrightarrow> (\<exists>w \<in> set ws. \<exists>e'. meant es w e' \<and> ex_group e' = g \<and> wr_subject w = s)" for g s
    by (auto simp: arrived_def arrival_meant)
  have "rp_missing (judge tx dbg es ws ds) = 0 \<longleftrightarrow>
      (\<forall>x \<in> set (groups_of es). \<forall>s \<in> set (ex_subjects (fst (snd x))). (fst x, s) \<in> arrived es ws)"
    by (simp add: judge_counts(3) sum_list_zero_iff group_missing_def filter_empty_conv)
  also have "\<dots> \<longleftrightarrow> (\<forall>e \<in> set es. \<forall>s \<in> set (ex_subjects e). (ex_group e, s) \<in> arrived es ws)"
  proof (intro iffI ballI)
    fix e s
    assume a: "\<forall>x \<in> set (groups_of es). \<forall>s \<in> set (ex_subjects (fst (snd x))). (fst x, s) \<in> arrived es ws"
      and e: "e \<in> set es" "s \<in> set (ex_subjects e)"
    from groups_of_all [OF e(1)] obtain e' n m where x: "(ex_group e, e', n, m) \<in> set (groups_of es)" by blast
    from groups_of_first [OF x] have e': "e' \<in> set es" "ex_group e = ex_group e'" by simp_all
    have "s \<in> set (ex_subjects e')" using agree_subjects [OF assms e(1) e'] e(2) by simp
    then show "(ex_group e, s) \<in> arrived es ws" using bspec [OF a x] by simp
  next
    fix x s
    assume a: "\<forall>e \<in> set es. \<forall>s \<in> set (ex_subjects e). (ex_group e, s) \<in> arrived es ws"
      and x: "x \<in> set (groups_of es)" "s \<in> set (ex_subjects (fst (snd x)))"
    obtain g e n m where xs: "x = (g, e, n, m)" by (metis prod_cases4)
    from groups_of_first [OF x(1) [unfolded xs]] have "e \<in> set es" "ex_group e = g" by simp_all
    with a x(2) show "(fst x, s) \<in> arrived es ws" by (auto simp: xs)
  qed
  finally have missing: "rp_missing (judge tx dbg es ws ds) = 0 \<longleftrightarrow>
      (\<forall>e \<in> set es. \<forall>s \<in> set (ex_subjects e). (ex_group e, s) \<in> arrived es ws)" .
  have m: "arrival es w \<noteq> None \<longleftrightarrow> (\<exists>e. meant es w e)" for w
    unfolding arrival_def meant_def by (auto simp del: not_None_eq split_paired_Ex split: option.split)
  have rest: "rp_unexpected (judge tx dbg es ws ds) = 0 \<and> rp_dead_lettered (judge tx dbg es ws ds) = 0 \<longleftrightarrow>
      (\<forall>w \<in> set ws. \<exists>e. meant es w e) \<and> ds = []"
    by (auto simp: judge_counts(1,2) filter_empty_conv m [symmetric] simp del: not_None_eq)
  have "passed (judge tx dbg es ws ds) \<longleftrightarrow> rp_missing (judge tx dbg es ws ds) = 0 \<and>
      (rp_unexpected (judge tx dbg es ws ds) = 0 \<and> rp_dead_lettered (judge tx dbg es ws ds) = 0) \<and>
      rp_edit_mismatch (judge tx dbg es ws ds) = 0 \<and> rp_lua_mismatch (judge tx dbg es ws ds) = 0 \<and>
      dedupe_held (judge tx dbg es ws ds)"
    by (auto simp: passed_def)
  then show ?thesis unfolding missing rest at by (simp only: conj_assoc)
qed

end
