(* ===== verification/Harness_Examples.thy ===== *)
theory Harness_Examples
  imports Doubles Harness_Follow_Laws Harness_Laws Examples
begin

text \<open>
  A plan of the producer on concrete flags, and flags it panics on; a run the verifier follows to its end.
\<close>

lemma of_ints:
  "f64_of_int 0 = 0" "f64_of_int 1 = dbl (2 ^ 52) 1022" "f64_of_int 50 = dbl (50 * 2 ^ 47) 1027"
  "f64_of_int 100 = dbl (100 * 2 ^ 46) 1028" "f64_of_int 32 = dbl (2 ^ 52) 1027"
  "f64_of_int (int (5 * 10 ^ 8)) = dbl (5 * 10 ^ 8 * 2 ^ 24) 1050" "f64_of_int (10 ^ 9) = dbl (10 ^ 9 * 2 ^ 23) 1051"
  "f64_of_int (2 ^ 53) = dbl (2 ^ 52) 1075" "f64_of_int 7956156453446585 = dbl 7956156453446585 1074"
proof -
  have "f64_make False (round_bits (2 ^ 53) 1) = dbl (2 ^ 52) 1075" by (rule dbl_make) (simp_all add: normal_def)
  then show "f64_of_int (2 ^ 53) = dbl (2 ^ 52) 1075" by (simp add: f64_of_int_def)
qed (use dbl_of_int [of 1 52 1022] dbl_of_int [of 50 47 1027] dbl_of_int [of 100 46 1028] dbl_of_int [of 32 47 1027]
    dbl_of_int [of "5 * 10 ^ 8" 24 1050] dbl_of_int [of "10 ^ 9" 23 1051] dbl_of_int [of 7956156453446585 0 1074]
  in \<open>simp_all add: normal_def f64_of_int_def [of 0] f64_make_def\<close>)

text \<open>Powers of two multiply and divide by their exponents.\<close>

lemma pow_mul: "e < 2046 \<Longrightarrow> e' < 2046 \<Longrightarrow> c < 2046 \<Longrightarrow> e + e' = c + 1022 \<Longrightarrow>
    f64_mul (dbl (2 ^ 52) e) (dbl (2 ^ 52) e') = dbl (2 ^ 52) c"
  by (rule dbl_mul [where k = 52]) (simp_all add: normal_def)

lemma pow_div: "e < 2046 \<Longrightarrow> e' < 2046 \<Longrightarrow> c < 2046 \<Longrightarrow> e + 1022 = c + e' \<Longrightarrow>
    f64_div (dbl (2 ^ 52) e) (dbl (2 ^ 52) e') = dbl (2 ^ 52) c"
  by (rule dbl_div [where k = 52]) (simp_all add: normal_def)

lemma zero_div: "normal m e \<Longrightarrow> f64_div 0 (dbl m e) = 0"
proof -
  assume n: "normal m e"
  have z: "\<not> f64_nan 0" "\<not> f64_inf 0" "f64_mag 0 = 0" "\<not> f64_neg 0"
    by (simp_all add: f64_nan_def f64_inf_def f64_mag_def f64_neg_def f64_exp_def f64_man_def)
  have "f64_mag (dbl m e) \<noteq> 0" "0 < f64_mag (dbl m e)" using dbl_facts(4,6) [OF n] by (simp_all only: neq0_conv)
  then show ?thesis
    by (simp add: f64_div_def z dbl_facts(1,2) [OF n] dbl_parts(3) [OF n] f64_make_def)
qed

lemma zero_secs: "try_from_secs_f64 0 = Some 0"
proof -
  have "f64_finite 0" "\<not> f64_less 0 0" "f64_mag 0 = 0"
    by (simp_all add: f64_finite_def f64_less_def f64_partial_cmp_def cmp_def f64_exp_def f64_mag_def f64_man_def)
  then show ?thesis by (simp add: try_from_secs_f64_def round_half_even_def)
qed

text \<open>Eight a second, half of them duplicates, from one set of 32 lines.\<close>

definition brief :: plan_config where
  "brief = \<lparr>pc_rate = dbl (2 ^ 52) 1025, pc_count = 2, pc_dup_percent = 50, pc_seed = 0, pc_dedupe_window = 2 * 10 ^ 9\<rparr>"

lemma brief_share: "f64_div (f64_of_int 50) (f64_of_int 100) = dbl (2 ^ 52) 1021"
  unfolding of_ints by (rule dbl_div [where k = 52]) (simp_all add: normal_def)

lemma brief_rest: "f64_add (f64_of_int 1) (f64_minus (dbl (2 ^ 52) 1021)) = dbl (2 ^ 52) 1021"
proof -
  let ?w = "f64_minus (dbl (2 ^ 52) 1021)"
  have w: "?w = 0xbfe0000000000000" by (simp add: f64_minus_def dbl_def)
  have f: "\<not> f64_nan ?w" "\<not> f64_inf ?w" "f64_key ?w = - int (2 ^ 52 * 2 ^ 1021)"
    unfolding w by (simp_all add: f64_nan_def f64_inf_def f64_key_def f64_mag_def f64_neg_def f64_exp_def f64_man_def)
  have n: "normal (2 ^ 52) 1022" "normal (2 ^ 52) 1021" by (simp_all add: normal_def)
  have s: "f64_key (dbl (2 ^ 52) 1022) + f64_key ?w = int (2 ^ 52 * 2 ^ 1021)"
    unfolding f(3) dbl_facts(5) [OF n(1)] by simp
  have p: "0 < int (2 ^ 52 * 2 ^ 1021)" by simp
  have "f64_make False (round_bits (2 ^ 52 * 2 ^ 1021) (2 ^ 1074)) = dbl (2 ^ 52) 1021"
    by (rule dbl_make [OF n(2)]) simp_all
  then show ?thesis
    unfolding of_ints f64_add_def s
    by (simp only: f dbl_facts [OF n(1)] p [THEN less_imp_neq, symmetric] p [THEN less_not_sym]
      nat_int abs_of_nat simp_thms if_False)
qed

lemma brief_lag: "lag_slots (dbl (2 ^ 52) 1025) = 4"
proof -
  have n: "normal (2 ^ 52) 1024" by (simp add: normal_def)
  have lag: "DUP_LAG_SECS = dbl (2 ^ 52) 1021"
  proof -
    have "f64_div (dbl (5 * 10 ^ 8 * 2 ^ 24) 1050) (dbl (10 ^ 9 * 2 ^ 23) 1051) = dbl (2 ^ 52) 1021"
      by (rule dbl_div [where k = 52]) (simp_all add: normal_def)
    then show ?thesis by (simp only: DUP_LAG_SECS_def of_ints(6,7) [symmetric]) (simp add: DUP_LAG_def)
  qed
  have "f64_mul DUP_LAG_SECS (dbl (2 ^ 52) 1025) = dbl (2 ^ 52) 1024" unfolding lag by (rule pow_mul) simp_all
  moreover have "f64_as_u64 (dbl (2 ^ 52) 1024) = 4"
    by (simp only: f64_as_u64_def dbl_facts [OF n] dbl_parts [OF n] simp_thms if_False) simp
  ultimately show ?thesis by (simp add: lag_slots_def)
qed

lemma brief_draw:
  "splitmix_unit 0 = (dbl 7956156453446585 1021, 0x9e3779b97f4a7c15)"
  "splitmix_next 0x9e3779b97f4a7c15 = (0x6e789e6aa1b965f4, 0x3c6ef372fe94f82a)"
proof -
  have "splitmix_next 0 = (0xe220a8397b1dcdaf, 0x9e3779b97f4a7c15)" by (simp add: splitmix_next_def Let_def)
  moreover have "int (unat (drop_bit 11 (0xe220a8397b1dcdaf :: u64))) = 7956156453446585" by simp
  moreover have "f64_div (dbl 7956156453446585 1074) (dbl (2 ^ 52) 1075) = dbl 7956156453446585 1021"
    by (rule dbl_div [where k = 52]) (simp_all add: normal_def)
  ultimately show "splitmix_unit 0 = (dbl 7956156453446585 1021, 0x9e3779b97f4a7c15)"
    by (simp only: splitmix_unit_def of_ints prod.case Let_def)
  show "splitmix_next 0x9e3779b97f4a7c15 = (0x6e789e6aa1b965f4, 0x3c6ef372fe94f82a)"
    by (simp add: splitmix_next_def Let_def)
qed

lemma brief_chance: "f64_less (dbl 7956156453446585 1021) (dbl (2 ^ 52) 1022)"
proof -
  have n: "normal 7956156453446585 1021" "normal (2 ^ 52) 1022" by (simp_all add: normal_def)
  have "int (7956156453446585 * 2 ^ 1021) < int (2 ^ 52 * 2 ^ 1022)" by simp
  then show ?thesis
    by (simp only: f64_less_def f64_partial_cmp_def dbl_facts [OF n(1)] dbl_facts [OF n(2)] cmp_def simp_thms if_False if_True)
qed

definition brief_messages :: "planned list" where
  "brief_messages =
     [\<lparr>pl_id = 0, pl_set = 0, pl_line = 0, pl_cycle = 0, pl_dup_of = None, pl_at = 0\<rparr>,
      \<lparr>pl_id = 1, pl_set = 0, pl_line = 0, pl_cycle = 0, pl_dup_of = Some 0, pl_at = 125000000\<rparr>]"

lemma brief_slots:
  "plan_slots (dbl (2 ^ 52) 1025) [32] 0 2 (dbl (2 ^ 52) 1022) [0..<2] (plan_begin 0 [32]) =
     Some \<lparr>ps_rng = 0x3c6ef372fe94f82a, ps_sent = [1], ps_originals = 1, ps_due = [], ps_messages = brief_messages\<rparr>"
proof -
  have n: "normal (2 ^ 52) 1025" "normal (2 ^ 52) 1019" by (simp_all add: normal_def)
  have at0: "try_from_secs_f64 (f64_div (f64_of_int (int 0)) (dbl (2 ^ 52) 1025)) = Some 0"
    unfolding int_ops(1) of_ints zero_div [OF n(1)] by (rule zero_secs)
  have "f64_div (dbl (2 ^ 52) 1022) (dbl (2 ^ 52) 1025) = dbl (2 ^ 52) 1019" by (rule pow_div) simp_all
  moreover have "try_from_secs_f64 (dbl (2 ^ 52) 1019) = Some 125000000" by (rule dbl_secs [OF n(2)]) simp_all
  ultimately have at1: "try_from_secs_f64 (f64_div (f64_of_int (int 1)) (dbl (2 ^ 52) 1025)) = Some 125000000"
    by (simp only: int_ops(2) of_ints)
  let ?o = "\<lparr>pl_id = 0, pl_set = 0, pl_line = 0, pl_cycle = 0, pl_dup_of = None, pl_at = 0\<rparr>"
  have s0: "plan_slot (dbl (2 ^ 52) 1025) [32] 0 2 (dbl (2 ^ 52) 1022) 0 (plan_begin 0 [32]) =
      Some \<lparr>ps_rng = 0x3c6ef372fe94f82a, ps_sent = [1], ps_originals = 1, ps_due = [((1, 0), ?o)], ps_messages = [?o]\<rparr>"
    by (simp only: plan_slot_def at0 option.case)
      (simp add: plan_begin_def send_original_def schedule_def Let_def brief_draw brief_chance [simplified] due_insert_def)
  have s1: "plan_slot (dbl (2 ^ 52) 1025) [32] 0 2 (dbl (2 ^ 52) 1022) 1
      \<lparr>ps_rng = 0x3c6ef372fe94f82a, ps_sent = [1], ps_originals = 1, ps_due = [((1, 0), ?o)], ps_messages = [?o]\<rparr> =
      Some \<lparr>ps_rng = 0x3c6ef372fe94f82a, ps_sent = [1], ps_originals = 1, ps_due = [], ps_messages = brief_messages\<rparr>"
    by (simp only: plan_slot_def at1 option.case) (simp add: Let_def brief_messages_def)
  have "[0..<2] = [0, 1]" by (simp add: upt_conv_Cons)
  then show ?thesis by (simp only: plan_slots.simps s0 s1 option.case)
qed

lemma brief_plan: "plan brief [32] 0 = Some (Inr brief_messages)"
proof -
  have n: "normal (2 ^ 52) 1025" "normal (2 ^ 52) 1021" by (simp_all add: normal_def)
  have e: "int (unat (50 :: u8)) = 50" "int (Min (set [32])) = 32" "int (length [32 :: nat]) = 1" "Min (set [32]) \<noteq> (0 :: nat)"
    "\<not> 50 < (50 :: u8)" "[32 :: nat] \<noteq> []" "\<not> MAX_COUNT \<le> 2"
    by (simp_all add: MAX_COUNT_def)
  have "f64_mul (dbl (2 ^ 52) 1025) (dbl (2 ^ 52) 1021) = dbl (2 ^ 52) 1024"
    "f64_mul (dbl (2 ^ 52) 1027) (dbl (2 ^ 52) 1022) = dbl (2 ^ 52) 1027"
    by (rule pow_mul; simp)+
  moreover have "f64_div (dbl (2 ^ 52) 1027) (dbl (2 ^ 52) 1024) = dbl (2 ^ 52) 1025" by (rule pow_div) simp_all
  moreover have "try_from_secs_f64 (dbl (2 ^ 52) 1025) = Some (8 * 10 ^ 9)" by (rule dbl_secs [OF n(1)]) simp_all
  moreover have "Option.bind (duration_add (2 * 10 ^ 9) DUP_LAG) (\<lambda>d. duration_add d REPEAT_MARGIN) = Some 3500000000"
    "\<not> 8 * 10 ^ 9 < (3500000000 :: nat)"
    by (simp_all add: duration_add_def DUP_LAG_def REPEAT_MARGIN_def)
  moreover have "plan_messages brief [32] 0 (dbl (2 ^ 52) 1021) = Some (Inr brief_messages)"
  proof -
    have c: "f64_div (dbl (2 ^ 52) 1021) (dbl (2 ^ 52) 1021) = dbl (2 ^ 52) 1022" by (rule pow_div) simp_all
    have h: "lag_slots (dbl (2 ^ 52) 1025) div 2 = 2" unfolding brief_lag by simp
    show ?thesis
      by (simp only: plan_messages_def brief_def plan_config.select_convs h brief_rest c brief_slots Let_def simp_thms
          if_False zero_neq_numeral [symmetric] option.map planning.select_convs)
  qed
  ultimately show ?thesis
    unfolding plan_def Let_def brief_def plan_config.select_convs e brief_share brief_rest
    by (simp only: of_ints dbl_facts(3) [OF n(1)] dbl_less(2) [OF n(1)] e simp_thms if_False if_True option.case)
qed

text \<open>At a tiny rate the plan panics in \<open>Duration::from_secs_f64\<close>, before it would refuse the flags.\<close>

lemma tiny_rate_panics:
  "plan \<lparr>pc_rate = dbl (2 ^ 52) 922, pc_count = n, pc_dup_percent = 0, pc_seed = s, pc_dedupe_window = w\<rparr> [32] base =
     (if MAX_COUNT \<le> n then Some (Inl (InvalidFlag (''--count must be below '' @ show_nat MAX_COUNT))) else None)"
proof -
  have nm: "normal (2 ^ 52) 922" "normal (2 ^ 52) 1127" "normal (100 * 2 ^ 46) 1028" "normal (2 ^ 52) 1022"
    by (simp_all add: normal_def)
  have e: "int (unat (0 :: u8)) = 0" "int (Min (set [32])) = 32" "int (length [32 :: nat]) = 1" "Min (set [32]) \<noteq> (0 :: nat)"
    "\<not> 50 < (0 :: u8)" "[32 :: nat] \<noteq> []"
    by simp_all
  have "f64_minus 0 = 0x8000000000000000" by (simp add: f64_minus_def)
  then have z: "\<not> f64_nan (f64_minus 0)" "\<not> f64_inf (f64_minus 0)" "f64_key (f64_minus 0) = 0"
    by (simp_all add: f64_nan_def f64_inf_def f64_key_def f64_mag_def f64_neg_def f64_exp_def f64_man_def)
  have p: "0 < int (2 ^ 52 * 2 ^ 1022)" by simp
  have "f64_make False (round_bits (2 ^ 52 * 2 ^ 1022) (2 ^ 1074)) = dbl (2 ^ 52) 1022"
    by (rule dbl_make [OF nm(4)]) simp_all
  then have one: "f64_add (dbl (2 ^ 52) 1022) (f64_minus 0) = dbl (2 ^ 52) 1022"
    by (simp only: f64_add_def z dbl_facts [OF nm(4)] add_0_right p [THEN less_imp_neq, symmetric] p [THEN less_not_sym]
      nat_int abs_of_nat simp_thms if_False)
  have m: "f64_mul (dbl (2 ^ 52) 922) (dbl (2 ^ 52) 1022) = dbl (2 ^ 52) 922"
    "f64_mul (dbl (2 ^ 52) 1027) (dbl (2 ^ 52) 1022) = dbl (2 ^ 52) 1027"
    by (rule pow_mul; simp)+
  have d: "f64_div (dbl (2 ^ 52) 1027) (dbl (2 ^ 52) 922) = dbl (2 ^ 52) 1127" by (rule pow_div) simp_all
  have "round_half_even (f64_mag (dbl (2 ^ 52) 1127) * 10 ^ 9) (2 ^ 1074) = 2 ^ 105 * 10 ^ 9"
  proof -
    have "f64_mag (dbl (2 ^ 52) 1127) * 10 ^ 9 = 2 ^ 105 * 10 ^ 9 * 2 ^ 1074" unfolding dbl_facts(4) [OF nm(2)] by simp
    then show ?thesis by (simp only: round_whole zero_less_power zero_less_numeral)
  qed
  moreover have "\<not> 2 ^ 105 * 10 ^ 9 < (2 ^ 64 * 10 ^ 9 :: nat)" by simp
  ultimately have panic: "try_from_secs_f64 (dbl (2 ^ 52) 1127) = None"
    by (simp only: try_from_secs_f64_def Let_def if_False if_cancel)
  show ?thesis
    unfolding plan_def Let_def plan_config.select_convs e of_ints zero_div [OF nm(3)]
    by (simp only: one m d panic dbl_facts(3) [OF nm(1)] dbl_less(2) [OF nm(1)] e simp_thms if_False if_True option.case)
qed

section \<open>A run\<close>

text \<open>Polls a second apart that find the marker, an idle pipeline and streams with nothing in them.\<close>

definition quiet_poll :: "nat \<Rightarrow> poll" where
  "quiet_poll i =
     \<lparr>at_items = [], at_file = Inr None, at_now = i * POLL, at_marker = Inr (Some (done_text Published)),
      at_consumer = Inr (0, 0), at_ends = Inr (\<lparr>sd_messages = 0, sd_last_sequence = 0\<rparr>, \<lparr>sd_messages = 0, sd_last_sequence = 0\<rparr>)\<rparr>"

definition quiet_polls :: "poll list" where
  "quiet_polls = map quiet_poll [0..<70]"

definition quiet_options :: verifier_options where
  "quiet_options =
     \<lparr>vo_expectations = ''e'', vo_nats_url = DEFAULT_NATS_URL, vo_producer_timeout = 2 * 10 ^ 9, vo_settle_timeout = 4 * 10 ^ 9\<rparr>"

definition quiet_texts :: environment_texts where
  "quiet_texts =
     \<lparr>et_texts = example_texts, et_debug = (\<lambda>_. []),
      et_verifier = \<lparr>vt_string = (\<lambda>s. s), vt_duration = show_nat, vt_seen = (\<lambda>_. [])\<rparr>, et_parse = Inl\<rparr>"

lemma spaced_upt: "spaced (i * POLL) (map quiet_poll [i..<j])"
proof (induction "j - i" arbitrary: i)
  case (Suc k)
  then have "[i..<j] = i # [Suc i..<j]" by (intro upt_conv_Cons) simp
  moreover have "spaced (i * POLL + POLL) (map quiet_poll [Suc i..<j])"
    using Suc.hyps(1) [of "Suc i"] Suc.hyps(2) by (simp add: add.commute)
  ultimately show ?case by (simp add: quiet_poll_def)
qed simp

lemma quiet_spaced: "spaced 0 quiet_polls"
  using spaced_upt [of 0 70] by (simp add: quiet_polls_def)

lemma quiet_enough:
  "turns (vo_producer_timeout quiet_options) + turns (vo_settle_timeout quiet_options) + turns READ_TIMEOUT + 3 \<le> length quiet_polls"
  by (simp add: turns_def quiet_options_def READ_TIMEOUT_def POLL_def quiet_polls_def)

definition quiet_state :: "phase \<Rightarrow> observing \<Rightarrow> bool" where
  "quiet_state ph st \<longleftrightarrow>
     ob_phase st = ph \<and> ob_seen_sinks st = None \<and> ob_seen_dead st = None \<and> tl_buffer (ob_tail st) = []"

lemma quiet_step:
  assumes "quiet_state ph st" "observe_turn (et_verifier quiet_texts) quiet_options 0 (quiet_poll i)
      (observe_tick (et_texts quiet_texts) (et_debug quiet_texts) (i * POLL) (st\<lparr>ob_tail := ob_tail st\<rparr>)) = Inr x"
  shows "\<exists>st'. observe_step quiet_texts quiet_options 0 (quiet_poll i) st = Inr (st', x = Break) \<and>
    quiet_state (case x of Turn ph' \<Rightarrow> ph' | Break \<Rightarrow> ph) st'"
proof (cases x)
  case (Turn ph')
  let ?s = "(observe_tick (et_texts quiet_texts) (et_debug quiet_texts) (i * POLL) (st\<lparr>ob_tail := ob_tail st\<rparr>))\<lparr>ob_phase := ph'\<rparr>"
  have "observe_step quiet_texts quiet_options 0 (quiet_poll i) st = Inr (?s, False)"
    using assms(2) by (simp add: observe_step_def quiet_poll_def tail_read_def Let_def Turn)
  then show ?thesis using assms(1) by (intro exI [of _ ?s]) (simp add: quiet_state_def Turn)
next
  case Break
  let ?s = "observe_tick (et_texts quiet_texts) (et_debug quiet_texts) (i * POLL) (st\<lparr>ob_tail := ob_tail st\<rparr>)"
  have "observe_step quiet_texts quiet_options 0 (quiet_poll i) st = Inr (?s, True)"
    using assms(2) by (simp add: observe_step_def quiet_poll_def tail_read_def Let_def Break)
  then show ?thesis using assms(1) by (intro exI [of _ ?s]) (simp add: quiet_state_def Break)
qed

lemma quiet_turns:
  fixes st i
  defines "e \<equiv> \<lparr>sd_messages = 0, sd_last_sequence = 0\<rparr>"
  defines "t \<equiv> observe_tick (et_texts quiet_texts) (et_debug quiet_texts) (i * POLL) (st\<lparr>ob_tail := ob_tail st\<rparr>)"
  shows "quiet_state Producing st \<Longrightarrow>
      observe_turn (et_verifier quiet_texts) quiet_options 0 (quiet_poll i) t = Inr (Turn (Settling 0 (i * POLL + 4 * 10 ^ 9)))"
    and "quiet_state (Settling c d) st \<Longrightarrow> c < 2 \<Longrightarrow> i * POLL < d \<Longrightarrow>
      observe_turn (et_verifier quiet_texts) quiet_options 0 (quiet_poll i) t = Inr (Turn (Settling (c + 1) d))"
    and "quiet_state (Settling 2 d) st \<Longrightarrow>
      observe_turn (et_verifier quiet_texts) quiet_options 0 (quiet_poll i) t = Inr (Turn (Reading e e (i * POLL + READ_TIMEOUT)))"
    and "quiet_state (Reading e e d) st \<Longrightarrow>
      observe_turn (et_verifier quiet_texts) quiet_options 0 (quiet_poll i) t = Inr Break"
  unfolding t_def e_def
  by (simp_all add: quiet_state_def observe_turn_def turn_producing_def turn_settling_def turn_reading_def read_marker_def
      quiet_poll_def done_round_trip quiet_options_def stream_reached_def SETTLED_POLLS_def Let_def)

lemma quiet_go:
  assumes "quiet_state ph st" "observe_turn (et_verifier quiet_texts) quiet_options 0 (quiet_poll i)
      (observe_tick (et_texts quiet_texts) (et_debug quiet_texts) (i * POLL) (st\<lparr>ob_tail := ob_tail st\<rparr>)) = Inr (Turn ph')"
    and "\<And>st'. quiet_state ph' st' \<Longrightarrow> \<exists>report. observe_loop quiet_texts quiet_options 0 (Inr None) ps st' = Some (Inr report)"
  shows "\<exists>report. observe_loop quiet_texts quiet_options 0 (Inr None) (quiet_poll i # ps) st = Some (Inr report)"
  using quiet_step [OF assms(1,2)] assms(3) by auto

lemma quiet_run: "\<exists>report. observe quiet_texts quiet_options 0 (Inr None) quiet_polls = Some (Inr report)"
proof -
  have "[0..<70] = [0..<5] @ [5..<70]" using upt_add_eq_append [of 0 5 65] by (simp only: arith_simps)
  moreover have "[0..<5] = [0, 1, 2, 3, 4 :: nat]" by code_simp
  ultimately have p: "quiet_polls = quiet_poll 0 # quiet_poll 1 # quiet_poll 2 # quiet_poll 3 # quiet_poll 4 # map quiet_poll [5..<70]"
    by (simp only: quiet_polls_def list.map append.simps map_append)
  have last: "\<exists>report. observe_loop quiet_texts quiet_options 0 (Inr None) (quiet_poll 4 # ps) st = Some (Inr report)"
    if "quiet_state (Reading \<lparr>sd_messages = 0, sd_last_sequence = 0\<rparr> \<lparr>sd_messages = 0, sd_last_sequence = 0\<rparr> d) st" for st d ps
    using quiet_step [OF that quiet_turns(4) [OF that, of 4]]
    by (auto simp: observe_end_def tail_read_def tail_ends_whole_def quiet_state_def)
  show ?thesis
    unfolding observe_def p
  proof (rule quiet_go [OF _ quiet_turns(1)])
    show "quiet_state Producing (observing_begin quiet_options 0)"
      by (simp add: quiet_state_def observing_begin_def tail_new_def)
    then show "quiet_state Producing (observing_begin quiet_options 0)" .
    fix st1
    assume s1: "quiet_state (Settling 0 (0 * POLL + 4 * 10 ^ 9)) st1"
    show "\<exists>report. observe_loop quiet_texts quiet_options 0 (Inr None)
        (quiet_poll 1 # quiet_poll 2 # quiet_poll 3 # quiet_poll 4 # map quiet_poll [5..<70]) st1 = Some (Inr report)"
    proof (rule quiet_go [OF s1 quiet_turns(2) [OF s1]])
      fix st2
      assume "quiet_state (Settling (0 + 1) (0 * POLL + 4 * 10 ^ 9)) st2"
      then have s2: "quiet_state (Settling 1 (4 * 10 ^ 9)) st2" by simp
      show "\<exists>report. observe_loop quiet_texts quiet_options 0 (Inr None)
          (quiet_poll 2 # quiet_poll 3 # quiet_poll 4 # map quiet_poll [5..<70]) st2 = Some (Inr report)"
      proof (rule quiet_go [OF s2 quiet_turns(2) [OF s2]])
        fix st3
        assume "quiet_state (Settling (1 + 1) (4 * 10 ^ 9)) st3"
        then have s3: "quiet_state (Settling 2 (4 * 10 ^ 9)) st3" by (simp add: numeral_2_eq_2)
        show "\<exists>report. observe_loop quiet_texts quiet_options 0 (Inr None)
            (quiet_poll 3 # quiet_poll 4 # map quiet_poll [5..<70]) st3 = Some (Inr report)"
          by (rule quiet_go [OF s3 quiet_turns(3) [OF s3]]) (rule last)
      qed (simp_all add: POLL_def)
    qed (simp_all add: POLL_def)
  qed
qed

end
