(* ===== verification/Spec2Isabelle.thy ===== *)
theory Spec2Isabelle
  imports Path_Laws Condition_Laws Dag_Theorems Regex_Laws Builtin Examples Nats_Examples Redis_Server
    Lua_Returned Lua_Examples Otel Harness_Examples
begin

text \<open>
  A verification development of the Fusion pipeline: a worker process that reads records from a
  source, walks each one through a graph of stages and settles its delivery when every branch has
  ended. What follows models the Rust crates under \<open>src/crates/\<close>; names are the code's, with a
  prefix where several modules use the same one (\<open>path_parse\<close>, \<open>condition_parse\<close>, \<open>mem_set_nx\<close>).

  \<^bold>\<open>How the program works.\<close> A config names a source, nodes and sinks. \<open>Dag::from_config\<close> wires the nodes
  into a graph, rejects it unless data reaches every node and there is no cycle, and orders it.
  \<open>Pipeline::compile\<close> builds every node from the registry. A worker takes a message, resolves its
  metadata, decodes it, and walks the record down the graph: a stage forwards, routes, drops, fans
  out or fails; a sink writes. The walk collects the first failure; the message is acknowledged if
  there was none and otherwise nakked or dead-lettered for it. Stages keep what they remember in a
  shared state store under a prefix of their own. Every step is measured, and the spans of a failed,
  redelivered or sampled walk are kept as a trace.

  \<^bold>\<open>The theories.\<close>
    \<^item> \<open>Prelude\<close>: words, strings as UTF-8 bytes, numerals, splitting; shared lemmas on lists and results.
    \<^item> \<open>Closed_Sets\<close> (\<open>closed_set.rs\<close> and each of its uses), \<open>Hash\<close> (\<open>hash.rs\<close>), \<open>F64\<close> (doubles on their
      64 bits), \<open>Json\<close> (\<open>serde_json::Value\<close>, \<open>record.rs\<close>).
    \<^item> \<open>Path\<close>, \<open>Path_Laws\<close> (\<open>path.rs\<close>); \<open>Condition\<close>, \<open>Condition_Laws\<close> (\<open>condition.rs\<close>).
    \<^item> \<open>Config\<close> (\<open>config.rs\<close>, \<open>route.rs\<close>); \<open>Dag\<close>, \<open>Dag_Laws\<close>, \<open>Dag_Theorems\<close> (\<open>dag.rs\<close>).
    \<^item> \<open>Meta\<close> (\<open>meta.rs\<close>, \<open>record.rs\<close>), \<open>Metrics\<close>, \<open>Trace\<close>, \<open>Events\<close> (\<open>metrics.rs\<close>, \<open>trace.rs\<close>,
      \<open>events.rs\<close>, \<open>signals.rs\<close>, \<open>Failure\<close> of \<open>io.rs\<close>).
    \<^item> \<open>State_Store\<close> (\<open>state.rs\<close> and the store of \<open>memory.rs\<close>), \<open>Stage\<close> (\<open>stage.rs\<close>).
    \<^item> \<open>Engine\<close>, \<open>Engine_Laws\<close>, \<open>Engine_Theorems\<close> (\<open>engine.rs\<close>, \<open>pipeline.rs\<close>, \<open>registry.rs\<close>);
      \<open>Engine_Sinks\<close>: what a walk may do to the world the sinks write to.
    \<^item> \<open>Dragonfly\<close> (\<open>crates/state/src\<close>) and \<open>Redis_Server\<close>, a server that keeps its documentation.
    \<^item> The NATS crate (\<open>crates/nats/src\<close>): \<open>Nats_Subject\<close> (\<open>subject.rs\<close>), \<open>Nats_Headers\<close> and
      \<open>Nats_Header_Laws\<close> (\<open>headers.rs\<close>, \<open>codec.rs\<close>), \<open>Nats_Source\<close> (\<open>source.rs\<close>, \<open>sink.rs\<close>), \<open>Nats_Setup\<close>
      (\<open>config.rs\<close>, \<open>lib.rs\<close>), \<open>Nats_Laws\<close>, and \<open>Nats_Examples\<close> for the witnesses.
    \<^item> The Lua crate (\<open>crates/lua/src\<close>): \<open>Lua_Values\<close> (what is seen of the interpreter), \<open>Lua_Convert\<close>,
      \<open>Lua_Laws\<close>, \<open>Lua_Copy\<close>, \<open>Lua_Returned\<close> (\<open>convert.rs\<close> and \<open>Vm::run\<close>: values in, records out),
      \<open>Lua_Scan\<close> (\<open>scan.rs\<close>), \<open>Lua_Vm\<close>, \<open>Lua_Stage\<close>, \<open>Lua_Runs\<close> (\<open>vm.rs\<close>, \<open>lib.rs\<close>), \<open>Lua_Node\<close> (the
      stage's contract and \<open>default_registry\<close> of \<open>crates/pipeline\<close>), and \<open>Lua_Examples\<close>.
    \<^item> \<open>Regex_Facade\<close>, \<open>Regex_Laws\<close> (\<open>regex/src\<close>), \<open>Displays\<close> (the texts of errors).
    \<^item> The stages of \<open>stages/src\<close>: \<open>Stage_Regex\<close>, \<open>Key_Hash\<close>, \<open>Filter_Route\<close>, \<open>Dedupe\<close>, \<open>Sample\<close>,
      \<open>Edit\<close>, \<open>Extract_Redact\<close>, and \<open>Builtin\<close> (\<open>register_all\<close>).
    \<^item> The OpenTelemetry crate (\<open>crates/otel/src\<close>): \<open>Otel\<close>, what a measurement, an event, a kept trace and
      the readings of \<open>/proc\<close> become and which signals are on; \<open>Engine_Traces\<close>: how the spans of a walk hang
      together before they are exported.
    \<^item> The load-test harness (\<open>crates/harness/src\<close>): \<open>Harness_Expect\<close> (\<open>loghub.rs\<close>, \<open>expect.rs\<close>),
      \<open>Harness_Verdict\<close>, \<open>Harness_Laws\<close> (\<open>verdict.rs\<close>), \<open>Harness_Plan\<close> (\<open>plan.rs\<close>), \<open>Harness_Producer\<close>
      (\<open>cli.rs\<close>, \<open>bin/loghub_producer.rs\<close>), \<open>Harness_Verifier\<close>, \<open>Harness_Follow_Laws\<close> (\<open>follow.rs\<close>,
      \<open>bin/loghub_verifier.rs\<close>), and \<open>Harness_Examples\<close>, on the exact doubles of \<open>Doubles\<close>.
    \<^item> \<open>Examples\<close>: the pipeline, store and engines the witnesses run on.
    \<^item> This theory: the properties that are about the program as a whole, or need no further lemma.

  \<^bold>\<open>State and effects.\<close> A worker acts on a \<open>world\<close>: the store, whatever the sinks write to, the
  measurements, log events and traces so far, and the number of clock readings. An operation takes
  the world and returns it changed. An error is \<open>Inl\<close>; a panic, which the worker catches, is \<open>None\<close>.
  A machine integer is a word; a double is its bit pattern. The \<open>VMS\<close> of a worker thread travel beside
  its store (\<open>beside_vms\<close>), Lua tables are shared through a heap of them (\<open>lua_heap\<close>). The sizes
  \<open>limits.*_kib\<close> are naturals, so \<open>* 1024\<close> does not wrap in the model.

  \<^bold>\<open>Interfaces.\<close> The contracts between components are locales, each interpreted on the model's own
  definitions: \<open>closed_set\<close> (a complete list of values with pairwise different names), \<open>state_store\<close>
  (what a stage relies on: a value lasts for its time to live, a claim is granted once), interpreted
  on the in-memory store, which keeps the stricter \<open>exact_store\<close> that extends it; \<open>redis_server\<close> (what
  the server of the Dragonfly store documents), a \<open>sublocale\<close> of \<open>state_store\<close>; \<open>header_map\<close> (the
  message headers of the client library), interpreted on lists of header lines; \<open>lua_tables\<close> and
  \<open>lua_runtime\<close> (what Lua documents of its tables, and of how an error unwinds), interpreted on a
  library over association lists and on interpreters that play a plan; and \<open>stage_contract\<close>
  (a stage counts only on its own series, and what it hands on), which every built-in stage
  interprets and the engine's theorems start from.

  \<^bold>\<open>Fuel.\<close> Where the code loops or recurses in a way that is not structural, the model carries fuel,
  and it is proved that the fuel given is enough:
    \<^item> the walk of the engine takes one unit per node of the graph: a loaded graph is ordered, so no
      path is longer (\<open>Engine_Laws\<close>);
    \<^item> the condition parser takes six units per token and six more: between two tokens it passes at
      most the levels or, and, not, primary and comparison (\<open>Condition_Laws\<close>);
    \<^item> \<open>replace_all\<close> takes two units per byte and four more: an empty match moves on by a byte, a
      match that is not empty by its length (\<open>Regex_Laws\<close>);
    \<^item> a run of a script takes \<open>run_fuel\<close> units, the ticks of the instruction hook in the budget times the
      calls that fit between two of them, and one for each protected call to unwind (\<open>Lua_Runs\<close>);
      \<open>record:copy()\<close> takes one per table of the heap, since each is copied once (\<open>Lua_Copy\<close>);
    \<^item> the reachability loop and the depth-first search of \<open>Dag\<close> need no fuel: they end by the nodes and
      edges not yet visited; a takeover in \<open>Dedupe\<close> is tried \<open>TAKEOVER_ATTEMPTS\<close> times, as in the code.

  \<^bold>\<open>Parameters.\<close> What is not under \<open>src/\<close> is an argument: deserializing a node's parameters (serde), the
  texts of \<open>{:?}\<close>, of a double and of JSON (\<open>texts\<close>), the \<open>regex\<close> crate and PCRE2 with the two
  load-time checks built on their syntax trees (\<open>loader\<close>), SHA-256, the worker's clock, the sinks, the
  clients of NATS and of the Redis protocol (\<open>jetstream_ops\<close>, \<open>redis_client\<close>), and the Lua interpreter
  (\<open>lua_lib\<close>, \<open>interpreter\<close>), which runs a script up to the next callback of the stage. The OpenTelemetry
  SDK is the list of what is handed to its processors; environment variables, the builders of its
  exporters and the files of \<open>/proc\<close> are arguments. The harness is over the lines and rows of its data
  files, the instants of sending and the outcomes of publishing, and what each poll of a run finds.

  \<^bold>\<open>What the lemmas show.\<close> \<open>Engine_Theorems\<close>: a message always settles, it is acknowledged exactly when no
  branch failed, every record handed to a node is counted out, dropped or errored there, and what
  the trace keeps. \<open>Dag_Theorems\<close>: a loaded graph is the config's, ordered, reachable and free of
  cycles, and a reported cycle is one. \<open>Condition_Laws\<close>: the parser accepts the grammar of the module
  comment and nothing else, and evaluation is the truth value. \<open>Path_Laws\<close>: reads after writes and
  removals, frames, and the print-parse round trip. \<open>Regex_Laws\<close>: \<open>replace_all\<close> splices the matches
  in, and what never loads. \<open>State_Store\<close>, \<open>Dedupe\<close>, \<open>Sample\<close>: the store keeps its contract, a window
  is claimed once, one in \<open>n\<close> is exact. \<open>Dragonfly\<close>: the store over the Redis protocol keeps the same contract. \<open>Nats_Laws\<close>,
  \<open>Nats_Header_Laws\<close>: a message is settled exactly once, acknowledged only when its walk had no
  failure, given up only when its dead letter was stored, and metadata survives the headers.
  \<open>Lua_Node\<close>, \<open>Lua_Runs\<close>: a script cannot outlive its budget by catching errors, unless a to-be-closed
  variable replaces the error; \<open>Lua_Laws\<close>, \<open>Lua_Copy\<close>: a record, or a copy of it, survives the script.
  \<open>Edit\<close>, \<open>Extract_Redact\<close>: what an op moves, and that nothing is written unless everything was read.
  \<open>Engine_Traces\<close>, \<open>Otel\<close>: an exported trace is a tree under the delivery's span, and every measurement
  reaches the instrument of its name. \<open>Harness_Plan\<close>: a duplicate follows its original closely, a line
  comes back only after all others; \<open>Harness_Laws\<close>: the verdict counts everything once and passes exactly
  when nothing is wrong; \<open>Harness_Follow_Laws\<close>: a run is judged when it ended, on all it produced.

  \<^bold>\<open>Not modelled.\<close> Threads, the bounded channel and joining the workers (a worker is run over a list of
  messages); the source and test doubles of \<open>memory.rs\<close>; the lint and the canary, which walk syntax
  trees of a third-party crate; FFI to PCRE2 (compiling a pattern, its match data); lines printed to
  stderr; the sandbox of the Lua interpreter (which globals and libraries it starts with), and functions
  of its library that do not return (the hook counts instructions only); the runtime, shutdown and
  cached connection of the NATS crate; the SDK of OpenTelemetry (batching, the wire, its threads); process
  start-up and exit; in the harness the tasks that read the streams, the exporter thread of its gauges,
  connecting, and writing its files.
\<close>

section \<open>Paths\<close>

text \<open>C28: a write is read back: what was written at a path is there, whatever the record was.\<close>

theorem path_write_read: "wpath_read p (wpath_write p r v) = field_from_json v"
  by (simp add: wpath_read_def wpath_write_def read_at_write_at field_of_def)

text \<open>C29: a write leaves alone every path that branches off inside an object, or inside a list that has
  the position written to.\<close>

theorem path_write_frame:
  assumes "read_at r c = Some w" "stays w a" "a \<noteq> b" "segments p = c @ a # x" "segments q = c @ b # y"
  shows "wpath_read q (wpath_write p r v) = wpath_read q r"
  unfolding wpath_read_def wpath_write_def assms(4,5) read_at_write_at_other [OF assms(1-3)] ..

theorem path_write_frame_witness:
  "wpath_read (WritePath [''a'', ''c'']) (wpath_write (WritePath [''a'', ''b''])
      (JObj [(''a'', JObj [(''b'', JBool True), (''c'', JStr ''kept'')])]) JNull)
   = wpath_read (WritePath [''a'', ''c'']) (JObj [(''a'', JObj [(''b'', JBool True), (''c'', JStr ''kept'')])])"
  by (rule path_write_frame [where c = "[''a'']" and
        w = "JObj [(''b'', JBool True), (''c'', JStr ''kept'')]" and a = "''b''" and b = "''c''" and x = "[]" and y = "[]"])
    (simp_all add: child_at_def stays_def list_slot_def)

text \<open>A removal answers what was at the path; when nothing was there, the record is unchanged.\<close>

lemma path_remove:
  assumes "wf_json r"
  shows "fst (wpath_remove p r) = read_at r (segments p) \<and>
    (read_at r (segments p) = None \<longrightarrow> snd (wpath_remove p r) = r)"
  using assms by (simp add: wpath_remove_def remove_at_fst remove_at_absent)

lemma path_remove_witness:
  "fst (wpath_remove (WritePath [''a'']) (JObj [])) = None \<and>
   snd (wpath_remove (WritePath [''a'']) (JObj [])) = JObj []"
  using path_remove [of "JObj []" "WritePath [''a'']"] by (simp add: child_at_def)

text \<open>A record that is a well-formed value (no object has a key twice) stays one under writes of
  well-formed values and under removals.\<close>

lemma path_keeps_records:
  assumes "wf_json r" "wf_json v"
  shows "wf_json (wpath_write p r v) \<and> wf_json (snd (wpath_remove p r))"
  using assms by (simp add: wpath_write_def wpath_remove_def wf_write_at wf_remove_at)

lemma path_keeps_records_witness:
  "wf_json (wpath_write (WritePath [''a'', ''b'']) (JObj [(''a'', JNull)]) (JBool True))"
  using path_keeps_records [of "JObj [(''a'', JNull)]" "JBool True" "WritePath [''a'', ''b'']"]
  by (simp add: wf_obj_def)

text \<open>C27: what parses prints back to a text that parses to the same path, quoting included.\<close>

theorem path_round_trip:
  assumes "path_parse text = Inr p"
  shows "path_parse (path_display p) = Inr p"
  using path_parse_display [OF path_parse_wf [OF assms]] .

theorem path_round_trip_witness:
  "path_parse (path_display (RecordPath [''a'', ''b c''])) = Inr (RecordPath [''a'', ''b c''])"
proof -
  have "path_parse ([CHR ''a'', CHR ''.'', DQ] @ ''b c'' @ [DQ]) = Inr (RecordPath [''a'', ''b c''])" by code_simp
  from path_round_trip [OF this] show ?thesis .
qed

section \<open>Conditions\<close>

text \<open>C13: parsing always ends with an answer, and accepts exactly the token sequences of the grammar,
  with the tree the grammar gives.\<close>

theorem condition_parse_exact:
  "condition_parse expr \<noteq> None \<and>
   (condition_parse expr = Some (Inr c) \<longleftrightarrow> (\<exists>ts. lex expr = Inr ts \<and> g_or c ts))"
  using parse_tokens_ends by (auto simp: condition_parse_def parse_tokens_grammar split: sum.splits)

text \<open>C14: when the match function answers for each pattern of the condition, evaluation with its
  short circuits gives the truth value of the condition.\<close>

theorem condition_evaluates:
  assumes "\<And>p text st. p \<in> set (regex_patterns c) \<Longrightarrow> fst (regex p text st) = Inr (rx p text)"
  shows "fst (matches_with regex r m c st) = Inr (holds rx r m c)"
  by (rule matches_with_holds) (rule assms)

theorem condition_evaluates_witness:
  "fst (matches_with (\<lambda>p text st. (Inr (p = text) :: unit + bool, st)) (JObj [(''a'', JStr ''x'')]) (example_meta 1 1)
      (Compare (RecordPath [''a'']) CMatch (literal.LStr ''x'')) ()) = Inr True"
  by (subst condition_evaluates [where rx = "(=)"]) (simp_all add: child_at_def field_of_def)

text \<open>Evaluation asks for patterns in the order they are written, each at most once per place.\<close>

theorem condition_asks_in_order:
  "\<exists>asked. snd (snd (matches_with (logging regex) r m c (st, log))) = log @ asked
     \<and> subseq asked (regex_patterns c)"
  by (rule matches_with_asked)

section \<open>Ids, names and hashes\<close>

text \<open>The finaliser is a permutation of the 64-bit words, so distinct keys stay distinct.\<close>

theorem mix_permutes: "unmix (mix x) = x \<and> mix (unmix x) = x"
  by (simp add: unmix_mix mix_unmix)

text \<open>Within one record's trace two spans share an id only when they are the same visit of the
  same delivery, for deliveries below \<open>2 ^ 32\<close> and but for the id that stands for zero.\<close>

theorem span_ids_distinct:
  assumes "unat d < 2 ^ 32" "unat d' < 2 ^ 32" "key_span_id k d v \<noteq> 1"
  shows "key_span_id k d v = key_span_id k d' v' \<longleftrightarrow> d = d' \<and> v = v'"
  by (rule span_id_inject) (rule assms)+

theorem span_ids_distinct_witness:
  "key_span_id \<lparr>tk_key = 5, tk_record = 7\<rparr> 1 1 \<noteq> key_span_id \<lparr>tk_key = 5, tk_record = 7\<rparr> 1 2"
proof -
  have "key_span_id \<lparr>tk_key = 5, tk_record = 7\<rparr> 1 1 \<noteq> 1" by code_simp
  from span_ids_distinct [OF _ _ this, of 1 2] show ?thesis by simp
qed

section \<open>Metrics\<close>

text \<open>A counter of the in-memory recorder is what was counted under its labels, modulo \<open>2 ^ 64\<close>,
  in whatever order the workers measured.\<close>

lemma counters_order_free:
  assumes "mset ms = mset ns"
  shows "counter c ls (record_all ms obs) = counter c ls obs + counted c ls ns"
proof -
  have "counted c ls ms = (\<Sum>x \<leftarrow> ms. counted c ls [x])" for ms
  proof (induction ms)
    case (Cons a ms)
    with counted_append [of c ls "[a]" ms] show ?case by simp
  qed simp
  then have "counted c ls ms = counted c ls ns"
    using assms by (metis mset_map sum_mset_sum_list)
  then show ?thesis by (simp add: counter_record_all)
qed

lemma counters_order_free_witness:
  "let l = labels_new ''acme'' ''out'' in
   counter RecordsOut (label_pairs l) (record_all [Count RecordsIn l 1, Count RecordsOut l 2] observed_new) = 2"
  using counters_order_free [of "[Count RecordsIn l 1, Count RecordsOut l 2]"
      "[Count RecordsOut l 2, Count RecordsIn l 1]" RecordsOut "label_pairs l" observed_new for l]
  unfolding Let_def by (simp add: counter_def observed_new_def)

section \<open>The graph\<close>

text \<open>C9: a loaded graph holds each node of the config once, in an order in which every edge points
  forward, so a walk over it cannot loop; what the source feeds is a node.\<close>

theorem graph_order:
  assumes "dag_from_config fv cfg = Inr d"
  shows "mset (dag_nodes d) = mset (cfg_nodes cfg) \<and> length (dag_edges d) = length (dag_nodes d)
    \<and> (\<forall>i < length (dag_nodes d). \<forall>c \<in> set (targets (dag_edges d) i). i < c \<and> c < length (dag_nodes d))
    \<and> set (dag_sources d) \<subseteq> {..<length (dag_nodes d)}"
  by (rule dag_topological) (rule assms)

theorem graph_order_witness: "mset (dag_nodes example_dag) = mset (cfg_nodes example_config)"
  using graph_order [OF example_dag_loads] by blast

theorem dag_reachable_witness: "2 \<in> (succ_rel (dag_edges example_dag))\<^sup>* `` set (dag_sources example_dag)"
  using dag_reachable [OF example_dag_loads, of 2] by (simp add: example_dag_size)

text \<open>C11: the edges out of a route carry exactly the labels its rules and default declare, each with a
  consumer; no other node has a labelled edge.\<close>

theorem graph_route_labels:
  assumes "dag_from_config fv cfg = Inr d" "i < length (dag_nodes d)"
  shows "if node_kind (dag_nodes d ! i) = ROUTE_KIND
    then \<exists>spec. route_spec_from_node fv (dag_nodes d ! i) = Inr spec
           \<and> set (map edge_label (dag_edges d ! i)) = Some ` set (route_labels spec)
    else set (map edge_label (dag_edges d ! i)) \<subseteq> {None}"
  by (rule dag_route_labels) (rule assms)+

theorem graph_route_labels_witness: "set (map edge_label (dag_edges example_dag ! 0)) \<subseteq> {None}"
proof -
  have "node_kind (dag_nodes example_dag ! 0) \<noteq> ROUTE_KIND" by code_simp
  with graph_route_labels [OF example_dag_loads, of 0] show ?thesis by (simp add: example_dag_size)
qed

lemma dag_acyclic_witness: "acyclic (feeds example_config)"
  by (rule dag_acyclic [OF example_dag_loads]) code_simp

theorem dag_cycle_sound_witness:
  "(''a'', ''a'') \<in> (feeds \<lparr>cfg_name = ''c'', cfg_workers = None, cfg_source = None, cfg_nodes =
      [\<lparr>node_id = ''a'', node_kind = ''filter'', node_from = [''source'', ''b''], node_params = YNull\<rparr>,
       \<lparr>node_id = ''b'', node_kind = ''filter'', node_from = [''a''], node_params = YNull\<rparr>,
       \<lparr>node_id = ''out'', node_kind = ''sink.x'', node_from = [''b''], node_params = YNull\<rparr>]\<rparr>)\<^sup>+"
  (is "_ \<in> (feeds ?cfg)\<^sup>+")
proof (rule dag_cycle_sound)
  have "(case dag_from_config example_routes ?cfg of Inl (Cycle x) \<Rightarrow> x = ''a'' | _ \<Rightarrow> False)" by code_simp
  then show "dag_from_config example_routes ?cfg = Inl (Cycle ''a'')"
    by (simp split: sum.splits config_error.splits)
qed

text \<open>C22: two nodes of loaded pipelines share a key of the state store only when they are the same node of
  pipelines of one name, for the same tenant: no tenant, node or key text can reach another's keys.\<close>

theorem state_keys_separate:
  assumes "config_from_raw raw = Inr cfg" "config_from_raw raw' = Inr cfg'"
    and "x \<in> set (cfg_nodes cfg)" "y \<in> set (cfg_nodes cfg')"
  shows "state_key (state_handle_new (cfg_name cfg) t (node_id x) e d) k =
      state_key (state_handle_new (cfg_name cfg') t' (node_id y) e' d') k'
    \<longleftrightarrow> cfg_name cfg = cfg_name cfg' \<and> t = t' \<and> node_id x = node_id y \<and> k = k'"
proof (rule state_key_inject)
  show "CHR '':'' \<notin> set (cfg_name cfg)" "CHR '':'' \<notin> set (cfg_name cfg')"
    using assms(1,2) by (auto simp: config_from_raw_def Let_def map_sum_Inr_iff split: if_splits)
  show "CHR '':'' \<notin> set (node_id x)" "CHR '':'' \<notin> set (node_id y)"
    using assms by (auto simp: config_from_raw_def Let_def map_sum_Inr_iff split: if_splits dest!: load_nodes_Inr)
qed

theorem state_keys_separate_witness:
  "state_key (state_handle_new ''logs'' ''a:thin'' ''thin'' None True) ''k'' \<noteq>
   state_key (state_handle_new ''logs'' ''a'' ''thin'' None True) ''thin:k''"
proof -
  have "\<exists>x \<in> set (cfg_nodes example_config). node_id x = ''thin''" "cfg_name example_config = ''logs''"
    by (simp_all add: example_config_def)
  with state_keys_separate [OF example_config_loads example_config_loads] show ?thesis by fastforce
qed

section \<open>The state store\<close>

text \<open>C18: the in-memory store keeps the contract of a state store, over what it holds unexpired.\<close>

theorem memory_store_keeps_contract: "exact_store memory_ops mem_view (\<lambda>d. \<not> failing d)"
  by (rule mem.exact_store_axioms)

text \<open>A claim holds for its time to live: until then a second claim is told the first value, and
  from then on it wins.\<close>

lemma memory_claim_lasts:
  assumes "mem_set_nx k v ttl s = (Inr None, s1)" "0 < ttl'"
  shows "fst (mem_set_nx k w ttl' (mem_advance t s1)) = Inr (if t < ttl then Some v else None)"
proof -
  obtain s' where up: "\<not> failing s" and s1: "s1 = sd_write k v ttl s'" "failing s' = failing s"
    using assms by (auto simp: mem_set_nx_def checked_def split: if_splits prod.splits option.splits dest!: live_view)
  then have "\<not> failing (mem_advance t s1)" by (simp add: mem_advance_def)
  from mem.set_nx_up [OF this assms(2)] have "fst (mem_set_nx k w ttl' (mem_advance t s1)) = Inr (mem_view (mem_advance t s1) k)"
    by (metis memory_ops_def prod.collapse store_ops.select_convs(1))
  then show ?thesis by (simp add: s1 mem_view_write_advance)
qed

lemma memory_claim_lasts_witness:
  "fst (mem_set_nx ''k'' ''w'' 5 (mem_advance 4 (snd (mem_set_nx ''k'' ''v'' 5 state_data_new)))) = Inr (Some ''v'')"
  by (subst memory_claim_lasts [where s = state_data_new and v = "''v''" and ttl = 5])
    (simp_all add: mem_set_nx_def checked_def state_data_new_def live_def)



section \<open>Patterns\<close>





text \<open>A pattern that loads is within the length limit and carries the limit of its input; under the
  reject policy it has neither a lint finding nor a canary trip.\<close>

lemma loaded_pattern_within_policy:
  assumes "regex_with_options ld pattern opts = Inr re"
  shows "length pattern \<le> li_max_pattern (op_limits opts)
    \<and> choose_inner ld pattern opts = Inr (rx_inner re) \<and> rx_pattern re = pattern
    \<and> rx_input_bytes re = li_input_bytes (op_limits opts)
    \<and> (op_on_risk opts = RedosReject \<longrightarrow> rx_warnings re = [] \<and> rx_canary re = None)"
  by (rule regex_with_options_Inr) (rule assms)

lemma loaded_pattern_within_policy_witness:
  "\<exists>re. regex_with_options example_loader ''a'' options_checked = Inr re \<and> rx_warnings re = []"
proof -
  from example_loader_loads obtain re where
    re: "regex_with_options example_loader ''a'' options_checked = Inr re" ..
  with loaded_pattern_within_policy [OF re] show ?thesis by (auto simp: options_checked_def options_unchecked_def)
qed

section \<open>Stages\<close>

text \<open>A compiled condition has a compiled pattern for each pattern it asks for, under the options of
  its node, so its look-up never fails.\<close>

theorem condition_patterns_compiled:
  assumes "compiled_condition tx ld node src what params = Inr co" "p \<in> set (regex_patterns (co_condition co))"
  shows "\<exists>re. map_of (co_patterns co) p = Some re \<and> regex_with_options ld p (regex_options params) = Inr re"
  by (rule compiled_condition_found) (rule assms)+

theorem condition_patterns_compiled_witness:
  "\<exists>(co :: compiled) re. co_condition co = Compare (RecordPath [''a'']) CMatch (literal.LStr ''b'') \<and> map_of (co_patterns co) ''b'' = Some re"
proof -
  let ?go = "compiled_condition example_texts example_loader (hd (cfg_nodes example_config)) ''a =~ 'b' ''
    ''condition'' example_regex_params"
  have "condition_parse ''a =~ 'b' '' = Some (Inr (Compare (RecordPath [''a'']) CMatch (literal.LStr ''b'')))" by code_simp
  moreover from example_pattern_compiles obtain re where "compile_pattern example_texts example_loader
      example_regex_params (hd (cfg_nodes example_config)) ''condition'' ''b'' = Inr re" by blast
  ultimately obtain co where co: "?go = Inr co" "co_condition co = Compare (RecordPath [''a'']) CMatch (literal.LStr ''b'')"
    by (simp add: compiled_condition_def)
  then obtain re' where "map_of (co_patterns co) ''b'' = Some re'"
    using condition_patterns_compiled [OF co(1), of "''b''"] by auto
  with co(2) show ?thesis by blast
qed

text \<open>With one condition, \<open>keep\<close> and \<open>drop\<close> part the records: what one passes on the other drops, and a
  match failure is the same for both.\<close>

theorem filter_actions_part:
  "(filter_process \<lparr>fs_condition = co, fs_action = Keep\<rparr> r ctx = Pass r) =
     (filter_process \<lparr>fs_condition = co, fs_action = DropMatching\<rparr> r ctx = Drop DropFilter) \<and>
   (compiled_matches co r (cx_meta ctx) = Inl e \<longrightarrow>
      filter_process \<lparr>fs_condition = co, fs_action = a\<rparr> r ctx = match_failure (cx_node ctx) e)"
  by (auto simp: filter_process_iff split: sum.splits)

theorem filter_actions_part_witness:
  "filter_process \<lparr>fs_condition = \<lparr>co_condition = Compare (RecordPath [''a'']) CMatch (literal.LStr ''b''),
       co_patterns = [(''b'', example_regex\<lparr>rx_input_bytes := 0\<rparr>)]\<rparr>, fs_action = Keep\<rparr>
     (JObj [(''a'', JStr ''b'')]) (example_ctx 1 1) = match_failure ''thin'' (InputTooLarge 1 0)"
  (is "filter_process \<lparr>fs_condition = ?co, fs_action = _\<rparr> ?r ?ctx = _")
proof -
  have "compiled_matches ?co ?r (cx_meta ?ctx) = Inl (InputTooLarge 1 0)"
    by (simp add: compiled_matches_def run_pattern_def is_match_def check_input_def child_at_def field_of_def
        example_regex_def)
  moreover have "cx_node ?ctx = ''thin''" by (simp add: example_ctx_def)
  ultimately show ?thesis using filter_actions_part [of ?co ?r ?ctx "InputTooLarge 1 0" Keep] by simp
qed

text \<open>A route sends a record only to labels its node declares, and unchanged.\<close>

lemma route_sends_declared:
  assumes "route_from_node tx ld fv rv node = Inr rs" "route_process rs r ctx = Routed label r'"
  shows "r' = r \<and> (\<exists>spec. route_spec_from_node fv node = Inr spec \<and> label \<in> set (route_labels spec))"
  using route_process_declared [OF assms] route_loop_Routed [OF assms(2) [unfolded route_process_def]] by blast

lemma route_sends_declared_witness:
  "\<exists>rs spec. route_process rs JNull (example_ctx 1 1) = Routed ''rest'' JNull
     \<and> route_spec_from_node example_routes (cfg_nodes example_config ! 1) = Inr spec \<and> ''rest'' \<in> set (route_labels spec)"
proof -
  obtain rs where rs: "route_from_node example_texts example_loader example_routes (\<lambda>_. Inr example_regex_params)
      (cfg_nodes example_config ! 1) = Inr rs" and out: "route_process rs JNull (example_ctx 1 1) = Routed ''rest'' JNull"
    using example_route_runs by blast
  from route_sends_declared [OF rs out] out show ?thesis by blast
qed

text \<open>A window is read back from its number and unit.\<close>

theorem window_round_trip:
  assumes "unit_millis u = Some k" "unat n * k < 2 ^ 64" "1 \<le> unat n"
  shows "parse_window (show_u64 n @ u) = Inr (unat n * k * 1000000)"
  by (rule parse_window_written) (rule assms)+

theorem window_round_trip_witness: "parse_window ''90s'' = Inr 90000000000"
proof -
  have "show_u64 90 @ ''s'' = ''90s''" by code_simp
  with window_round_trip [of "''s''" 1000 90] show ?thesis by (simp add: unit_millis_def)
qed

text \<open>C16: dedupe drops a record only against a holder the store answered with: another record with the
  same key, no younger, within the window.\<close>

theorem dedupe_drops_only_repeats:
  assumes "dedupe_process tx de env r ctx w = (Drop reason, w')"
  shows "reason = DropDedupe \<and>
    (\<exists>v h. answered (en_ops env) (state_key (cx_state ctx) (dedupe_state_key tx de r (cx_meta ctx)))
        (holder_bytes (incoming_of (cx_meta ctx))) (de_window de) v \<and> holder_parse v = Some h \<and>
      ho_id h \<noteq> record_id (cx_meta ctx) \<and> ho_time h \<le> unix_nanos (ingestion_time (cx_meta ctx)) \<and>
      unat (unix_nanos (ingestion_time (cx_meta ctx))) - unat (ho_time h) < de_window de)"
proof -
  from dedupe_Drop [OF assms] obtain v where
    v: "reason = DropDedupe" "answered (en_ops env) (state_key (cx_state ctx) (dedupe_state_key tx de r (cx_meta ctx)))
        (holder_bytes (incoming_of (cx_meta ctx))) (de_window de) v"
      "against_value (incoming_of (cx_meta ctx)) v (de_window de) = Repeat" by blast
  from v(3) obtain h where "holder_parse v = Some h" "against (incoming_of (cx_meta ctx)) h (de_window de) = Repeat"
    by (auto simp: against_value_def split: option.splits)
  with v(1,2) show ?thesis by (auto simp: against_Repeat incoming_of_def)
qed

theorem dedupe_drops_only_repeats_witness:
  "\<exists>key v h. answered memory_ops key (holder_bytes (incoming_of (example_meta 2 20))) 1000 v
     \<and> holder_parse v = Some h \<and> ho_id h \<noteq> 2"
proof -
  obtain w w' where "dedupe_process example_texts example_dedupe example_env JNull (example_ctx 2 20) w = (Drop DropDedupe, w')"
    using example_repeat by blast
  from dedupe_drops_only_repeats [OF this] show ?thesis
    by (auto simp: example_dedupe_def example_meta_def)
qed



text \<open>C17: \<open>every_nth\<close> keeps, of the records of one node and tenant, exactly those whose position is a
  multiple of \<open>n\<close>, counting on from what the store holds.\<close>

theorem every_nth_exact:
  assumes "state_store ops view up" "en_ops env = ops" "up (w_store w)" "sh_declared (cx_state ctx)"
    and "counts view ctx w c" "0 \<le> c" "c + int (length rs) < 2 ^ 63"
    and "sample_run tx (EveryNth n policy) env ctx rs w = (outs, w')"
  shows "outs = map (\<lambda>(i, r). sample_verdict ((c + int i) mod n = 0) r) (enumerate 0 rs)"
  by (rule state_store.sample_run_counts [OF assms(1)]) (rule assms)+

theorem every_nth_exact_witness:
  "fst (sample_run example_texts (EveryNth 2 PolicyNak) example_env (example_ctx 1 1) [JNull, JNull, JNull] example_port)
   = [Pass JNull, Drop DropSample, Pass JNull]"
  (is "fst ?run = _")
  using every_nth_exact [OF mem.state_store_axioms, of example_env example_port "example_ctx 1 1" 0 "[JNull, JNull, JNull]" example_texts 2
      PolicyNak "fst ?run" "snd ?run"]
  by (simp add: counts_def sample_verdict_def)

text \<open>\<open>percent: 100\<close> keeps every record, in both sampling modes that take it.\<close>

theorem percent_hundred_keeps_all:
  assumes "parse_percent tx node (Some (f64_of_int 100)) = Inr share"
  shows "fst (sample_process tx (RandomMode share salt) env r ctx w) = Pass r
    \<and> fst (sample_process tx (Consistent share paths) env r ctx w) = Pass r"
proof -
  from parse_percent_Inr [OF assms] have "share = - 1" using share_of_all by auto
  then show ?thesis by (simp add: sample_process_def sample_verdict_def share_keeps_def)
qed

theorem percent_hundred_keeps_all_witness:
  "fst (sample_process example_texts (RandomMode (- 1) 3) example_env JNull (example_ctx 1 1) example_port) = Pass JNull"
proof -
  have "f64_of_int 0 = 0" by (simp add: f64_of_int_def f64_make_def round_bits_zero)
  then have "parse_percent example_texts (hd (cfg_nodes example_config)) (Some (f64_of_int 100)) = Inr (- 1)"
    using share_of_all by (simp add: parse_percent_def f64_partial_cmp_def f64_hundred f64_nan_def f64_exp_def
        f64_man_def f64_key_def f64_neg_def f64_mag_def)
  from percent_hundred_keeps_all [OF this] show ?thesis by blast
qed

section \<open>The engine\<close>

text \<open>C8: a pipeline compiled from a config with the registry of the binary, whatever sinks are
  registered, is one the engine can run: its stages, the \<open>lua\<close> nodes included, count on no series of
  the engine, and each label a route can hand out has a consumer.\<close>

theorem default_pipeline_ok:
  assumes "pipeline_compile (dz_route dz) cfg
      (fold (\<lambda>(kind, factory). register_sink kind factory) sinks (default_registry tx ld sha dz ls)) = Inr pl"
  shows "pipeline_ok pl"
proof (rule pipeline_compile_ok [OF _ assms])
  have sinks: "registry_ok fv (fold (\<lambda>(kind, factory). register_sink kind factory) sinks g) = registry_ok fv g" for fv g
    by (induction sinks arbitrary: g) (simp_all split: prod.split)
  show "registry_ok (dz_route dz)
      (fold (\<lambda>(kind, factory). register_sink kind factory) sinks (default_registry tx ld sha dz ls))"
    unfolding sinks by (rule default_registry_ok)
qed

theorem default_pipeline_ok_witness: "pipeline_ok lua_pipeline"
proof -
  have dz: "dz_route example_deserializers = example_routes" by (simp add: example_deserializers_def)
  show ?thesis by (rule default_pipeline_ok [OF lua_pipeline_compiles [folded dz, unfolded lua_registry_def]])
qed


theorem engine_acks_iff_no_failure_witness:
  "\<exists>outcome spans' w' evs. handle 4 example_env example_pipeline example_envelope
      (trace_buffer_new False 0 0) example_world = Some (outcome, spans', w') \<and>
     w_events w' = w_events example_world @ evs \<and>
     outcome = outcome_of (map_option failure_of (hd_opt (stage_errors evs)))"
proof -
  obtain outcome spans' w' where h: "handle 4 example_env example_pipeline example_envelope
      (trace_buffer_new False 0 0) example_world = Some (outcome, spans', w')" using example_handled by blast
  from engine_acks_iff_no_failure [OF example_pipeline_ok h] example_accepted h show ?thesis by auto
qed


theorem engine_keeps_traces_witness:
  "\<exists>outcome spans' w'. handle 4 example_env example_pipeline example_envelope
      (trace_buffer_new False 0 0) example_world = Some (outcome, spans', w') \<and> w_traces w' = []"
proof -
  obtain outcome spans' w' where h: "handle 4 example_env example_pipeline example_envelope
      (trace_buffer_new False 0 0) example_world = Some (outcome, spans', w')" using example_handled by blast
  from engine_keeps_traces [OF example_pipeline_ok h] have "w_traces w' = []"
    by (auto simp: example_env_def signals_new_def example_world_def split: sum.splits)
  with h show ?thesis by blast
qed

section \<open>Edits and redaction\<close>

text \<open>C32: after a \<open>rename\<close> or \<open>copy\<close> that applied, the target reads as the source read before.\<close>

theorem edit_moves_values:
  assumes "step_apply tx sha op r m = (None, r')"
  shows "case op of
      StepRename source to \<Rightarrow> wpath_read to r' = wpath_read (la_path source) r
    | StepCopy source to \<Rightarrow> wpath_read to r' = path_read (la_path source) r m
    | _ \<Rightarrow> True"
  using assms step_rename_moves [of tx sha _ _ r m r'] step_copy_copies [of tx sha _ _ r m r']
  by (cases op) (auto simp del: step_apply.simps)

theorem edit_moves_values_witness:
  "wpath_read (WritePath [''b'']) (snd (step_apply example_texts (\<lambda>s. s)
      (StepRename (labelled_write (WritePath [''a''])) (WritePath [''b''])) (JObj [(''a'', JBool True)]) (example_meta 1 1)))
   = FBool True"
  using edit_moves_values [of example_texts "\<lambda>s. s" "StepRename (labelled_write (WritePath [''a''])) (WritePath [''b''])"
      "JObj [(''a'', JBool True)]" "example_meta 1 1"]
  by (simp add: labelled_write_def wpath_read_def field_of_def child_at_def)

text \<open>A run of ops, each that cannot apply leaving the record alone, counts each of those once under
  its path and cause; under \<open>drop\<close> the first of them drops the record, else the record passes
  as the ops left it.\<close>

lemma edit_runs_ops:
  "edit_process tx sha ed r ctx w =
     (case edit_result tx sha (ed_steps ed) r (cx_meta ctx) of (us, r') \<Rightarrow>
        if ed_on_unapplied ed = UnappliedDrop \<and> us \<noteq> []
        then (Drop drop_reason.EditUnapplied, measure (unapplied_measures ctx [hd us]) w)
        else (Pass r', measure (unapplied_measures ctx us) w))"
  by (simp add: edit_process_def edit_loop_result)





section \<open>NATS\<close>



text \<open>C5: a message is acknowledged exactly when it is not a log, or it decoded, has a record id and no
  branch of its walk failed; it is terminated only on its final delivery, after a dead letter of it
  got its \<open>PubAck\<close>. Every other message is nakked.\<close>

theorem nats_acks_only_done:
  assumes "pipeline_ok pl" "settles_nothing pl" "nats_serve fuel env pl src wire spans w = Some (spans', w')"
  shows "\<exists>x evs. lk_sent (w_sinks w') = lk_sent (w_sinks w) @ [x] \<and> w_events w' = w_events w @ evs \<and>
    (x = SentAck AckYes \<longleftrightarrow> message_done src wire evs) \<and>
    (x = SentAck AckYes \<or> (\<exists>delay. x = SentAck (AckNak delay)) \<or>
     (\<exists>po f. wire_position wire = Some po \<and> is_final_delivery (po_delivered po) (dz_limit (ns_dead src)) \<and>
        x = terminated (wire_delivery src wire) f \<and>
        letter_stored (ns_dead src) (wire_delivery src wire) po f (lk_jetstream (w_sinks w'))))"
proof -
  obtain x evs where x: "lk_sent (w_sinks w') = lk_sent (w_sinks w) @ [x]" "w_events w' = w_events w @ evs"
    "if message_done src wire evs then x = SentAck AckYes
     else \<exists>f. failure_settled (ns_dead src) (wire_delivery src wire) f x (lk_jetstream (w_sinks w'))"
    using nats_serve_settled [OF assms] by blast
  then show ?thesis
    by (intro exI [of _ x] exI [of _ evs])
      (auto dest: failure_settled_not_acked simp: failure_settled_cases split: if_splits)
qed

theorem nats_acks_only_done_witness:
  "\<exists>(w' :: (state_data, stored) nats_world) x evs. lk_sent (w_sinks w') = [x] \<and> (x = SentAck AckYes \<longleftrightarrow> message_done example_source example_wire evs)"
proof -
  obtain spans' w' where "nats_serve 1 example_env example_nats_pipeline example_source example_wire
     (trace_buffer_new False 0 0) example_nats_world = Some (spans', w')" using example_serves by blast
  from nats_acks_only_done [OF example_nats_pipeline_ok example_nats_settles_nothing this] obtain x evs where
    "lk_sent (w_sinks w') = lk_sent (w_sinks example_nats_world) @ [x]"
    "x = SentAck AckYes \<longleftrightarrow> message_done example_source example_wire evs" by blast
  then show ?thesis by (simp add: example_nats_world_def) blast
qed

text \<open>C24: what a sink writes beside a record a source reads back: under a subject that names no tenant, the
  arrival resolves to the record's metadata, with the new delivery's count, and no header is invalid.\<close>

theorem nats_meta_round_trip:
  assumes "header_map H" "is_valid_tenant (tenant m)" "is_utf8 (tenant m)"
    and "rv_headers rv = Some (for_meta H m)"
    and "\<And>t. tenant_from_subject (rv_subject rv) pre = Some t \<Longrightarrow> \<not> is_valid_tenant t"
  shows "snd (arrival_read H pre rv) = [] \<and>
    resolve now (fst (arrival_read H pre rv)) = Inr (m\<lparr>delivery_count := rv_delivered rv\<rparr>)"
  using arrival_of_carried [OF header_map.for_meta_carries [OF assms(1-3)] assms(2,4,5)] assms(2)
  by (simp add: resolve_def is_log_def tenant_of_def)

theorem nats_meta_round_trip_witness:
  "resolve 0 (fst (arrival_read line_headers ''logs''
     \<lparr>rv_subject = ''processed.logs'', rv_headers = Some (for_meta line_headers (example_meta 7 9)), rv_published = None,
      rv_delivered = 3, rv_bytes = 2\<rparr>)) = Inr ((example_meta 7 9)\<lparr>delivery_count := 3\<rparr>)"
proof -
  have "is_valid_tenant ''acme''" "is_utf8 ''acme''" "tenant_from_subject ''processed.logs'' ''logs'' = None"
    by code_simp+
  then show ?thesis
    using nats_meta_round_trip [OF lines.header_map_axioms, of "example_meta 7 9"
        "\<lparr>rv_subject = ''processed.logs'', rv_headers = Some (for_meta line_headers (example_meta 7 9)),
          rv_published = None, rv_delivered = 3, rv_bytes = 2\<rparr>" "''logs''" 0]
    by (simp add: example_meta_def)
qed

text \<open>C23: a dead letter can be replayed: read back, it has the record id, kind, tenant and ingestion time of
  the message, and each header of the producer's that is not the pipeline's or the server's own is
  kept.\<close>

theorem dead_letter_replays:
  assumes "header_map H" "letter_one_line l" "arr_kind (dl_arrival l) \<noteq> arrival_kind.Unreadable"
    and "rv_headers rv = Some (for_dead_letter H l)"
    and "\<And>t. tenant_from_subject (rv_subject rv) pre = Some t \<Longrightarrow> \<not> is_valid_tenant t"
  shows "(case arrival_read H pre rv of (a, invalid) \<Rightarrow>
      invalid = [] \<and> arr_record_id a = arr_record_id (dl_arrival l) \<and> arr_kind a = arr_kind (dl_arrival l) \<and>
      tenant_of a = tenant_of (dl_arrival l) \<and> (\<forall>time. arr_time (dl_arrival l) = Some time \<longrightarrow> arr_time a = Some time)) \<and>
    (\<forall>name. \<not> reserved_header name \<longrightarrow> hm_get_all H name (for_dead_letter H l) =
       (case dl_headers l of Some h \<Rightarrow> hm_get_all H name h | None \<Rightarrow> []))"
proof -
  have kept: "hm_get_all H name (for_dead_letter H l) =
      (case dl_headers l of Some h \<Rightarrow> hm_get_all H name h | None \<Rightarrow> [])" if "\<not> reserved_header name" for name
    using that reserved_names
    by (auto simp: header_map.get_dead_letter [OF assms(1,2)] Let_def)
  from arrival_of_carried [OF header_map.dead_letter_carries [OF assms(1,2)] tenant_of_valid assms(4,5)] assms(3) kept
  show ?thesis by (auto simp: tenant_of_def split: arrival_kind.splits option.splits)
qed

theorem dead_letter_replays_witness:
  "\<exists>a. arrival_read line_headers ''logs''
     \<lparr>rv_subject = ''dlq.acme'', rv_headers = Some (for_dead_letter line_headers example_letter), rv_published = None,
      rv_delivered = 1, rv_bytes = 2\<rparr> = (a, []) \<and> arr_record_id a = Some 7"
proof -
  have facts: "letter_one_line example_letter" "arr_kind (dl_arrival example_letter) = Unnamed"
    "arr_record_id (dl_arrival example_letter) = Some 7" "tenant_from_subject ''dlq.acme'' ''logs'' = None"
    using example_letter_one_line by (simp_all add: example_letter_def arrival_default_def tenant_from_subject_def)
  show ?thesis
    using dead_letter_replays [OF lines.header_map_axioms facts(1), of
        "\<lparr>rv_subject = ''dlq.acme'', rv_headers = Some (for_dead_letter line_headers example_letter),
          rv_published = None, rv_delivered = 1, rv_bytes = 2\<rparr>" "''logs''"] facts(2-4)
    by (simp add: split_def prod_eq_iff)
qed

text \<open>NATS subjects match as documented: a \<open>*\<close> stands for one token, a \<open>>\<close> at the end for one or more.\<close>

lemma captures_documented:
  "captures_subject pattern subject \<longleftrightarrow> subject_match (split_on DOT pattern) (split_on DOT subject)"
  by (simp add: captures_subject_def captures_loop_iff)

text \<open>C25: the load check of the dead-letter stream is exact: asking about the token \<open>*\<close> answers for every
  tenant, and no two tenants share a dead-letter subject.\<close>

theorem dead_letters_covered:
  "(covers_every_tenant pattern pre \<longleftrightarrow> (\<forall>t. captures_subject pattern (dead_letter pre t))) \<and>
   inj (dead_letter pre)"
  using covers_every_tenant_iff tenant_token_inject by (auto simp: inj_def dead_letter_token)

text \<open>C26: a source that loads has a delivery limit, so every message has a final delivery, and a stream that
  takes the dead letters of every tenant.\<close>

theorem nats_source_loads:
  assumes "source_build sv env ops H ct p = Inr src"
  shows "\<exists>i name subjects. sv_consumer_info sv (sp_stream p) (sp_consumer p) = Found i \<and>
    ci_ack_policy i = ''explicit'' \<and> 0 < ci_max_deliver i \<and> dz_limit (ns_dead src) = of_int (ci_max_deliver i) \<and>
    sv_stream sv name = Found subjects \<and> (\<forall>t. stream_captures subjects (dead_letter (dz_prefix (ns_dead src)) t))"
proof -
  obtain limit where "check_source sv (resolve_url (sp_url p) env) p = Inr limit"
    and src: "dz_limit (ns_dead src) = limit" "dz_prefix (ns_dead src) = sp_dlq_prefix p"
    using assms by (auto simp: source_build_def)
  from check_source_Inr [OF this(1)] src stream_covers_captures show ?thesis by metis
qed

theorem nats_source_loads_witness:
  "\<exists>src. source_build example_server None example_ops line_headers example_codecs example_source_params = Inr src \<and>
     0 < (5 :: int) \<and> (\<exists>subjects. stream_captures subjects (dead_letter (dz_prefix (ns_dead src)) ''acme''))"
proof -
  have "sp_url example_source_params = None" by (simp add: example_source_params_def)
  then obtain src where "source_build example_server None example_ops line_headers example_codecs example_source_params = Inr src"
    using example_source_checks by (simp add: source_build_def resolve_url_def)
  with nats_source_loads [OF this] show ?thesis by auto
qed

section \<open>The lua stage\<close>








text \<open>C39: the load scan reads a script as its tokens: the free names are the names outside strings and
  comments that neither a dot nor a colon comes before and that are not assigned, each with its line.\<close>

theorem scan_finds_names:
  assumes "tokens_ok ts"
  shows "free_names (source_text ts) = token_names False 1 ts"
  using scan_tokens [OF assms, of None 1] by (simp add: free_names_def)

theorem scan_finds_names_witness:
  "free_names (''a = b.os-- os'' @ [NEWLINE] @ ''os'') = [(''b'', 1), (''os'', 2)]"
  using scan_finds_names [OF example_tokens_ok(1)] unfolding example_tokens_ok(2) example_token_names .

section \<open>Telemetry\<close>



section \<open>The load-test harness\<close>





text \<open>C36: with its polls a second apart the verifier ends by its timeouts, whatever it finds, and a verdict
  it gives is on a run that ended: after the producer's marker the consumer was idle on three polls on
  end, then both streams were read to where they ended, and the verdict judges every line of the
  expectations file, as long as the file only grew, and every message that came in.\<close>

theorem verifier_judges_finished_runs:
  assumes "spaced start ps"
    and "turns (vo_producer_timeout o') + turns (vo_settle_timeout o') + turns READ_TIMEOUT + 3 \<le> length ps"
  shows "\<exists>result. observe et o' start file ps = Some result \<and> (\<forall>report. result = Inr report \<longrightarrow> judged_run et ps file report)"
  using observe_ends [OF assms] observe_judges by blast

theorem verifier_judges_finished_runs_witness:
  "\<exists>report. observe quiet_texts quiet_options 0 (Inr None) quiet_polls = Some (Inr report) \<and>
     judged_run quiet_texts quiet_polls (Inr None) report"
proof -
  from quiet_run obtain report where r: "observe quiet_texts quiet_options 0 (Inr None) quiet_polls = Some (Inr report)" by blast
  with verifier_judges_finished_runs [OF quiet_spaced quiet_enough, of quiet_texts "Inr None"] show ?thesis by auto
qed

end
